(* ===== verification/Prelude.thy ===== *)
theory Prelude
  imports Main "HOL-Library.Word" "HOL-Library.Char_ord" "HOL-Library.Sublist"
begin

section \<open>Shared definitions and lemmas\<close>

text \<open>
  What every component of the development uses: C strings, character classes, buffers
  that are written by index, and the collections of rules the component proofs share.

  A C string held by the program is modelled by the list of its characters before the
  terminating NUL; reading one past the last character yields NUL, as in C.
\<close>

named_theorems parser_rules "closure rules of the parser combinators"
named_theorems buffer_simps "rewriting of buffer and cursor updates"

abbreviation NUL :: char where
  "NUL \<equiv> CHR 0x00"

text \<open>\<open>str[i]\<close> of a NUL-terminated string, for an index up to its length.\<close>

definition c_at :: "string \<Rightarrow> nat \<Rightarrow> char" where
  "c_at s i = (if i < length s then s ! i else NUL)"

text \<open>The first character of the string a pointer points to.\<close>

definition c_hd :: "string \<Rightarrow> char" where
  "c_hd s = (case s of [] \<Rightarrow> NUL | c # _ \<Rightarrow> c)"

lemma c_hd_simps [simp]: "c_hd [] = NUL" "c_hd (c # s) = c"
  by (simp_all add: c_hd_def)

lemma c_at_0 [simp]: "c_at s 0 = c_hd s"
  by (cases s) (simp_all add: c_at_def)

lemma c_at_Cons_Suc [simp]: "c_at (c # s) (Suc i) = c_at s i"
  by (simp add: c_at_def)

lemma c_at_Nil [simp]: "c_at [] i = NUL"
  by (simp add: c_at_def)

text \<open>A text with no NUL inside it: what a C string can hold.\<close>

definition no_nul :: "string \<Rightarrow> bool" where
  "no_nul s = (NUL \<notin> set s)"

lemma no_nul_simps [simp]:
  "no_nul []"
  "no_nul (c # s) \<longleftrightarrow> c \<noteq> NUL \<and> no_nul s"
  "no_nul (s @ t) \<longleftrightarrow> no_nul s \<and> no_nul t"
  by (auto simp: no_nul_def)

lemma no_nul_drop: "no_nul s \<Longrightarrow> no_nul (drop n s)"
  unfolding no_nul_def by (meson in_set_dropD)

lemma no_nul_take: "no_nul s \<Longrightarrow> no_nul (take n s)"
  unfolding no_nul_def by (meson in_set_takeD)

lemma no_nul_suffix: "suffix t s \<Longrightarrow> no_nul s \<Longrightarrow> no_nul t"
  by (auto simp: suffix_def)

text \<open>The string a buffer holds: its bytes up to the first NUL.\<close>

definition c_str :: "string \<Rightarrow> string" where
  "c_str buf = takeWhile (\<lambda>c. c \<noteq> NUL) buf"

lemma c_str_append_nul: "no_nul s \<Longrightarrow> c_str (s @ NUL # t) = s"
  by (induction s) (auto simp: c_str_def)

lemma c_str_no_nul: "no_nul s \<Longrightarrow> c_str s = s"
  by (induction s) (auto simp: c_str_def)

lemma no_nul_c_str: "no_nul (c_str s)"
  by (auto simp: no_nul_def c_str_def dest: set_takeWhileD)

lemma length_c_str_less: "NUL \<in> set buf \<Longrightarrow> length (c_str buf) < length buf"
  by (induction buf) (auto simp: c_str_def)

subsection \<open>Character classes\<close>

definition is_digit :: "char \<Rightarrow> bool" where
  "is_digit c = (CHR ''0'' \<le> c \<and> c \<le> CHR ''9'')"

definition is_lower :: "char \<Rightarrow> bool" where
  "is_lower c = (CHR ''a'' \<le> c \<and> c \<le> CHR ''z'')"

definition is_upper :: "char \<Rightarrow> bool" where
  "is_upper c = (CHR ''A'' \<le> c \<and> c \<le> CHR ''Z'')"

definition is_alpha :: "char \<Rightarrow> bool" where
  "is_alpha c = (is_lower c \<or> is_upper c)"

definition digit_val :: "char \<Rightarrow> int" where
  "digit_val c = int (of_char c) - 48"

lemma is_digit_of_char: "is_digit c \<longleftrightarrow> 48 \<le> (of_char c :: nat) \<and> (of_char c :: nat) \<le> 57"
  by (simp add: is_digit_def less_eq_char_def)

lemma digit_val_bounds: "is_digit c \<Longrightarrow> 0 \<le> digit_val c \<and> digit_val c \<le> 9"
  by (simp add: is_digit_of_char digit_val_def)

lemma not_digit_NUL [simp]: "\<not> is_digit NUL"
  by (simp add: is_digit_of_char)

lemma not_lower_NUL [simp]: "\<not> is_lower NUL"
  by (simp add: is_lower_def less_eq_char_def)

lemma not_alpha_NUL [simp]: "\<not> is_alpha NUL"
  by (simp add: is_alpha_def is_lower_def is_upper_def less_eq_char_def)

text \<open>The value of a string of decimal digits.\<close>

definition dec_val :: "int \<Rightarrow> string \<Rightarrow> int" where
  "dec_val acc ds = foldl (\<lambda>a c. a * 10 + digit_val c) acc ds"

lemma dec_val_simps [simp]:
  "dec_val acc [] = acc"
  "dec_val acc (c # ds) = dec_val (acc * 10 + digit_val c) ds"
  by (simp_all add: dec_val_def)

lemma dec_val_ge: "0 \<le> acc \<Longrightarrow> list_all is_digit ds \<Longrightarrow> acc \<le> dec_val acc ds"
proof (induction ds arbitrary: acc)
  case (Cons c ds)
  then have "0 \<le> digit_val c" by (simp add: digit_val_bounds)
  with Cons.prems have "acc \<le> acc * 10 + digit_val c" by simp
  also have "\<dots> \<le> dec_val (acc * 10 + digit_val c) ds"
    using Cons \<open>0 \<le> digit_val c\<close> by simp
  finally show ?case by simp
qed simp

text \<open>The decimal representation of a natural number.\<close>

definition digit_char :: "nat \<Rightarrow> char" where
  "digit_char d = char_of (48 + d)"

fun dec_str :: "nat \<Rightarrow> string" where
  "dec_str n = (if n < 10 then [digit_char n] else dec_str (n div 10) @ [digit_char (n mod 10)])"

declare dec_str.simps [simp del]

lemma digit_char: "d < 10 \<Longrightarrow> is_digit (digit_char d) \<and> digit_val (digit_char d) = int d"
  by (simp add: is_digit_of_char digit_char_def digit_val_def of_char_of)

lemma dec_val_snoc: "dec_val a (ds @ [c]) = dec_val a ds * 10 + digit_val c"
  by (simp add: dec_val_def)

lemma dec_str: "list_all is_digit (dec_str n) \<and> dec_str n \<noteq> [] \<and> dec_val 0 (dec_str n) = int n"
proof (induction n rule: dec_str.induct)
  case (1 n)
  show ?case
  proof (cases "n < 10")
    case True
    then show ?thesis using digit_char[of n] by (simp add: dec_str.simps[of n])
  next
    case False
    have "int (n div 10) * 10 + int (n mod 10) = int n"
      by (metis div_mult_mod_eq of_nat_add of_nat_mult of_nat_numeral)
    then show ?thesis
      using False 1 digit_char[of "n mod 10"] by (simp add: dec_str.simps[of n] dec_val_snoc)
  qed
qed

lemmas dec_str_digits = dec_str[THEN conjunct1]
lemmas dec_str_nonempty = dec_str[THEN conjunct2, THEN conjunct1]
lemmas dec_val_dec_str = dec_str[THEN conjunct2, THEN conjunct2]

subsection \<open>Lists\<close>

definition join :: "string \<Rightarrow> string list \<Rightarrow> string" where
  "join sep xs = (case xs of [] \<Rightarrow> [] | y # ys \<Rightarrow> y @ concat (map (\<lambda>x. sep @ x) ys))"

lemma join_snoc: "xs \<noteq> [] \<Longrightarrow> join sep (xs @ [x]) = join sep xs @ sep @ x"
  by (cases xs) (auto simp: join_def)

lemma suffix_length: "suffix xs ys \<Longrightarrow> length xs \<le> length ys"
  by (rule suffix_length_le)

lemma last_list_update_other:
  "Suc i < length xs \<Longrightarrow> last (xs[i := x]) = last xs"
  by (cases xs rule: rev_cases) (auto simp: list_update_append last_append)

lemma list_all_takeWhile: "list_all P (takeWhile P xs)"
  by (induction xs) auto

text \<open>The text after the last slash; the whole text when there is none.\<close>

definition after_last_slash :: "string \<Rightarrow> string" where
  "after_last_slash fname = rev (takeWhile (\<lambda>c. c \<noteq> CHR ''/'') (rev fname))"

lemma after_last_slash_append:
  "CHR ''/'' \<notin> set base \<Longrightarrow> after_last_slash (dir @ CHR ''/'' # base) = base"
  by (simp add: after_last_slash_def takeWhile_append)

lemma after_last_slash_none: "CHR ''/'' \<notin> set s \<Longrightarrow> after_last_slash s = s"
proof -
  assume "CHR ''/'' \<notin> set s"
  then have "takeWhile (\<lambda>c. c \<noteq> CHR ''/'') (rev s) = rev s"
    by (intro takeWhile_eq_all_conv[THEN iffD2]) auto
  then show ?thesis unfolding after_last_slash_def by (metis rev_rev_ident)
qed

lemma after_last_slash_no_slash: "CHR ''/'' \<notin> set (after_last_slash s)"
  by (auto simp: after_last_slash_def dest: set_takeWhileD)

text \<open>A signed decimal number, and text padded on the left to a width.\<close>

definition int_str :: "int \<Rightarrow> string" where
  "int_str x = (if x < 0 then CHR ''-'' # dec_str (nat (- x)) else dec_str (nat x))"

definition pad_left :: "nat \<Rightarrow> char \<Rightarrow> string \<Rightarrow> string" where
  "pad_left w c s = replicate (w - length s) c @ s"

end
