(* ===== verification/Demangle_State.thy ===== *)
theory Demangle_State
  imports Prelude
begin

section \<open>The demangler: tables, state and output buffer\<close>

text \<open>
  The first half of \<^verbatim>\<open>src/demangle.cc\<close>: the abbreviation tables, \<open>struct State\<close>,
  the C string helpers and the routines that append to the output buffer.

  A pointer into the mangled name is the rest of the name. A pointer into the output
  buffer is its offset from \<open>out_begin\<close>; \<open>out_end\<close> is the offset \<open>out_size\<close>. The buffer
  itself, \<open>out_buf\<close>, is memory and not part of \<open>struct State\<close>: \<open>restore\<close> models
  \<^verbatim>\<open>*state = copy\<close>, which puts back every field of the struct and leaves the memory as it
  is. \<open>oob_read\<close> and \<open>oob_write\<close> record an access outside the buffer.
\<close>

subsection \<open>Abbreviation tables\<close>

record AbbrevPair =
  abbrev :: string
  real_name :: string

definition abbrevs_of :: "(string \<times> string) list \<Rightarrow> AbbrevPair list" where
  "abbrevs_of = List.map (\<lambda>(a, r). \<lparr>abbrev = a, real_name = r\<rparr>)"

definition kOperatorList :: "AbbrevPair list" where
  "kOperatorList = abbrevs_of
    [(''nw'', ''new''), (''na'', ''new[]''), (''dl'', ''delete''), (''da'', ''delete[]''),
     (''ps'', ''+''), (''ng'', ''-''), (''ad'', ''&''), (''de'', ''*''),
     (''co'', ''~''), (''pl'', ''+''), (''mi'', ''-''), (''ml'', ''*''),
     (''dv'', ''/''), (''rm'', ''%''), (''an'', ''&''), (''or'', ''|''),
     (''eo'', ''^''), (''aS'', ''=''), (''pL'', ''+=''), (''mI'', ''-=''),
     (''mL'', ''*=''), (''dV'', ''/=''), (''rM'', ''%=''), (''aN'', ''&=''),
     (''oR'', ''|=''), (''eO'', ''^=''), (''ls'', ''<<''), (''rs'', ''>>''),
     (''lS'', ''<<=''), (''rS'', ''>>=''), (''eq'', ''==''), (''ne'', ''!=''),
     (''lt'', ''<''), (''gt'', ''>''), (''le'', ''<=''), (''ge'', ''>=''),
     (''nt'', ''!''), (''aa'', ''&&''), (''oo'', ''||''), (''pp'', ''++''),
     (''mm'', ''--''), (''cm'', '',''), (''pm'', ''->*''), (''pt'', ''->''),
     (''cl'', ''()''), (''ix'', ''[]''), (''qu'', ''?''), (''st'', ''sizeof''),
     (''sz'', ''sizeof'')]"

definition kBuiltinTypeList :: "AbbrevPair list" where
  "kBuiltinTypeList = abbrevs_of
    [(''v'', ''void''), (''w'', ''wchar_t''),
     (''b'', ''bool''), (''c'', ''char''),
     (''a'', ''signed char''), (''h'', ''unsigned char''),
     (''s'', ''short''), (''t'', ''unsigned short''),
     (''i'', ''int''), (''j'', ''unsigned int''),
     (''l'', ''long''), (''m'', ''unsigned long''),
     (''x'', ''long long''), (''y'', ''unsigned long long''),
     (''n'', ''__int128''), (''o'', ''unsigned __int128''),
     (''f'', ''float''), (''d'', ''double''),
     (''e'', ''long double''), (''g'', ''__float128''),
     (''z'', ''ellipsis'')]"

definition kSubstitutionList :: "AbbrevPair list" where
  "kSubstitutionList = abbrevs_of
    [(''St'', ''''),
     (''Sa'', ''allocator''),
     (''Sb'', ''basic_string''),
     (''Ss'', ''string''),
     (''Si'', ''istream''),
     (''So'', ''ostream''),
     (''Sd'', ''iostream'')]"

subsection \<open>The state\<close>

text \<open>
  \<open>nest_level\<close> is a \<open>short\<close> and the three recursion levels are \<open>uint32\<close>: \<open>to_short\<close> and
  the arithmetic modulo \<open>2 ^ 32\<close> below keep their width. \<open>out_null\<close> says that the caller
  passed a null buffer.
\<close>

record State =
  mangled_cur :: string
  out_cur :: nat
  out_end :: nat
  out_null :: bool
  prev_name :: "nat option"
  prev_name_length :: int
  nest_level :: int
  append :: bool
  overflowed :: bool
  local_level :: int
  expr_level :: int
  arg_level :: int
  out_buf :: string
  oob_read :: bool
  oob_write :: bool

definition to_short :: "int \<Rightarrow> int" where
  "to_short x = (x + 32768) mod 65536 - 32768"

definition inc_u32 :: "int \<Rightarrow> int" where
  "inc_u32 x = (x + 1) mod 4294967296"

definition dec_u32 :: "int \<Rightarrow> int" where
  "dec_u32 x = (x - 1) mod 4294967296"

text \<open>\<^verbatim>\<open>*state = copy\<close>.\<close>

definition restore :: "State \<Rightarrow> State \<Rightarrow> State" where
  "restore copy st = copy\<lparr>out_buf := out_buf st, oob_read := oob_read st,
     oob_write := oob_write st\<rparr>"

definition InitState :: "string \<Rightarrow> string option \<Rightarrow> State" where
  "InitState mangled out =
    \<lparr>mangled_cur = mangled, out_cur = 0,
     out_end = (case out of None \<Rightarrow> 0 | Some b \<Rightarrow> length b),
     out_null = (out = None), prev_name = None, prev_name_length = -1,
     nest_level = -1, append = True, overflowed = False,
     local_level = 0, expr_level = 0, arg_level = 0,
     out_buf = (case out of None \<Rightarrow> [] | Some b \<Rightarrow> b),
     oob_read = False, oob_write = False\<rparr>"

subsection \<open>C string helpers\<close>

fun StrLen :: "string \<Rightarrow> nat" where
  "StrLen [] = 0"
| "StrLen (_ # s) = Suc (StrLen s)"

lemma StrLen_length [simp]: "StrLen s = length s"
  by (induction s) auto

text \<open>The loop runs while \<open>i < n\<close>, so not at all for a negative \<open>n\<close>.\<close>

fun AtLeastNumCharsRemaining :: "string \<Rightarrow> int \<Rightarrow> bool" where
  "AtLeastNumCharsRemaining [] n = (\<not> 0 < n)"
| "AtLeastNumCharsRemaining (c # str) n =
     (\<not> 0 < n \<or> c \<noteq> NUL \<and> AtLeastNumCharsRemaining str (n - 1))"

lemma AtLeastNumCharsRemaining_length:
  "AtLeastNumCharsRemaining str n \<Longrightarrow> n \<le> int (length str)"
  by (induction str n rule: AtLeastNumCharsRemaining.induct) auto

lemma AtLeastNumCharsRemaining_iff:
  "no_nul str \<Longrightarrow> AtLeastNumCharsRemaining str n \<longleftrightarrow> n \<le> int (length str)"
  by (induction str n rule: AtLeastNumCharsRemaining.induct) auto

fun StrPrefix :: "string \<Rightarrow> string \<Rightarrow> bool" where
  "StrPrefix str [] = True"
| "StrPrefix [] (p # ps) = False"
| "StrPrefix (c # cs) (p # ps) = (c = p \<and> StrPrefix cs ps)"

lemma StrPrefix_prefix: "StrPrefix str p \<longleftrightarrow> prefix p str"
  by (induction str p rule: StrPrefix.induct) auto

definition IsLower :: "char \<Rightarrow> bool" where
  "IsLower c = (c \<ge> CHR ''a'' \<and> c \<le> CHR ''z'')"

definition IsAlpha :: "char \<Rightarrow> bool" where
  "IsAlpha c = ((c \<ge> CHR ''a'' \<and> c \<le> CHR ''z'') \<or> (c \<ge> CHR ''A'' \<and> c \<le> CHR ''Z''))"

definition IsDigit :: "char \<Rightarrow> bool" where
  "IsDigit c = (c \<ge> CHR ''0'' \<and> c \<le> CHR ''9'')"

lemma IsX_is_x [simp]: "IsLower = is_lower" "IsAlpha = is_alpha" "IsDigit = is_digit"
  by (auto simp: fun_eq_iff IsLower_def IsAlpha_def IsDigit_def is_lower_def is_alpha_def
      is_digit_def is_upper_def)

text \<open>
  The outer loop of \<open>IsFunctionCloneSuffix\<close>: each round consumes one
  \<^verbatim>\<open>.<alpha>+.<digit>+\<close>. The inner loops are \<open>dropWhile\<close>.
\<close>

function IsFunctionCloneSuffix :: "string \<Rightarrow> bool" where
  "IsFunctionCloneSuffix str =
     (if str = [] then True
      else if c_at str 0 \<noteq> CHR ''.'' \<or> \<not> IsAlpha (c_at str 1) then False
      else let s1 = dropWhile IsAlpha (drop 2 str) in
        if c_at s1 0 \<noteq> CHR ''.'' \<or> \<not> IsDigit (c_at s1 1) then False
        else IsFunctionCloneSuffix (dropWhile IsDigit (drop 2 s1)))"
  by pat_completeness auto
termination
proof (relation "measure length", goal_cases)
  case (2 str s1)
  have "length (dropWhile IsDigit (drop 2 s1)) \<le> length (drop 2 s1)"
    by (rule length_dropWhile_le)
  also have "\<dots> \<le> length s1" by simp
  also have "\<dots> \<le> length (drop 2 str)"
    unfolding 2 by (rule length_dropWhile_le)
  also have "\<dots> < length str" using 2 by (cases str) auto
  finally show ?case by simp
qed simp

declare IsFunctionCloneSuffix.simps [simp del]

subsection \<open>Appending to the output buffer\<close>

text \<open>
  Where the characters to append come from: a C string outside the buffer (a literal or
  the mangled name), or the buffer itself (\<open>prev_name\<close>). \<open>src_at\<close> reads one character;
  \<open>None\<close> is a read outside the object or through a null pointer.
\<close>

datatype src = Text string | OutPtr nat | NullPtr

fun src_at :: "State \<Rightarrow> src \<Rightarrow> nat \<Rightarrow> char option" where
  "src_at st (Text s) i = (if i \<le> length s then Some (c_at s i) else None)"
| "src_at st (OutPtr p) i =
     (if p + i < length (out_buf st) then Some (out_buf st ! (p + i)) else None)"
| "src_at st NullPtr i = None"

definition name_ptr :: "nat option \<Rightarrow> src" where
  "name_ptr p = (case p of None \<Rightarrow> NullPtr | Some i \<Rightarrow> OutPtr i)"

text \<open>\<^verbatim>\<open>*state->out_cur = c\<close>; a store outside the buffer is recorded and has no effect here.\<close>

definition put :: "char \<Rightarrow> State \<Rightarrow> State" where
  "put c st = (if out_cur st < length (out_buf st)
     then st\<lparr>out_buf := (out_buf st)[out_cur st := c]\<rparr>
     else st\<lparr>oob_write := True\<rparr>)"

text \<open>
  The copying loop of \<open>Append\<close>, \<open>n\<close> characters to go; an undefined read stops it with the
  flag set.
\<close>

fun append_loop :: "nat \<Rightarrow> nat \<Rightarrow> src \<Rightarrow> State \<Rightarrow> State" where
  "append_loop 0 i str st = st"
| "append_loop (Suc n) i str st =
     (if out_cur st + 1 < out_end st then
        (case src_at st str i of
           None \<Rightarrow> st\<lparr>oob_read := True\<rparr>
         | Some c \<Rightarrow> append_loop n (Suc i) str ((put c st)\<lparr>out_cur := Suc (out_cur st)\<rparr>))
      else st\<lparr>overflowed := True\<rparr>)"

definition Append :: "src \<Rightarrow> int \<Rightarrow> State \<Rightarrow> State" where
  "Append str len st =
     (if out_null st then st\<lparr>overflowed := True\<rparr>
      else let st' = append_loop (nat len) 0 str st in
        if \<not> overflowed st' then put NUL st' else st')"

text \<open>The test for \<^verbatim>\<open><<\<close> reads \<open>str[0]\<close> first, and \<open>out_cur[-1]\<close> only behind \<open>out_begin\<close>.\<close>

definition needs_space :: "src \<Rightarrow> State \<Rightarrow> bool" where
  "needs_space str st = (src_at st str 0 = Some CHR ''<'' \<and> 0 < out_cur st \<and>
     src_at st (OutPtr (out_cur st - 1)) 0 = Some CHR ''<'')"

definition MaybeAppendWithLength :: "src \<Rightarrow> int \<Rightarrow> State \<Rightarrow> State" where
  "MaybeAppendWithLength str len st =
     (if append st \<and> 0 < len then
        (case src_at st str 0 of
           None \<Rightarrow> st\<lparr>oob_read := True\<rparr>
         | Some c0 \<Rightarrow>
            let st1 = (if needs_space str st then Append (Text '' '') 1 st else st);
                c1 = (case src_at st1 str 0 of None \<Rightarrow> NUL | Some c \<Rightarrow> c);
                st2 = (if IsAlpha c1 \<or> c1 = CHR ''_''
                       then st1\<lparr>prev_name := Some (out_cur st1), prev_name_length := len\<rparr>
                       else st1)
            in Append str len st2)
      else st)"

definition MaybeAppend :: "string \<Rightarrow> State \<Rightarrow> State" where
  "MaybeAppend str st =
     (if append st then MaybeAppendWithLength (Text str) (int (StrLen str)) st else st)"

subsection \<open>Nesting, append mode and separators\<close>

definition EnterNestedName :: "State \<Rightarrow> State" where
  "EnterNestedName st = st\<lparr>nest_level := 0\<rparr>"

definition LeaveNestedName :: "int \<Rightarrow> State \<Rightarrow> State" where
  "LeaveNestedName prev_value st = st\<lparr>nest_level := prev_value\<rparr>"

definition DisableAppend :: "State \<Rightarrow> State" where
  "DisableAppend st = st\<lparr>append := False\<rparr>"

definition RestoreAppend :: "bool \<Rightarrow> State \<Rightarrow> State" where
  "RestoreAppend prev_value st = st\<lparr>append := prev_value\<rparr>"

definition MaybeIncreaseNestLevel :: "State \<Rightarrow> State" where
  "MaybeIncreaseNestLevel st =
     (if nest_level st > -1 then st\<lparr>nest_level := to_short (nest_level st + 1)\<rparr> else st)"

definition MaybeAppendSeparator :: "State \<Rightarrow> State" where
  "MaybeAppendSeparator st = (if nest_level st \<ge> 1 then MaybeAppend ''::'' st else st)"

text \<open>
  With a null buffer \<open>out_cur - 2\<close> is not a pointer the program may form or write
  through, and the model records the store.
\<close>

definition MaybeCancelLastSeparator :: "State \<Rightarrow> State" where
  "MaybeCancelLastSeparator st =
     (if nest_level st \<ge> 1 \<and> append st then
        (if out_null st then st\<lparr>oob_write := True\<rparr>
         else if 2 \<le> out_cur st then put NUL (st\<lparr>out_cur := out_cur st - 2\<rparr>)
         else st)
      else st)"

text \<open>\<open>sizeof(anon_prefix) - 1\<close> is 11.\<close>

definition anon_prefix :: string where
  "anon_prefix = ''_GLOBAL__N_''"

definition IdentifierIsAnonymousNamespace :: "State \<Rightarrow> int \<Rightarrow> bool" where
  "IdentifierIsAnonymousNamespace st len =
     (len > int (length anon_prefix) \<and> StrPrefix (mangled_cur st) anon_prefix)"

subsection \<open>What appending leaves alone\<close>

text \<open>The fields of the state that the output routines do not touch.\<close>

definition frame :: "State \<Rightarrow> string \<times> nat \<times> bool \<times> int \<times> bool \<times> int \<times> int \<times> int" where
  "frame st = (mangled_cur st, out_end st, out_null st, nest_level st, append st,
     local_level st, expr_level st, arg_level st)"

lemma frame_put: "frame (put c st) = frame st"
  by (simp add: frame_def put_def)

lemma frame_append_loop: "frame (append_loop n i s st) = frame st"
proof (induction n i s st rule: append_loop.induct)
  case (2 n i str st)
  then show ?case
    by (auto simp: frame_def put_def split: option.splits)
qed simp

lemma frame_Append: "frame (Append s len st) = frame st"
  using frame_append_loop[of "nat len" 0 s st]
  by (simp add: Append_def Let_def frame_put) (simp add: frame_def)

lemma frame_output: "frame (MaybeAppendWithLength s len st) = frame st"
proof -
  have "frame (if b then st\<lparr>prev_name := p, prev_name_length := l\<rparr> else st) = frame st"
    for b p l st by (simp add: frame_def)
  then show ?thesis
    by (auto simp: MaybeAppendWithLength_def Let_def frame_Append split: option.splits)
      (auto simp: frame_def)
qed

lemma output_frame [simp]:
  "mangled_cur (MaybeAppendWithLength s len st) = mangled_cur st"
  "out_end (MaybeAppendWithLength s len st) = out_end st"
  "out_null (MaybeAppendWithLength s len st) = out_null st"
  "nest_level (MaybeAppendWithLength s len st) = nest_level st"
  "append (MaybeAppendWithLength s len st) = append st"
  "local_level (MaybeAppendWithLength s len st) = local_level st"
  "expr_level (MaybeAppendWithLength s len st) = expr_level st"
  "arg_level (MaybeAppendWithLength s len st) = arg_level st"
  using frame_output[of s len st] by (auto simp: frame_def)

lemma MaybeAppend_frame [simp]:
  "mangled_cur (MaybeAppend s st) = mangled_cur st"
  "out_end (MaybeAppend s st) = out_end st"
  "out_null (MaybeAppend s st) = out_null st"
  "nest_level (MaybeAppend s st) = nest_level st"
  "append (MaybeAppend s st) = append st"
  "local_level (MaybeAppend s st) = local_level st"
  "expr_level (MaybeAppend s st) = expr_level st"
  "arg_level (MaybeAppend s st) = arg_level st"
  by (simp_all add: MaybeAppend_def)

lemma MaybeCancelLastSeparator_frame [simp]:
  "mangled_cur (MaybeCancelLastSeparator st) = mangled_cur st"
  "nest_level (MaybeCancelLastSeparator st) = nest_level st"
  "append (MaybeCancelLastSeparator st) = append st"
  "local_level (MaybeCancelLastSeparator st) = local_level st"
  "expr_level (MaybeCancelLastSeparator st) = expr_level st"
  "arg_level (MaybeCancelLastSeparator st) = arg_level st"
  by (auto simp: MaybeCancelLastSeparator_def put_def)

lemma restore_simps [simp]:
  "mangled_cur (restore copy st) = mangled_cur copy"
  "nest_level (restore copy st) = nest_level copy"
  "append (restore copy st) = append copy"
  "local_level (restore copy st) = local_level copy"
  "expr_level (restore copy st) = expr_level copy"
  "arg_level (restore copy st) = arg_level copy"
  by (simp_all add: restore_def)

end
