(* ===== verification/Demangle_Parse.thy ===== *)
theory Demangle_Parse
  imports Demangle_State
begin

section \<open>The demangler: the parsing functions\<close>

text \<open>
  The second half of \<^verbatim>\<open>src/demangle.cc\<close>. A parsing function takes the state and returns
  its \<open>bool\<close> with the new state, or \<open>None\<close> when the recursion budget of the model ran out
  (theory \<open>Demangle_Total\<close> shows that it never does).

  The parsing functions that call each other are written with open recursion: the body of
  each takes the family \<open>call\<close> of all of them, indexed by the non-terminal, and \<open>run\<close>
  closes the recursion with a bound on the depth of nested calls.
\<close>

type_synonym parser = "State \<Rightarrow> (bool \<times> State) option"

subsection \<open>C++ control flow\<close>

text \<open>A call that cannot fail, and a test of the state.\<close>

definition act :: "(State \<Rightarrow> State) \<Rightarrow> parser" where
  "act f = (\<lambda>st. Some (True, f st))"

text \<open>\<^verbatim>\<open>p1(state) && p2(state) && ...\<close>: stops at the first false, keeping the state it left.\<close>

fun all_of :: "parser list \<Rightarrow> parser" where
  "all_of [] st = Some (True, st)"
| "all_of (p # ps) st =
     (case p st of None \<Rightarrow> None
      | Some (b, st') \<Rightarrow> if b then all_of ps st' else Some (False, st'))"

text \<open>\<^verbatim>\<open>p1(state) || p2(state) || ...\<close>\<close>

fun any_of :: "parser list \<Rightarrow> parser" where
  "any_of [] st = Some (False, st)"
| "any_of (p # ps) st =
     (case p st of None \<Rightarrow> None
      | Some (b, st') \<Rightarrow> if b then Some (True, st') else any_of ps st')"

text \<open>
  \<^verbatim>\<open>if (p1(state)) return true; *state = copy; if (p2(state)) return true; *state = copy; ...\<close>
  with \<^verbatim>\<open>return false\<close> at the end.
\<close>

fun tries :: "State \<Rightarrow> parser list \<Rightarrow> parser" where
  "tries copy [] st = Some (False, st)"
| "tries copy (p # ps) st =
     (case p st of None \<Rightarrow> None
      | Some (b, st') \<Rightarrow> if b then Some (True, st') else tries copy ps (restore copy st'))"

text \<open>\<open>Optional(p(state))\<close>: the argument is evaluated and the result ignored.\<close>

definition Optional :: "parser \<Rightarrow> parser" where
  "Optional p = (\<lambda>st. case p st of None \<Rightarrow> None | Some (b, st') \<Rightarrow> Some (True, st'))"

text \<open>
  The loop of \<open>ZeroOrMore\<close> and \<open>OneOrMore\<close>. Each successful round consumes a character of
  the mangled name (theory \<open>Demangle_Total\<close>), so one round more than there are characters
  is enough.
\<close>

fun repeat_parse :: "nat \<Rightarrow> parser \<Rightarrow> parser" where
  "repeat_parse 0 p st = None"
| "repeat_parse (Suc n) p st =
     (case p st of None \<Rightarrow> None
      | Some (b, st') \<Rightarrow> if b then repeat_parse n p st' else Some (True, st'))"

definition ZeroOrMore :: "parser \<Rightarrow> parser" where
  "ZeroOrMore parse_func =
     (\<lambda>st. repeat_parse (Suc (length (mangled_cur st))) parse_func st)"

definition OneOrMore :: "parser \<Rightarrow> parser" where
  "OneOrMore parse_func = all_of [parse_func, ZeroOrMore parse_func]"

subsection \<open>Tokens, numbers and identifiers\<close>

definition ParseOneCharToken :: "char \<Rightarrow> parser" where
  "ParseOneCharToken one_char_token = (\<lambda>st.
     if c_at (mangled_cur st) 0 = one_char_token
     then Some (True, st\<lparr>mangled_cur := drop 1 (mangled_cur st)\<rparr>)
     else Some (False, st))"

definition ParseTwoCharToken :: "string \<Rightarrow> parser" where
  "ParseTwoCharToken two_char_token = (\<lambda>st.
     if c_at (mangled_cur st) 0 = c_at two_char_token 0 \<and>
        c_at (mangled_cur st) 1 = c_at two_char_token 1
     then Some (True, st\<lparr>mangled_cur := drop 2 (mangled_cur st)\<rparr>)
     else Some (False, st))"

fun ParseCharClass :: "string \<Rightarrow> parser" where
  "ParseCharClass [] st = Some (False, st)"
| "ParseCharClass (p # ps) st =
     (if c_at (mangled_cur st) 0 = p
      then Some (True, st\<lparr>mangled_cur := drop 1 (mangled_cur st)\<rparr>)
      else ParseCharClass ps st)"

definition int_max :: int where
  "int_max = 2147483647"

text \<open>
  The digit loop of \<open>ParseNumber\<close>: \<open>None\<close> where the code returns false on overflow,
  otherwise the number and the rest of the text.
\<close>

fun number_loop :: "string \<Rightarrow> int \<Rightarrow> (int \<times> string) option" where
  "number_loop [] number = Some (number, [])"
| "number_loop (c # p) number =
     (if c = NUL then Some (number, c # p)
      else if IsDigit c then
        (if number > int_max div 10 then None
         else if digit_val c > int_max - number * 10 then None
         else number_loop p (number * 10 + digit_val c))
      else Some (number, c # p))"

text \<open>
  \<^verbatim>\<open>ParseNumber(state, &number)\<close>; the third component is \<^verbatim>\<open>*number_out\<close> when it is written.
\<close>

definition ParseNumber_out :: "State \<Rightarrow> bool \<times> State \<times> int option" where
  "ParseNumber_out st =
     (let neg = (c_at (mangled_cur st) 0 = CHR ''n'');
          st1 = (if neg then st\<lparr>mangled_cur := drop 1 (mangled_cur st)\<rparr> else st);
          sign = (if neg then -1 else 1)
      in case number_loop (mangled_cur st1) 0 of
           None \<Rightarrow> (False, st1, None)
         | Some (number, p) \<Rightarrow>
             if p \<noteq> mangled_cur st1
             then (True, st1\<lparr>mangled_cur := p\<rparr>, Some (number * sign))
             else (False, st1, None))"

definition ParseNumber :: parser where
  "ParseNumber = (\<lambda>st. case ParseNumber_out st of (b, st', _) \<Rightarrow> Some (b, st'))"

definition span_parser :: "(char \<Rightarrow> bool) \<Rightarrow> parser" where
  "span_parser P = (\<lambda>st. let p = dropWhile P (mangled_cur st) in
     if p \<noteq> mangled_cur st then Some (True, st\<lparr>mangled_cur := p\<rparr>) else Some (False, st))"

definition ParseFloatNumber :: parser where
  "ParseFloatNumber =
     span_parser (\<lambda>c. c \<noteq> NUL \<and> (IsDigit c \<or> (c \<ge> CHR ''a'' \<and> c \<le> CHR ''f'')))"

definition ParseSeqId :: parser where
  "ParseSeqId =
     span_parser (\<lambda>c. c \<noteq> NUL \<and> (IsDigit c \<or> (c \<ge> CHR ''A'' \<and> c \<le> CHR ''Z'')))"

definition ParseIdentifier :: "int \<Rightarrow> parser" where
  "ParseIdentifier len = (\<lambda>st.
     if len = -1 \<or> \<not> AtLeastNumCharsRemaining (mangled_cur st) len then Some (False, st)
     else let st1 = (if IdentifierIsAnonymousNamespace st len
                     then MaybeAppend ''(anonymous namespace)'' st
                     else MaybeAppendWithLength (Text (mangled_cur st)) len st)
       in if len < 0 \<or> nat len > StrLen (mangled_cur st1) then Some (False, st1)
          else Some (True, st1\<lparr>mangled_cur := drop (nat len) (mangled_cur st1)\<rparr>))"

definition ParseSourceName :: parser where
  "ParseSourceName = (\<lambda>st. tries st
     [\<lambda>st. case ParseNumber_out st of (b, st', number_out) \<Rightarrow>
        if b then ParseIdentifier (case number_out of None \<Rightarrow> -1 | Some k \<Rightarrow> k) st'
        else Some (False, st')] st)"

definition ParseDiscriminator :: parser where
  "ParseDiscriminator = (\<lambda>st. tries st
     [all_of [ParseOneCharToken CHR ''_'', ParseNumber]] st)"

definition ParseLocalSourceName :: parser where
  "ParseLocalSourceName = (\<lambda>st. tries st
     [all_of [ParseOneCharToken CHR ''L'', ParseSourceName, Optional ParseDiscriminator]] st)"

definition ParseAbiTag :: parser where
  "ParseAbiTag = all_of [ParseOneCharToken CHR ''B'', ParseSourceName]"

definition ParseAbiTags :: parser where
  "ParseAbiTags = (\<lambda>st. tries st
     [all_of [act DisableAppend, OneOrMore ParseAbiTag, act (RestoreAppend (append st))]] st)"

definition ParseNVOffset :: parser where
  "ParseNVOffset = ParseNumber"

definition ParseVOffset :: parser where
  "ParseVOffset = (\<lambda>st. tries st
     [all_of [ParseNumber, ParseOneCharToken CHR ''_'', ParseNumber]] st)"

definition ParseCallOffset :: parser where
  "ParseCallOffset = (\<lambda>st. tries st
     [all_of [ParseOneCharToken CHR ''h'', ParseNVOffset, ParseOneCharToken CHR ''_''],
      all_of [ParseOneCharToken CHR ''v'', ParseVOffset, ParseOneCharToken CHR ''_'']] st)"

definition append_prev_name :: "State \<Rightarrow> State" where
  "append_prev_name st =
     MaybeAppendWithLength (name_ptr (prev_name st)) (prev_name_length st) st"

text \<open>The destructor case reads \<open>prev_name\<close> before it appends the tilde.\<close>

definition append_tilde_prev_name :: "State \<Rightarrow> State" where
  "append_tilde_prev_name st =
     MaybeAppendWithLength (name_ptr (prev_name st)) (prev_name_length st) (MaybeAppend ''~'' st)"

definition ParseCtorDtorName :: parser where
  "ParseCtorDtorName = (\<lambda>st. tries st
     [all_of [ParseOneCharToken CHR ''C'', ParseCharClass ''123'', act append_prev_name],
      all_of [ParseOneCharToken CHR ''D'', ParseCharClass ''012'',
            act append_tilde_prev_name]] st)"

definition ParseCVQualifiers :: parser where
  "ParseCVQualifiers = (\<lambda>st.
     let take_one = (\<lambda>c (n :: nat, st).
           if c_at (mangled_cur st) 0 = c
           then (n + 1, st\<lparr>mangled_cur := drop 1 (mangled_cur st)\<rparr>) else (n, st));
         (num_cv_qualifiers, st') =
           take_one CHR ''K'' (take_one CHR ''V'' (take_one CHR ''r'' (0, st)))
     in Some (num_cv_qualifiers > 0, st'))"

fun builtin_loop :: "AbbrevPair list \<Rightarrow> State \<Rightarrow> State option" where
  "builtin_loop [] st = None"
| "builtin_loop (p # ps) st =
     (if c_at (mangled_cur st) 0 = c_at (abbrev p) 0 then
        Some (let st1 = MaybeAppend (real_name p) st
              in st1\<lparr>mangled_cur := drop 1 (mangled_cur st1)\<rparr>)
      else builtin_loop ps st)"

definition ParseBuiltinType :: parser where
  "ParseBuiltinType = (\<lambda>st.
     case builtin_loop kBuiltinTypeList st of
       Some st' \<Rightarrow> Some (True, st')
     | None \<Rightarrow> tries st [all_of [ParseOneCharToken CHR ''u'', ParseSourceName]] st)"

definition ParseTemplateParam :: parser where
  "ParseTemplateParam = (\<lambda>st.
     any_of [all_of [ParseTwoCharToken ''T_'', act (MaybeAppend ''?'')],
           \<lambda>st. tries st [all_of [ParseOneCharToken CHR ''T'', ParseNumber,
              ParseOneCharToken CHR ''_'', act (MaybeAppend ''?'')]] st] st)"

fun subst_loop :: "AbbrevPair list \<Rightarrow> parser" where
  "subst_loop [] st = Some (False, st)"
| "subst_loop (p # ps) st =
     (if c_at (mangled_cur st) 0 = c_at (abbrev p) 1 then
        (let st1 = MaybeAppend ''std'' st;
             st2 = (if c_at (real_name p) 0 \<noteq> NUL
                    then MaybeAppend (real_name p) (MaybeAppend ''::'' st1) else st1)
         in Some (True, st2\<lparr>mangled_cur := drop 1 (mangled_cur st2)\<rparr>))
      else subst_loop ps st)"

definition ParseSubstitution :: parser where
  "ParseSubstitution = (\<lambda>st.
     any_of [all_of [ParseTwoCharToken ''S_'', act (MaybeAppend ''?'')],
           \<lambda>st. tries st
             [all_of [ParseOneCharToken CHR ''S'', ParseSeqId, ParseOneCharToken CHR ''_'',
                    act (MaybeAppend ''?'')],
              all_of [ParseOneCharToken CHR ''S'', subst_loop kSubstitutionList]] st] st)"

definition ParseTemplateTemplateParam :: parser where
  "ParseTemplateTemplateParam = any_of [ParseTemplateParam, ParseSubstitution]"

end
