(* ===== verification/Demangle_Grammar.thy ===== *)
theory Demangle_Grammar
  imports Demangle_Parse
begin

section \<open>The demangler: the mutually recursive non-terminals\<close>

text \<open>
  One body per parsing function that takes part in the recursion, in the order of
  \<^verbatim>\<open>src/demangle.cc\<close>; \<open>call\<close> stands for the parsing functions themselves. The datatype
  \<open>NT\<close> names them.
\<close>

datatype NT =
    MangledName | Encoding | Name | UnscopedName | UnscopedTemplateName | NestedName
  | Prefix | UnqualifiedName | OperatorName | SpecialName | Type | FunctionType
  | BareFunctionType | ClassEnumType | ArrayType | PointerToMemberType | TemplateArgs
  | TemplateArg | Expression | ExprPrimary | LocalName

type_synonym calls = "NT \<Rightarrow> parser"

definition ParseMangledName :: "calls \<Rightarrow> parser" where
  "ParseMangledName call = all_of [ParseTwoCharToken ''_Z'', call Encoding]"

text \<open>
  Where the code ends in a \<^verbatim>\<open>return\<close> of its last alternative without putting the state
  back, the model ends in \<open>any_of\<close> rather than in \<open>tries\<close>.
\<close>

definition or_restore :: "parser \<Rightarrow> parser \<Rightarrow> parser" where
  "or_restore p q = (\<lambda>copy. case p copy of None \<Rightarrow> None
     | Some (b, st') \<Rightarrow> if b then Some (True, st') else q (restore copy st'))"

definition ParseEncoding :: "calls \<Rightarrow> parser" where
  "ParseEncoding call = or_restore (all_of [call Name, call BareFunctionType])
     (any_of [call Name, call SpecialName])"

definition ParseName :: "calls \<Rightarrow> parser" where
  "ParseName call = any_of [call NestedName, call LocalName,
     or_restore (all_of [call UnscopedTemplateName, call TemplateArgs]) (call UnscopedName)]"

definition ParseUnscopedName :: "calls \<Rightarrow> parser" where
  "ParseUnscopedName call = any_of [call UnqualifiedName,
     \<lambda>st. tries st [all_of [ParseTwoCharToken ''St'', act (MaybeAppend ''std::''),
       call UnqualifiedName]] st]"

definition ParseUnscopedTemplateName :: "calls \<Rightarrow> parser" where
  "ParseUnscopedTemplateName call = any_of [call UnscopedName, ParseSubstitution]"

definition ParseNestedName :: "calls \<Rightarrow> parser" where
  "ParseNestedName call = (\<lambda>st. tries st
     [all_of [ParseOneCharToken CHR ''N'', act EnterNestedName, Optional ParseCVQualifiers,
            call Prefix, act (LeaveNestedName (nest_level st)),
            ParseOneCharToken CHR ''E'']] st)"

text \<open>
  The loop of \<open>ParsePrefix\<close>. A round that parses a component consumes at least one
  character; \<open>n\<close> bounds the number of rounds as in \<open>ZeroOrMore\<close>.
\<close>

fun prefix_loop :: "nat \<Rightarrow> calls \<Rightarrow> bool \<Rightarrow> parser" where
  "prefix_loop 0 call has_something st = None"
| "prefix_loop (Suc n) call has_something st =
     (case any_of [ParseTemplateParam, ParseSubstitution, call UnscopedName]
             (MaybeAppendSeparator st) of
        None \<Rightarrow> None
      | Some (b, st1) \<Rightarrow>
          if b then prefix_loop n call True (MaybeIncreaseNestLevel st1)
          else let st2 = MaybeCancelLastSeparator st1 in
            if has_something then
              (case call TemplateArgs st2 of None \<Rightarrow> None
               | Some (b', st3) \<Rightarrow> if b' then call Prefix st3 else Some (True, st3))
            else Some (True, st2))"

definition ParsePrefix :: "calls \<Rightarrow> parser" where
  "ParsePrefix call = (\<lambda>st. prefix_loop (Suc (length (mangled_cur st))) call False st)"

definition ParseUnqualifiedName :: "calls \<Rightarrow> parser" where
  "ParseUnqualifiedName call = any_of [call OperatorName, ParseCtorDtorName,
     all_of [ParseSourceName, Optional ParseAbiTags],
     all_of [ParseLocalSourceName, Optional ParseAbiTags]]"

fun operator_loop :: "AbbrevPair list \<Rightarrow> parser" where
  "operator_loop [] st = Some (False, st)"
| "operator_loop (p # ps) st =
     (if c_at (mangled_cur st) 0 = c_at (abbrev p) 0 \<and>
         c_at (mangled_cur st) 1 = c_at (abbrev p) 1 then
        (let st1 = MaybeAppend ''operator'' st;
             st2 = (if IsLower (c_at (real_name p) 0) then MaybeAppend '' '' st1 else st1);
             st3 = MaybeAppend (real_name p) st2
         in Some (True, st3\<lparr>mangled_cur := drop 2 (mangled_cur st3)\<rparr>))
      else operator_loop ps st)"

definition operator_table :: parser where
  "operator_table = (\<lambda>st.
     if \<not> (IsLower (c_at (mangled_cur st) 0) \<and> IsAlpha (c_at (mangled_cur st) 1))
     then Some (False, st) else operator_loop kOperatorList st)"

definition ParseOperatorName :: "calls \<Rightarrow> parser" where
  "ParseOperatorName call = (\<lambda>st.
     if \<not> AtLeastNumCharsRemaining (mangled_cur st) 2 then Some (False, st)
     else or_restore
       (all_of [ParseTwoCharToken ''cv'', act (MaybeAppend ''operator ''),
              act EnterNestedName, call Type, act (LeaveNestedName (nest_level st))])
       (or_restore
         (all_of [ParseOneCharToken CHR ''v'', ParseCharClass ''0123456789'', ParseSourceName])
         operator_table) st)"

definition ParseSpecialName :: "calls \<Rightarrow> parser" where
  "ParseSpecialName call = (\<lambda>st. tries st
     [all_of [ParseOneCharToken CHR ''T'', ParseCharClass ''VTIS'', call Type],
      all_of [ParseTwoCharToken ''Tc'', ParseCallOffset, ParseCallOffset, call Encoding],
      all_of [ParseTwoCharToken ''GV'', call Name],
      all_of [ParseOneCharToken CHR ''T'', ParseCallOffset, call Encoding],
      all_of [ParseTwoCharToken ''TC'', call Type, ParseNumber, ParseOneCharToken CHR ''_'',
            act DisableAppend, call Type, act (RestoreAppend (append st))],
      all_of [ParseOneCharToken CHR ''T'', ParseCharClass ''FJ'', call Type],
      all_of [ParseTwoCharToken ''GR'', call Name],
      all_of [ParseTwoCharToken ''GA'', call Encoding],
      all_of [ParseOneCharToken CHR ''T'', ParseCharClass ''hv'', ParseCallOffset,
            call Encoding]] st)"

definition ParseType :: "calls \<Rightarrow> parser" where
  "ParseType call =
     or_restore (all_of [ParseCVQualifiers, call Type])
    (or_restore (all_of [ParseCharClass ''OPRCG'', call Type])
    (or_restore (all_of [ParseTwoCharToken ''Dp'', call Type])
    (or_restore (all_of [ParseOneCharToken CHR ''D'', ParseCharClass ''tT'', call Expression,
                       ParseOneCharToken CHR ''E''])
    (or_restore (all_of [ParseOneCharToken CHR ''U'', ParseSourceName, call Type])
    (\<lambda>copy. any_of [ParseBuiltinType, call FunctionType, call ClassEnumType, call ArrayType,
           call PointerToMemberType, ParseSubstitution,
           \<lambda>st. (case all_of [ParseTemplateTemplateParam, call TemplateArgs] st of
              None \<Rightarrow> None
            | Some (b, st') \<Rightarrow> if b then Some (True, st')
                else ParseTemplateParam (restore copy st'))] copy)))))"

definition ParseFunctionType :: "calls \<Rightarrow> parser" where
  "ParseFunctionType call = (\<lambda>st. tries st
     [all_of [ParseOneCharToken CHR ''F'', Optional (ParseOneCharToken CHR ''Y''),
            call BareFunctionType, ParseOneCharToken CHR ''E'']] st)"

definition ParseBareFunctionType :: "calls \<Rightarrow> parser" where
  "ParseBareFunctionType call = (\<lambda>st. tries st
     [all_of [act DisableAppend, OneOrMore (call Type), act (RestoreAppend (append st)),
            act (MaybeAppend ''()'')]] st)"

definition ParseClassEnumType :: "calls \<Rightarrow> parser" where
  "ParseClassEnumType call = call Name"

definition ParseArrayType :: "calls \<Rightarrow> parser" where
  "ParseArrayType call = (\<lambda>st. tries st
     [all_of [ParseOneCharToken CHR ''A'', ParseNumber, ParseOneCharToken CHR ''_'', call Type],
      all_of [ParseOneCharToken CHR ''A'', Optional (call Expression),
            ParseOneCharToken CHR ''_'', call Type]] st)"

definition ParsePointerToMemberType :: "calls \<Rightarrow> parser" where
  "ParsePointerToMemberType call = (\<lambda>st. tries st
     [all_of [ParseOneCharToken CHR ''M'', call Type, call Type]] st)"

definition ParseTemplateArgs :: "calls \<Rightarrow> parser" where
  "ParseTemplateArgs call = (\<lambda>st. tries st
     [all_of [act DisableAppend, ParseOneCharToken CHR ''I'', OneOrMore (call TemplateArg),
            ParseOneCharToken CHR ''E'', act (RestoreAppend (append st)),
            act (MaybeAppend ''<>'')]] st)"

text \<open>The recursion guards: \<^verbatim>\<open>constexpr uint32 max_levels = 5\<close>.\<close>

definition max_levels :: int where
  "max_levels = 5"

definition dec_arg_level :: "State \<Rightarrow> State" where
  "dec_arg_level st = st\<lparr>arg_level := dec_u32 (arg_level st)\<rparr>"

definition ParseTemplateArg :: "calls \<Rightarrow> parser" where
  "ParseTemplateArg call = (\<lambda>st0.
     if arg_level st0 > max_levels then Some (False, st0)
     else let st = st0\<lparr>arg_level := inc_u32 (arg_level st0)\<rparr> in
       tries st
         [all_of [any_of [ParseOneCharToken CHR ''I'', ParseOneCharToken CHR ''J''],
                ZeroOrMore (call TemplateArg), ParseOneCharToken CHR ''E'',
                act dec_arg_level],
          all_of [any_of [call Type, call ExprPrimary], act dec_arg_level],
          all_of [ParseOneCharToken CHR ''X'', call Expression, ParseOneCharToken CHR ''E'',
                act dec_arg_level]] st)"

definition dec_expr_level :: "State \<Rightarrow> State" where
  "dec_expr_level st = st\<lparr>expr_level := dec_u32 (expr_level st)\<rparr>"

text \<open>The alternative for \<open>st\<close> returns before the decrement of \<open>expr_level\<close>.\<close>

definition ParseExpression :: "calls \<Rightarrow> parser" where
  "ParseExpression call = any_of [ParseTemplateParam, call ExprPrimary, \<lambda>st0.
     if expr_level st0 > max_levels then Some (False, st0)
     else let st = st0\<lparr>expr_level := inc_u32 (expr_level st0)\<rparr> in
       tries st
         [all_of [call OperatorName, call Expression, call Expression, call Expression,
                act dec_expr_level],
          all_of [call OperatorName, call Expression, call Expression, act dec_expr_level],
          all_of [call OperatorName, call Expression, act dec_expr_level],
          all_of [ParseTwoCharToken ''st'', call Type],
          all_of [ParseTwoCharToken ''sr'', call Type, call UnqualifiedName,
                call TemplateArgs, act dec_expr_level],
          all_of [ParseTwoCharToken ''sr'', call Type, call UnqualifiedName,
                act dec_expr_level]] st]"

definition ParseExprPrimary :: "calls \<Rightarrow> parser" where
  "ParseExprPrimary call = (\<lambda>st. tries st
     [all_of [ParseOneCharToken CHR ''L'', call Type, ParseNumber, ParseOneCharToken CHR ''E''],
      all_of [ParseOneCharToken CHR ''L'', call Type, ParseFloatNumber,
            ParseOneCharToken CHR ''E''],
      all_of [ParseOneCharToken CHR ''L'', call MangledName, ParseOneCharToken CHR ''E''],
      all_of [ParseTwoCharToken ''LZ'', call Encoding, ParseOneCharToken CHR ''E'']] st)"

definition dec_local_level :: "State \<Rightarrow> State" where
  "dec_local_level st = st\<lparr>local_level := dec_u32 (local_level st)\<rparr>"

definition ParseLocalName :: "calls \<Rightarrow> parser" where
  "ParseLocalName call = (\<lambda>st0.
     if local_level st0 > max_levels then Some (False, st0)
     else let st = st0\<lparr>local_level := inc_u32 (local_level st0)\<rparr> in
       tries st
         [all_of [ParseOneCharToken CHR ''Z'', call Encoding, ParseOneCharToken CHR ''E'',
                act (MaybeAppend ''::''), call Name, Optional ParseDiscriminator,
                act dec_local_level],
          all_of [ParseOneCharToken CHR ''Z'', call Encoding, ParseTwoCharToken ''Es'',
                Optional ParseDiscriminator, act dec_local_level]] st)"

subsection \<open>Closing the recursion\<close>

fun body :: "calls \<Rightarrow> NT \<Rightarrow> parser" where
  "body call MangledName = ParseMangledName call"
| "body call Encoding = ParseEncoding call"
| "body call Name = ParseName call"
| "body call UnscopedName = ParseUnscopedName call"
| "body call UnscopedTemplateName = ParseUnscopedTemplateName call"
| "body call NestedName = ParseNestedName call"
| "body call Prefix = ParsePrefix call"
| "body call UnqualifiedName = ParseUnqualifiedName call"
| "body call OperatorName = ParseOperatorName call"
| "body call SpecialName = ParseSpecialName call"
| "body call Type = ParseType call"
| "body call FunctionType = ParseFunctionType call"
| "body call BareFunctionType = ParseBareFunctionType call"
| "body call ClassEnumType = ParseClassEnumType call"
| "body call ArrayType = ParseArrayType call"
| "body call PointerToMemberType = ParsePointerToMemberType call"
| "body call TemplateArgs = ParseTemplateArgs call"
| "body call TemplateArg = ParseTemplateArg call"
| "body call Expression = ParseExpression call"
| "body call ExprPrimary = ParseExprPrimary call"
| "body call LocalName = ParseLocalName call"

fun run :: "nat \<Rightarrow> NT \<Rightarrow> parser" where
  "run 0 nt st = None"
| "run (Suc n) nt st = body (run n) nt st"

text \<open>A depth of nested calls that is always enough (theory \<open>Demangle_Total\<close>).\<close>

definition depth_bound :: "string \<Rightarrow> nat" where
  "depth_bound mangled = 8 * length mangled + 8"

definition ParseTopLevelMangledName :: "nat \<Rightarrow> parser" where
  "ParseTopLevelMangledName depth = (\<lambda>st.
     case run depth MangledName st of
       None \<Rightarrow> None
     | Some (b, st1) \<Rightarrow>
         if b then
           (if c_at (mangled_cur st1) 0 \<noteq> NUL then
              (if IsFunctionCloneSuffix (mangled_cur st1) then Some (True, st1)
               else if c_at (mangled_cur st1) 0 = CHR ''@''
                 then Some (True, MaybeAppend (mangled_cur st1) st1)
               else Some (False, st1))
            else Some (True, st1))
         else Some (False, st1))"

text \<open>
  The entry point of the non-Windows builds: the result and the contents of the caller's
  buffer afterwards.
\<close>

definition demangle_state :: "string \<Rightarrow> string option \<Rightarrow> (bool \<times> State) option" where
  "demangle_state mangled out =
     ParseTopLevelMangledName (depth_bound mangled) (InitState mangled out)"

definition Demangle :: "string \<Rightarrow> string \<Rightarrow> (bool \<times> string) option" where
  "Demangle mangled out =
     (case demangle_state mangled (Some out) of
        None \<Rightarrow> None
      | Some (b, st) \<Rightarrow> Some (b \<and> \<not> overflowed st, out_buf st))"

end
