(* ===== verification/Demangle_Rules.thy ===== *)
theory Demangle_Rules
  imports Demangle_Grammar
begin

section \<open>The demangler: a program logic for the parsing functions\<close>

text \<open>
  Most facts about the parsing functions have one shape: the state after a call is related
  to the state before it. The locale \<open>step_rel\<close> says what such a relation must tolerate
  (advancing in the mangled name, appending, switching modes, \<^verbatim>\<open>*state = copy\<close>) and derives
  that every leaf parser keeps it; \<open>grammar_rel\<close> adds the recursion counters and derives it
  for the whole grammar. The relations are instances: the cursor only moves forward (here),
  the output buffer is respected (theory \<open>Demangle_Safe\<close>), the recursion levels
  (theory \<open>Demangle_Safe\<close>).
\<close>

definition keeps :: "(State \<Rightarrow> State \<Rightarrow> bool) \<Rightarrow> parser \<Rightarrow> bool" where
  "keeps R p = (\<forall>st b st'. p st = Some (b, st') \<longrightarrow> R st st')"

lemma keepsI: "(\<And>st b st'. p st = Some (b, st') \<Longrightarrow> R st st') \<Longrightarrow> keeps R p"
  by (simp add: keeps_def)

lemma keepsD: "keeps R p \<Longrightarrow> p st = Some (b, st') \<Longrightarrow> R st st'"
  by (simp add: keeps_def)

subsection \<open>Leaf operations\<close>

lemma number_loop_suffix: "number_loop s k = Some (v, p) \<Longrightarrow> suffix p s"
  by (induction s k rule: number_loop.induct) (auto split: if_splits intro: suffix_ConsI)

locale step_rel =
  fixes R :: "State \<Rightarrow> State \<Rightarrow> bool"
  assumes R_refl: "R st st"
    and R_trans: "R st st' \<Longrightarrow> R st' st'' \<Longrightarrow> R st st''"
    and R_restore: "R copy st \<Longrightarrow> R copy (restore copy st)"
    and R_advance: "suffix p (mangled_cur st) \<Longrightarrow> R st (st\<lparr>mangled_cur := p\<rparr>)"
    and R_output: "R st (MaybeAppendWithLength str len st)"
    and R_cancel: "R st (MaybeCancelLastSeparator st)"
    and R_nest: "R st (st\<lparr>nest_level := v\<rparr>)"
    and R_mode: "R st (st\<lparr>append := m\<rparr>)"
begin

lemma R_MaybeAppend: "R st (MaybeAppend s st)"
  by (simp add: MaybeAppend_def R_refl R_output)

lemma R_drop: "R st (st\<lparr>mangled_cur := drop n (mangled_cur st)\<rparr>)"
  by (rule R_advance) (rule suffix_drop)

lemma R_then_MaybeAppend: "R st st' \<Longrightarrow> R st (MaybeAppend s st')"
  by (rule R_trans[OF _ R_MaybeAppend])

lemma R_then_drop: "R st st' \<Longrightarrow> R st (st'\<lparr>mangled_cur := drop n (mangled_cur st')\<rparr>)"
  by (rule R_trans[OF _ R_drop])

lemmas R_chain = R_refl R_then_MaybeAppend R_then_drop

lemma R_sep: "R st (MaybeAppendSeparator st)"
  by (simp add: MaybeAppendSeparator_def R_refl R_MaybeAppend)

lemma R_inc_nest: "R st (MaybeIncreaseNestLevel st)"
  by (simp add: MaybeIncreaseNestLevel_def R_refl R_nest)

lemma R_act [parser_rules]: "(\<And>st. R st (f st)) \<Longrightarrow> keeps R (act f)"
  by (auto simp: keeps_def act_def)

lemma keeps_all_Nil [parser_rules]: "keeps R (all_of [])"
  by (auto simp: keeps_def R_refl)

lemma keeps_all [parser_rules]:
  "keeps R p \<Longrightarrow> keeps R (all_of ps) \<Longrightarrow> keeps R (all_of (p # ps))"
  by (auto simp: keeps_def split: option.splits if_splits intro: R_trans) (meson R_trans)+

lemma keeps_any_Nil [parser_rules]: "keeps R (any_of [])"
  by (auto simp: keeps_def R_refl)

lemma keeps_any [parser_rules]:
  "keeps R p \<Longrightarrow> keeps R (any_of ps) \<Longrightarrow> keeps R (any_of (p # ps))"
  by (auto simp: keeps_def split: option.splits if_splits intro: R_trans) (meson R_trans)+

lemma keeps_tries_from:
  "(\<And>p. p \<in> set ps \<Longrightarrow> keeps R p) \<Longrightarrow> R copy st \<Longrightarrow> tries copy ps st = Some (b, st') \<Longrightarrow>
   R copy st'"
proof (induction ps arbitrary: st)
  case (Cons p ps)
  obtain b1 st1 where p: "p st = Some (b1, st1)"
    using Cons.prems(3) by (auto split: option.splits)
  then have R1: "R copy st1"
    using Cons.prems(1)[of p] Cons.prems(2) by (auto intro: R_trans dest: keepsD)
  show ?case
  proof (cases b1)
    case True
    with p R1 Cons.prems(3) show ?thesis by auto
  next
    case False
    with p Cons.prems(3) have "tries copy ps (restore copy st1) = Some (b, st')" by simp
    with Cons.IH[OF _ R_restore[OF R1]] Cons.prems(1) show ?thesis by simp
  qed
qed auto

lemma keeps_tries [parser_rules]:
  "(\<And>copy. list_all (keeps R) (ps copy)) \<Longrightarrow> keeps R (\<lambda>st. tries st (ps st) st)"
  by (rule keepsI) (metis keeps_tries_from R_refl list_all_iff)

lemma keeps_or_restore [parser_rules]:
  "keeps R p \<Longrightarrow> keeps R q \<Longrightarrow> keeps R (or_restore p q)"
  unfolding keeps_def or_restore_def
  by (auto split: option.splits if_splits) (meson R_trans R_restore)+

lemma keeps_Optional [parser_rules]: "keeps R p \<Longrightarrow> keeps R (Optional p)"
  by (auto simp: keeps_def Optional_def split: option.splits)

lemma keeps_repeat: "keeps R p \<Longrightarrow> keeps R (repeat_parse n p)"
proof (induction n)
  case (Suc n)
  then show ?case
    by (auto simp: keeps_def split: option.splits if_splits) (meson R_trans)+
qed (simp add: keeps_def)

lemma keeps_ZeroOrMore [parser_rules]: "keeps R p \<Longrightarrow> keeps R (ZeroOrMore p)"
  unfolding ZeroOrMore_def by (rule keepsI) (meson keepsD keeps_repeat)

lemma keeps_OneOrMore [parser_rules]: "keeps R p \<Longrightarrow> keeps R (OneOrMore p)"
  unfolding OneOrMore_def by (intro parser_rules)

lemma keeps_OneChar [parser_rules]: "keeps R (ParseOneCharToken c)"
  using R_drop[where n = 1] by (auto simp: keeps_def ParseOneCharToken_def R_refl)

lemma keeps_TwoChar [parser_rules]: "keeps R (ParseTwoCharToken s)"
  by (auto simp: keeps_def ParseTwoCharToken_def R_refl R_drop)

lemma keeps_CharClass [parser_rules]: "keeps R (ParseCharClass cs)"
proof (rule keepsI)
  show "ParseCharClass cs st = Some (b, st') \<Longrightarrow> R st st'" for st b st'
    using R_drop[where n = 1]
    by (induction cs) (auto simp: R_refl split: if_splits)
qed

lemma R_ParseNumber_out: "ParseNumber_out st = (b, st', k) \<Longrightarrow> R st st'"
proof -
  assume *: "ParseNumber_out st = (b, st', k)"
  define st1 where "st1 = (if c_at (mangled_cur st) 0 = CHR ''n''
    then st\<lparr>mangled_cur := drop 1 (mangled_cur st)\<rparr> else st)"
  have 1: "R st st1" by (simp add: st1_def R_refl R_drop[where n = 1, simplified])
  have "R st1 st'"
    using * unfolding ParseNumber_out_def Let_def st1_def[symmetric]
    by (auto simp: R_refl R_advance split: option.splits if_splits dest!: number_loop_suffix)
  with 1 show ?thesis by (rule R_trans)
qed

lemma keeps_Number [parser_rules]: "keeps R ParseNumber"
  by (auto simp: keeps_def ParseNumber_def split: prod.splits dest: R_ParseNumber_out)

lemma keeps_span: "keeps R (span_parser P)"
  by (auto simp: keeps_def span_parser_def Let_def R_refl
      intro!: R_advance suffix_dropWhile split: if_splits)

lemma keeps_Float [parser_rules]: "keeps R ParseFloatNumber"
  unfolding ParseFloatNumber_def by (rule keeps_span)

lemma keeps_SeqId [parser_rules]: "keeps R ParseSeqId"
  unfolding ParseSeqId_def by (rule keeps_span)

lemma keeps_Identifier [parser_rules]: "keeps R (ParseIdentifier len)"
proof (rule keepsI)
  fix st b st' assume *: "ParseIdentifier len st = Some (b, st')"
  define st1 where "st1 = (if IdentifierIsAnonymousNamespace st len
     then MaybeAppend ''(anonymous namespace)'' st
     else MaybeAppendWithLength (Text (mangled_cur st)) len st)"
  have 1: "R st st1" by (simp add: st1_def R_output R_MaybeAppend)
  show "R st st'"
    using * R_refl R_trans[OF 1 R_drop] 1 unfolding ParseIdentifier_def Let_def st1_def[symmetric]
    by (auto split: if_splits)
qed

lemma keeps_SourceName [parser_rules]: "keeps R ParseSourceName"
proof -
  have "keeps R (\<lambda>st. case ParseNumber_out st of (b, st', number_out) \<Rightarrow>
    if b then ParseIdentifier (case number_out of None \<Rightarrow> -1 | Some k \<Rightarrow> k) st'
    else Some (False, st'))"
    by (rule keepsI) (auto split: prod.splits if_splits
        dest: R_ParseNumber_out keepsD[OF keeps_Identifier] intro: R_trans)
  then show ?thesis
    unfolding ParseSourceName_def by (intro keeps_tries) simp
qed

lemma keeps_Discriminator [parser_rules]: "keeps R ParseDiscriminator"
  unfolding ParseDiscriminator_def by (intro keeps_tries) (simp, intro parser_rules)

lemma keeps_LocalSourceName [parser_rules]: "keeps R ParseLocalSourceName"
  unfolding ParseLocalSourceName_def by (intro keeps_tries) (simp, intro parser_rules)

lemma keeps_AbiTag [parser_rules]: "keeps R ParseAbiTag"
  unfolding ParseAbiTag_def by (intro parser_rules)

lemma keeps_RestoreAppend [parser_rules]: "keeps R (act (RestoreAppend v))"
  by (rule R_act) (simp add: RestoreAppend_def R_mode)

lemma keeps_DisableAppend [parser_rules]: "keeps R (act DisableAppend)"
  by (rule R_act) (simp add: DisableAppend_def R_mode)

lemma keeps_EnterNested [parser_rules]: "keeps R (act EnterNestedName)"
  by (rule R_act) (simp add: EnterNestedName_def R_nest)

lemma keeps_LeaveNested [parser_rules]: "keeps R (act (LeaveNestedName v))"
  by (rule R_act) (simp add: LeaveNestedName_def R_nest)

lemma keeps_act_MaybeAppend [parser_rules]: "keeps R (act (MaybeAppend s))"
  by (rule R_act) (rule R_MaybeAppend)

lemma keeps_AbiTags [parser_rules]: "keeps R ParseAbiTags"
  unfolding ParseAbiTags_def by (intro keeps_tries) (simp, intro parser_rules)

lemma keeps_VOffset [parser_rules]: "keeps R ParseVOffset"
  unfolding ParseVOffset_def by (intro keeps_tries) (simp, intro parser_rules)

lemma keeps_CallOffset [parser_rules]: "keeps R ParseCallOffset"
  unfolding ParseCallOffset_def ParseNVOffset_def
  by (intro keeps_tries) (simp, intro conjI parser_rules)

lemma keeps_append_prev_name [parser_rules]: "keeps R (act append_prev_name)"
  by (rule R_act) (simp add: append_prev_name_def R_output)

lemma keeps_append_tilde [parser_rules]: "keeps R (act append_tilde_prev_name)"
  by (rule R_act) (auto simp: append_tilde_prev_name_def intro: R_trans R_output R_MaybeAppend)

lemma keeps_CtorDtor [parser_rules]: "keeps R ParseCtorDtorName"
  unfolding ParseCtorDtorName_def by (intro keeps_tries) (simp, intro conjI parser_rules)

lemma keeps_CVQualifiers [parser_rules]: "keeps R ParseCVQualifiers"
proof (rule keepsI)
  fix st b st' assume *: "ParseCVQualifiers st = Some (b, st')"
  have "\<exists>p. suffix p (mangled_cur st) \<and> st' = st\<lparr>mangled_cur := p\<rparr>"
    using * unfolding ParseCVQualifiers_def Let_def
    by (auto split: if_splits simp: suffix_drop drop_drop
        intro!: exI[of _ "mangled_cur st'"])
  then show "R st st'" by (auto intro: R_advance)
qed

lemma keeps_BuiltinType [parser_rules]: "keeps R ParseBuiltinType"
proof -
  have 1: "builtin_loop ps st = Some st' \<Longrightarrow> R st st'" for ps st st'
    by (induction ps)
      (auto simp: Let_def split: if_splits intro!: R_chain
        simp del: One_nat_def MaybeAppend_frame)
  have 2: "keeps R (\<lambda>st. tries st [all_of [ParseOneCharToken CHR ''u'', ParseSourceName]] st)"
    by (intro keeps_tries) (simp, intro parser_rules)
  show ?thesis
    unfolding ParseBuiltinType_def
    by (rule keepsI)
      (auto simp del: tries.simps split: option.splits dest: 1 keepsD[OF 2])
qed

lemma keeps_TemplateParam [parser_rules]: "keeps R ParseTemplateParam"
  unfolding ParseTemplateParam_def
  by (intro parser_rules keeps_tries) (simp, intro parser_rules)

lemma keeps_subst_loop [parser_rules]: "keeps R (subst_loop ps)"
proof (rule keepsI)
  show "subst_loop ps st = Some (b, st') \<Longrightarrow> R st st'" for st b st'
    by (induction ps)
      (auto simp: Let_def simp del: One_nat_def MaybeAppend_frame split: if_splits
        intro!: R_chain)
qed

lemma keeps_Substitution [parser_rules]: "keeps R ParseSubstitution"
  unfolding ParseSubstitution_def
  by (intro parser_rules keeps_tries) (simp, intro conjI parser_rules)

lemma keeps_TemplateTemplateParam [parser_rules]: "keeps R ParseTemplateTemplateParam"
  unfolding ParseTemplateTemplateParam_def by (intro parser_rules)

lemma keeps_operator_table [parser_rules]: "keeps R operator_table"
proof -
  have "operator_loop ps st = Some (b, st') \<Longrightarrow> R st st'" for ps st b st'
    by (induction ps)
      (auto simp: Let_def simp del: MaybeAppend_frame split: if_splits intro!: R_chain)
  then show ?thesis
    unfolding operator_table_def by (auto simp: keeps_def R_refl)
qed

end

subsection \<open>The grammar\<close>

text \<open>
  A relation on the recursion counters may rely on the guard at an increment, and on the
  increment at the matching decrement.
\<close>

definition inc_local_level :: "State \<Rightarrow> State" where
  "inc_local_level st = st\<lparr>local_level := inc_u32 (local_level st)\<rparr>"

definition inc_expr_level :: "State \<Rightarrow> State" where
  "inc_expr_level st = st\<lparr>expr_level := inc_u32 (expr_level st)\<rparr>"

definition inc_arg_level :: "State \<Rightarrow> State" where
  "inc_arg_level st = st\<lparr>arg_level := inc_u32 (arg_level st)\<rparr>"

lemmas inc_level_defs = inc_local_level_def inc_expr_level_def inc_arg_level_def
lemmas dec_level_defs = dec_local_level_def dec_expr_level_def dec_arg_level_def

locale grammar_rel = step_rel +
  assumes R_inc_local: "\<not> local_level st > max_levels \<Longrightarrow> R st (inc_local_level st)"
    and R_inc_expr: "\<not> expr_level st > max_levels \<Longrightarrow> R st (inc_expr_level st)"
    and R_inc_arg: "\<not> arg_level st > max_levels \<Longrightarrow> R st (inc_arg_level st)"
    and R_dec_local: "\<not> local_level st > max_levels \<Longrightarrow> R (inc_local_level st) st' \<Longrightarrow>
      R st (dec_local_level st')"
    and R_dec_expr: "\<not> expr_level st > max_levels \<Longrightarrow> R (inc_expr_level st) st' \<Longrightarrow>
      R st (dec_expr_level st')"
    and R_dec_arg: "\<not> arg_level st > max_levels \<Longrightarrow> R (inc_arg_level st) st' \<Longrightarrow>
      R st (dec_arg_level st')"
begin

text \<open>
  \<open>closes st copy p\<close>: run from a state that \<open>copy\<close> leads to, \<open>p\<close> either succeeds in a state
  that \<open>st\<close> leads to, or fails in one that \<open>copy\<close> leads to.
\<close>

definition closes :: "State \<Rightarrow> State \<Rightarrow> parser \<Rightarrow> bool" where
  "closes st copy p = (\<forall>s b s'. R copy s \<longrightarrow> p s = Some (b, s') \<longrightarrow> (if b then R st s' else R copy s'))"

lemma closesD: "closes st copy p \<Longrightarrow> R copy s \<Longrightarrow> p s = Some (b, s') \<Longrightarrow>
    if b then R st s' else R copy s'"
  unfolding closes_def by blast

lemma closes_last: "(\<And>s. R copy s \<Longrightarrow> R st (f s)) \<Longrightarrow> closes st copy (all_of [act f])"
  by (simp add: closes_def act_def)

lemma closes_step:
  assumes p: "keeps R p" and rest: "closes st copy (all_of (q # ps))"
  shows "closes st copy (all_of (p # q # ps))"
  unfolding closes_def
proof (intro allI impI)
  fix s b s' assume s: "R copy s" and run: "all_of (p # q # ps) s = Some (b, s')"
  obtain c s1 where p1: "p s = Some (c, s1)"
    using run by (auto simp del: all_of.simps(1) split: option.splits)
  have R1: "R copy s1" using R_trans[OF s keepsD[OF p p1]] .
  show "if b then R st s' else R copy s'"
  proof (cases c)
    case True
    with run p1 have "all_of (q # ps) s1 = Some (b, s')"
      by (simp only: all_of.simps(2)[of p] option.case prod.case if_True)
    then show ?thesis by (rule closesD[OF rest R1])
  next
    case False
    with run p1 R1 show ?thesis by auto
  qed
qed

lemma closes_plain: "R st copy \<Longrightarrow> keeps R p \<Longrightarrow> closes st copy p"
  unfolding closes_def by (metis keepsD R_trans)

lemma closes_tries:
  "list_all (closes st copy) ps \<Longrightarrow> R st copy \<Longrightarrow> R copy s \<Longrightarrow> tries copy ps s = Some (b, s') \<Longrightarrow>
   R st s'"
proof (induction ps arbitrary: s)
  case (Cons p ps)
  obtain c s1 where p: "p s = Some (c, s1)"
    using Cons.prems(4) by (auto split: option.splits)
  have 1: "if c then R st s1 else R copy s1"
    using Cons.prems p by (intro closesD[of st copy p s]) auto
  show ?case
  proof (cases c)
    case True
    with 1 p Cons.prems show ?thesis by auto
  next
    case False
    with 1 have "R copy (restore copy s1)" by (simp add: R_restore)
    with False p Cons show ?thesis by auto
  qed
next
  case Nil
  then show ?case by (auto intro: R_trans)
qed

lemma keeps_guarded:
  assumes closes: "\<And>st. \<not> g st \<Longrightarrow> list_all (closes st (f st)) ps"
    and f: "\<And>st. \<not> g st \<Longrightarrow> R st (f st)"
  shows "keeps R (\<lambda>st. if g st then Some (False, st) else tries (f st) ps (f st))"
proof (rule keepsI)
  fix st b st'
  assume run: "(if g st then Some (False, st) else tries (f st) ps (f st)) = Some (b, st')"
  show "R st st'"
  proof (cases "g st")
    case False
    with run show ?thesis
      using closes_tries[OF closes f R_refl] by auto
  qed (use run R_refl in auto)
qed

lemmas closing_rules = closes_last closes_step R_dec_local R_dec_expr R_dec_arg

lemma keeps_prefix_step:
  assumes call: "\<And>nt. keeps R (call nt)" and loop: "\<And>h. keeps R (prefix_loop n call h)"
  shows "keeps R (prefix_loop (Suc n) call h)"
proof (rule keepsI)
  fix st b st' assume run: "prefix_loop (Suc n) call h st = Some (b, st')"
  have comps: "keeps R (any_of [ParseTemplateParam, ParseSubstitution, call UnscopedName])"
    by (intro parser_rules call)
  obtain c st1 where
    c: "any_of [ParseTemplateParam, ParseSubstitution, call UnscopedName]
          (MaybeAppendSeparator st) = Some (c, st1)"
    using run by (auto simp del: any_of.simps split: option.splits)
  then have R1: "R st st1" using R_trans[OF R_sep keepsD[OF comps]] by blast
  define st2 where "st2 = MaybeCancelLastSeparator st1"
  have R2: "R st st2" unfolding st2_def by (rule R_trans[OF R1 R_cancel])
  consider "prefix_loop n call True (MaybeIncreaseNestLevel st1) = Some (b, st')"
    | st3 where "call TemplateArgs st2 = Some (True, st3)" "call Prefix st3 = Some (b, st')"
    | "call TemplateArgs st2 = Some (False, st')" | "st' = st2"
    using c run
    by (auto simp: st2_def Let_def simp del: any_of.simps split: if_splits option.splits)
  then show "R st st'"
  proof cases
    case 1 then show ?thesis by (meson R1 R_inc_nest R_trans loop keepsD)
  next
    case 2 then show ?thesis by (meson R2 R_trans call keepsD)
  next
    case 3 then show ?thesis by (meson R2 R_trans call keepsD)
  next
    case 4 then show ?thesis using R2 by simp
  qed
qed

lemma keeps_prefix_loop:
  assumes "\<And>nt. keeps R (call nt)"
  shows "keeps R (prefix_loop n call h)"
proof (induction n arbitrary: h)
  case 0 show ?case by (simp add: keeps_def)
next
  case (Suc n) show ?case by (rule keeps_prefix_step[OF assms Suc])
qed

lemma keeps_ParseType:
  assumes call: "\<And>nt. keeps R (call nt)"
  shows "keeps R (ParseType call)"
proof -
  have last: "keeps R (\<lambda>copy. any_of [ParseBuiltinType, call FunctionType, call ClassEnumType,
      call ArrayType, call PointerToMemberType, ParseSubstitution,
      \<lambda>st. (case all_of [ParseTemplateTemplateParam, call TemplateArgs] st of
          None \<Rightarrow> None
        | Some (b, st') \<Rightarrow> if b then Some (True, st')
            else ParseTemplateParam (restore copy st'))] copy)" (is "keeps R ?p")
  proof (rule keepsI)
    fix copy b st' assume p: "?p copy = Some (b, st')"
    define q1 where "q1 = any_of [ParseBuiltinType, call FunctionType, call ClassEnumType,
      call ArrayType, call PointerToMemberType, ParseSubstitution]"
    define q2 where "q2 = all_of [ParseTemplateTemplateParam, call TemplateArgs]"
    have k1: "keeps R q1" and k2: "keeps R q2"
      unfolding q1_def q2_def by (intro parser_rules call)+
    have p': "?p copy = (case q1 copy of None \<Rightarrow> None | Some (b, st1) \<Rightarrow>
        if b then Some (True, st1) else (case q2 st1 of None \<Rightarrow> None
          | Some (b, st2) \<Rightarrow> if b then Some (True, st2)
              else ParseTemplateParam (restore copy st2)))"
      unfolding q1_def q2_def by (auto simp del: all_of.simps split: option.splits if_splits)
    show "R copy st'"
      using p unfolding p'
      by (auto split: option.splits if_splits dest!: keepsD[OF k1] keepsD[OF k2]
          keepsD[OF keeps_TemplateParam] intro: R_trans)
        (meson R_restore R_trans)+
  qed
  show ?thesis unfolding ParseType_def by (intro keeps_or_restore last parser_rules call)
qed

lemma keeps_ParseOperatorName:
  assumes call: "\<And>nt. keeps R (call nt)"
  shows "keeps R (ParseOperatorName call)"
proof -
  have "keeps R (or_restore
       (all_of [ParseTwoCharToken ''cv'', act (MaybeAppend ''operator ''),
              act EnterNestedName, call Type, act (LeaveNestedName v)])
       (or_restore
         (all_of [ParseOneCharToken CHR ''v'', ParseCharClass ''0123456789'', ParseSourceName])
         operator_table))" (is "keeps R (?p v)") for v
    by (intro parser_rules call)
  then show ?thesis
    unfolding ParseOperatorName_def
    by (intro keepsI) (metis keepsD R_refl option.inject prod.inject)
qed

lemma keeps_ParseTemplateArg:
  assumes call: "\<And>nt. keeps R (call nt)"
  shows "keeps R (ParseTemplateArg call)"
  unfolding ParseTemplateArg_def Let_def inc_arg_level_def[symmetric]
  by (intro keeps_guarded R_inc_arg; simp?; intro conjI closing_rules parser_rules call)

lemma keeps_ParseLocalName:
  assumes call: "\<And>nt. keeps R (call nt)"
  shows "keeps R (ParseLocalName call)"
  unfolding ParseLocalName_def Let_def inc_local_level_def[symmetric]
  by (intro keeps_guarded R_inc_local; simp?; intro conjI closing_rules parser_rules call)

lemma keeps_expression_tail:
  assumes call: "\<And>nt. keeps R (call nt)"
  shows "keeps R (\<lambda>st0.
     if expr_level st0 > max_levels then Some (False, st0)
     else tries (st0\<lparr>expr_level := inc_u32 (expr_level st0)\<rparr>)
         [all_of [call OperatorName, call Expression, call Expression, call Expression,
                act dec_expr_level],
          all_of [call OperatorName, call Expression, call Expression, act dec_expr_level],
          all_of [call OperatorName, call Expression, act dec_expr_level],
          all_of [ParseTwoCharToken ''st'', call Type],
          all_of [ParseTwoCharToken ''sr'', call Type, call UnqualifiedName,
                call TemplateArgs, act dec_expr_level],
          all_of [ParseTwoCharToken ''sr'', call Type, call UnqualifiedName,
                act dec_expr_level]] (st0\<lparr>expr_level := inc_u32 (expr_level st0)\<rparr>))"
  unfolding inc_expr_level_def[symmetric]
  by (intro keeps_guarded R_inc_expr; simp?;
      intro conjI closes_last R_dec_expr closes_step parser_rules call closes_plain R_inc_expr; simp?)

lemma keeps_ParseExpression:
  assumes call: "\<And>nt. keeps R (call nt)"
  shows "keeps R (ParseExpression call)"
  unfolding ParseExpression_def Let_def
  by (intro parser_rules call keeps_expression_tail)

lemma keeps_ParsePrefix:
  assumes call: "\<And>nt. keeps R (call nt)"
  shows "keeps R (ParsePrefix call)"
  unfolding ParsePrefix_def by (intro keepsI) (metis keepsD keeps_prefix_loop call)

text \<open>The bodies that are a list of alternatives.\<close>

lemma keeps_alternatives:
  assumes call: "\<And>nt. keeps R (call nt)"
  shows "keeps R (ParseUnscopedName call)"
    "keeps R (ParseNestedName call)" "keeps R (ParseSpecialName call)"
    "keeps R (ParseFunctionType call)" "keeps R (ParseBareFunctionType call)"
    "keeps R (ParseArrayType call)" "keeps R (ParsePointerToMemberType call)"
    "keeps R (ParseTemplateArgs call)" "keeps R (ParseExprPrimary call)"
  unfolding ParseUnscopedName_def ParseNestedName_def ParseSpecialName_def
    ParseFunctionType_def ParseBareFunctionType_def ParseArrayType_def
    ParsePointerToMemberType_def ParseTemplateArgs_def ParseExprPrimary_def
  by (intro parser_rules call keeps_tries; simp; intro conjI parser_rules call)+

lemma keeps_sequences:
  assumes call: "\<And>nt. keeps R (call nt)"
  shows "keeps R (ParseEncoding call)" "keeps R (ParseMangledName call)" "keeps R (ParseName call)"
    "keeps R (ParseUnscopedTemplateName call)" "keeps R (ParseUnqualifiedName call)"
    "keeps R (ParseClassEnumType call)"
  unfolding ParseEncoding_def ParseMangledName_def ParseName_def ParseUnscopedTemplateName_def
    ParseUnqualifiedName_def ParseClassEnumType_def
  by (intro parser_rules call)+

lemma keeps_body:
  assumes call: "\<And>nt. keeps R (call nt)"
  shows "keeps R (body call nt)"
  by (cases nt; simp only: body.simps;
      intro keeps_alternatives keeps_sequences keeps_ParseOperatorName keeps_ParseType
        keeps_ParseExpression keeps_ParseTemplateArg keeps_ParseLocalName keeps_ParsePrefix call)

lemma keeps_run: "keeps R (run n nt)"
proof (induction n arbitrary: nt)
  case (Suc n)
  have "run (Suc n) nt = body (run n) nt" by (simp add: fun_eq_iff)
  with Suc show ?case by (simp only: keeps_body)
qed (simp add: keeps_def)

end

subsection \<open>The cursor only moves forward\<close>

definition forward :: "State \<Rightarrow> State \<Rightarrow> bool" where
  "forward st st' = suffix (mangled_cur st') (mangled_cur st)"

interpretation fw: grammar_rel forward
proof (unfold_locales, goal_cases)
  case (2 st st' st'')
  then show ?case unfolding forward_def by (rule suffix_order.trans[rotated])
qed (auto simp: forward_def inc_level_defs dec_level_defs)

lemma forward_dec [parser_rules]:
  "keeps forward (act dec_local_level)" "keeps forward (act dec_expr_level)"
  "keeps forward (act dec_arg_level)"
  by (auto simp: keeps_def act_def forward_def dec_level_defs)

lemma keeps_forward_length: "keeps forward p \<Longrightarrow> p st = Some (b, st') \<Longrightarrow>
    length (mangled_cur st') \<le> length (mangled_cur st)"
  using keepsD[of forward p st b st'] by (simp add: forward_def suffix_length_le)

end
