(* ===== verification/Demangle_Total.thy ===== *)
theory Demangle_Total
  imports Demangle_Rules
begin

section \<open>The demangler: consumption and termination\<close>

text \<open>
  Every parsing function except \<open>ParsePrefix\<close> consumes at least one character when it
  succeeds, and a cycle of calls that consumes nothing does not exist: the non-terminals
  have a \<open>rank\<close> that decreases along every call made before the first character is
  consumed. So the depth of nested calls is at most \<open>8 * length + rank\<close>, and with the
  depth bound of \<open>Demangle\<close> the model never runs out of it.
\<close>

abbreviation left :: "State \<Rightarrow> nat" where
  "left st \<equiv> length (mangled_cur st)"

definition consumes :: "parser \<Rightarrow> bool" where
  "consumes p = (\<forall>st st'. p st = Some (True, st') \<longrightarrow> left st' < left st)"

definition tot :: "nat \<Rightarrow> parser \<Rightarrow> bool" where
  "tot k p = (\<forall>st. left st < k \<longrightarrow> p st \<noteq> None)"

named_theorems consume_rules
named_theorems tot_rules

lemma consumesI: "(\<And>st st'. p st = Some (True, st') \<Longrightarrow> left st' < left st) \<Longrightarrow> consumes p"
  by (simp add: consumes_def)

lemma consumesD: "consumes p \<Longrightarrow> p st = Some (True, st') \<Longrightarrow> left st' < left st"
  by (simp add: consumes_def)

lemma totI: "(\<And>st. left st < k \<Longrightarrow> p st \<noteq> None) \<Longrightarrow> tot k p"
  by (simp add: tot_def)

lemma totD: "tot k p \<Longrightarrow> left st < k \<Longrightarrow> p st \<noteq> None"
  by (simp add: tot_def)

lemma totE: "tot k p \<Longrightarrow> left st < k \<Longrightarrow> \<exists>b st'. p st = Some (b, st')"
  using totD[of k p st] by auto

lemma tot_mono: "tot k p \<Longrightarrow> j \<le> k \<Longrightarrow> tot j p"
  by (simp add: tot_def)

lemmas fwD = keeps_forward_length

subsection \<open>Consumption\<close>

lemma consumes_all_first [consume_rules]:
  "consumes p \<Longrightarrow> keeps forward (all_of ps) \<Longrightarrow> consumes (all_of (p # ps))"
  by (auto simp: consumes_def split: option.splits if_splits dest: fwD)
    (meson fwD le_less_trans)

lemma consumes_all_later:
  "keeps forward p \<Longrightarrow> consumes (all_of ps) \<Longrightarrow> consumes (all_of (p # ps))"
  by (auto simp: consumes_def split: option.splits if_splits) (meson fwD less_le_trans)

lemma consumes_any_Nil [consume_rules]: "consumes (any_of [])"
  by (simp add: consumes_def)

lemma consumes_any [consume_rules]:
  "consumes p \<Longrightarrow> keeps forward p \<Longrightarrow> consumes (any_of ps) \<Longrightarrow> consumes (any_of (p # ps))"
  by (auto simp: consumes_def split: option.splits if_splits) (meson fwD less_le_trans)

lemma consumes_tries_from:
  "(\<And>p. p \<in> set ps \<Longrightarrow> consumes p) \<Longrightarrow> left st = left copy \<Longrightarrow>
   tries copy ps st = Some (True, st') \<Longrightarrow> left st' < left copy"
proof (induction ps arbitrary: st)
  case (Cons p ps)
  obtain c st1 where p: "p st = Some (c, st1)"
    using Cons.prems by (auto split: option.splits)
  show ?case
  proof (cases c)
    case True
    then show ?thesis using consumesD[of p st st'] p Cons.prems by simp
  next
    case False
    then show ?thesis using p Cons.IH[of "restore copy st1"] Cons.prems by simp
  qed
qed simp

lemma consumes_tries [consume_rules]:
  "(\<And>copy. list_all consumes (ps copy)) \<Longrightarrow> consumes (\<lambda>st. tries st (ps st) st)"
proof (rule consumesI)
  fix st st'
  assume "\<And>copy. list_all consumes (ps copy)" and "tries st (ps st) st = Some (True, st')"
  then show "left st' < left st"
    using consumes_tries_from[of "ps st" st st st'] by (simp add: list_all_iff)
qed

lemma consumes_or_restore [consume_rules]:
  assumes "consumes p" "consumes q"
  shows "consumes (or_restore p q)"
proof (rule consumesI)
  fix st st' assume *: "or_restore p q st = Some (True, st')"
  then obtain c st1 where p: "p st = Some (c, st1)"
    by (auto simp: or_restore_def split: option.splits)
  show "left st' < left st"
    using * p assms(1)[THEN consumesD, of st st']
      assms(2)[THEN consumesD, of "restore st st1" st']
    by (cases c) (auto simp: or_restore_def)
qed

lemma consumes_guarded:
  assumes q: "consumes (\<lambda>st. tries st ps st)" and f: "\<And>st. left (f st) = left st"
  shows "consumes (\<lambda>st. if g st then Some (False, st) else tries (f st) ps (f st))"
proof (rule consumesI)
  fix st st'
  assume "(if g st then Some (False, st) else tries (f st) ps (f st)) = Some (True, st')"
  then show "left st' < left st"
    using consumesD[OF q, of "f st" st'] f[of st] by (cases "g st") auto
qed

lemma consumes_OneOrMore [consume_rules]: "consumes p \<Longrightarrow> keeps forward p \<Longrightarrow> consumes (OneOrMore p)"
  unfolding OneOrMore_def by (intro consume_rules parser_rules)

lemma c_hd_nonempty: "c_hd s \<noteq> NUL \<Longrightarrow> s \<noteq> []"
  by (cases s) auto

lemma drop_less: "c_hd s \<noteq> NUL \<Longrightarrow> 0 < k \<Longrightarrow> length s - k < length s"
  by (cases s) auto

lemma drop_less': "NUL \<noteq> c_hd s \<Longrightarrow> 0 < k \<Longrightarrow> length s - k < length s"
  by (rule drop_less) auto

lemma consumes_OneChar [consume_rules]: "c \<noteq> NUL \<Longrightarrow> consumes (ParseOneCharToken c)"
  by (auto simp: consumes_def ParseOneCharToken_def split: if_splits intro: drop_less drop_less')

lemma consumes_TwoChar [consume_rules]: "c_hd t \<noteq> NUL \<Longrightarrow> consumes (ParseTwoCharToken t)"
  by (auto simp: consumes_def ParseTwoCharToken_def split: if_splits intro: drop_less)

lemma consumes_CharClass [consume_rules]: "NUL \<notin> set cs \<Longrightarrow> consumes (ParseCharClass cs)"
proof (rule consumesI)
  show "NUL \<notin> set cs \<Longrightarrow> ParseCharClass cs st = Some (True, st') \<Longrightarrow> left st' < left st" for st st'
    by (induction cs) (auto split: if_splits intro: drop_less drop_less')
qed

lemma suffix_shorter: "suffix p s \<Longrightarrow> p \<noteq> s \<Longrightarrow> length p < length s"
  by (rule suffix_length_less) (simp add: strict_suffix_def)

lemma number_out_consumes:
  assumes "ParseNumber_out st = (True, st', k)"
  shows "left st' < left st"
proof -
  define st1 where "st1 = (if c_at (mangled_cur st) 0 = CHR ''n''
    then st\<lparr>mangled_cur := drop 1 (mangled_cur st)\<rparr> else st)"
  have "left st1 \<le> left st" by (simp add: st1_def)
  moreover have "left st' < left st1"
    using assms unfolding ParseNumber_out_def Let_def st1_def[symmetric]
    by (auto split: option.splits if_splits dest!: number_loop_suffix simp: suffix_shorter)
  ultimately show ?thesis by simp
qed

lemma consumes_Number [consume_rules]: "consumes ParseNumber"
  by (auto simp: consumes_def ParseNumber_def split: prod.splits dest: number_out_consumes)

lemma consumes_span [consume_rules]: "consumes (span_parser P)"
  by (auto simp: consumes_def span_parser_def Let_def split: if_splits
      intro: suffix_shorter suffix_dropWhile)

lemma consumes_SourceName [consume_rules]: "consumes ParseSourceName"
proof -
  have "consumes (\<lambda>st. case ParseNumber_out st of (b, st', number_out) \<Rightarrow>
        if b then ParseIdentifier (case number_out of None \<Rightarrow> -1 | Some k \<Rightarrow> k) st'
        else Some (False, st'))"
    by (rule consumesI) (auto split: prod.splits if_splits dest!: number_out_consumes
        fwD[OF fw.keeps_Identifier])
  then show ?thesis
    unfolding ParseSourceName_def by (intro consume_rules) simp
qed

lemma consumes_AbiTag [consume_rules]: "consumes ParseAbiTag"
  unfolding ParseAbiTag_def by (intro consume_rules parser_rules) simp

lemma consumes_LocalSourceName [consume_rules]: "consumes ParseLocalSourceName"
  unfolding ParseLocalSourceName_def
  by (intro consume_rules) (simp, intro consume_rules parser_rules, simp)

lemma consumes_CtorDtor [consume_rules]: "consumes ParseCtorDtorName"
  unfolding ParseCtorDtorName_def
  by (intro consume_rules) (simp, intro conjI consume_rules parser_rules, simp_all)

lemma consumes_CVQualifiers [consume_rules]: "consumes ParseCVQualifiers"
  by (auto simp: consumes_def ParseCVQualifiers_def Let_def split: if_splits
      dest!: c_hd_nonempty intro: drop_less drop_less')

lemma consumes_builtin_loop:
  "builtin_loop ps st = Some st' \<Longrightarrow> (\<And>p. p \<in> set ps \<Longrightarrow> c_hd (abbrev p) \<noteq> NUL) \<Longrightarrow>
   left st' < left st"
  by (induction ps) (auto simp: Let_def drop_less split: if_splits)

lemma consumes_BuiltinType [consume_rules]: "consumes ParseBuiltinType"
proof -
  have 1: "\<And>p. p \<in> set kBuiltinTypeList \<Longrightarrow> c_hd (abbrev p) \<noteq> NUL"
    by (auto simp: kBuiltinTypeList_def abbrevs_of_def)
  have 2: "consumes (\<lambda>st. tries st [all_of [ParseOneCharToken CHR ''u'', ParseSourceName]] st)"
    by (intro consume_rules) (simp, intro consume_rules parser_rules, simp)
  show ?thesis
    unfolding ParseBuiltinType_def
    by (rule consumesI) (auto simp del: tries.simps split: option.splits
        dest: consumes_builtin_loop[OF _ 1] consumesD[OF 2])
qed

lemma consumes_TemplateParam [consume_rules]: "consumes ParseTemplateParam"
  unfolding ParseTemplateParam_def
  by (intro consume_rules parser_rules fw.keeps_tries)
    (simp_all, (intro consume_rules conjI parser_rules; simp)+)

lemma consumes_operator_table [consume_rules]: "consumes operator_table"
proof -
  have "operator_loop ps st = Some (True, st') \<Longrightarrow> c_hd (mangled_cur st) \<noteq> NUL \<Longrightarrow>
      left st' < left st" for ps st st'
    by (induction ps) (auto simp: Let_def drop_less split: if_splits)
  moreover have "is_lower c \<Longrightarrow> c \<noteq> NUL" for c by auto
  ultimately show ?thesis
    by (auto simp: consumes_def operator_table_def split: if_splits)
qed

lemma consumes_Substitution [consume_rules]: "consumes ParseSubstitution"
  unfolding ParseSubstitution_def
  by (intro consume_rules parser_rules fw.keeps_tries)
    (simp_all, (intro consume_rules conjI parser_rules; simp)+)

lemma consumes_TemplateTemplateParam [consume_rules]: "consumes ParseTemplateTemplateParam"
  unfolding ParseTemplateTemplateParam_def by (intro consume_rules parser_rules)

subsection \<open>Consumption by the grammar\<close>

locale consuming_calls =
  fixes call :: calls
  assumes fwd: "keeps forward (call nt)"
    and cons: "nt \<noteq> Prefix \<Longrightarrow> consumes (call nt)"
begin

lemma consumes_ParseType: "consumes (ParseType call)"
proof -
  have last: "consumes (\<lambda>copy. any_of [ParseBuiltinType, call FunctionType, call ClassEnumType,
      call ArrayType, call PointerToMemberType, ParseSubstitution,
      \<lambda>st. (case all_of [ParseTemplateTemplateParam, call TemplateArgs] st of
          None \<Rightarrow> None
        | Some (b, st') \<Rightarrow> if b then Some (True, st')
            else ParseTemplateParam (restore copy st'))] copy)" (is "consumes ?p")
  proof (rule consumesI)
    fix copy st' assume p: "?p copy = Some (True, st')"
    define q1 where "q1 = any_of [ParseBuiltinType, call FunctionType, call ClassEnumType,
      call ArrayType, call PointerToMemberType, ParseSubstitution]"
    define q2 where "q2 = all_of [ParseTemplateTemplateParam, call TemplateArgs]"
    have k1: "consumes q1" and k2: "consumes q2" and f1: "keeps forward q1"
      unfolding q1_def q2_def by (intro consume_rules parser_rules fwd cons; simp)+
    have p': "?p copy = (case q1 copy of None \<Rightarrow> None | Some (b, st1) \<Rightarrow>
        if b then Some (True, st1) else (case q2 st1 of None \<Rightarrow> None
          | Some (b, st2) \<Rightarrow> if b then Some (True, st2)
              else ParseTemplateParam (restore copy st2)))"
      unfolding q1_def q2_def by (auto simp del: all_of.simps split: option.splits if_splits)
    obtain b st1 where q1: "q1 copy = Some (b, st1)"
      using p unfolding p' by (auto split: option.splits)
    show "left st' < left copy"
    proof (cases b)
      case True
      with p q1 show ?thesis unfolding p' by (auto dest: consumesD[OF k1])
    next
      case False
      with p q1 fwD[OF f1 q1] show ?thesis
        unfolding p' by (auto split: option.splits if_splits
            dest!: consumesD[OF k2] consumesD[OF consumes_TemplateParam])
    qed
  qed
  show ?thesis
    unfolding ParseType_def
    by (intro consumes_or_restore last consume_rules parser_rules fwd cons; simp)
qed

lemma consumes_ParseOperatorName: "consumes (ParseOperatorName call)"
proof -
  have "consumes (or_restore
       (all_of [ParseTwoCharToken ''cv'', act (MaybeAppend ''operator ''),
              act EnterNestedName, call Type, act (LeaveNestedName v)])
       (or_restore
         (all_of [ParseOneCharToken CHR ''v'', ParseCharClass ''0123456789'', ParseSourceName])
         operator_table))" (is "consumes (?p v)") for v
    by (intro consume_rules parser_rules fwd; simp)
  then show ?thesis
    unfolding ParseOperatorName_def
    by (intro consumesI) (metis consumesD option.inject prod.inject)
qed

lemma consumes_ParseExpression: "consumes (ParseExpression call)"
  unfolding ParseExpression_def Let_def
  by (intro consume_rules parser_rules fwd cons consumes_guarded fw.keeps_expression_tail)
    (simp_all, (intro consume_rules conjI parser_rules fwd cons; simp)+)

lemma consumes_ParseTemplateArg: "consumes (ParseTemplateArg call)"
  unfolding ParseTemplateArg_def Let_def
  by (intro consumes_guarded consume_rules)
    (simp; intro consume_rules conjI parser_rules fwd cons; simp)+

lemma consumes_ParseLocalName: "consumes (ParseLocalName call)"
  unfolding ParseLocalName_def Let_def
  by (intro consumes_guarded consume_rules)
    (simp; intro consume_rules conjI parser_rules fwd cons; simp)+

lemma consumes_alternatives:
  "consumes (ParseUnscopedName call)"
  "consumes (ParseNestedName call)" "consumes (ParseSpecialName call)"
  "consumes (ParseFunctionType call)"
  "consumes (ParseArrayType call)" "consumes (ParsePointerToMemberType call)"
  "consumes (ParseExprPrimary call)"
  unfolding ParseUnscopedName_def ParseNestedName_def ParseSpecialName_def
    ParseFunctionType_def ParseArrayType_def ParsePointerToMemberType_def ParseExprPrimary_def
  by (intro consume_rules parser_rules fw.keeps_tries fwd cons; simp;
      intro conjI consume_rules parser_rules fwd cons; simp)+

lemma consumes_appending:
  "consumes (ParseBareFunctionType call)" "consumes (ParseTemplateArgs call)"
  unfolding ParseBareFunctionType_def ParseTemplateArgs_def
  by (intro consume_rules; simp; intro consumes_all_later consumes_all_first
      consumes_OneOrMore consumes_OneChar parser_rules fwd cons; simp)+

lemma consumes_sequences:
  "consumes (ParseEncoding call)" "consumes (ParseMangledName call)" "consumes (ParseName call)"
  "consumes (ParseUnscopedTemplateName call)" "consumes (ParseUnqualifiedName call)"
  "consumes (ParseClassEnumType call)"
  unfolding ParseEncoding_def ParseMangledName_def ParseName_def ParseUnscopedTemplateName_def
    ParseUnqualifiedName_def ParseClassEnumType_def
  by (intro consume_rules parser_rules fwd cons; simp)+

lemma consumes_body: "nt \<noteq> Prefix \<Longrightarrow> consumes (body call nt)"
  by (cases nt; simp only: body.simps; (simp; fail)?;
      intro consumes_alternatives consumes_appending consumes_sequences
        consumes_ParseOperatorName consumes_ParseType consumes_ParseExpression
        consumes_ParseTemplateArg consumes_ParseLocalName)

end

lemma consumes_run: "nt \<noteq> Prefix \<Longrightarrow> consumes (run n nt)"
proof (induction n arbitrary: nt)
  case (Suc n)
  have "consuming_calls (run n)"
    by unfold_locales (auto intro: fw.keeps_run Suc.IH)
  moreover have "run (Suc n) nt = body (run n) nt" by (simp add: fun_eq_iff)
  ultimately show ?case by (simp add: consuming_calls.consumes_body[OF _ Suc.prems])
qed (simp add: consumes_def)

interpretation rc: consuming_calls "run n" for n
  by unfold_locales (auto intro: fw.keeps_run consumes_run)

subsection \<open>Leaf parsers always return\<close>

lemma tot_act [tot_rules]: "tot k (act f)"
  by (simp add: tot_def act_def)

lemma tot_all_Nil [tot_rules]: "tot k (all_of [])"
  by (simp add: tot_def)

lemma tot_all [tot_rules]:
  assumes "tot k p" "keeps forward p" "tot k (all_of ps)"
  shows "tot k (all_of (p # ps))"
proof (rule totI)
  fix st :: State assume st: "left st < k"
  then obtain b st' where p: "p st = Some (b, st')" using totE[OF assms(1)] by blast
  then have "left st' < k" using fwD[OF assms(2)] st by (meson le_less_trans)
  then show "all_of (p # ps) st \<noteq> None"
    using p totD[OF assms(3), of st'] by (cases b) auto
qed

lemma tot_all_consume:
  assumes "consumes p" "tot (Suc k) p" "tot k (all_of ps)"
  shows "tot (Suc k) (all_of (p # ps))"
proof (rule totI)
  fix st :: State assume "left st < Suc k"
  with assms(2) obtain b st' where p: "p st = Some (b, st')" by (blast dest: totE)
  show "all_of (p # ps) st \<noteq> None"
    using p consumesD[OF assms(1), of st st'] totD[OF assms(3), of st'] \<open>left st < Suc k\<close>
    by (cases b) auto
qed

lemma tot_any_Nil [tot_rules]: "tot k (any_of [])"
  by (simp add: tot_def)

lemma tot_any [tot_rules]:
  assumes "tot k p" "keeps forward p" "tot k (any_of ps)"
  shows "tot k (any_of (p # ps))"
proof (rule totI)
  fix st :: State assume st: "left st < k"
  then obtain b st' where p: "p st = Some (b, st')" using totE[OF assms(1)] by blast
  then have "left st' < k" using fwD[OF assms(2)] st by (meson le_less_trans)
  then show "any_of (p # ps) st \<noteq> None"
    using p totD[OF assms(3), of st'] by (cases b) auto
qed

lemma tot_tries_from:
  "(\<And>p. p \<in> set ps \<Longrightarrow> tot k p) \<Longrightarrow> left copy < k \<Longrightarrow> left st < k \<Longrightarrow>
   tries copy ps st \<noteq> None"
proof (induction ps arbitrary: st)
  case (Cons p ps)
  then obtain b st' where p: "p st = Some (b, st')" by (meson totE list.set_intros(1))
  show ?case
    using p Cons.IH[of "restore copy st'"] Cons.prems by (cases b) auto
qed simp

lemma tot_tries [tot_rules]:
  "(\<And>copy. list_all (tot k) (ps copy)) \<Longrightarrow> tot k (\<lambda>st. tries st (ps st) st)"
  by (rule totI, rule tot_tries_from) (auto simp: list_all_iff)

lemma tot_or_restore [tot_rules]:
  assumes "tot k p" "tot k q"
  shows "tot k (or_restore p q)"
proof (rule totI)
  fix st :: State assume st: "left st < k"
  then obtain b st' where p: "p st = Some (b, st')" using totE[OF assms(1)] by blast
  then show "or_restore p q st \<noteq> None"
    using totD[OF assms(2), of "restore st st'"] st by (cases b) (auto simp: or_restore_def)
qed

lemma tot_guarded:
  assumes q: "tot k (\<lambda>st. tries st ps st)" and f: "\<And>st. left (f st) = left st"
  shows "tot k (\<lambda>st. if g st then Some (False, st) else tries (f st) ps (f st))"
  by (rule totI) (simp add: totD[OF q] f del: not_None_eq)

lemma tot_Optional [tot_rules]: "tot k p \<Longrightarrow> tot k (Optional p)"
  by (rule totI) (auto simp: Optional_def dest!: totE)

lemma repeat_parse_returns:
  "tot k p \<Longrightarrow> consumes p \<Longrightarrow> left st < k \<Longrightarrow> left st < n \<Longrightarrow> repeat_parse n p st \<noteq> None"
proof (induction n arbitrary: st)
  case (Suc n)
  then obtain b st' where p: "p st = Some (b, st')" by (meson totE)
  show ?case
    using p consumesD[OF Suc.prems(2), of st st'] Suc.IH[of st'] Suc.prems by (cases b) auto
qed simp

lemma tot_ZeroOrMore [tot_rules]: "tot k p \<Longrightarrow> consumes p \<Longrightarrow> tot k (ZeroOrMore p)"
  by (rule totI) (simp add: ZeroOrMore_def repeat_parse_returns del: repeat_parse.simps)

lemma tot_OneOrMore [tot_rules]:
  "tot k p \<Longrightarrow> consumes p \<Longrightarrow> keeps forward p \<Longrightarrow> tot k (OneOrMore p)"
  unfolding OneOrMore_def by (intro tot_rules parser_rules)

lemma tot_tokens [tot_rules]:
  "tot k (ParseOneCharToken c)" "tot k (ParseTwoCharToken t)" "tot k ParseNumber"
  "tot k (span_parser P)" "tot k (ParseIdentifier len)" "tot k ParseCVQualifiers"
  by (auto simp: tot_def ParseOneCharToken_def ParseTwoCharToken_def ParseNumber_def
      span_parser_def ParseIdentifier_def ParseCVQualifiers_def Let_def split: prod.splits)

lemma tot_CharClass [tot_rules]: "tot k (ParseCharClass cs)"
proof (rule totI)
  show "ParseCharClass cs st \<noteq> None" for st by (induction cs) auto
qed

lemma tot_loops [tot_rules]: "tot k (subst_loop ps)" "tot k operator_table"
proof -
  have "subst_loop ps st \<noteq> None" "operator_loop ps st \<noteq> None" for ps st
    by (induction ps) (auto simp: Let_def)
  then show "tot k (subst_loop ps)" "tot k operator_table"
    by (auto simp: tot_def operator_table_def simp del: not_None_eq)
qed

lemma tot_SourceName [tot_rules]: "tot k ParseSourceName"
proof -
  have "tot k (\<lambda>st. case ParseNumber_out st of (b, st', number_out) \<Rightarrow>
        if b then ParseIdentifier (case number_out of None \<Rightarrow> -1 | Some k \<Rightarrow> k) st'
        else Some (False, st'))"
    by (rule totI) (auto split: prod.splits simp: ParseIdentifier_def Let_def)
  then show ?thesis unfolding ParseSourceName_def by (intro tot_rules) simp
qed

lemma tot_Discriminator [tot_rules]: "tot k ParseDiscriminator"
  unfolding ParseDiscriminator_def by (intro tot_rules) (simp, intro tot_rules parser_rules)

lemma tot_LocalSourceName [tot_rules]: "tot k ParseLocalSourceName"
  unfolding ParseLocalSourceName_def by (intro tot_rules) (simp, intro tot_rules parser_rules)

lemma tot_AbiTag [tot_rules]: "tot k ParseAbiTag"
  unfolding ParseAbiTag_def by (intro tot_rules parser_rules)

lemma tot_AbiTags [tot_rules]: "tot k ParseAbiTags"
  unfolding ParseAbiTags_def
  by (intro tot_rules) (simp, intro tot_rules parser_rules consume_rules)

lemma tot_VOffset [tot_rules]: "tot k ParseVOffset"
  unfolding ParseVOffset_def by (intro tot_rules) (simp, intro tot_rules parser_rules)

lemma tot_CtorDtor [tot_rules]: "tot k ParseCtorDtorName"
  unfolding ParseCtorDtorName_def
  by (intro tot_rules) (simp, intro conjI tot_rules parser_rules)

lemma tot_Float [tot_rules]: "tot k ParseFloatNumber" and tot_SeqId [tot_rules]: "tot k ParseSeqId"
  unfolding ParseFloatNumber_def ParseSeqId_def by (intro tot_rules)+

lemma tot_TemplateParam [tot_rules]: "tot k ParseTemplateParam"
  unfolding ParseTemplateParam_def
  by (intro tot_rules parser_rules fw.keeps_tries; simp; intro tot_rules parser_rules)

lemma tot_Substitution [tot_rules]: "tot k ParseSubstitution"
  unfolding ParseSubstitution_def
  by (intro tot_rules parser_rules fw.keeps_tries; simp; intro conjI tot_rules parser_rules)

lemma tot_CallOffset [tot_rules]: "tot k ParseCallOffset"
  unfolding ParseCallOffset_def ParseNVOffset_def
  by (intro tot_rules; simp; intro conjI tot_rules parser_rules)

lemma tot_TemplateTemplateParam [tot_rules]: "tot k ParseTemplateTemplateParam"
  unfolding ParseTemplateTemplateParam_def by (intro tot_rules parser_rules)

lemma tot_BuiltinType [tot_rules]: "tot k ParseBuiltinType"
proof -
  have "tot k (\<lambda>st. tries st [all_of [ParseOneCharToken CHR ''u'', ParseSourceName]] st)"
    by (intro tot_rules) (simp, intro tot_rules parser_rules)
  then show ?thesis
    unfolding ParseBuiltinType_def tot_def by (auto split: option.split simp del: tries.simps)
qed

subsection \<open>The grammar always returns\<close>

fun rank :: "NT \<Rightarrow> nat" where
  "rank UnqualifiedName = 1"
| "rank Expression = 1"
| "rank UnscopedName = 2"
| "rank UnscopedTemplateName = 3"
| "rank Prefix = 3"
| "rank Name = 4"
| "rank Encoding = 5"
| "rank ClassEnumType = 5"
| "rank Type = 6"
| "rank BareFunctionType = 7"
| "rank TemplateArg = 7"
| "rank _ = 0"

lemma rank_le: "rank nt \<le> 7"
  by (cases nt) auto

text \<open>
  \<open>k\<close> bounds what is left after the first character is consumed: from there on every call
  returns, and before it the calls to a non-terminal of rank below \<open>r\<close> return.
\<close>

locale ranked_calls = consuming_calls +
  fixes k r :: nat
  assumes later: "tot k (call nt)"
    and here: "rank nt < r \<Longrightarrow> tot (Suc k) (call nt)"
begin

lemmas here_rules = tot_all_consume[where k = k] tot_any_Nil[where k = "Suc k"]
  tot_any[where k = "Suc k"] tot_tries[where k = "Suc k"] tot_or_restore[where k = "Suc k"]
  tot_guarded[where k = "Suc k"] tot_tokens[where k = "Suc k"]
  tot_CharClass[where k = "Suc k"] tot_loops[where k = "Suc k"]
  tot_SourceName[where k = "Suc k"] tot_LocalSourceName[where k = "Suc k"]
  tot_CtorDtor[where k = "Suc k"] tot_TemplateParam[where k = "Suc k"]
  tot_Substitution[where k = "Suc k"] tot_TemplateTemplateParam[where k = "Suc k"]
  tot_BuiltinType[where k = "Suc k"]

lemmas side_rules = consume_rules parser_rules fw.keeps_tries fwd cons

lemma tot_alternatives:
  "r = 2 \<Longrightarrow> tot (Suc k) (ParseUnscopedName call)"
  "tot (Suc k) (ParseNestedName call)"
  "tot (Suc k) (ParseFunctionType call)"
  "tot (Suc k) (ParseArrayType call)"
  "tot (Suc k) (ParsePointerToMemberType call)"
  "tot (Suc k) (ParseExprPrimary call)"
  "tot (Suc k) (ParseSpecialName call)"
  unfolding ParseUnscopedName_def ParseNestedName_def ParseSpecialName_def
    ParseFunctionType_def ParseArrayType_def ParsePointerToMemberType_def ParseExprPrimary_def
  by (intro here_rules side_rules; simp?; intro conjI here_rules side_rules here; (simp; fail)?;
      intro tot_rules later side_rules; simp)+

lemma tot_sequences:
  "r = 5 \<Longrightarrow> tot (Suc k) (ParseEncoding call)"
  "tot (Suc k) (ParseMangledName call)"
  "r = 4 \<Longrightarrow> tot (Suc k) (ParseName call)"
  "r = 3 \<Longrightarrow> tot (Suc k) (ParseUnscopedTemplateName call)"
  "r = 1 \<Longrightarrow> tot (Suc k) (ParseUnqualifiedName call)"
  "r = 5 \<Longrightarrow> tot (Suc k) (ParseClassEnumType call)"
  unfolding ParseEncoding_def ParseMangledName_def ParseName_def ParseUnscopedTemplateName_def
    ParseUnqualifiedName_def ParseClassEnumType_def
  by (intro here_rules side_rules here; (simp; fail)?; intro tot_rules later side_rules; simp)+

lemma tot_appending:
  "r = 7 \<Longrightarrow> tot (Suc k) (ParseBareFunctionType call)"
  "tot (Suc k) (ParseTemplateArgs call)"
proof -
  assume r: "r = 7"
  show "tot (Suc k) (ParseBareFunctionType call)"
    unfolding ParseBareFunctionType_def
    by (intro here_rules; simp; intro tot_all tot_all_Nil tot_act tot_OneOrMore here
        parser_rules fwd cons; simp add: r)
next
  have "tot (Suc k) (all_of [ParseOneCharToken CHR ''I'', OneOrMore (call TemplateArg),
      ParseOneCharToken CHR ''E'', act (RestoreAppend v), act (MaybeAppend ''<>'')])" for v
    by (intro here_rules side_rules; (simp; fail)?; intro tot_rules later side_rules; simp)
  note * = tot_all[OF tot_act fw.keeps_DisableAppend this]
  show "tot (Suc k) (ParseTemplateArgs call)"
    unfolding ParseTemplateArgs_def by (intro here_rules) (simp, rule *)
qed

lemma tot_ParseOperatorName: "tot (Suc k) (ParseOperatorName call)"
proof -
  have "tot (Suc k) (or_restore
       (all_of [ParseTwoCharToken ''cv'', act (MaybeAppend ''operator ''),
              act EnterNestedName, call Type, act (LeaveNestedName v)])
       (or_restore
         (all_of [ParseOneCharToken CHR ''v'', ParseCharClass ''0123456789'', ParseSourceName])
         operator_table))" (is "tot (Suc k) (?p v)") for v
    by (intro here_rules side_rules; (simp; fail)?; intro tot_rules later side_rules; simp)
  then show ?thesis
    unfolding ParseOperatorName_def
    by (intro totI) (metis (no_types, lifting) option.distinct(1) totD)
qed

lemma tot_ParseExpression: "r = 1 \<Longrightarrow> tot (Suc k) (ParseExpression call)"
  unfolding ParseExpression_def Let_def
  by (intro here_rules side_rules fw.keeps_expression_tail here; simp;
      intro conjI here_rules side_rules here; (simp; fail)?;
      intro tot_rules later side_rules; simp)

lemma tot_ParseTemplateArg: "r = 7 \<Longrightarrow> tot (Suc k) (ParseTemplateArg call)"
  unfolding ParseTemplateArg_def Let_def
  by (intro here_rules; simp;
      intro conjI here_rules side_rules here; (simp; fail)?;
      intro tot_rules later side_rules; simp)

lemma tot_ParseLocalName: "tot (Suc k) (ParseLocalName call)"
  unfolding ParseLocalName_def Let_def
  by (intro here_rules; simp;
      intro conjI here_rules side_rules here; (simp; fail)?;
      intro tot_rules later side_rules; simp)

lemma tot_ParseType: 
  assumes r: "r = 6"
  shows "tot (Suc k) (ParseType call)"
proof -
  have last: "tot (Suc k) (\<lambda>copy. any_of [ParseBuiltinType, call FunctionType, call ClassEnumType,
      call ArrayType, call PointerToMemberType, ParseSubstitution,
      \<lambda>st. (case all_of [ParseTemplateTemplateParam, call TemplateArgs] st of
          None \<Rightarrow> None
        | Some (b, st') \<Rightarrow> if b then Some (True, st')
            else ParseTemplateParam (restore copy st'))] copy)" (is "tot _ ?p")
  proof (rule totI)
    fix copy :: State assume len: "left copy < Suc k"
    define q1 where "q1 = any_of [ParseBuiltinType, call FunctionType, call ClassEnumType,
      call ArrayType, call PointerToMemberType, ParseSubstitution]"
    define q2 where "q2 = all_of [ParseTemplateTemplateParam, call TemplateArgs]"
    have t1: "tot (Suc k) q1" and t2: "tot (Suc k) q2" and f1: "keeps forward q1"
      unfolding q1_def q2_def
      by (intro here_rules side_rules here; (simp add: r; fail)?;
          intro tot_rules later side_rules; simp)+
    have p': "?p copy = (case q1 copy of None \<Rightarrow> None | Some (b, st1) \<Rightarrow>
        if b then Some (True, st1) else (case q2 st1 of None \<Rightarrow> None
          | Some (b, st2) \<Rightarrow> if b then Some (True, st2)
              else ParseTemplateParam (restore copy st2)))"
      unfolding q1_def q2_def by (auto simp del: all_of.simps split: option.splits if_splits)
    obtain b st1 where q1: "q1 copy = Some (b, st1)" using totE[OF t1 len] by blast
    moreover have len1: "left st1 < Suc k" using fwD[OF f1 q1] len by simp
    moreover obtain c st2 where "q2 st1 = Some (c, st2)" using totE[OF t2 len1] by blast
    ultimately show "?p copy \<noteq> None"
      unfolding p' using totD[OF tot_TemplateParam[of "Suc k"], of "restore copy st2"] len
      by auto
  qed
  show ?thesis
    unfolding ParseType_def
    by (intro tot_or_restore last here_rules side_rules; (simp; fail)?;
        intro tot_rules later side_rules; simp)
qed

text \<open>Each round of \<open>ParsePrefix\<close> consumes; after \<open>ParseTemplateArgs\<close> it starts over.\<close>

lemma prefix_loop_returns:
  assumes r: "r = 3"
  shows "left st < Suc k \<Longrightarrow> left st < n \<Longrightarrow> prefix_loop n call h st \<noteq> None"
proof (induction n arbitrary: st h)
  case (Suc n)
  define comp where "comp = any_of [ParseTemplateParam, ParseSubstitution, call UnscopedName]"
  have t: "tot (Suc k) comp" and c: "consumes comp" and f: "keeps forward comp"
    unfolding comp_def by (intro here_rules side_rules here; simp add: r)+
  have sep: "mangled_cur (MaybeAppendSeparator st) = mangled_cur st"
    by (simp add: MaybeAppendSeparator_def)
  have inc: "mangled_cur (MaybeIncreaseNestLevel st) = mangled_cur st" for st
    by (simp add: MaybeIncreaseNestLevel_def)
  obtain b st1 where 1: "comp (MaybeAppendSeparator st) = Some (b, st1)"
    using totE[OF t, of "MaybeAppendSeparator st"] Suc.prems sep by auto
  show ?case
  proof (cases b)
    case True
    with consumesD[OF c] 1 have "left st1 < left st" using sep by fastforce
    then have "prefix_loop n call True (MaybeIncreaseNestLevel st1) \<noteq> None"
      using Suc.IH[of "MaybeIncreaseNestLevel st1"] Suc.prems by (simp add: inc)
    with True 1 show ?thesis by (simp add: comp_def[symmetric] del: any_of.simps)
  next
    case False
    define st2 where "st2 = MaybeCancelLastSeparator st1"
    have len2: "left st2 < Suc k"
      using fwD[OF f 1] Suc.prems sep by (simp add: st2_def)
    obtain b' st3 where 3: "call TemplateArgs st2 = Some (b', st3)"
      using totE[OF here len2, of TemplateArgs] r by auto
    have "b' \<Longrightarrow> call Prefix st3 \<noteq> None"
      using consumesD[OF cons] 3 len2 totD[OF later, of st3] by fastforce
    with False 1 3 show ?thesis
      by (cases b') (auto simp: comp_def[symmetric] st2_def[symmetric] Let_def
          simp del: any_of.simps)
  qed
qed simp

lemma tot_ParsePrefix: "r = 3 \<Longrightarrow> tot (Suc k) (ParsePrefix call)"
  unfolding ParsePrefix_def by (intro totI prefix_loop_returns) auto

lemma tot_body: "rank nt = r \<Longrightarrow> tot (Suc k) (body call nt)"
  by (cases nt; simp only: body.simps rank.simps;
      intro tot_alternatives tot_sequences tot_appending tot_ParseOperatorName
        tot_ParseExpression tot_ParseTemplateArg tot_ParseLocalName tot_ParseType
        tot_ParsePrefix; (simp; fail)?)

end

lemma run_returns: "8 * left st + rank nt < n \<Longrightarrow> run n nt st \<noteq> None"
proof (induction n arbitrary: nt st)
  case (Suc n)
  have "ranked_calls (run n) (left st) (rank nt)"
  proof (unfold_locales, goal_cases)
    case (1 nt') show ?case
    proof (rule totI)
      fix st' :: State assume "left st' < left st"
      with rank_le[of nt'] Suc.prems have "8 * left st' + rank nt' < n" by linarith
      then show "run n nt' st' \<noteq> None" by (rule Suc.IH)
    qed
  next
    case (2 nt') show ?case
    proof (rule totI)
      fix st' :: State assume "left st' < Suc (left st)"
      with 2 Suc.prems have "8 * left st' + rank nt' < n" by linarith
      then show "run n nt' st' \<noteq> None" by (rule Suc.IH)
    qed
  qed
  from totD[OF ranked_calls.tot_body[OF this refl], of st] show ?case by simp
qed simp

interpretation bounded: ranked_calls "run (8 * k + r)" k r for k r :: nat
proof (unfold_locales, goal_cases)
  case (1 nt) show ?case
  proof (rule totI)
    fix st :: State assume "left st < k"
    with rank_le[of nt] show "run (8 * k + r) nt st \<noteq> None" by (intro run_returns) linarith
  qed
next
  case (2 nt) then show ?case by (intro totI run_returns) linarith
qed

subsection \<open>The result does not depend on the depth\<close>

definition extends :: "parser \<Rightarrow> parser \<Rightarrow> bool" where
  "extends p q = (\<forall>st r. p st = Some r \<longrightarrow> q st = Some r)"

named_theorems extend_rules

lemma extendsI: "(\<And>st r. p st = Some r \<Longrightarrow> q st = Some r) \<Longrightarrow> extends p q"
  unfolding extends_def by blast

lemma extendsD: "extends p q \<Longrightarrow> p st = Some r \<Longrightarrow> q st = Some r"
  unfolding extends_def by blast

lemma extends_refl [extend_rules]: "extends p p"
  by (simp add: extends_def)

lemma extends_all [extend_rules]:
  "extends p q \<Longrightarrow> extends (all_of ps) (all_of qs) \<Longrightarrow> extends (all_of (p # ps)) (all_of (q # qs))"
  by (auto simp: extends_def split: option.splits if_splits)

lemma extends_any [extend_rules]:
  "extends p q \<Longrightarrow> extends (any_of ps) (any_of qs) \<Longrightarrow> extends (any_of (p # ps)) (any_of (q # qs))"
  by (auto simp: extends_def split: option.splits if_splits)

lemma extends_or_restore [extend_rules]:
  "extends p p' \<Longrightarrow> extends q q' \<Longrightarrow> extends (or_restore p q) (or_restore p' q')"
  by (auto simp: extends_def or_restore_def split: option.splits if_splits)

lemma extends_tries_from:
  "list_all2 extends ps qs \<Longrightarrow> tries copy ps st = Some r \<Longrightarrow> tries copy qs st = Some r"
  by (induction ps qs arbitrary: st rule: list_all2_induct)
    (auto dest: extendsD split: option.splits if_splits)

lemma extends_tries [extend_rules]:
  "(\<And>copy. list_all2 extends (ps copy) (qs copy)) \<Longrightarrow>
   extends (\<lambda>st. tries st (ps st) st) (\<lambda>st. tries st (qs st) st)"
  by (rule extendsI) (rule extends_tries_from)

lemma extends_guarded:
  assumes "list_all2 extends ps qs"
  shows "extends (\<lambda>st. if g st then Some (False, st) else tries (f st) ps (f st))
     (\<lambda>st. if g st then Some (False, st) else tries (f st) qs (f st))"
  using extends_tries_from[OF assms] by (auto simp: extends_def)

lemma extends_Optional [extend_rules]: "extends p q \<Longrightarrow> extends (Optional p) (Optional q)"
  by (auto simp: extends_def Optional_def split: option.splits)

lemma extends_ZeroOrMore [extend_rules]:
  assumes pq: "extends p q"
  shows "extends (ZeroOrMore p) (ZeroOrMore q)"
proof -
  have "repeat_parse n p st = Some r \<Longrightarrow> repeat_parse n q st = Some r" for n st r
    by (induction n arbitrary: st) (auto dest: extendsD[OF pq] split: option.splits if_splits)
  then show ?thesis by (auto simp: extends_def ZeroOrMore_def simp del: repeat_parse.simps)
qed

lemma extends_OneOrMore [extend_rules]:
  "extends p q \<Longrightarrow> extends (OneOrMore p) (OneOrMore q)"
  unfolding OneOrMore_def by (intro extend_rules)

lemma extends_case:
  assumes "extends p q"
  shows "extends (\<lambda>st. case p st of None \<Rightarrow> None
      | Some (b, st') \<Rightarrow> if b then Some (True, st') else f st')
    (\<lambda>st. case q st of None \<Rightarrow> None
      | Some (b, st') \<Rightarrow> if b then Some (True, st') else f st')"
  by (rule extendsI) (auto split: option.splits dest: extendsD[OF assms])

lemma extends_copy: "(\<And>c. extends (\<lambda>st. p c st) (\<lambda>st. q c st)) \<Longrightarrow> extends (\<lambda>st. p st st) (\<lambda>st. q st st)"
  by (auto intro!: extendsI dest: extendsD)

lemma extends_prefix_loop:
  assumes call: "\<And>nt. extends (call nt) (call' nt)"
  shows "prefix_loop n call h st = Some r \<Longrightarrow> prefix_loop n call' h st = Some r"
proof (induction n arbitrary: st h)
  case (Suc n)
  have "extends (any_of [ParseTemplateParam, ParseSubstitution, call UnscopedName])
      (any_of [ParseTemplateParam, ParseSubstitution, call' UnscopedName])"
    by (intro extend_rules call)
  note comp = extendsD[OF this]
  from Suc.prems Suc.IH show ?case
    by (auto simp: Let_def simp del: any_of.simps split: option.splits if_splits
        dest!: comp extendsD[OF call])
qed simp

lemma extends_body:
  assumes call: "\<And>nt. extends (call nt) (call' nt)"
  shows "extends (body call nt) (body call' nt)"
proof (cases nt)
  case Prefix
  then show ?thesis
    unfolding Prefix body.simps ParsePrefix_def
    by (intro extendsI) (rule extends_prefix_loop[OF call])
next
  case Type
  have "extends (\<lambda>st. any_of [ParseBuiltinType, call FunctionType, call ClassEnumType,
      call ArrayType, call PointerToMemberType, ParseSubstitution,
      \<lambda>st. (case all_of [ParseTemplateTemplateParam, call TemplateArgs] st of
         None \<Rightarrow> None
       | Some (b, st') \<Rightarrow> if b then Some (True, st')
           else ParseTemplateParam (restore copy st'))] st)
    (\<lambda>st. any_of [ParseBuiltinType, call' FunctionType, call' ClassEnumType,
      call' ArrayType, call' PointerToMemberType, ParseSubstitution,
      \<lambda>st. (case all_of [ParseTemplateTemplateParam, call' TemplateArgs] st of
         None \<Rightarrow> None
       | Some (b, st') \<Rightarrow> if b then Some (True, st')
           else ParseTemplateParam (restore copy st'))] st)" for copy
    by (intro extend_rules extends_case call)
  note last = extends_copy[OF this]
  show ?thesis
    unfolding Type body.simps ParseType_def
    by (intro extends_or_restore last) (intro extend_rules call)+
next
  case OperatorName
  have *: "extends (or_restore
       (all_of [ParseTwoCharToken ''cv'', act (MaybeAppend ''operator ''),
              act EnterNestedName, call Type, act (LeaveNestedName v)]) q)
     (or_restore
       (all_of [ParseTwoCharToken ''cv'', act (MaybeAppend ''operator ''),
              act EnterNestedName, call' Type, act (LeaveNestedName v)]) q)" for v q
    by (intro extend_rules call)
  show ?thesis
    unfolding OperatorName body.simps ParseOperatorName_def
  proof (rule extendsI)
    fix st r
    assume "(if \<not> AtLeastNumCharsRemaining (mangled_cur st) 2 then Some (False, st)
       else or_restore (all_of [ParseTwoCharToken ''cv'', act (MaybeAppend ''operator ''),
              act EnterNestedName, call Type, act (LeaveNestedName (nest_level st))])
         (or_restore (all_of [ParseOneCharToken CHR ''v'', ParseCharClass ''0123456789'',
              ParseSourceName]) operator_table) st) = Some r"
    then show "(if \<not> AtLeastNumCharsRemaining (mangled_cur st) 2 then Some (False, st)
       else or_restore (all_of [ParseTwoCharToken ''cv'', act (MaybeAppend ''operator ''),
              act EnterNestedName, call' Type, act (LeaveNestedName (nest_level st))])
         (or_restore (all_of [ParseOneCharToken CHR ''v'', ParseCharClass ''0123456789'',
              ParseSourceName]) operator_table) st) = Some r"
      using extendsD[OF *] by (auto split: if_splits)
  qed
qed (simp only: body.simps ParseMangledName_def ParseEncoding_def ParseName_def
    ParseUnscopedName_def ParseUnscopedTemplateName_def ParseNestedName_def
    ParseUnqualifiedName_def ParseSpecialName_def ParseFunctionType_def ParseClassEnumType_def
    ParseBareFunctionType_def ParseArrayType_def ParsePointerToMemberType_def
    ParseTemplateArgs_def ParseTemplateArg_def ParseExpression_def ParseExprPrimary_def
    ParseLocalName_def Let_def;
    intro extend_rules extends_guarded call; simp?; intro conjI extend_rules call)+

lemma run_mono_Suc: "extends (run n nt) (run (Suc n) nt)"
proof (induction n arbitrary: nt)
  case (Suc n)
  have "run (Suc m) nt = body (run m) nt" for m by (simp add: fun_eq_iff)
  then show ?case using extends_body[of "run n" "run (Suc n)" nt, OF Suc] by simp
qed (simp add: extends_def)

lemma run_mono: "m \<le> n \<Longrightarrow> extends (run m nt) (run n nt)"
proof (induction rule: dec_induct)
  case (step n)
  show ?case
    by (intro extendsI) (rule extendsD[OF run_mono_Suc extendsD[OF step.IH]])
qed (rule extends_refl)

lemma run_stable:
  assumes "8 * left st + rank nt < m" "8 * left st + rank nt < n"
  shows "run m nt st = run n nt st"
proof -
  obtain r s where r: "run m nt st = Some r" and s: "run n nt st = Some s"
    using run_returns[OF assms(1)] run_returns[OF assms(2)] by auto
  have "run (max m n) nt st = Some r" "run (max m n) nt st = Some s"
    by (rule extendsD[OF run_mono r], simp) (rule extendsD[OF run_mono s], simp)
  with r s show ?thesis by simp
qed

text \<open>The bound of \<open>Demangle\<close> is above the one \<open>run_returns\<close> asks for.\<close>

lemma left_Init: "left (InitState mangled out) = length mangled"
  by (simp add: InitState_def)

lemma demangle_state_returns: "demangle_state mangled out \<noteq> None"
proof -
  have "run (depth_bound mangled) MangledName (InitState mangled out) \<noteq> None"
    by (rule run_returns) (simp add: left_Init depth_bound_def)
  then show ?thesis
    unfolding demangle_state_def ParseTopLevelMangledName_def by (auto split: option.split)
qed

end
