(* ===== verification/Demangle_Safe.thy ===== *)
theory Demangle_Safe
  imports Demangle_Total
begin

section \<open>The demangler: the output buffer and the recursion levels\<close>

text \<open>
  Two more relations for the program logic of theory \<open>Demangle_Rules\<close>. \<open>buffer_ok\<close>: with a
  buffer of \<open>out_size\<close> bytes no store leaves it, its size stays, and its last byte is never
  written with anything but NUL. \<open>levels_ok\<close>: the three recursion counters stay within
  \<open>0 .. max_levels + 1\<close>, and no call leaves one lower than it was.
\<close>

subsection \<open>The output buffer\<close>

definition wf_buf :: "State \<Rightarrow> bool" where
  "wf_buf st = (\<not> out_null st \<and> out_end st = length (out_buf st) \<and> \<not> oob_write st \<and>
     (out_cur st < out_end st \<or> out_cur st = 0 \<and> out_end st = 0))"

definition last_kept :: "string \<Rightarrow> string \<Rightarrow> bool" where
  "last_kept old new = (length new = length old \<and>
     (old \<noteq> [] \<longrightarrow> last new = last old \<or> last new = NUL))"

definition buffer_ok :: "State \<Rightarrow> State \<Rightarrow> bool" where
  "buffer_ok st st' = (wf_buf st \<longrightarrow> wf_buf st' \<and> last_kept (out_buf st) (out_buf st'))"

lemma last_kept_refl [simp]: "last_kept b b"
  by (simp add: last_kept_def)

lemma last_kept_trans: "last_kept a b \<Longrightarrow> last_kept b c \<Longrightarrow> last_kept a c"
  by (auto simp: last_kept_def)

lemma last_kept_NUL: "last_kept b (b[i := NUL])"
  by (cases "i < length b") (auto simp: last_kept_def last_list_update)

lemma last_kept_inner: "Suc i < length b \<Longrightarrow> last_kept b (b[i := c])"
  by (simp add: last_kept_def last_list_update_other)

lemma append_loop_ok:
  "wf_buf st \<Longrightarrow> wf_buf (append_loop n i s st) \<and>
   last_kept (out_buf st) (out_buf (append_loop n i s st))"
proof (induction n i s st rule: append_loop.induct)
  case (2 n i str st)
  show ?case
  proof (cases "out_cur st + 1 < out_end st")
    case True
    show ?thesis
    proof (cases "src_at st str i")
      case None
      with 2 True show ?thesis by (simp add: wf_buf_def)
    next
      case (Some c)
      define st1 where "st1 = (put c st)\<lparr>out_cur := Suc (out_cur st)\<rparr>"
      have "wf_buf st1 \<and> last_kept (out_buf st) (out_buf st1)"
        using 2(2) True by (simp add: st1_def wf_buf_def put_def last_kept_inner)
      with 2(1)[OF True Some] True Some show ?thesis
        by (auto simp: st1_def intro: last_kept_trans)
    qed
  qed (use 2 in \<open>auto simp: wf_buf_def\<close>)
qed simp

lemma append_loop_empty:
  "0 < n \<Longrightarrow> \<not> overflowed (append_loop n i s st) \<Longrightarrow> out_cur st < out_end st"
  by (cases n) (auto split: if_splits)

lemma put_NUL_ok: "out_cur st < out_end st \<Longrightarrow> buffer_ok st (put NUL st)"
  by (simp add: buffer_ok_def wf_buf_def put_def last_kept_NUL)

lemma Append_ok: "0 < len \<Longrightarrow> buffer_ok st (Append s len st)"
proof -
  assume len: "0 < len"
  define st1 where "st1 = append_loop (nat len) 0 s st"
  have frame1: "out_end st1 = out_end st"
    using frame_append_loop[of "nat len" 0 s st] by (simp add: frame_def st1_def)
  show ?thesis
    unfolding buffer_ok_def
  proof
    assume wf: "wf_buf st"
    from append_loop_ok[OF wf, of "nat len" 0 s]
    have 1: "wf_buf st1" "last_kept (out_buf st) (out_buf st1)" by (simp_all add: st1_def)
    have A: "Append s len st = (if \<not> overflowed st1 then put NUL st1 else st1)"
      using wf by (simp add: Append_def st1_def Let_def wf_buf_def)
    show "wf_buf (Append s len st) \<and> last_kept (out_buf st) (out_buf (Append s len st))"
    proof (cases "overflowed st1")
      case False
      then have "out_cur st < out_end st"
        using append_loop_empty[of "nat len" 0 s st] len by (simp add: st1_def)
      then have "out_cur st1 < out_end st1" using 1(1) frame1 by (auto simp: wf_buf_def)
      with put_NUL_ok[OF this] 1 False show ?thesis
        by (auto simp: A buffer_ok_def intro: last_kept_trans)
    qed (simp add: A 1)
  qed
qed

lemma buffer_ok_refl: "buffer_ok st st"
  by (simp add: buffer_ok_def)

lemma buffer_ok_trans: "buffer_ok st st' \<Longrightarrow> buffer_ok st' st'' \<Longrightarrow> buffer_ok st st''"
  by (auto simp: buffer_ok_def intro: last_kept_trans)

lemma buffer_ok_same:
  "out_buf st' = out_buf st \<Longrightarrow> out_null st' = out_null st \<Longrightarrow> out_end st' = out_end st \<Longrightarrow>
   oob_write st' = oob_write st \<Longrightarrow> out_cur st' = out_cur st \<Longrightarrow> buffer_ok st st'"
  by (auto simp: buffer_ok_def wf_buf_def)

lemma same_then_ok:
  "buffer_ok st1 st2 \<Longrightarrow>
   out_buf st1 = out_buf st \<Longrightarrow> out_null st1 = out_null st \<Longrightarrow> out_end st1 = out_end st \<Longrightarrow>
   oob_write st1 = oob_write st \<Longrightarrow> out_cur st1 = out_cur st \<Longrightarrow>
   out_buf st3 = out_buf st2 \<Longrightarrow> out_null st3 = out_null st2 \<Longrightarrow> out_end st3 = out_end st2 \<Longrightarrow>
   oob_write st3 = oob_write st2 \<Longrightarrow> out_cur st3 = out_cur st2 \<Longrightarrow> buffer_ok st st3"
  by (auto simp: buffer_ok_def wf_buf_def)

lemma output_ok: "buffer_ok st (MaybeAppendWithLength s len st)"
proof -
  have 1: "buffer_ok st (if b then st\<lparr>prev_name := p, prev_name_length := l\<rparr> else st)"
    for b p l st by (simp add: buffer_ok_same)
  have 2: "buffer_ok st (if b then Append s' 1 st else st)" for b s' st
    by (simp add: Append_ok buffer_ok_refl)
  show ?thesis
  proof (cases "State.append st \<and> 0 < len")
    case True
    show ?thesis
    proof (cases "src_at st s 0")
      case None
      with True show ?thesis by (simp add: MaybeAppendWithLength_def buffer_ok_same)
    next
      case (Some c0)
      define st1 where "st1 = (if needs_space s st then Append (Text '' '') 1 st else st)"
      define c1 where "c1 = (case src_at st1 s 0 of None \<Rightarrow> NUL | Some c \<Rightarrow> c)"
      define st2 where "st2 = (if IsAlpha c1 \<or> c1 = CHR ''_''
        then st1\<lparr>prev_name := Some (out_cur st1), prev_name_length := len\<rparr> else st1)"
      have "MaybeAppendWithLength s len st = Append s len st2"
        unfolding MaybeAppendWithLength_def Let_def st1_def[symmetric] c1_def[symmetric]
          st2_def[symmetric] using True Some by simp
      moreover have "buffer_ok st st2"
        unfolding st2_def st1_def by (rule buffer_ok_trans[OF 2 1])
      ultimately show ?thesis using True by (metis buffer_ok_trans Append_ok)
    qed
  next
    case False
    then have "MaybeAppendWithLength s len st = st"
      unfolding MaybeAppendWithLength_def by (rule if_not_P)
    then show ?thesis by (simp add: buffer_ok_refl)
  qed
qed

lemma cancel_ok: "buffer_ok st (MaybeCancelLastSeparator st)"
proof (cases "nest_level st \<ge> 1 \<and> State.append st \<and> \<not> out_null st \<and> 2 \<le> out_cur st")
  case True
  have "buffer_ok st (st\<lparr>out_cur := out_cur st - 2\<rparr>)"
    by (auto simp: buffer_ok_def wf_buf_def)
  moreover have "wf_buf st \<Longrightarrow> out_cur st - 2 < out_end st"
    using True by (auto simp: wf_buf_def)
  ultimately show ?thesis
    using True put_NUL_ok[of "st\<lparr>out_cur := out_cur st - 2\<rparr>"]
    by (auto simp: MaybeCancelLastSeparator_def buffer_ok_def intro: last_kept_trans)
next
  case False
  then show ?thesis
    by (auto simp: MaybeCancelLastSeparator_def buffer_ok_def wf_buf_def)
qed

interpretation buf: grammar_rel buffer_ok
proof (unfold_locales, goal_cases)
  case (2 st st' st'') then show ?case by (rule buffer_ok_trans)
next
  case (3 copy st)
  then show ?case by (auto simp: buffer_ok_def wf_buf_def restore_def last_kept_def)
next
  case (5 st str len) show ?case by (rule output_ok)
next
  case (6 st) show ?case by (rule cancel_ok)
next
  case (12 st st') show ?case
    by (rule same_then_ok[OF 12(2)]) (simp_all add: inc_level_defs dec_level_defs)
next
  case (13 st st') show ?case
    by (rule same_then_ok[OF 13(2)]) (simp_all add: inc_level_defs dec_level_defs)
next
  case (14 st st') show ?case
    by (rule same_then_ok[OF 14(2)]) (simp_all add: inc_level_defs dec_level_defs)
qed (auto simp: inc_level_defs dec_level_defs intro: buffer_ok_same)

subsection \<open>The recursion levels\<close>

definition level_ok :: "int \<Rightarrow> int \<Rightarrow> bool" where
  "level_ok l l' = (0 \<le> l \<and> l \<le> max_levels + 1 \<longrightarrow> l \<le> l' \<and> l' \<le> max_levels + 1)"

definition levels_ok :: "State \<Rightarrow> State \<Rightarrow> bool" where
  "levels_ok st st' = (level_ok (local_level st) (local_level st') \<and>
     level_ok (expr_level st) (expr_level st') \<and> level_ok (arg_level st) (arg_level st'))"

lemma level_ok_refl [simp]: "level_ok l l"
  by (simp add: level_ok_def)

lemma level_ok_trans: "level_ok a b \<Longrightarrow> level_ok b c \<Longrightarrow> level_ok a c"
  by (auto simp: level_ok_def)

lemma level_ok_inc: "\<not> l > max_levels \<Longrightarrow> level_ok l (inc_u32 l)"
  by (simp add: level_ok_def inc_u32_def max_levels_def)

text \<open>A decrement after the matching increment does not wrap around.\<close>

lemma level_ok_dec: "\<not> l > max_levels \<Longrightarrow> level_ok (inc_u32 l) l' \<Longrightarrow> level_ok l (dec_u32 l')"
proof (cases "0 \<le> l")
  case True
  assume l: "\<not> l > max_levels" and ok: "level_ok (inc_u32 l) l'"
  with True have "inc_u32 l = l + 1" by (simp add: inc_u32_def max_levels_def)
  with l ok True have "l + 1 \<le> l'" "l' \<le> max_levels + 1" by (auto simp: level_ok_def)
  moreover from this True have "dec_u32 l' = l' - 1" by (simp add: dec_u32_def max_levels_def)
  ultimately show ?thesis by (simp add: level_ok_def)
qed (simp add: level_ok_def)

interpretation lev: grammar_rel levels_ok
proof (unfold_locales, goal_cases)
  case (2 st st' st'')
  then show ?case unfolding levels_ok_def by (meson level_ok_trans)
qed (auto simp: levels_ok_def inc_level_defs dec_level_defs level_ok_inc level_ok_dec)

end
