(* ===== verification/Demangle_Output.thy ===== *)
theory Demangle_Output
  imports Demangle_Safe
begin

section \<open>The demangler: what it prints\<close>

text \<open>
  Functional behaviour: the value of a parsed number, the text an append leaves in the
  buffer, and the demangled form of a nested name.
\<close>

subsection \<open>Numbers\<close>

lemma number_loop_digits:
  "list_all is_digit ds \<Longrightarrow> \<not> is_digit (c_hd rest) \<Longrightarrow> 0 \<le> acc \<Longrightarrow> acc \<le> int_max \<Longrightarrow>
   number_loop (ds @ rest) acc =
     (if dec_val acc ds \<le> int_max then Some (dec_val acc ds, rest) else None)"
proof (induction ds arbitrary: acc)
  case Nil
  then show ?case by (cases rest) auto
next
  case (Cons c ds)
  define acc' where "acc' = acc * 10 + digit_val c"
  have c: "is_digit c" "c \<noteq> NUL" "0 \<le> digit_val c" "digit_val c \<le> 9"
    using Cons.prems digit_val_bounds[of c] by auto
  have "acc \<le> acc'" "0 \<le> acc'" using c Cons.prems by (auto simp: acc'_def)
  then have ge: "acc' \<le> dec_val acc' ds" using Cons.prems by (intro dec_val_ge) auto
  show ?case
  proof (cases "acc' \<le> int_max")
    case True
    then have "\<not> acc > int_max div 10" "\<not> digit_val c > int_max - acc * 10"
      using c by (auto simp: acc'_def int_max_def)
    with Cons True \<open>0 \<le> acc'\<close> c show ?thesis by (simp add: acc'_def[symmetric])
  next
    case False
    then have "acc > int_max div 10 \<or> digit_val c > int_max - acc * 10"
      by (auto simp: acc'_def)
    with c ge False show ?thesis by (auto simp: acc'_def[symmetric])
  qed
qed

lemma ParseNumber_digits:
  assumes "list_all is_digit ds" "ds \<noteq> []" "\<not> is_digit (c_hd rest)" "mangled_cur st = ds @ rest"
  shows "ParseNumber_out st =
    (if dec_val 0 ds \<le> int_max
     then (True, st\<lparr>mangled_cur := rest\<rparr>, Some (dec_val 0 ds)) else (False, st, None))"
proof -
  have "c_hd (ds @ rest) \<noteq> CHR ''n''"
    using assms(1,2) by (cases ds) (auto simp: is_digit_of_char)
  with assms number_loop_digits[OF assms(1,3), of 0] show ?thesis
    by (simp add: ParseNumber_out_def int_max_def)
qed

subsection \<open>Text appended to the buffer\<close>

text \<open>\<open>holds st t\<close>: append mode is on, nothing overflowed, and \<open>t\<close> is what was appended.\<close>

definition holds :: "State \<Rightarrow> string \<Rightarrow> bool" where
  "holds st t = (State.append st \<and> \<not> overflowed st \<and> \<not> out_null st \<and>
     out_end st = length (out_buf st) \<and> out_cur st = length t \<and> prefix t (out_buf st))"

lemma append_loop_text:
  assumes "holds st t" "length t + n < out_end st" "i + n \<le> length s"
  shows "\<exists>buf. append_loop n i (Text s) st =
      st\<lparr>out_buf := buf, out_cur := length t + n\<rparr> \<and> length buf = length (out_buf st) \<and>
    prefix (t @ take n (drop i s)) buf"
  using assms
proof (induction n arbitrary: i st t)
  case 0
  then show ?case
    by (intro exI[of _ "out_buf st"]) (auto simp: holds_def)
next
  case (Suc n)
  define st1 where "st1 = (put (s ! i) st)\<lparr>out_cur := Suc (out_cur st)\<rparr>"
  have i: "i < length s" using Suc.prems by simp
  from Suc.prems obtain u where u: "out_buf st = t @ u" by (auto simp: holds_def prefix_def)
  with Suc.prems have "u \<noteq> []" by (auto simp: holds_def)
  then have st1: "holds st1 (t @ [s ! i])"
    using Suc.prems u
    by (cases u) (auto simp: st1_def holds_def put_def list_update_append)
  have "length (t @ [s ! i]) + n < out_end st1" "out_end st1 = out_end st"
    using Suc.prems by (auto simp: st1_def put_def)
  with Suc.IH[OF st1, of "Suc i"] Suc.prems obtain buf where
    "append_loop n (Suc i) (Text s) st1 =
      st1\<lparr>out_buf := buf, out_cur := length (t @ [s ! i]) + n\<rparr>"
    "length buf = length (out_buf st1)"
    "prefix ((t @ [s ! i]) @ take n (drop (Suc i) s)) buf" by auto
  moreover have "append_loop (Suc n) i (Text s) st = append_loop n (Suc i) (Text s) st1"
    using Suc.prems i by (auto simp: st1_def holds_def c_at_def)
  moreover have "st1\<lparr>out_buf := buf, out_cur := x\<rparr> = st\<lparr>out_buf := buf, out_cur := x\<rparr>" for x
    using Suc.prems by (auto simp: st1_def put_def holds_def)
  moreover have "length (out_buf st1) = length (out_buf st)"
    by (simp add: st1_def put_def)
  ultimately show ?case
    using i by (intro exI[of _ buf]) (simp add: Cons_nth_drop_Suc[symmetric])
qed

lemma c_str_append_NUL: "c_str (s @ NUL # t) = c_str s"
  by (induction s) (auto simp: c_str_def)

lemma prefix_update: "prefix t buf \<Longrightarrow> length t \<le> i \<Longrightarrow> prefix t (buf[i := c])"
  by (auto simp: prefix_def list_update_append)

lemma holds_Append:
  assumes "holds st t" "0 \<le> len" "length t + nat len < out_end st" "nat len \<le> length s"
  shows "holds (Append (Text s) len st) (t @ take (nat len) s) \<and>
    c_str (out_buf (Append (Text s) len st)) = c_str (t @ take (nat len) s) \<and>
    length (out_buf (Append (Text s) len st)) = length (out_buf st)"
proof -
  from append_loop_text[OF assms(1,3), of 0 s] assms(4) obtain buf where
    1: "append_loop (nat len) 0 (Text s) st =
      st\<lparr>out_buf := buf, out_cur := length t + nat len\<rparr>"
    "length buf = length (out_buf st)" "prefix (t @ take (nat len) s) buf" by auto
  define buf' where "buf' = buf[length t + nat len := NUL]"
  have A: "Append (Text s) len st = st\<lparr>out_buf := buf', out_cur := length t + nat len\<rparr>"
    using assms 1 by (simp add: Append_def Let_def holds_def put_def buf'_def)
  from 1(3) obtain v where v: "buf = (t @ take (nat len) s) @ v" by (auto simp: prefix_def)
  with 1(2) assms obtain x w where "v = x # w" by (cases v) (auto simp: holds_def)
  with v assms(4) have "buf' = (t @ take (nat len) s) @ NUL # w"
    by (simp add: buf'_def list_update_append)
  then have "c_str buf' = c_str (t @ take (nat len) s)"
    by (simp add: c_str_append_NUL flip: append_assoc)
  moreover have "prefix (t @ take (nat len) s) buf'"
    using 1(3) assms(4) unfolding buf'_def by (intro prefix_update) auto
  ultimately show ?thesis
    using assms 1(2) by (simp add: A holds_def buf'_def)
qed

definition emits :: "State \<Rightarrow> State \<Rightarrow> string \<Rightarrow> bool" where
  "emits st st' t = (holds st' t \<and> frame st' = frame st)"

lemma emits_frame: "emits st st' t \<Longrightarrow> mangled_cur st' = mangled_cur st \<and>
    nest_level st' = nest_level st \<and> out_end st' = out_end st"
  by (simp add: emits_def frame_def)

lemma holds_with_length:
  assumes "holds st t" "0 < len" "length t + nat len < out_end st" "nat len \<le> length s"
    "c_hd s \<noteq> CHR ''<''"
  shows "emits st (MaybeAppendWithLength (Text s) len st) (t @ take (nat len) s)"
proof -
  define st2 where "st2 = (if IsAlpha (c_at s 0) \<or> c_at s 0 = CHR ''_''
        then st\<lparr>prev_name := Some (out_cur st), prev_name_length := len\<rparr> else st)"
  have "MaybeAppendWithLength (Text s) len st = Append (Text s) len st2"
    using assms(1,2,5) by (simp add: MaybeAppendWithLength_def needs_space_def st2_def holds_def)
  moreover have "holds st2 t" "out_end st2 = out_end st"
    using assms(1) by (simp_all add: st2_def holds_def)
  ultimately have "holds (MaybeAppendWithLength (Text s) len st) (t @ take (nat len) s)"
    using assms holds_Append[of st2 t len s] by simp
  then show ?thesis by (simp add: emits_def frame_output)
qed

lemma holds_MaybeAppend:
  assumes "holds st t" "s \<noteq> []" "length t + length s < out_end st" "c_hd s \<noteq> CHR ''<''"
  shows "emits st (MaybeAppend s st) (t @ s)"
  using assms holds_with_length[of st t "int (length s)" s]
  by (simp add: MaybeAppend_def holds_def)

subsection \<open>Nested names\<close>

definition is_ident :: "string \<Rightarrow> bool" where
  "is_ident s = (no_nul s \<and> (is_alpha (c_hd s) \<or> c_hd s = CHR ''_'') \<and>
     \<not> prefix anon_prefix s \<and> int (length s) \<le> int_max)"

definition mangled_source_name :: "string \<Rightarrow> string" where
  "mangled_source_name s = dec_str (length s) @ s"

definition mangled_nested_name :: "string list \<Rightarrow> string" where
  "mangled_nested_name names =
     ''_ZN'' @ concat (map mangled_source_name names) @ ''E''"

lemma is_ident_nonempty: "is_ident s \<Longrightarrow> s \<noteq> []"
  by (auto simp: is_ident_def)

lemma ident_not_angle: "is_ident s \<Longrightarrow> c_hd (s @ r) \<noteq> CHR ''<''"
  by (cases s) (auto simp: is_ident_def is_alpha_def is_lower_def is_upper_def less_eq_char_def)

lemma digits_hd:
  assumes "list_all is_digit ds" "ds \<noteq> []"
  shows "is_digit (c_hd (ds @ r))"
  using assms by (cases ds) auto

lemma digit_not: "is_digit c \<Longrightarrow> c \<notin> set ''TSCDLBNZ_cvEJn''"
  by (auto simp: is_digit_of_char)

text \<open>A digit starts a source name and nothing that is tried before one.\<close>

lemma restore_same: "restore st st = st"
  by (simp add: restore_def)

lemma digit_fails:
  assumes "is_digit (c_hd (mangled_cur st))"
  shows "ParseTemplateParam st = Some (False, st)" "ParseSubstitution st = Some (False, st)"
    "ParseCtorDtorName st = Some (False, st)"
    "ParseOperatorName call st = Some (False, st)"
    "ParseAbiTags (st\<lparr>append := b\<rparr>) = Some (False, st\<lparr>append := b\<rparr>)"
proof -
  have ne: "c_hd (mangled_cur st) \<noteq> c" if "c \<in> set ''TSCDLBNZ_cvEJn''" for c
    using digit_not[OF assms] that by auto
  note tok = ne[of "CHR ''T''"] ne[of "CHR ''S''"] ne[of "CHR ''C''"] ne[of "CHR ''D''"]
    ne[of "CHR ''B''"] ne[of "CHR ''c''"] ne[of "CHR ''v''"]
  show "ParseTemplateParam st = Some (False, st)" "ParseSubstitution st = Some (False, st)"
    "ParseCtorDtorName st = Some (False, st)"
    using tok by (simp_all add: ParseTemplateParam_def ParseSubstitution_def restore_same
        ParseCtorDtorName_def ParseTwoCharToken_def ParseOneCharToken_def)
  have "\<not> is_lower (c_hd (mangled_cur st))"
    using assms by (auto simp: is_lower_def is_digit_of_char less_eq_char_def)
  then show "ParseOperatorName call st = Some (False, st)"
    using tok by (simp add: ParseOperatorName_def or_restore_def restore_same operator_table_def
        ParseTwoCharToken_def ParseOneCharToken_def)
  show "ParseAbiTags (st\<lparr>append := b\<rparr>) = Some (False, st\<lparr>append := b\<rparr>)"
    using tok by (simp add: ParseAbiTags_def act_def DisableAppend_def OneOrMore_def
        ParseAbiTag_def ParseOneCharToken_def restore_def)
qed

lemma ParseSourceName_reads:
  assumes "mangled_cur st = mangled_source_name s @ rest" "is_ident s" "holds st t"
    "length t + length s < out_end st"
  shows "\<exists>st'. ParseSourceName st = Some (True, st'\<lparr>mangled_cur := rest\<rparr>) \<and>
    emits (st\<lparr>mangled_cur := s @ rest\<rparr>) st' (t @ s)"
proof -
  define st1 where "st1 = st\<lparr>mangled_cur := s @ rest\<rparr>"
  define st2 where "st2 = MaybeAppendWithLength (Text (mangled_cur st1)) (int (length s)) st1"
  have ne: "s \<noteq> []" and len: "int (length s) \<le> int_max"
    using assms(2) is_ident_nonempty by (auto simp: is_ident_def)
  have hd: "\<not> is_digit (c_hd (s @ rest))"
    using assms(2) ne
    by (cases s) (auto simp: is_ident_def is_digit_def is_alpha_def is_lower_def is_upper_def
        less_eq_char_def)
  have num: "ParseNumber_out st = (True, st1, Some (int (length s)))"
    using ParseNumber_digits[OF dec_str_digits dec_str_nonempty hd, of st "length s"] assms(1) len
    by (simp add: mangled_source_name_def dec_val_dec_str st1_def)
  have "holds st1 t" "out_end st1 = out_end st" using assms(3) by (simp_all add: st1_def holds_def)
  then have emits: "emits st1 st2 (t @ s)"
    using holds_with_length[of st1 t "int (length s)" "s @ rest"] assms(4) ne ident_not_angle[OF assms(2)]
    by (simp add: st2_def st1_def)
  have enough: "AtLeastNumCharsRemaining (s @ r) (int (length s))" if "no_nul s" for s r :: string
    using that by (induction s) (cases r; auto)+
  have anon: "\<not> IdentifierIsAnonymousNamespace st1 (int (length s))"
  proof
    assume "IdentifierIsAnonymousNamespace st1 (int (length s))"
    then have "prefix anon_prefix (s @ rest)" "length anon_prefix < length s"
      by (auto simp: IdentifierIsAnonymousNamespace_def StrPrefix_prefix st1_def)
    then have "prefix anon_prefix s"
      using prefix_length_prefix[of anon_prefix "s @ rest" s] by simp
    with assms(2) show False by (simp add: is_ident_def)
  qed
  have "ParseIdentifier (int (length s)) st1 =
      Some (True, st2\<lparr>mangled_cur := rest\<rparr>)"
    using enough[of s rest] assms(2) anon emits_frame[OF emits]
    by (simp add: ParseIdentifier_def st2_def[symmetric] Let_def is_ident_def)
      (simp add: st2_def st1_def)
  with num emits show ?thesis
    by (intro exI[of _ st2]) (simp add: ParseSourceName_def st1_def)
qed

lemma run_Suc: "run (Suc n) nt = body (run n) nt"
  by (simp add: fun_eq_iff)

lemma tags_fail:
  assumes "c_hd (mangled_cur st) \<noteq> CHR ''B''"
  shows "Optional ParseAbiTags st = Some (True, st)"
  using assms by (simp add: Optional_def ParseAbiTags_def act_def DisableAppend_def OneOrMore_def
        ParseAbiTag_def ParseOneCharToken_def restore_def)

abbreviation component :: "nat \<Rightarrow> parser" where
  "component m \<equiv> any_of [ParseTemplateParam, ParseSubstitution, run m UnscopedName]"

lemma component_reads:
  assumes "mangled_cur st = mangled_source_name s @ rest" "is_ident s" "holds st t"
    "length t + length s < out_end st" "c_hd rest \<noteq> CHR ''B''"
  shows "\<exists>st'. component (Suc (Suc (Suc m))) st = Some (True, st'\<lparr>mangled_cur := rest\<rparr>) \<and>
    emits (st\<lparr>mangled_cur := s @ rest\<rparr>) st' (t @ s)"
proof -
  have dig: "is_digit (c_hd (mangled_cur st))"
    using digits_hd[OF dec_str_digits dec_str_nonempty] assms(1)
    by (simp add: mangled_source_name_def)
  obtain st' where st': "ParseSourceName st = Some (True, st'\<lparr>mangled_cur := rest\<rparr>)"
    "emits (st\<lparr>mangled_cur := s @ rest\<rparr>) st' (t @ s)"
    using ParseSourceName_reads[OF assms(1-4)] by blast
  have "run (Suc (Suc (Suc m))) UnscopedName st = Some (True, st'\<lparr>mangled_cur := rest\<rparr>)"
    using st'(1) assms(5) digit_fails(3,4)[OF dig] tags_fail[of "st'\<lparr>mangled_cur := rest\<rparr>"]
    by (simp add: run_Suc ParseUnscopedName_def ParseUnqualifiedName_def del: run.simps)
  with st' digit_fails(1,2)[OF dig] show ?thesis
    by (intro exI[of _ st']) (simp del: run.simps)
qed

lemma component_stops:
  assumes "c_hd (mangled_cur st) = CHR ''E''"
  shows "component (Suc (Suc (Suc m))) st = Some (False, st)"
proof -
  have "\<not> is_digit CHR ''E''" "\<not> is_lower CHR ''E''"
    by (simp_all add: is_digit_def is_lower_def less_eq_char_def)
  moreover from assms obtain r where "mangled_cur st = CHR ''E'' # r"
    by (cases "mangled_cur st") auto
  ultimately show ?thesis
    using assms
    by (simp add: run_Suc ParseTemplateParam_def ParseSubstitution_def restore_same
        ParseCtorDtorName_def ParseTwoCharToken_def ParseOneCharToken_def ParseOperatorName_def
        or_restore_def operator_table_def ParseUnscopedName_def ParseUnqualifiedName_def
        ParseSourceName_def ParseLocalSourceName_def ParseNumber_out_def del: run.simps)
qed

text \<open>The text after the components \<open>ns\<close> are added to \<open>t\<close> at nesting level \<open>k\<close>.\<close>

definition add_sep :: "nat \<Rightarrow> string \<Rightarrow> string" where
  "add_sep k t = (if 1 \<le> k then t @ ''::'' else t)"

fun add_names :: "nat \<Rightarrow> string \<Rightarrow> string list \<Rightarrow> string" where
  "add_names k t [] = t"
| "add_names k t (s # ns) = add_names (Suc k) (add_sep k t @ s) ns"

lemma add_names_Suc: "add_names (Suc k) t ns = t @ concat (map (\<lambda>x. ''::'' @ x) ns)"
  by (induction ns arbitrary: k t) (auto simp: add_sep_def)

lemma add_names_join: "add_names 0 [] ns = join ''::'' ns"
  by (cases ns) (simp_all add: add_names_Suc join_def add_sep_def del: append_Cons)

lemma add_names_length: "length t \<le> length (add_names k t ns)"
proof (induction ns arbitrary: k t)
  case (Cons s ns)
  from Cons[of "add_sep k t @ s" "Suc k"] show ?case
    by (simp add: add_sep_def split: if_splits)
qed simp

lemma sep_reads:
  assumes "holds st t" "nest_level st = int k" "length t + 2 < out_end st"
  shows "emits st (MaybeAppendSeparator st) (add_sep k t)"
  using assms holds_MaybeAppend[of st t "''::''"]
  by (auto simp: MaybeAppendSeparator_def add_sep_def emits_def)

lemma no_template_args:
  assumes "c_hd (mangled_cur st) = CHR ''E''"
  shows "run (Suc n) TemplateArgs st = Some (False, st)"
  using assms by (simp add: run_Suc ParseTemplateArgs_def act_def DisableAppend_def
      ParseOneCharToken_def restore_def del: run.simps)

lemma cancel_reads:
  assumes "holds st (t @ ''::'')" "1 \<le> nest_level st"
  shows "emits st (MaybeCancelLastSeparator st) t \<and>
    c_str (out_buf (MaybeCancelLastSeparator st)) = c_str t"
proof -
  obtain u where u: "out_buf st = t @ CHR '':'' # CHR '':'' # u"
    using assms(1) by (auto simp: holds_def prefix_def)
  then have "MaybeCancelLastSeparator st =
      st\<lparr>out_cur := length t, out_buf := t @ NUL # CHR '':'' # u\<rparr>"
    using assms by (auto simp: MaybeCancelLastSeparator_def holds_def put_def list_update_append)
  with assms u show ?thesis
    by (simp add: emits_def holds_def frame_def c_str_append_NUL)
qed

lemma prefix_loop_stops:
  assumes "mangled_cur st = CHR ''E'' # rest" "holds st t" "nest_level st = int k" "1 \<le> k"
    "length t + 2 < out_end st"
  shows "\<exists>st'. prefix_loop (Suc n) (run (Suc (Suc (Suc m)))) True st = Some (True, st') \<and>
    mangled_cur st' = CHR ''E'' # rest \<and> holds st' t \<and> out_end st' = out_end st \<and>
    c_str (out_buf st') = c_str t"
proof -
  define st1 where "st1 = MaybeAppendSeparator st"
  define st2 where "st2 = MaybeCancelLastSeparator st1"
  have 1: "emits st st1 (t @ ''::'')"
    using sep_reads[OF assms(2,3,5)] assms(4) by (simp add: st1_def add_sep_def)
  note f1 = emits_frame[OF 1]
  have 2: "emits st1 st2 t \<and> c_str (out_buf st2) = c_str t"
    unfolding st2_def using 1 f1 assms(3,4) by (intro cancel_reads) (auto simp: emits_def)
  note f2 = emits_frame[OF conjunct1[OF 2]]
  have "component (Suc (Suc (Suc m))) st1 = Some (False, st1)"
    using f1 assms(1) by (intro component_stops) simp
  moreover have "run (Suc (Suc (Suc m))) TemplateArgs st2 = Some (False, st2)"
    using f1 f2 assms(1) by (intro no_template_args) simp
  ultimately show ?thesis
    using 2 f1 f2 assms(1)
    by (intro exI[of _ st2])
      (simp add: st1_def[symmetric] st2_def[symmetric] emits_def del: run.simps any_of.simps)
qed

lemma prefix_loop_reads:
  assumes "mangled_cur st = concat (map mangled_source_name ns) @ CHR ''E'' # rest"
    "list_all is_ident ns" "holds st t" "nest_level st = int k" "k + length ns \<le> 32767"
    "length (add_names k t ns) + 2 < out_end st" "length ns < n" "h \<longleftrightarrow> 1 \<le> k" "h \<or> ns \<noteq> []"
  shows "\<exists>st'. prefix_loop n (run (Suc (Suc (Suc m)))) h st = Some (True, st') \<and>
    mangled_cur st' = CHR ''E'' # rest \<and> holds st' (add_names k t ns) \<and> out_end st' = out_end st \<and>
    c_str (out_buf st') = c_str (add_names k t ns)"
  using assms
proof (induction ns arbitrary: n h k t st)
  case Nil
  then show ?case
    using prefix_loop_stops[of st rest t k "n - 1" m]
    by (cases n) (auto simp del: prefix_loop.simps run.simps)
next
  case (Cons s ns)
  define r where "r = concat (map mangled_source_name ns) @ CHR ''E'' # rest"
  have "c_hd r \<noteq> CHR ''B''"
  proof (cases ns)
    case (Cons u us)
    have "is_digit (c_hd r)"
      using digits_hd[OF dec_str_digits dec_str_nonempty]
      by (simp add: r_def Cons mangled_source_name_def)
    then show ?thesis by (auto simp: is_digit_of_char)
  qed (simp add: r_def)
  moreover define st1 where "st1 = MaybeAppendSeparator st"
  have room: "length (add_sep k t) + length s + 2 < out_end st"
    using Cons.prems(6) add_names_length[of "add_sep k t @ s" "Suc k" ns] by simp
  then have 1: "emits st st1 (add_sep k t)"
    unfolding st1_def using Cons.prems
    by (intro sep_reads) (auto simp: add_sep_def split: if_splits)
  note f1 = emits_frame[OF 1]
  have cur: "mangled_cur st1 = mangled_source_name s @ r"
    using f1 Cons.prems(1) by (simp add: r_def)
  have "holds st1 (add_sep k t)" "length (add_sep k t) + length s < out_end st1"
    using 1 f1 room by (auto simp: emits_def)
  ultimately obtain st2 where
    2: "component (Suc (Suc (Suc m))) st1 = Some (True, st2\<lparr>mangled_cur := r\<rparr>)"
    "emits (st1\<lparr>mangled_cur := s @ r\<rparr>) st2 (add_sep k t @ s)"
    using component_reads[OF cur] Cons.prems(2) by auto
  note f2 = emits_frame[OF 2(2)]
  define st3 where "st3 = MaybeIncreaseNestLevel (st2\<lparr>mangled_cur := r\<rparr>)"
  have 3: "nest_level st3 = int (Suc k)" "mangled_cur st3 = r" "out_end st3 = out_end st"
    "holds st3 (add_sep k t @ s)"
    using f1 f2 2(2) Cons.prems(4,5)
    by (auto simp: st3_def MaybeIncreaseNestLevel_def to_short_def emits_def holds_def)
  obtain n' where n: "n = Suc n'" using Cons.prems(7) by (cases n) auto
  have "prefix_loop n (run (Suc (Suc (Suc m)))) h st =
      prefix_loop n' (run (Suc (Suc (Suc m)))) True st3"
    using 2(1) by (simp add: n st1_def[symmetric] st3_def[symmetric] del: run.simps any_of.simps)
  with Cons.IH[of st3 "add_sep k t @ s" "Suc k" n' True] 3 Cons.prems n show ?case
    by (simp add: r_def del: run.simps prefix_loop.simps)
qed

lemma cv_skips:
  assumes "is_digit (c_hd (mangled_cur st))"
  shows "Optional ParseCVQualifiers st = Some (True, st)"
proof -
  have "c_hd (mangled_cur st) \<noteq> c" if "c \<in> set ''rVK''" for c
    using assms that by (auto simp: is_digit_of_char)
  then show ?thesis by (simp add: Optional_def ParseCVQualifiers_def)
qed

lemma NestedName_reads:
  assumes cur: "mangled_cur st = CHR ''N'' # concat (map mangled_source_name ns) @ ''E''"
    and ns: "ns \<noteq> []" "list_all is_ident ns" "length ns \<le> 32767"
    and st: "holds st []" and room: "length (join ''::'' ns) + 2 < out_end st"
  shows "\<exists>st'. run (Suc (Suc (Suc (Suc (Suc m))))) NestedName st = Some (True, st') \<and>
    mangled_cur st' = [] \<and> holds st' (join ''::'' ns) \<and>
    c_str (out_buf st') = c_str (join ''::'' ns)"
proof -
  define r where "r = concat (map mangled_source_name ns) @ ''E''"
  define st1 where "st1 = st\<lparr>mangled_cur := r, nest_level := 0\<rparr>"
  have "is_digit (c_hd r)"
    using digits_hd[OF dec_str_digits dec_str_nonempty] ns(1)
    by (cases ns) (simp_all add: r_def mangled_source_name_def)
  then have cv: "Optional ParseCVQualifiers st1 = Some (True, st1)"
    by (intro cv_skips) (simp add: st1_def)
  have len: "length ns \<le> length (concat (map mangled_source_name ns))"
  proof (induction ns)
    case (Cons s ns)
    have "1 \<le> length (mangled_source_name s)"
      using dec_str_nonempty[of "length s"] by (simp add: mangled_source_name_def Suc_le_eq)
    with Cons show ?case by simp
  qed simp
  have "\<exists>st'. prefix_loop (Suc (length r)) (run (Suc (Suc (Suc m)))) False st1 = Some (True, st') \<and>
      mangled_cur st' = CHR ''E'' # [] \<and> holds st' (add_names 0 [] ns) \<and> out_end st' = out_end st1 \<and>
      c_str (out_buf st') = c_str (add_names 0 [] ns)"
    using ns st room len
    by (intro prefix_loop_reads) (auto simp: st1_def r_def holds_def add_names_join)
  then obtain st2 where 2: "run (Suc (Suc (Suc (Suc m)))) Prefix st1 = Some (True, st2)"
    "mangled_cur st2 = ''E''" "holds st2 (join ''::'' ns)"
    "c_str (out_buf st2) = c_str (join ''::'' ns)"
    by (auto simp: run_Suc ParsePrefix_def st1_def add_names_join simp del: run.simps prefix_loop.simps)
  define st' where "st' = st2\<lparr>nest_level := nest_level st, mangled_cur := []\<rparr>"
  have "run (Suc (Suc (Suc (Suc (Suc m))))) NestedName st = Some (True, st')"
    using cur cv 2(1,2)
    by (simp add: run_Suc[of "Suc (Suc (Suc (Suc m)))"] ParseNestedName_def act_def
        ParseOneCharToken_def EnterNestedName_def LeaveNestedName_def st'_def r_def[symmetric]
        st1_def[symmetric] del: run.simps)
  with 2 show ?thesis by (intro exI[of _ st']) (simp add: st'_def holds_def)
qed

lemma fails_at_end:
  assumes "left st = 0" "run n nt st \<noteq> None" "nt \<noteq> Prefix"
  shows "\<exists>st'. run n nt st = Some (False, st')"
  using assms consumesD[OF consumes_run[OF assms(3)], of n st] by (metis (full_types) not_less0 option.exhaust surj_pair)

lemma holds_wf: "holds st t \<Longrightarrow> \<not> oob_write st \<Longrightarrow> length t < out_end st \<Longrightarrow> wf_buf st"
  by (simp add: holds_def wf_buf_def)

text \<open>
  \<open>ParseEncoding\<close> parses the name twice, because no function type follows it; the second
  time the buffer holds the text of the first.
\<close>

lemma Encoding_reads:
  assumes cur: "mangled_cur st = CHR ''N'' # concat (map mangled_source_name ns) @ ''E''"
    and ns: "ns \<noteq> []" "list_all is_ident ns" "length ns \<le> 32767"
    and st: "holds st []" "wf_buf st" and room: "length (join ''::'' ns) + 2 < out_end st"
    and n: "n = Suc (Suc (Suc (Suc (Suc m))))" "2 < m"
  shows "\<exists>st'. run (Suc (Suc n)) Encoding st = Some (True, st') \<and> mangled_cur st' = [] \<and>
    \<not> overflowed st' \<and> c_str (out_buf st') = c_str (join ''::'' ns)"
proof -
  have name: "run (Suc n) Name s = run n NestedName s" if "run n NestedName s = Some (True, s')"
    for s s' using that by (simp add: run_Suc ParseName_def del: run.simps)
  obtain a where a: "run n NestedName st = Some (True, a)" "mangled_cur a = []"
    using NestedName_reads[OF cur ns st(1) room, of m] unfolding n(1) by blast
  have "run (Suc n) BareFunctionType a \<noteq> None"
    using a(2) n by (intro run_returns) simp
  then obtain b where b: "run (Suc n) BareFunctionType a = Some (False, b)"
    using fails_at_end[of a "Suc n" BareFunctionType] a(2) by auto
  define st1 where "st1 = restore st b"
  have "buffer_ok st b"
    using keepsD[OF buf.keeps_run a(1)] keepsD[OF buf.keeps_run b] by (rule buffer_ok_trans)
  then have 1: "holds st1 []" "mangled_cur st1 = mangled_cur st" "out_end st1 = out_end st"
    using st by (auto simp: st1_def restore_def holds_def buffer_ok_def last_kept_def)
  obtain st' where st': "run n NestedName st1 = Some (True, st')" "mangled_cur st' = []"
    "holds st' (join ''::'' ns)" "c_str (out_buf st') = c_str (join ''::'' ns)"
    using NestedName_reads[of st1 ns m] cur ns room 1 unfolding n(1) by auto
  have "run (Suc (Suc n)) Encoding st = Some (True, st')"
    using name[OF a(1)] name[OF st'(1)] a(1) b st'(1)
    by (simp add: run_Suc[of "Suc n"] ParseEncoding_def or_restore_def st1_def del: run.simps)
  with st' show ?thesis by (intro exI[of _ st']) (simp add: holds_def)
qed

lemma Demangle_nested:
  assumes ns: "ns \<noteq> []" "list_all is_ident ns" "length ns \<le> 32767"
    and room: "length (join ''::'' ns) + 2 < length out"
  shows "\<exists>out'. Demangle (mangled_nested_name ns) out = Some (True, out') \<and>
    c_str out' = c_str (join ''::'' ns)"
proof -
  define m where "m = length (mangled_nested_name ns)"
  define st where "st = (InitState (mangled_nested_name ns) (Some out))
    \<lparr>mangled_cur := CHR ''N'' # concat (map mangled_source_name ns) @ ''E''\<rparr>"
  have m: "depth_bound (mangled_nested_name ns) = Suc (Suc (Suc (Suc (Suc (Suc (Suc (Suc (8 * m))))))))"
    by (simp add: depth_bound_def m_def)
  have "2 < m" by (simp add: m_def mangled_nested_name_def)
  moreover have "holds st []" "wf_buf st" "out_end st = length out"
    using room by (auto simp: st_def InitState_def holds_def wf_buf_def)
  ultimately obtain st' where
    "run (Suc (Suc (Suc (Suc (Suc (Suc (Suc (8 * m)))))))) Encoding st = Some (True, st')"
    "mangled_cur st' = []" "\<not> overflowed st'" "c_str (out_buf st') = c_str (join ''::'' ns)"
    using Encoding_reads[of st ns _ "8 * m"] ns room by (auto simp: st_def)
  moreover have "ParseTwoCharToken ''_Z'' (InitState (mangled_nested_name ns) (Some out)) =
      Some (True, st)"
    by (simp add: ParseTwoCharToken_def InitState_def mangled_nested_name_def st_def)
  ultimately show ?thesis
    by (simp add: Demangle_def demangle_state_def ParseTopLevelMangledName_def m
        run_Suc[of "Suc (Suc (Suc (Suc (Suc (Suc (Suc (8 * m)))))))"] ParseMangledName_def
        del: run.simps)
qed

lemma join_no_nul: "list_all is_ident ns \<Longrightarrow> no_nul (join ''::'' ns)"
proof -
  have "list_all is_ident xs \<Longrightarrow> no_nul (concat (map (\<lambda>x. ''::'' @ x) xs))" for xs
    by (induction xs) (auto simp: is_ident_def)
  then show "list_all is_ident ns \<Longrightarrow> no_nul (join ''::'' ns)"
    by (cases ns) (auto simp: join_def is_ident_def simp del: append_Cons)
qed

subsection \<open>Clone suffixes\<close>

inductive clone_suffix :: "string \<Rightarrow> bool" where
  empty: "clone_suffix []"
| part: "a \<noteq> [] \<Longrightarrow> list_all is_alpha a \<Longrightarrow> d \<noteq> [] \<Longrightarrow> list_all is_digit d \<Longrightarrow> clone_suffix r \<Longrightarrow>
    clone_suffix (CHR ''.'' # a @ CHR ''.'' # d @ r)"

inductive_cases clone_suffix_ConsE: "clone_suffix (c # s)"

lemma clone_suffix_hd: "clone_suffix s \<Longrightarrow> s = [] \<or> c_hd s = CHR ''.''"
  by (cases rule: clone_suffix.cases) auto

lemma dropWhile_span: "list_all P a \<Longrightarrow> \<not> P (c_hd r) \<Longrightarrow> dropWhile P (a @ r) = r"
  by (induction a) (cases r; auto)+

lemma not_dot: "\<not> is_alpha CHR ''.''" "\<not> is_digit CHR ''.''"
  by (simp_all add: is_alpha_def is_lower_def is_upper_def is_digit_def less_eq_char_def)

lemma clone_suffix_accepted: "clone_suffix s \<Longrightarrow> IsFunctionCloneSuffix s"
proof (induction rule: clone_suffix.induct)
  case (part a d r)
  obtain x a' where a: "a = x # a'" using part by (cases a) auto
  obtain y d' where d: "d = y # d'" using part by (cases d) auto
  have "\<not> is_digit (c_hd r)" using clone_suffix_hd[OF part(5)] not_dot by (cases r) auto
  then have 1: "dropWhile is_digit (d' @ r) = r"
    using part(4) d by (intro dropWhile_span) auto
  have 2: "dropWhile is_alpha (a' @ CHR ''.'' # y # d' @ r) = CHR ''.'' # y # d' @ r"
    using part(2) a not_dot by (intro dropWhile_span) auto
  show ?case
    using part 1 2 by (subst IsFunctionCloneSuffix.simps) (simp add: a d)
qed (simp add: IsFunctionCloneSuffix.simps)

lemma clone_suffix_complete: "IsFunctionCloneSuffix s \<Longrightarrow> clone_suffix s"
proof (induction s rule: IsFunctionCloneSuffix.induct)
  case (1 str)
  show ?case
  proof (cases str)
    case (Cons c t)
    define s1 where "s1 = dropWhile is_alpha (drop 2 str)"
    have 0: "c_at str 0 = CHR ''.''" "is_alpha (c_at str 1)" "c_at s1 0 = CHR ''.''"
      "is_digit (c_at s1 1)" "IsFunctionCloneSuffix (dropWhile is_digit (drop 2 s1))"
      using 1(2) Cons unfolding IsFunctionCloneSuffix.simps[of str]
      by (auto simp: s1_def Let_def split: if_splits)
    obtain x u where str: "str = CHR ''.'' # x # u"
      using 0(1,2) by (cases str rule: remdups_adj.cases) (auto simp: c_at_def)
    obtain y v where s1: "s1 = CHR ''.'' # y # v"
      using 0(3,4) by (cases s1 rule: remdups_adj.cases) (auto simp: c_at_def)
    define a where "a = x # takeWhile is_alpha u"
    define d where "d = y # takeWhile is_digit v"
    define r where "r = dropWhile is_digit v"
    have "u = takeWhile is_alpha u @ s1" using s1_def str by simp
    moreover have "v = takeWhile is_digit v @ r" by (simp add: r_def)
    ultimately have "str = CHR ''.'' # a @ CHR ''.'' # d @ r"
      using str s1 by (simp add: a_def d_def)
    moreover have "clone_suffix r"
    proof -
      have "s1 = dropWhile IsAlpha (drop 2 str)" by (simp add: s1_def)
      from 1(1)[OF _ _ this] have "clone_suffix (dropWhile is_digit (drop 2 s1))"
        using 0 Cons by simp
      then show ?thesis by (simp add: s1 r_def)
    qed
    moreover have "list_all is_alpha a" "list_all is_digit d"
      using 0(2,4) str s1 by (auto simp: a_def d_def list_all_takeWhile c_at_def)
    ultimately show ?thesis
      using clone_suffix.part[of a d r] by (simp add: a_def d_def)
  qed (simp add: clone_suffix.empty)
qed

end
