(* ===== verification/Demangle_Spec.thy ===== *)
theory Demangle_Spec
  imports Demangle_Output
begin

section \<open>The demangler: its properties\<close>

text \<open>
  What \<open>Demangle\<close> promises to its callers, for every mangled name and every buffer, and the
  concrete inputs on which the code departs from its own comments.
\<close>

text \<open>
  C4. Round trip: for every nested name made of identifiers, \<open>Demangle\<close> of its mangled form
  \<^verbatim>\<open>_ZN<len><id>...E\<close> succeeds and the buffer holds the identifiers joined by \<^verbatim>\<open>::\<close>, when it
  has room for that text, one more separator and the terminator.
\<close>

theorem Demangle_nested_name:
  assumes "ns \<noteq> []" and "list_all is_ident ns" and "length ns \<le> 32767"
    and "length (join ''::'' ns) + 2 < length out"
  shows "\<exists>out'. Demangle (mangled_nested_name ns) out = Some (True, out') \<and>
    c_str out' = join ''::'' ns"
  using Demangle_nested[OF assms] c_str_no_nul[OF join_no_nul[OF assms(2)]] by simp

lemma idents_foo_bar: "list_all is_ident [''foo'', ''bar'']"
  by (simp add: is_ident_def is_alpha_def is_lower_def less_eq_char_def anon_prefix_def
      int_max_def)

lemma mangled_foo_bar: "mangled_nested_name [''foo'', ''bar''] = ''_ZN3foo3barE''"
  by code_simp

theorem Demangle_nested_name_witness:
  "\<exists>out'. Demangle ''_ZN3foo3barE'' (replicate 11 CHR ''x'') = Some (True, out') \<and>
    c_str out' = ''foo::bar''"
  using Demangle_nested_name[OF _ idents_foo_bar, of "replicate 11 CHR ''x''"]
  by (simp add: join_def mangled_foo_bar)

text \<open>
  C12. Termination: whatever the mangled name, \<open>Demangle\<close> returns; calls nest at most
  \<open>8 * length + 8\<close> deep, and a larger bound gives the same result and buffer.
\<close>

theorem Demangle_returns:
  assumes "depth_bound mangled \<le> n"
  shows "\<exists>b st. demangle_state mangled out = Some (b, st) \<and>
    ParseTopLevelMangledName n (InitState mangled out) = Some (b, st)"
proof -
  have "run n MangledName (InitState mangled out) =
      run (depth_bound mangled) MangledName (InitState mangled out)"
    using assms by (intro run_stable) (auto simp: left_Init depth_bound_def)
  moreover obtain b st where "demangle_state mangled out = Some (b, st)"
    using demangle_state_returns[of mangled out] by auto
  ultimately show ?thesis
    by (simp add: demangle_state_def ParseTopLevelMangledName_def)
qed

theorem Demangle_returns_witness:
  "\<exists>b st. demangle_state ''_Z1fv'' (Some ''xxxxxxxx'') = Some (b, st) \<and>
    ParseTopLevelMangledName 100 (InitState ''_Z1fv'' (Some ''xxxxxxxx'')) = Some (b, st)"
  by (rule Demangle_returns) (simp add: depth_bound_def)

text \<open>
  C17. Memory safety: \<open>Demangle\<close> never stores outside the caller's buffer, and the last byte
  of the buffer is left alone or set to NUL, also when the output overflows.
\<close>

theorem Demangle_writes:
  assumes "demangle_state mangled (Some out) = Some (b, st)"
  shows "\<not> oob_write st \<and> length (out_buf st) = length out \<and>
    (if out = [] then out_buf st = [] else last (out_buf st) \<in> {last out, NUL})"
proof -
  define st0 where "st0 = InitState mangled (Some out)"
  have wf: "wf_buf st0" "out_buf st0 = out"
    by (auto simp: st0_def InitState_def wf_buf_def)
  from assms obtain c st1 where 1: "run (depth_bound mangled) MangledName st0 = Some (c, st1)"
    by (auto simp: demangle_state_def ParseTopLevelMangledName_def st0_def split: option.splits)
  have "st = st1 \<or> st = MaybeAppend (mangled_cur st1) st1"
    using assms 1
    by (auto simp: demangle_state_def ParseTopLevelMangledName_def st0_def[symmetric] split: if_splits)
  then have "buffer_ok st0 st"
    using keepsD[OF buf.keeps_run 1] buffer_ok_trans[OF _ buf.R_MaybeAppend] by metis
  with wf show ?thesis by (auto simp: buffer_ok_def last_kept_def wf_buf_def)
qed

lemma demangle_f: "demangle_state ''_Z1f'' (Some ''xxx'') =
    Some (True, snd (the (demangle_state ''_Z1f'' (Some ''xxx''))))"
  by code_simp

theorem Demangle_writes_witness:
  "\<not> oob_write (snd (the (demangle_state ''_Z1f'' (Some ''xxx''))))"
  using Demangle_writes[OF demangle_f] by simp

text \<open>
  Recursion guards: no parsing function lets one of the counters \<open>local_level\<close>,
  \<open>expr_level\<close>, \<open>arg_level\<close> exceed \<open>max_levels + 1\<close> or wrap around, and none of them is lower
  afterwards than before.
\<close>

theorem levels_bounded:
  assumes "run n nt st = Some (b, st')"
    and "local_level st \<in> {0..max_levels + 1}" and "expr_level st \<in> {0..max_levels + 1}"
    and "arg_level st \<in> {0..max_levels + 1}"
  shows "local_level st' \<in> {local_level st..max_levels + 1} \<and>
    expr_level st' \<in> {expr_level st..max_levels + 1} \<and>
    arg_level st' \<in> {arg_level st..max_levels + 1}"
  using keepsD[OF lev.keeps_run assms(1)] assms(2-) by (auto simp: levels_ok_def level_ok_def)

lemma run_type_i: "run 2 Type (InitState ''i'' None) =
    Some (True, snd (the (run 2 Type (InitState ''i'' None))))"
  by code_simp

theorem levels_bounded_witness:
  "local_level (snd (the (run 2 Type (InitState ''i'' None)))) \<in> {0..6}"
  using levels_bounded[OF run_type_i] by (simp add: InitState_def max_levels_def)

text \<open>
  \<open>ParseNumber\<close> on a run of digits returns its decimal value when it fits in an \<open>int\<close>
  and fails without touching the state otherwise: no signed overflow on the way.
\<close>

theorem ParseNumber_value:
  assumes "list_all is_digit ds" and "ds \<noteq> []" and "\<not> is_digit (c_hd rest)"
    and "mangled_cur st = ds @ rest"
  shows "ParseNumber_out st =
    (if dec_val 0 ds \<le> int_max
     then (True, st\<lparr>mangled_cur := rest\<rparr>, Some (dec_val 0 ds)) else (False, st, None))"
  by (rule ParseNumber_digits[OF assms])

theorem ParseNumber_value_witness:
  "ParseNumber_out (InitState ''2147483648_'' None) = (False, InitState ''2147483648_'' None, None)"
  using ParseNumber_value[of "''2147483648''" "''_''" "InitState ''2147483648_'' None"]
  by (simp add: InitState_def is_digit_of_char digit_val_def int_max_def)

text \<open>
  \<open>IsFunctionCloneSuffix\<close> accepts exactly the sequences of
  \<^verbatim>\<open>.<alpha>+.<digit>+\<close>, including the empty one.
\<close>

theorem IsFunctionCloneSuffix_iff: "IsFunctionCloneSuffix str \<longleftrightarrow> clone_suffix str"
  using clone_suffix_accepted clone_suffix_complete by blast

subsection \<open>Departures from the comments\<close>

text \<open>
  \<open>prev_name\<close> may point to the last byte of the buffer, where an identifier overflowed;
  \<open>MaybeCancelLastSeparator\<close> then makes room for two characters, and a constructor name
  copies two characters from \<open>prev_name\<close>: the second is read past the end of the buffer.
\<close>

text \<open>The output operations of parsing \<^verbatim>\<open>_ZcvMN2bbEC1\<close> into a buffer of three bytes.\<close>

lemma prev_name_overread:
  "let st1 = MaybeAppend ''operator '' (InitState ''_ZcvMN2bbEC1'' (Some ''xyz''));
       st2 = MaybeAppendWithLength (Text ''bbEC1'') 2 (st1\<lparr>nest_level := 0\<rparr>);
       st3 = MaybeAppendSeparator (MaybeIncreaseNestLevel st2);
       st4 = MaybeCancelLastSeparator st3
   in oob_read (append_prev_name st4)"
  by code_simp

text \<open>
  A template argument that fails leaves \<open>arg_level\<close> incremented, and the failing argument is
  how \<open>OneOrMore\<close> stops: with more than six levels lost the name is refused.
\<close>

lemma six_template_lists:
  "fst (the (Demangle ''_Z1f1AIiE1BIiE1CIiE1DIiE1EIiE1FIiE'' (replicate 16 CHR ''x'')))"
  by code_simp

lemma seven_template_lists:
  "\<not> fst (the (Demangle ''_Z1f1AIiE1BIiE1CIiE1DIiE1EIiE1FIiE1GIiE'' (replicate 16 CHR ''x'')))"
  by code_simp

text \<open>A call can succeed without writing anything, not even a terminator.\<close>

lemma buffer_untouched: "Demangle ''_Z0'' ''abc'' = Some (True, ''abc'')"
  by code_simp

end
