(* ===== verification/Vlog.thy ===== *)
theory Vlog
  imports Prelude
begin

section \<open>Verbose logging: module patterns and call sites\<close>

text \<open>
  \<^verbatim>\<open>src/vlog_is_on.cc\<close>: the glob matcher, the list of module levels built from
  \<^verbatim>\<open>--vmodule\<close> and by \<open>SetVLOGLevel\<close>, and the level pointer cached at every
  \<^verbatim>\<open>VLOG_IS_ON\<close> site.

  A \<open>VModuleInfo\<close> is never freed: its address is its index in \<open>vinfos\<close>, and the list that
  starts at \<^verbatim>\<open>vmodule_list\<close> is the list of the addresses in order. A \<open>SiteFlag\<close> is a static
  object of its call site; sites are numbered, and \<open>cached_site_list\<close> lists their numbers.
\<close>

subsection \<open>Glob matching\<close>

fun nonempty_suffixes :: "string \<Rightarrow> string list" where
  "nonempty_suffixes [] = []"
| "nonempty_suffixes (c # s) = (c # s) # nonempty_suffixes s"

text \<open>The \<^verbatim>\<open>do ... while (s != str_len)\<close> loop tries every nonempty suffix.\<close>

primrec SafeFNMatch :: "string \<Rightarrow> string \<Rightarrow> bool" where
  "SafeFNMatch [] str = (str = [])"
| "SafeFNMatch (c # p) str =
     (case str of
        [] \<Rightarrow> p = [] \<and> c = CHR ''*''
      | x # s \<Rightarrow>
          if c = x \<or> c = CHR ''?'' then SafeFNMatch p s
          else if c = CHR ''*'' then
            (if p = [] then True else list_ex (SafeFNMatch p) (nonempty_suffixes str))
          else False)"

text \<open>The patterns the flag documents: a star is any text, a question mark any character.\<close>

fun glob :: "string \<Rightarrow> string \<Rightarrow> bool" where
  "glob [] s = (s = [])"
| "glob (c # p) s =
     (if c = CHR ''*'' then \<exists>t \<in> set (suffixes s). glob p t
      else case s of [] \<Rightarrow> False | x # t \<Rightarrow> (c = CHR ''?'' \<or> c = x) \<and> glob p t)"

fun no_double_star :: "string \<Rightarrow> bool" where
  "no_double_star (a # b # p) =
     (\<not> (a = CHR ''*'' \<and> b = CHR ''*'') \<and> no_double_star (b # p))"
| "no_double_star _ = True"

lemma nonempty_suffixes_set: "set (nonempty_suffixes s) = {t. suffix t s \<and> t \<noteq> []}"
  by (induction s) (auto simp: suffix_Cons)

lemma glob_star: "glob (CHR ''*'' # p) s \<longleftrightarrow> (\<exists>t. suffix t s \<and> glob p t)"
  by (auto simp: in_set_suffixes)

lemma SafeFNMatch_sound: "SafeFNMatch p s \<Longrightarrow> glob p s"
proof (induction p arbitrary: s)
  case (Cons c p)
  show ?case
  proof (cases s)
    case Nil
    with Cons.prems show ?thesis by auto
  next
    case s: (Cons x t)
    consider "c = x \<or> c = CHR ''?''" "SafeFNMatch p t"
      | "c = CHR ''*''" "p = []"
      | u where "c = CHR ''*''" "suffix u s" "SafeFNMatch p u"
      using Cons.prems s
      by (auto simp: list_ex_iff nonempty_suffixes_set suffix_Cons split: if_splits)
    then show ?thesis
    proof cases
      case 1
      then have "glob p t" using Cons.IH by simp
      moreover have "suffix t s" using s by (simp add: suffix_ConsI)
      ultimately show ?thesis
        using 1 s glob_star[of p s] by (cases "c = CHR ''*''") auto
    next
      case 2
      then show ?thesis by (auto simp: glob_star simp del: glob.simps(2))
    next
      case 3
      then show ?thesis using Cons.IH by (auto simp: glob_star simp del: glob.simps(2))
    qed
  qed
qed simp

lemma no_double_star_Cons: "no_double_star (c # p) \<Longrightarrow> no_double_star p"
  by (cases p) auto

lemma glob_nil: "no_double_star (CHR ''*'' # p) \<Longrightarrow> glob p [] \<Longrightarrow> p = []"
  by (cases p) auto

lemma SafeFNMatch_complete:
  "glob p s \<Longrightarrow> no_double_star p \<Longrightarrow> CHR ''*'' \<notin> set s \<Longrightarrow> SafeFNMatch p s"
proof (induction p arbitrary: s)
  case (Cons c p)
  have p: "no_double_star p" using Cons.prems(2) by (rule no_double_star_Cons)
  show ?case
  proof (cases s)
    case Nil
    with Cons.prems show ?thesis by (auto split: if_splits dest: glob_nil)
  next
    case s: (Cons x t)
    show ?thesis
    proof (cases "c = CHR ''*''")
      case True
      then obtain u where u: "suffix u s" "glob p u"
        using Cons.prems(1) glob_star by blast
      show ?thesis
      proof (cases "p = []")
        case False
        with u True Cons.prems(2) have "u \<noteq> []" using glob_nil by auto
        moreover have "SafeFNMatch p u"
          using u Cons.IH p Cons.prems(3) by (auto simp: suffix_def)
        ultimately show ?thesis
          using True s u Cons.prems(3)
          by (auto simp: list_ex_iff nonempty_suffixes_set suffix_Cons)
      qed (use True s Cons.prems(3) in auto)
    next
      case False
      with Cons s p show ?thesis by (auto split: if_splits)
    qed
  qed
qed simp

subsection \<open>State\<close>

record VModuleInfo =
  module_pattern :: string
  vlog_level :: int

text \<open>The level a site is controlled by: \<open>FLAGS_v\<close> or the level of a module entry.\<close>

datatype level_ptr = FlagV | InfoLevel nat

record SiteFlag =
  level :: "level_ptr option"
  base_name :: "string option"

record VState =
  FLAGS_v :: int
  FLAGS_vmodule :: string
  inited_vmodule :: bool
  vinfos :: "VModuleInfo list"
  vmodule_list :: "nat list"
  sites :: "nat \<Rightarrow> SiteFlag"
  cached_site_list :: "nat list"

text \<open>A new site is a zero-initialised static object.\<close>

definition new_site :: SiteFlag where
  "new_site = \<lparr>level = None, base_name = None\<rparr>"

definition vinit :: "int \<Rightarrow> string \<Rightarrow> VState" where
  "vinit v vmodule = \<lparr>FLAGS_v = v, FLAGS_vmodule = vmodule, inited_vmodule = False,
     vinfos = [], vmodule_list = [], sites = (\<lambda>_. new_site), cached_site_list = []\<rparr>"

definition deref :: "VState \<Rightarrow> level_ptr \<Rightarrow> int" where
  "deref st p = (case p of FlagV \<Rightarrow> FLAGS_v st | InfoLevel i \<Rightarrow> vlog_level (vinfos st ! i))"

definition pattern_of :: "VState \<Rightarrow> nat \<Rightarrow> string" where
  "pattern_of st i = module_pattern (vinfos st ! i)"

subsection \<open>Parsing the flag\<close>

text \<open>
  \<^verbatim>\<open>sscanf(sep, "=%d", &n) == 1\<close>: blanks, an optional sign and digits. The C library
  converts with \<open>strtol\<close>, which saturates at 64 bits, and stores the low 32 bits.
\<close>

definition is_space :: "char \<Rightarrow> bool" where
  "is_space c = (c \<in> {CHR '' '', CHR 0x09, CHR 0x0A, CHR 0x0B, CHR 0x0C, CHR 0x0D})"

definition to_int32 :: "int \<Rightarrow> int" where
  "to_int32 x = (x + 2147483648) mod 4294967296 - 2147483648"

definition saturate64 :: "int \<Rightarrow> int" where
  "saturate64 x = max (- 9223372036854775808) (min 9223372036854775807 x)"

definition scan_int :: "string \<Rightarrow> int option" where
  "scan_int s =
     (let s1 = dropWhile is_space s;
          (sign, s2) = (case s1 of
              c # t \<Rightarrow> if c = CHR ''-'' then (-1, t) else if c = CHR ''+'' then (1, t) else (1, s1)
            | [] \<Rightarrow> (1, s1));
          ds = takeWhile is_digit s2
      in if ds = [] then None else Some (to_int32 (saturate64 (sign * dec_val 0 ds))))"

text \<open>
  The parsing loop of \<open>VLOG2Initializer\<close>: the text before \<^verbatim>\<open>=\<close> is the pattern, an entry
  whose level does not scan is skipped, and the next entry starts after the next comma.
\<close>

function vmodule_entries :: "string \<Rightarrow> VModuleInfo list" where
  "vmodule_entries vmodule =
     (let pattern = takeWhile (\<lambda>c. c \<noteq> CHR ''='') vmodule;
          sep = dropWhile (\<lambda>c. c \<noteq> CHR ''='') vmodule
      in if sep = [] then []
         else let entry = (case scan_int (tl sep) of
                  Some module_level \<Rightarrow> [\<lparr>module_pattern = pattern, vlog_level = module_level\<rparr>]
                | None \<Rightarrow> []);
                rest = dropWhile (\<lambda>c. c \<noteq> CHR '','') sep
           in if rest = [] then entry else entry @ vmodule_entries (tl rest))"
  by pat_completeness auto
termination
proof (relation "measure length", goal_cases)
  case (2 vmodule pattern sep entry rest)
  have "length (tl rest) < length rest" using 2(6) by simp
  also have "\<dots> \<le> length sep" unfolding 2(5) by (rule length_dropWhile_le)
  also have "\<dots> \<le> length vmodule" unfolding 2(2) by (rule length_dropWhile_le)
  finally show ?case by simp
qed simp

declare vmodule_entries.simps [simp del]

definition VLOG2Initializer :: "VState \<Rightarrow> VState" where
  "VLOG2Initializer st =
     (let entries = vmodule_entries (FLAGS_vmodule st);
          n = length (vinfos st)
      in st\<lparr>vinfos := vinfos st @ entries,
            vmodule_list := [n ..< n + length entries] @ vmodule_list st,
            inited_vmodule := True\<rparr>)"

subsection \<open>Setting a level\<close>

text \<open>The loop over the list: result so far, whether it was found, and the entries.\<close>

fun set_loop :: "string \<Rightarrow> int \<Rightarrow> nat list \<Rightarrow> int \<times> bool \<times> VModuleInfo list \<Rightarrow>
    int \<times> bool \<times> VModuleInfo list" where
  "set_loop pat log_level [] acc = acc"
| "set_loop pat log_level (i # is) (result, found, infos) =
     (if module_pattern (infos ! i) = pat then
        set_loop pat log_level is
          (if found then result else vlog_level (infos ! i), True,
           infos[i := (infos ! i)\<lparr>vlog_level := log_level\<rparr>])
      else if \<not> found \<and> SafeFNMatch (module_pattern (infos ! i)) pat then
        set_loop pat log_level is (vlog_level (infos ! i), True, infos)
      else set_loop pat log_level is (result, found, infos))"

text \<open>The traversal of the cached sites: the matching ones are redirected and unlinked.\<close>

fun redirect_loop :: "string \<Rightarrow> nat \<Rightarrow> nat list \<Rightarrow> (nat \<Rightarrow> SiteFlag) \<Rightarrow>
    nat list \<times> (nat \<Rightarrow> SiteFlag)" where
  "redirect_loop pat info [] ss = ([], ss)"
| "redirect_loop pat info (item # items) ss =
     (if SafeFNMatch pat (the (base_name (ss item))) then
        redirect_loop pat info items (ss(item := (ss item)\<lparr>level := Some (InfoLevel info)\<rparr>))
      else let (rest, ss') = redirect_loop pat info items ss in (item # rest, ss'))"

definition SetVLOGLevel :: "string \<Rightarrow> int \<Rightarrow> VState \<Rightarrow> int \<times> VState" where
  "SetVLOGLevel pat log_level st =
     (let (result, found, infos) =
            set_loop pat log_level (vmodule_list st) (FLAGS_v st, False, vinfos st);
          st1 = st\<lparr>vinfos := infos\<rparr>
      in if found then (result, st1)
         else let info = length infos;
                  (cached, ss) = redirect_loop pat info (cached_site_list st) (sites st)
           in (result, st1\<lparr>
                vinfos := infos @ [\<lparr>module_pattern = pat, vlog_level = log_level\<rparr>],
                vmodule_list := info # vmodule_list st,
                cached_site_list := cached, sites := ss\<rparr>))"

subsection \<open>A call site\<close>

text \<open>The base name of a file: after the last slash, up to the first dot, without \<^verbatim>\<open>-inl\<close>.\<close>

definition file_base :: "string \<Rightarrow> string" where
  "file_base fname =
     (let base = takeWhile (\<lambda>c. c \<noteq> CHR ''.'') (after_last_slash fname);
          base_length = length base
      in if base_length \<ge> 4 \<and> drop (base_length - 4) base = ''-inl''
         then take (base_length - 4) base else base)"

fun first_match :: "VState \<Rightarrow> string \<Rightarrow> nat list \<Rightarrow> level_ptr" where
  "first_match st base [] = FlagV"
| "first_match st base (i # is) =
     (if SafeFNMatch (pattern_of st i) base then InfoLevel i else first_match st base is)"

definition InitVLOG3 :: "nat \<Rightarrow> string \<Rightarrow> int \<Rightarrow> VState \<Rightarrow> bool \<times> VState" where
  "InitVLOG3 site fname verbose_level st =
     (let read_vmodule_flag = inited_vmodule st;
          st1 = (if read_vmodule_flag then st else VLOG2Initializer st);
          base = file_base fname;
          value = first_match st1 base (vmodule_list st1);
          st2 =
            (if read_vmodule_flag then
               (let st2 = st1\<lparr>sites := (sites st1)(site := (sites st1 site)\<lparr>level := Some value\<rparr>)\<rparr>
                in if value = FlagV \<and> base_name (sites st2 site) = None
                   then st2\<lparr>sites := (sites st2)(site := (sites st2 site)\<lparr>base_name := Some base\<rparr>),
                            cached_site_list := site # cached_site_list st2\<rparr>
                   else st2)
             else st1)
      in (deref st2 value \<ge> verbose_level, st2))"

text \<open>The macro \<^verbatim>\<open>VLOG_IS_ON(n)\<close> at site \<open>site\<close> of the file \<open>fname\<close>.\<close>

definition VLOG_IS_ON :: "nat \<Rightarrow> string \<Rightarrow> int \<Rightarrow> VState \<Rightarrow> bool \<times> VState" where
  "VLOG_IS_ON site fname verbose_level st =
     (case level (sites st site) of
        None \<Rightarrow> InitVLOG3 site fname verbose_level st
      | Some p \<Rightarrow> (deref st p \<ge> verbose_level, st))"

subsection \<open>Reachable states\<close>

text \<open>Calls, and assignments to the two flags, which the program may make at any time.\<close>

inductive vstep :: "VState \<Rightarrow> VState \<Rightarrow> bool" where
  site: "vstep st (snd (VLOG_IS_ON site fname n st))"
| set_level: "vstep st (snd (SetVLOGLevel pat l st))"
| set_v: "vstep st (st\<lparr>FLAGS_v := v\<rparr>)"
| set_vmodule: "vstep st (st\<lparr>FLAGS_vmodule := m\<rparr>)"

inductive vreach :: "VState \<Rightarrow> bool" where
  start: "vreach (vinit v vmodule)"
| step: "vreach st \<Longrightarrow> vstep st st' \<Longrightarrow> vreach st'"

inductive_cases vstepE: "vstep st st'"

text \<open>
  The invariant: a site follows \<open>FLAGS_v\<close> only while no entry matches its base name, and it
  is then in the list of sites that a new entry redirects.
\<close>

definition no_match :: "VState \<Rightarrow> string \<Rightarrow> bool" where
  "no_match st b = (\<forall>i \<in> set (vmodule_list st). \<not> SafeFNMatch (pattern_of st i) b)"

definition site_ok :: "VState \<Rightarrow> nat \<Rightarrow> bool" where
  "site_ok st s =
     ((level (sites st s) = None \<longrightarrow> base_name (sites st s) = None \<and> s \<notin> set (cached_site_list st)) \<and>
      (level (sites st s) = Some FlagV \<longrightarrow> s \<in> set (cached_site_list st) \<and>
        (\<exists>b. base_name (sites st s) = Some b \<and> no_match st b)) \<and>
      (\<forall>i. level (sites st s) = Some (InfoLevel i) \<longrightarrow>
        i \<in> set (vmodule_list st) \<and> s \<notin> set (cached_site_list st)))"

definition vlog_ok :: "VState \<Rightarrow> bool" where
  "vlog_ok st = ((\<forall>i \<in> set (vmodule_list st). i < length (vinfos st)) \<and>
     (inited_vmodule st \<or> (\<forall>s. level (sites st s) = None)) \<and>
     distinct (cached_site_list st) \<and> (\<forall>s. site_ok st s))"

lemma first_match_FlagV: "first_match st b is = FlagV \<longleftrightarrow> (\<forall>i \<in> set is. \<not> SafeFNMatch (pattern_of st i) b)"
  by (induction "is") auto

lemma first_match_Info: "first_match st b is = InfoLevel i \<Longrightarrow>
    i \<in> set is \<and> SafeFNMatch (pattern_of st i) b"
  by (induction "is") (auto split: if_splits)

lemma no_match_flags [simp]:
  "no_match (st\<lparr>FLAGS_v := v\<rparr>) b = no_match st b"
  "no_match (st\<lparr>FLAGS_vmodule := m\<rparr>) b = no_match st b"
  "no_match (st\<lparr>sites := ss\<rparr>) b = no_match st b"
  "no_match (st\<lparr>sites := ss, cached_site_list := c\<rparr>) b = no_match st b"
  by (simp_all add: no_match_def pattern_of_def)

lemma vlog_ok_flags: "vlog_ok st \<Longrightarrow> vlog_ok (st\<lparr>FLAGS_v := v\<rparr>) \<and> vlog_ok (st\<lparr>FLAGS_vmodule := m\<rparr>)"
  by (simp add: vlog_ok_def site_ok_def)

lemma vlog_ok_init: "vlog_ok (vinit v vmodule)"
  by (simp add: vlog_ok_def vinit_def site_ok_def new_site_def)

lemma VLOG2Initializer_ok: "vlog_ok st \<Longrightarrow> \<not> inited_vmodule st \<Longrightarrow> vlog_ok (VLOG2Initializer st)"
  by (auto simp: vlog_ok_def VLOG2Initializer_def Let_def site_ok_def)

lemma InitVLOG3_ok:
  assumes ok: "vlog_ok st" and new: "level (sites st site) = None"
  shows "vlog_ok (snd (InitVLOG3 site fname n st))"
proof (cases "inited_vmodule st")
  case False
  then show ?thesis using VLOG2Initializer_ok[OF ok] by (simp add: InitVLOG3_def Let_def)
next
  case True
  define v where "v = first_match st (file_base fname) (vmodule_list st)"
  have site: "base_name (sites st site) = None" "site \<notin> set (cached_site_list st)"
    using ok new by (auto simp: vlog_ok_def site_ok_def)
  show ?thesis
  proof (cases v)
    case FlagV
    then have "no_match st (file_base fname)"
      by (simp add: v_def first_match_FlagV no_match_def)
    then show ?thesis
      using ok True site FlagV
      by (simp add: InitVLOG3_def Let_def v_def[symmetric] vlog_ok_def site_ok_def)
  next
    case (InfoLevel i)
    then have "i \<in> set (vmodule_list st)" using first_match_Info v_def by metis
    then show ?thesis
      using ok True site InfoLevel
      by (simp add: InitVLOG3_def Let_def v_def[symmetric] vlog_ok_def site_ok_def)
  qed
qed

text \<open>\<open>set_loop\<close> changes levels only.\<close>

lemma set_loop_infos:
  "set_loop pat l is (r, f, infos) = (r', f', infos') \<Longrightarrow>
   length infos' = length infos \<and> map module_pattern infos' = map module_pattern infos"
proof (induction "is" arbitrary: r f infos)
  case (Cons i js)
  have "map module_pattern (infos[i := (infos ! i)\<lparr>vlog_level := l\<rparr>]) = map module_pattern infos"
  proof (cases "i < length infos")
    case True
    then show ?thesis by (simp add: map_update list_update_same_conv)
  next
    case False
    then show ?thesis by (simp add: list_update_beyond)
  qed
  with Cons show ?case by (auto split: if_splits)
qed simp

lemma set_loop_found: "set_loop pat l is (r, True, infos) = (r', f', infos') \<Longrightarrow> f' \<and> r' = r"
  by (induction "is" arbitrary: infos) (auto split: if_splits)

lemma set_loop_not_found:
  "set_loop pat l is (r, False, infos) = (r', False, infos') \<Longrightarrow> r' = r \<and> infos' = infos"
  by (induction "is") (auto split: if_splits dest: set_loop_found)

lemma redirect_loop_spec:
  "distinct items \<Longrightarrow> redirect_loop pat info items ss = (cached, ss') \<Longrightarrow>
   (\<forall>s. s \<notin> set items \<longrightarrow> ss' s = ss s \<and> s \<notin> set cached) \<and>
   (\<forall>s \<in> set items. if SafeFNMatch pat (the (base_name (ss s)))
      then ss' s = (ss s)\<lparr>level := Some (InfoLevel info)\<rparr> \<and> s \<notin> set cached
      else ss' s = ss s \<and> s \<in> set cached) \<and> distinct cached"
proof (induction items arbitrary: ss cached)
  case (Cons a items)
  show ?case
  proof (cases "SafeFNMatch pat (the (base_name (ss a)))")
    case True
    define ss1 where "ss1 = ss(a := (ss a)\<lparr>level := Some (InfoLevel info)\<rparr>)"
    have "redirect_loop pat info items ss1 = (cached, ss')"
      using Cons.prems(2) True by (simp add: ss1_def)
    from Cons.IH[OF _ this] Cons.prems(1) True show ?thesis
      by (simp add: ss1_def split: if_splits) fastforce
  next
    case False
    then obtain rest where "redirect_loop pat info items ss = (rest, ss')" "cached = a # rest"
      using Cons.prems(2) by (auto split: prod.splits)
    with Cons.IH[OF _ this(1)] Cons.prems(1) False show ?thesis by simp blast
  qed
qed simp

text \<open>
  What \<open>SetVLOGLevel\<close> does to a good state: either some entry had the pattern and only levels
  change, or a new entry comes first and takes over the cached sites it matches.
\<close>

lemma SetVLOGLevel_cases:
  assumes ok: "vlog_ok st" and st': "st' = snd (SetVLOGLevel pat l st)"
  obtains
    (changed) "vmodule_list st' = vmodule_list st" "sites st' = sites st"
      "cached_site_list st' = cached_site_list st" "inited_vmodule st' = inited_vmodule st"
      "length (vinfos st') = length (vinfos st)"
      "\<And>i. i \<in> set (vmodule_list st) \<Longrightarrow> pattern_of st' i = pattern_of st i"
  | (added) info where "vmodule_list st' = info # vmodule_list st" "pattern_of st' info = pat"
      "length (vinfos st') = length (vinfos st) + 1" "info = length (vinfos st)"
      "inited_vmodule st' = inited_vmodule st" "distinct (cached_site_list st')"
      "\<And>i. i \<in> set (vmodule_list st) \<Longrightarrow> pattern_of st' i = pattern_of st i"
      "\<And>s. s \<notin> set (cached_site_list st) \<Longrightarrow>
         sites st' s = sites st s \<and> s \<notin> set (cached_site_list st')"
      "\<And>s b. s \<in> set (cached_site_list st) \<Longrightarrow> base_name (sites st s) = Some b \<Longrightarrow>
         if SafeFNMatch pat b
         then sites st' s = (sites st s)\<lparr>level := Some (InfoLevel info)\<rparr> \<and> s \<notin> set (cached_site_list st')
         else sites st' s = sites st s \<and> s \<in> set (cached_site_list st')"
proof -
  obtain result found infos where
    loop: "set_loop pat l (vmodule_list st) (FLAGS_v st, False, vinfos st) = (result, found, infos)"
    by (metis prod_cases3)
  note infos = set_loop_infos[OF loop]
  have below: "i < length infos" if "i \<in> set (vmodule_list st)" for i
    using ok that infos by (auto simp: vlog_ok_def)
  have pat_same: "module_pattern (infos ! i) = pattern_of st i" if "i \<in> set (vmodule_list st)" for i
    using below[OF that] infos by (metis nth_map pattern_of_def)
  show thesis
  proof (cases found)
    case True
    show thesis by (rule changed) (simp_all add: st' SetVLOGLevel_def loop True infos pattern_of_def pat_same)
  next
    case False
    obtain cached ss where
      red: "redirect_loop pat (length infos) (cached_site_list st) (sites st) = (cached, ss)"
      by (metis surj_pair)
    have d: "distinct (cached_site_list st)" using ok by (simp add: vlog_ok_def)
    note spec = redirect_loop_spec[OF d red]
    have eqs: "vinfos st' = infos @ [\<lparr>module_pattern = pat, vlog_level = l\<rparr>]"
      "vmodule_list st' = length infos # vmodule_list st" "cached_site_list st' = cached" "sites st' = ss"
      "inited_vmodule st' = inited_vmodule st"
      using False by (simp_all add: st' SetVLOGLevel_def loop red Let_def)
    show thesis
    proof (rule added[of "length infos"])
      show "pattern_of st' i = pattern_of st i" if "i \<in> set (vmodule_list st)" for i
        using pat_same[OF that] below[OF that] by (simp add: pattern_of_def eqs(1) nth_append)
      show "if SafeFNMatch pat b
         then sites st' s = (sites st s)\<lparr>level := Some (InfoLevel (length infos))\<rparr> \<and>
           s \<notin> set (cached_site_list st')
         else sites st' s = sites st s \<and> s \<in> set (cached_site_list st')"
        if "s \<in> set (cached_site_list st)" "base_name (sites st s) = Some b" for s b
        using spec that by (force simp: eqs)
      show "pattern_of st' (length infos) = pat"
        by (simp add: pattern_of_def eqs(1))
    qed (use spec infos in \<open>auto simp: eqs pattern_of_def\<close>)
  qed
qed

lemma cached_site_followed:
  assumes "vlog_ok st" and "s \<in> set (cached_site_list st)"
  obtains b where "level (sites st s) = Some FlagV" "base_name (sites st s) = Some b" "no_match st b"
  using assms by (cases "level (sites st s)"; cases "the (level (sites st s))")
    (auto simp: vlog_ok_def site_ok_def)

lemma SetVLOGLevel_ok:
  assumes ok: "vlog_ok st"
  shows "vlog_ok (snd (SetVLOGLevel pat l st))"
proof (rule SetVLOGLevel_cases[OF ok refl, of pat l], goal_cases)
  case 1
  then have "no_match (snd (SetVLOGLevel pat l st)) b = no_match st b" for b
    by (simp add: no_match_def)
  with 1 ok show ?case by (simp add: vlog_ok_def site_ok_def)
next
  case (2 info)
  define st' where "st' = snd (SetVLOGLevel pat l st)"
  note eqs = 2[folded st'_def]
  have nm: "no_match st' b \<longleftrightarrow> no_match st b \<and> \<not> SafeFNMatch pat b" for b
    using eqs(2,7) by (auto simp: no_match_def eqs(1))
  have "site_ok st' s" for s
  proof (cases "s \<in> set (cached_site_list st)")
    case True
    then obtain b where b: "level (sites st s) = Some FlagV" "base_name (sites st s) = Some b"
      "no_match st b" by (rule cached_site_followed[OF ok])
    from eqs(9)[OF True b(2)] b show ?thesis
      by (auto simp: site_ok_def eqs(1) nm split: if_splits)
  next
    case False
    with eqs(8)[OF False] ok show ?thesis by (auto simp: vlog_ok_def site_ok_def eqs(1))
  qed
  moreover have "inited_vmodule st' \<or> (\<forall>s. level (sites st' s) = None)"
  proof (cases "inited_vmodule st")
    case False
    then have none: "level (sites st s) = None" for s using ok by (simp add: vlog_ok_def)
    then have "s \<notin> set (cached_site_list st)" for s
      by (metis cached_site_followed[OF ok] none option.distinct(1))
    then show ?thesis using eqs(8) none by simp
  qed (simp add: eqs)
  ultimately show ?case
    using ok eqs(3,4,6) by (auto simp: vlog_ok_def st'_def[symmetric] eqs(1))
qed

lemma vreach_ok: "vreach st \<Longrightarrow> vlog_ok st"
proof (induction rule: vreach.induct)
  case (step st st')
  from step(2) show ?case
  proof cases
    case (site s fname n)
    then show ?thesis
      using InitVLOG3_ok[OF step(3)] step(3)
      by (auto simp: VLOG_IS_ON_def split: option.split)
  qed (use SetVLOGLevel_ok[OF step(3)] vlog_ok_flags[OF step(3)] in auto)
qed (rule vlog_ok_init)

text \<open>
  The history of the sites: for a site that has cached its level, the base name of its file and
  the list of entries as they were when the site was first evaluated.
\<close>

type_synonym vhistory = "nat \<Rightarrow> (string \<times> nat list) option"

definition record_site :: "nat \<Rightarrow> string \<Rightarrow> VState \<Rightarrow> VState \<Rightarrow> vhistory \<Rightarrow> vhistory" where
  "record_site site fname st st' h =
     (if level (sites st site) = None \<and> level (sites st' site) \<noteq> None
      then h(site \<mapsto> (file_base fname, vmodule_list st')) else h)"

inductive vtrace :: "VState \<Rightarrow> vhistory \<Rightarrow> bool" where
  trace_start: "vtrace (vinit v vmodule) (\<lambda>_. None)"
| trace_site: "vtrace st h \<Longrightarrow> st' = snd (VLOG_IS_ON site fname n st) \<Longrightarrow>
    vtrace st' (record_site site fname st st' h)"
| trace_set_level: "vtrace st h \<Longrightarrow> vtrace (snd (SetVLOGLevel pat l st)) h"
| trace_set_v: "vtrace st h \<Longrightarrow> vtrace (st\<lparr>FLAGS_v := v\<rparr>) h"
| trace_set_vmodule: "vtrace st h \<Longrightarrow> vtrace (st\<lparr>FLAGS_vmodule := m\<rparr>) h"

lemma vtrace_reach: "vtrace st h \<Longrightarrow> vreach st"
  by (induction rule: vtrace.induct) (auto intro: vreach.intros vstep.intros)

text \<open>
  The entries in the order in which a site consults them: those of its first evaluation from the
  first on, then the ones added later, oldest first.
\<close>

definition followed :: "VState \<Rightarrow> string \<Rightarrow> nat list \<Rightarrow> level_ptr" where
  "followed st b is = (case find (\<lambda>i. SafeFNMatch (pattern_of st i) b) is of
     None \<Rightarrow> FlagV | Some i \<Rightarrow> InfoLevel i)"

definition resolved :: "VState \<Rightarrow> vhistory \<Rightarrow> nat \<Rightarrow> bool" where
  "resolved st h s = (case level (sites st s) of
     None \<Rightarrow> h s = None
   | Some p \<Rightarrow> \<exists>b old added. h s = Some (b, old) \<and> vmodule_list st = added @ old \<and>
       p = followed st b (old @ rev added) \<and> (p = FlagV \<longrightarrow> base_name (sites st s) = Some b))"

lemma first_match_followed: "first_match st b is = followed st b is"
  by (induction "is") (auto simp: followed_def)

lemma followed_cong:
  "(\<And>i. i \<in> set is \<Longrightarrow> pattern_of st' i = pattern_of st i) \<Longrightarrow> followed st' b is = followed st b is"
  by (simp add: followed_def cong: find_cong)

lemma followed_snoc:
  "followed st b (is @ [i]) = (if followed st b is \<noteq> FlagV then followed st b is
     else if SafeFNMatch (pattern_of st i) b then InfoLevel i else FlagV)"
  by (induction "is") (auto simp: followed_def)

lemma followed_cases: "followed st b is = FlagV \<or> (\<exists>i \<in> set is. followed st b is = InfoLevel i)"
  by (auto simp: followed_def find_Some_iff split: option.split)

lemma resolved_flags [simp]:
  "resolved (st\<lparr>FLAGS_v := v\<rparr>) h s = resolved st h s"
  "resolved (st\<lparr>FLAGS_vmodule := m\<rparr>) h s = resolved st h s"
  by (simp_all add: resolved_def followed_def pattern_of_def split: option.split)

lemma resolved_kept:
  assumes "resolved st h s" and "sites st' s = sites st s" and "vmodule_list st' = vmodule_list st"
    and "\<And>i. i \<in> set (vmodule_list st) \<Longrightarrow> pattern_of st' i = pattern_of st i"
  shows "resolved st' h s"
proof -
  have "followed st' b (old @ rev added) = followed st b (old @ rev added)"
    if "vmodule_list st = added @ old" for b old added
    using assms(4) that by (intro followed_cong) auto
  then show ?thesis using assms(1-3) by (fastforce simp: resolved_def split: option.splits)
qed

lemma VLOG_IS_ON_resolved:
  assumes ok: "vlog_ok st" and h: "\<forall>s. resolved st h s" and st': "st' = snd (VLOG_IS_ON site fname n st)"
  shows "resolved st' (record_site site fname st st' h) s"
proof (cases "level (sites st site) = None \<and> inited_vmodule st")
  case True
  define v where "v = first_match st (file_base fname) (vmodule_list st)"
  have base: "base_name (sites st site) = None"
    using True ok by (simp add: vlog_ok_def site_ok_def)
  have eqs: "vmodule_list st' = vmodule_list st" "vinfos st' = vinfos st"
    "level (sites st' site) = Some v" "v = FlagV \<longrightarrow> base_name (sites st' site) = Some (file_base fname)"
    "\<And>s. s \<noteq> site \<Longrightarrow> sites st' s = sites st s"
    using True base by (auto simp: st' VLOG_IS_ON_def InitVLOG3_def Let_def v_def[symmetric])
  have f: "followed st' b is = followed st b is" for b "is"
    by (simp add: followed_def pattern_of_def eqs(2))
  show ?thesis
  proof (cases "s = site")
    case True
    with eqs \<open>level (sites st site) = None \<and> _\<close> show ?thesis
      by (simp add: resolved_def record_site_def f v_def first_match_followed)
  next
    case False
    then have "resolved st' h s"
      using h eqs(1,2,5) by (intro resolved_kept[of st h s st']) (simp_all add: pattern_of_def)
    moreover have "record_site site fname st st' h s = h s"
      using False by (simp add: record_site_def)
    ultimately show ?thesis by (simp add: resolved_def split: option.splits)
  qed
next
  case False
  then have "st' = st \<or> st' = VLOG2Initializer st \<and> level (sites st site) = None \<and> \<not> inited_vmodule st"
    by (auto simp: st' VLOG_IS_ON_def InitVLOG3_def Let_def split: option.splits)
  then show ?thesis
  proof
    assume init: "st' = VLOG2Initializer st \<and> level (sites st site) = None \<and> \<not> inited_vmodule st"
    then have "level (sites st t) = None" for t using ok by (simp add: vlog_ok_def)
    then show ?thesis
      using h init by (simp add: resolved_def record_site_def VLOG2Initializer_def Let_def)
  qed (use h in \<open>auto simp: record_site_def\<close>)
qed

lemma SetVLOGLevel_resolved:
  assumes ok: "vlog_ok st" and h: "resolved st h s"
  shows "resolved (snd (SetVLOGLevel pat l st)) h s"
proof (rule SetVLOGLevel_cases[OF ok refl, of pat l], goal_cases)
  case 1
  then show ?case by (intro resolved_kept[OF h]) simp_all
next
  case (2 info)
  define st' where "st' = snd (SetVLOGLevel pat l st)"
  note eqs = 2[folded st'_def]
  have f: "followed st' b (old @ rev (info # added)) = (case followed st b (old @ rev added) of
      FlagV \<Rightarrow> if SafeFNMatch pat b then InfoLevel info else FlagV | p \<Rightarrow> p)"
    if "vmodule_list st = added @ old" for b old added
  proof -
    have "followed st' b (old @ rev added) = followed st b (old @ rev added)"
      using eqs(7) that by (intro followed_cong) auto
    then show ?thesis
      using followed_snoc[of st' b "old @ rev added" info] eqs(2) by (simp split: level_ptr.split)
  qed
  have c: "s \<in> set (cached_site_list st) \<longleftrightarrow> level (sites st s) = Some FlagV"
    using ok by (cases "level (sites st s)"; cases "the (level (sites st s))")
      (auto simp: vlog_ok_def site_ok_def)
  show ?case
  proof (cases "level (sites st s)")
    case None
    then show ?thesis using h c eqs(8)[of s] by (simp add: resolved_def st'_def)
  next
    case (Some p)
    with h obtain b old added where r: "h s = Some (b, old)" "vmodule_list st = added @ old"
      "p = followed st b (old @ rev added)" "p = FlagV \<longrightarrow> base_name (sites st s) = Some b"
      by (auto simp: resolved_def)
    have list: "vmodule_list st' = (info # added) @ old" by (simp add: eqs(1) r)
    have "\<exists>q. level (sites st' s) = Some q \<and> q = followed st' b (old @ rev (info # added)) \<and>
        (q = FlagV \<longrightarrow> base_name (sites st' s) = Some b)"
    proof (cases p)
      case FlagV
      then show ?thesis
        using f[OF r(2), of b] r(3,4) Some c eqs(9)[of s b] by (auto split: if_splits)
    next
      case (InfoLevel i)
      then show ?thesis using f[OF r(2), of b] r(3) Some c eqs(8)[of s] by auto
    qed
    then obtain q where "level (sites st' s) = Some q" "q = followed st' b (old @ rev (info # added))"
      "q = FlagV \<longrightarrow> base_name (sites st' s) = Some b" by blast
    then show ?thesis
      unfolding resolved_def st'_def[symmetric] using r(1) list
      by (simp del: rev.simps append_assoc)
  qed
qed

lemma vtrace_resolved: "vtrace st h \<Longrightarrow> resolved st h s"
proof (induction arbitrary: s rule: vtrace.induct)
  case (trace_site st h st' site fname n)
  then show ?case using VLOG_IS_ON_resolved vreach_ok vtrace_reach by blast
next
  case (trace_set_level st h pat l)
  then show ?case using SetVLOGLevel_resolved vreach_ok vtrace_reach by blast
next
  case (trace_start v vmodule)
  then show ?case by (simp add: resolved_def vinit_def new_site_def)
qed simp_all

lemma set_loop_fresh:
  "(\<forall>i \<in> set is. module_pattern (infos ! i) \<noteq> pat \<and> \<not> SafeFNMatch (module_pattern (infos ! i)) pat) \<Longrightarrow>
   set_loop pat l is (r, False, infos) = (r, False, infos)"
  by (induction "is") auto

subsection \<open>Properties\<close>

text \<open>
  C32. \<open>SafeFNMatch_\<close> is glob matching, for patterns without two stars in a row and names
  without a star.
\<close>

theorem SafeFNMatch_glob:
  assumes "no_double_star pattern" and "CHR ''*'' \<notin> set str"
  shows "SafeFNMatch pattern str \<longleftrightarrow> glob pattern str"
  using SafeFNMatch_sound SafeFNMatch_complete assms by blast

theorem SafeFNMatch_glob_witness:
  "SafeFNMatch ''map*_?'' ''mapreduce_x'' \<longleftrightarrow> glob ''map*_?'' ''mapreduce_x''"
  by (rule SafeFNMatch_glob) simp_all

text \<open>
  C13. In every state the program can reach, a \<open>VLOG\<close> site that has cached its level follows the
  first entry that matched the base name of its file in the list of entries as it was when the
  site was first evaluated; if none did, the first of the entries added since then that matches;
  if none does either, \<open>FLAGS_v\<close>. It is in the list of the sites that \<open>SetVLOGLevel\<close> redirects
  exactly as long as it follows \<open>FLAGS_v\<close>.
\<close>

theorem cached_site_invariant:
  assumes "vtrace st seen" and "level (sites st s) = Some p"
  shows "\<exists>base old added. seen s = Some (base, old) \<and> vmodule_list st = added @ old \<and>
    p = (case find (\<lambda>i. SafeFNMatch (module_pattern (vinfos st ! i)) base) (old @ rev added) of
        Some i \<Rightarrow> InfoLevel i
      | None \<Rightarrow> FlagV) \<and>
    (\<forall>i \<in> set (vmodule_list st). i < length (vinfos st)) \<and>
    (s \<in> set (cached_site_list st) \<longleftrightarrow> p = FlagV) \<and>
    (p = FlagV \<longrightarrow> base_name (sites st s) = Some base)"
proof -
  have ok: "vlog_ok st" by (rule vreach_ok[OF vtrace_reach[OF assms(1)]])
  then have "s \<in> set (cached_site_list st) \<longleftrightarrow> p = FlagV" "\<forall>i \<in> set (vmodule_list st). i < length (vinfos st)"
    using assms(2) by (cases p; auto simp: vlog_ok_def site_ok_def)+
  then show ?thesis
    using vtrace_resolved[OF assms(1), of s] assms(2)
    by (auto simp: resolved_def followed_def pattern_of_def split: option.splits)
qed

text \<open>
  A site of the file \<open>a.cc\<close> under \<^verbatim>\<open>--vmodule=b=1,a*=2,?=3\<close>: the first entry that matches is
  the second one.
\<close>

definition demo_call :: "nat \<Rightarrow> VState \<Rightarrow> VState" where
  "demo_call site st = snd (VLOG_IS_ON site ''a.cc'' 1 st)"

definition demo_start :: VState where
  "demo_start = demo_call 0 (demo_call 0 (vinit 0 ''b=1,a*=2,?=3''))"

lemma demo_start_trace: "\<exists>seen. vtrace demo_start seen \<and> seen 0 = Some (''a'', [0, 1, 2])"
proof -
  let ?s0 = "vinit 0 ''b=1,a*=2,?=3''"
  let ?h = "\<lambda>st site seen. record_site site ''a.cc'' st (demo_call site st) seen"
  have "vtrace demo_start (?h (demo_call 0 ?s0) 0 (?h ?s0 0 (\<lambda>_. None)))"
    unfolding demo_start_def demo_call_def
    by (rule vtrace.intros(2)[OF vtrace.intros(2)[OF vtrace.intros(1) refl] refl])
  moreover have "?h (demo_call 0 ?s0) 0 (?h ?s0 0 (\<lambda>_. None)) 0 = Some (''a'', [0, 1, 2])"
    by code_simp
  ultimately show ?thesis by blast
qed

theorem cached_site_invariant_witness:
  "level (sites demo_start 0) = Some (InfoLevel 1) \<and>
   pattern_of demo_start 1 = ''a*'' \<and> pattern_of demo_start 2 = ''?'' \<and>
   0 \<notin> set (cached_site_list demo_start)"
proof -
  obtain seen where seen: "vtrace demo_start seen" "seen 0 = Some (''a'', [0, 1, 2])"
    using demo_start_trace by blast
  have st: "vmodule_list demo_start = [0, 1, 2]"
    "map module_pattern (vinfos demo_start) = [''b'', ''a*'', ''?'']" by code_simp+
  have lev: "level (sites demo_start 0) \<noteq> None" by code_simp
  then obtain p where p: "level (sites demo_start 0) = Some p" by blast
  have pat: "module_pattern (vinfos demo_start ! 0) = ''b''" "module_pattern (vinfos demo_start ! 1) = ''a*''"
    "module_pattern (vinfos demo_start ! 2) = ''?''"
    by code_simp+
  from cached_site_invariant[OF seen(1) p] seen(2) st(1) pat
  have "p = InfoLevel 1" "0 \<notin> set (cached_site_list demo_start)" by auto
  then show ?thesis using p pat by (simp add: pattern_of_def)
qed

lemma vreach_site: "vreach (snd (VLOG_IS_ON 0 ''a.cc'' 1 (snd (VLOG_IS_ON 0 ''a.cc'' 1 (vinit 0 [])))))"
  by (intro vreach.step[OF vreach.step[OF vreach.start vstep.site] vstep.site])

lemma site_level: "level (sites (snd (VLOG_IS_ON 0 ''a.cc'' 1 (snd (VLOG_IS_ON 0 ''a.cc'' 1
    (vinit 0 []))))) 0) = Some FlagV"
  by code_simp

text \<open>
  C23. \<open>SetVLOGLevel\<close> with a pattern that no entry equals or matches returns the value of
  \<open>FLAGS_v\<close>, and from then on every site that followed \<open>FLAGS_v\<close> and whose base name the
  pattern matches has the given level. (The comment in \<^verbatim>\<open>vlog_is_on.h.in\<close> says otherwise: that the
  level of an executed site changes only with the exact pattern of \<^verbatim>\<open>--vmodule\<close>, and that \<open>FLAGS_v\<close>
  goes on controlling a site to which no pattern applied.)
\<close>

theorem SetVLOGLevel_redirects:
  assumes "vreach st" and "level (sites st s) = Some FlagV" and "base_name (sites st s) = Some b"
    and "SafeFNMatch pat b"
    and fresh: "\<forall>i \<in> set (vmodule_list st). module_pattern (vinfos st ! i) \<noteq> pat \<and>
      \<not> SafeFNMatch (module_pattern (vinfos st ! i)) pat"
  shows "fst (SetVLOGLevel pat l st) = FLAGS_v st \<and>
    (let st' = snd (SetVLOGLevel pat l st) in
      map_option (deref st') (level (sites st' s)) = Some l)"
proof -
  have ok: "vlog_ok st" by (rule vreach_ok[OF assms(1)])
  obtain cached ss where
    red: "redirect_loop pat (length (vinfos st)) (cached_site_list st) (sites st) = (cached, ss)"
    by (metis surj_pair)
  have d: "distinct (cached_site_list st)" "s \<in> set (cached_site_list st)"
    using ok assms(2) by (auto simp: vlog_ok_def site_ok_def)
  from redirect_loop_spec[OF d(1) red] d(2) assms(3,4)
  have "ss s = (sites st s)\<lparr>level := Some (InfoLevel (length (vinfos st)))\<rparr>" by force
  then show ?thesis
    by (simp add: SetVLOGLevel_def set_loop_fresh[OF fresh] red Let_def deref_def)
qed

theorem SetVLOGLevel_redirects_witness:
  "fst (SetVLOGLevel ''a*'' 3 (snd (VLOG_IS_ON 0 ''a.cc'' 1 (snd (VLOG_IS_ON 0 ''a.cc'' 1
     (vinit 0 [])))))) = 0"
proof -
  have 1: "base_name (sites (snd (VLOG_IS_ON 0 ''a.cc'' 1 (snd (VLOG_IS_ON 0 ''a.cc'' 1
      (vinit 0 []))))) 0) = Some ''a''" by code_simp
  have 2: "vmodule_list (snd (VLOG_IS_ON 0 ''a.cc'' 1 (snd (VLOG_IS_ON 0 ''a.cc'' 1
      (vinit 0 []))))) = []" by code_simp
  have 3: "FLAGS_v (snd (VLOG_IS_ON 0 ''a.cc'' 1 (snd (VLOG_IS_ON 0 ''a.cc'' 1
      (vinit 0 []))))) = 0" by code_simp
  have 4: "SafeFNMatch ''a*'' ''a''" by simp
  show ?thesis using SetVLOGLevel_redirects[OF vreach_site site_level 1 4] 2 3 by simp
qed

subsection \<open>Departures from glob matching\<close>

text \<open>Two stars in a row match nothing at the end of a name, and a literal star is tried first.\<close>

lemma double_star: "glob ''a**'' ''a'' \<and> \<not> SafeFNMatch ''a**'' ''a''"
  by code_simp

lemma literal_star: "glob ''*b'' ''*ab'' \<and> \<not> SafeFNMatch ''*b'' ''*ab''"
  by code_simp

end
