(* ===== verification/Signal_Format.thy ===== *)
theory Signal_Format
  imports Prelude
begin

section \<open>The failure signal handler: formatting\<close>

text \<open>
  \<open>MinimalFormatter\<close> of \<^verbatim>\<open>src/signalhandler.cc\<close> and the lines it builds. \<open>fbuf\<close> is the
  caller's array, \<open>cursor\<close> and \<open>fend\<close> are offsets into it; \<open>foob\<close> records a store outside
  the array. C strings passed in hold no NUL.
\<close>

subsection \<open>The formatter\<close>

record Fmt =
  fbuf :: string
  cursor :: nat
  fend :: nat
  foob :: bool

definition MinimalFormatter :: "string \<Rightarrow> nat \<Rightarrow> Fmt" where
  "MinimalFormatter buffer sz = \<lparr>fbuf = buffer, cursor = 0, fend = sz, foob = False\<rparr>"

definition num_bytes_written :: "Fmt \<Rightarrow> nat" where
  "num_bytes_written f = cursor f"

definition fstore :: "nat \<Rightarrow> char \<Rightarrow> Fmt \<Rightarrow> Fmt" where
  "fstore i c f = (if i < length (fbuf f) then f\<lparr>fbuf := (fbuf f)[i := c]\<rparr> else f\<lparr>foob := True\<rparr>)"

fun fstores :: "nat \<Rightarrow> string \<Rightarrow> Fmt \<Rightarrow> Fmt" where
  "fstores i [] f = f"
| "fstores i (c # s) f = fstores (Suc i) s (fstore i c f)"

fun AppendString_loop :: "nat \<Rightarrow> string \<Rightarrow> Fmt \<Rightarrow> Fmt \<times> nat" where
  "AppendString_loop i [] f = (f, i)"
| "AppendString_loop i (c # str) f =
     (if cursor f + i < fend f then AppendString_loop (Suc i) str (fstore (cursor f + i) c f)
      else (f, i))"

definition AppendString :: "string \<Rightarrow> Fmt \<Rightarrow> Fmt" where
  "AppendString str f =
     (let (f', i) = AppendString_loop 0 str f in f'\<lparr>cursor := cursor f' + i\<rparr>)"

definition radix_digit :: "nat \<Rightarrow> char" where
  "radix_digit tmp = (if tmp < 10 then char_of (48 + tmp) else char_of (97 + tmp - 10))"

text \<open>\<open>room\<close> is \<^verbatim>\<open>end_ - (cursor_ + i)\<close>: the loop stops when it is used up.\<close>

fun AppendUint64_loop :: "nat \<Rightarrow> nat \<Rightarrow> nat \<Rightarrow> nat \<Rightarrow> Fmt \<Rightarrow> Fmt \<times> nat" where
  "AppendUint64_loop 0 radix i number f = (f, i)"
| "AppendUint64_loop (Suc room) radix i number f =
     (let tmp = number mod radix;
          number' = number div radix;
          f' = fstore (cursor f + i) (radix_digit tmp) f
      in if number' = 0 then (f', Suc i)
         else AppendUint64_loop room radix (Suc i) number' f')"

definition AppendUint64 :: "nat \<Rightarrow> nat \<Rightarrow> Fmt \<Rightarrow> Fmt" where
  "AppendUint64 number radix f =
     (let (f', i) = AppendUint64_loop (fend f - cursor f) radix 0 number f;
          c = cursor f'
      in f'\<lparr>fbuf := take c (fbuf f') @ rev (take i (drop c (fbuf f'))) @ drop (c + i) (fbuf f'),
            cursor := c + i\<rparr>)"

text \<open>
  The copy to the right is between overlapping ranges; it is modelled as the \<open>memmove\<close> that
  the implementations of \<^verbatim>\<open>std::copy\<close> on characters perform.
\<close>

definition AppendHexWithPadding :: "nat \<Rightarrow> nat \<Rightarrow> Fmt \<Rightarrow> Fmt" where
  "AppendHexWithPadding number width f =
     (let start = cursor f;
          f2 = AppendUint64 number 16 (AppendString ''0x'' f)
      in if cursor f2 < start + width then
           (let delta = start + width - cursor f2;
                moved = fstores (start + delta) (take (cursor f2 - start) (drop start (fbuf f2))) f2
            in (fstores start (replicate delta CHR '' '') moved)\<lparr>cursor := start + width\<rparr>)
         else f2)"

subsection \<open>What the formatter holds\<close>

definition ftext :: "Fmt \<Rightarrow> string" where
  "ftext f = take (cursor f) (fbuf f)"

definition fmt_ok :: "Fmt \<Rightarrow> bool" where
  "fmt_ok f = (fend f = length (fbuf f) \<and> cursor f \<le> fend f \<and> \<not> foob f)"

text \<open>The digits of a number in a radix of at least two.\<close>

function num_str :: "nat \<Rightarrow> nat \<Rightarrow> string" where
  "num_str radix n =
     (if n < radix \<or> radix < 2 then [radix_digit (n mod radix)]
      else num_str radix (n div radix) @ [radix_digit (n mod radix)])"
  by pat_completeness auto
termination by (relation "measure snd") auto

declare num_str.simps [simp del]

lemma fmt_ok_new: "fmt_ok (MinimalFormatter b (length b))"
  by (simp add: fmt_ok_def MinimalFormatter_def)

lemma fstores_spec:
  "i + length s \<le> length (fbuf f) \<Longrightarrow>
   fstores i s f = f\<lparr>fbuf := take i (fbuf f) @ s @ drop (i + length s) (fbuf f)\<rparr>"
proof (induction s arbitrary: i f)
  case (Cons c s)
  define f1 where "f1 = f\<lparr>fbuf := (fbuf f)[i := c]\<rparr>"
  have "fstore i c f = f1" using Cons.prems by (simp add: fstore_def f1_def)
  moreover have "take (Suc i) (fbuf f1) = take i (fbuf f) @ [c]"
    using Cons.prems by (simp add: f1_def take_Suc_conv_app_nth)
  ultimately show ?case
    using Cons.IH[of "Suc i" f1] Cons.prems by (simp add: f1_def)
qed simp

lemma AppendString_loop_spec:
  "fmt_ok f \<Longrightarrow> AppendString_loop i s f =
     (let k = min (length s) (fend f - (cursor f + i)) in
      (fstores (cursor f + i) (take k s) f, i + k))"
proof (induction i s f rule: AppendString_loop.induct)
  case (2 i c str f)
  show ?case
  proof (cases "cursor f + i < fend f")
    case True
    have ok: "fmt_ok (fstore (cursor f + i) c f)"
      using 2(2) True by (simp add: fmt_ok_def fstore_def)
    have keep: "cursor (fstore (cursor f + i) c f) = cursor f" "fend (fstore (cursor f + i) c f) = fend f"
      by (simp_all add: fstore_def)
    have "fend f - (cursor f + i) = Suc (fend f - Suc (cursor f + i))" using True by simp
    with 2(1)[OF True ok] True show ?thesis by (simp add: keep Let_def)
  qed (simp add: Let_def)
qed (simp add: Let_def)

lemma AppendString_spec:
  assumes "fmt_ok f"
  shows "fmt_ok (AppendString s f) \<and> fend (AppendString s f) = fend f \<and>
    ftext (AppendString s f) = take (fend f) (ftext f @ s)"
proof -
  define k where "k = min (length s) (fend f - cursor f)"
  have k: "cursor f + k \<le> length (fbuf f)" "k \<le> length s"
    using assms by (auto simp: k_def fmt_ok_def)
  have A: "AppendString s f =
      f\<lparr>fbuf := take (cursor f) (fbuf f) @ take k s @ drop (cursor f + k) (fbuf f),
        cursor := cursor f + k\<rparr>"
    using fstores_spec[of "cursor f" "take k s" f] k
    by (simp add: AppendString_def AppendString_loop_spec[OF assms] Let_def k_def[symmetric] min_absorb2)
  have "ftext (AppendString s f) = take (cursor f) (fbuf f) @ take k s"
    using k by (simp add: A ftext_def)
  also have "take k s = take (fend f - cursor f) s"
    by (auto simp: k_def min_def)
  finally have "ftext (AppendString s f) = take (fend f) (ftext f @ s)"
    using assms by (simp add: ftext_def fmt_ok_def)
  then show ?thesis using assms k by (simp add: A fmt_ok_def)
qed

lemmas AppendString_ok = AppendString_spec[THEN conjunct1]
lemmas AppendString_text = AppendString_spec[THEN conjunct2, THEN conjunct2]

text \<open>The digits the loop writes, least significant first.\<close>

fun written_digits :: "nat \<Rightarrow> nat \<Rightarrow> nat \<Rightarrow> string" where
  "written_digits 0 radix n = []"
| "written_digits (Suc room) radix n =
     radix_digit (n mod radix) # (if n div radix = 0 then [] else written_digits room radix (n div radix))"

lemma written_digits_length: "length (written_digits room radix n) \<le> room"
  by (induction room radix n rule: written_digits.induct) auto

lemma AppendUint64_loop_spec:
  "fmt_ok f \<Longrightarrow> cursor f + i + room \<le> fend f \<Longrightarrow>
   AppendUint64_loop room radix i n f =
     (fstores (cursor f + i) (written_digits room radix n) f,
      i + length (written_digits room radix n))"
proof (induction room radix i n f rule: AppendUint64_loop.induct)
  case (2 room radix i n f)
  define f1 where "f1 = fstore (cursor f + i) (radix_digit (n mod radix)) f"
  have f1: "fmt_ok f1" "cursor f1 = cursor f" "fend f1 = fend f"
    using 2(2,3) by (auto simp: f1_def fstore_def fmt_ok_def)
  show ?case
  proof (cases "n div radix = 0")
    case True
    then show ?thesis by (simp add: Let_def)
  next
    case False
    with 2(1)[OF refl refl f1_def False f1(1)] 2(3) f1 show ?thesis
      by (simp add: Let_def f1_def[symmetric])
  qed
qed simp

lemma num_str_rev:
  "2 \<le> radix \<Longrightarrow> written_digits room radix n = take room (rev (num_str radix n))"
proof (induction room radix n rule: written_digits.induct)
  case (2 room radix n)
  then show ?case
    by (subst num_str.simps) (auto simp: not_less div_eq_0_iff)
qed simp

lemma AppendUint64_spec:
  assumes "fmt_ok f" and "2 \<le> radix"
  shows "fmt_ok (AppendUint64 n radix f) \<and> fend (AppendUint64 n radix f) = fend f \<and>
    ftext (AppendUint64 n radix f) =
      ftext f @ rev (take (fend f - cursor f) (rev (num_str radix n)))"
proof -
  define ds where "ds = written_digits (fend f - cursor f) radix n"
  define c where "c = cursor f"
  have len: "c + length ds \<le> length (fbuf f)"
    using written_digits_length[of "fend f - cursor f" radix n] assms(1)
    by (auto simp: ds_def fmt_ok_def c_def)
  have loop: "AppendUint64_loop (fend f - cursor f) radix 0 n f =
      (f\<lparr>fbuf := take c (fbuf f) @ ds @ drop (c + length ds) (fbuf f)\<rparr>, length ds)"
    using AppendUint64_loop_spec[OF assms(1), of 0 "fend f - cursor f" radix n]
      fstores_spec[of c ds f] len assms(1)
    by (simp add: ds_def fmt_ok_def c_def)
  have A: "AppendUint64 n radix f =
      f\<lparr>fbuf := take c (fbuf f) @ rev ds @ drop (c + length ds) (fbuf f), cursor := c + length ds\<rparr>"
    unfolding AppendUint64_def loop Let_def prod.case using len by (simp add: c_def)
  show ?thesis
    using assms len num_str_rev[OF assms(2), of "fend f - cursor f" n]
    by (auto simp: A fmt_ok_def ftext_def c_def ds_def)
qed

lemma AppendUint64_fits:
  assumes "fmt_ok f" and "2 \<le> radix" and "cursor f + length (num_str radix n) \<le> fend f"
  shows "ftext (AppendUint64 n radix f) = ftext f @ num_str radix n"
  using AppendUint64_spec[OF assms(1,2), of n] assms(3) by simp

lemma AppendHexWithPadding_spec:
  assumes ok: "fmt_ok f" and room: "cursor f + max width (2 + length (num_str 16 n)) \<le> fend f"
  shows "fmt_ok (AppendHexWithPadding n width f) \<and> fend (AppendHexWithPadding n width f) = fend f \<and>
    ftext (AppendHexWithPadding n width f) =
      ftext f @ replicate (width - (2 + length (num_str 16 n))) CHR '' '' @ ''0x'' @ num_str 16 n"
proof -
  define f1 where "f1 = AppendString ''0x'' f"
  define f2 where "f2 = AppendUint64 n 16 f1"
  define w where "w = 2 + length (num_str 16 n)"
  have len: "length (ftext g) = cursor g" if "fmt_ok g" for g
    using that by (simp add: ftext_def fmt_ok_def)
  have 1: "fmt_ok f1" "fend f1 = fend f" "ftext f1 = ftext f @ ''0x''"
    using AppendString_spec[OF ok, of "''0x''"] room len[OF ok] by (auto simp: f1_def)
  then have c1: "cursor f1 = cursor f + 2" using len[OF 1(1)] len[OF ok] by simp
  have 2: "fmt_ok f2" "fend f2 = fend f" "ftext f2 = ftext f @ ''0x'' @ num_str 16 n"
    using AppendUint64_spec[OF 1(1), of 16 n] AppendUint64_fits[OF 1(1), of 16 n] room 1 c1
    by (auto simp: f2_def)
  then have c2: "cursor f2 = cursor f + w" using len[OF 2(1)] len[OF ok] by (simp add: w_def)
  have H: "AppendHexWithPadding n width f =
     (if cursor f2 < cursor f + width then
        (fstores (cursor f) (replicate (width - w) CHR '' '')
          (fstores (cursor f + (width - w)) (take w (drop (cursor f) (fbuf f2))) f2))
            \<lparr>cursor := cursor f + width\<rparr>
      else f2)"
    using c2 by (simp add: AppendHexWithPadding_def Let_def f1_def[symmetric] f2_def[symmetric])
  show ?thesis
  proof (cases "w < width")
    case False
    then show ?thesis using 2 c2 by (simp add: H w_def)
  next
    case True
    obtain rest where buf: "fbuf f2 = (ftext f @ ''0x'' @ num_str 16 n) @ rest"
      using 2(3) by (metis append_take_drop_id ftext_def)
    have lr: "length rest = fend f - (cursor f + w)"
      using 2(1,2) buf len[OF ok] c2 by (auto simp: fmt_ok_def w_def)
    have t: "take w (drop (cursor f) (fbuf f2)) = ''0x'' @ num_str 16 n"
      using len[OF ok] by (simp add: buf w_def)
    define f3 where "f3 = fstores (cursor f + (width - w)) (''0x'' @ num_str 16 n) f2"
    have sum: "cursor f + (width - w) + length (''0x'' @ num_str 16 n) = cursor f + width"
      using True by (simp add: w_def)
    have "f3 = f2\<lparr>fbuf := take (cursor f + (width - w)) (fbuf f2) @ (''0x'' @ num_str 16 n) @
        drop (cursor f + width) (fbuf f2)\<rparr>"
      unfolding f3_def sum[symmetric]
      using room 2(1,2) sum by (intro fstores_spec) (simp add: fmt_ok_def)
    then have b3: "fbuf f3 = take (cursor f + (width - w)) (fbuf f2) @ (''0x'' @ num_str 16 n) @
        drop (cursor f + width) (fbuf f2)" "fend f3 = fend f2" "foob f3 = foob f2"
      by simp_all
    have l3: "length (fbuf f3) = fend f" using b3 room 2(1,2) True by (auto simp: fmt_ok_def w_def)
    have "fstores (cursor f) (replicate (width - w) CHR '' '') f3 =
      f3\<lparr>fbuf := take (cursor f) (fbuf f3) @ replicate (width - w) CHR '' '' @
        drop (cursor f + (width - w)) (fbuf f3)\<rparr>"
      using l3 room True by (subst fstores_spec) (auto simp: w_def)
    moreover have "take (cursor f) (fbuf f3) = ftext f"
      using len[OF ok] by (simp add: b3(1) buf)
    moreover have "drop (cursor f + (width - w)) (fbuf f3) =
        (''0x'' @ num_str 16 n) @ drop (cursor f + width) (fbuf f2)"
      using 2(1,2) room True by (simp add: b3(1) fmt_ok_def w_def min_def)
    ultimately have f4: "fstores (cursor f) (replicate (width - w) CHR '' '') f3 =
      f3\<lparr>fbuf := ftext f @ replicate (width - w) CHR '' '' @ (''0x'' @ num_str 16 n) @
        drop (cursor f + width) (fbuf f2)\<rparr>" by (simp only:)
    have "AppendHexWithPadding n width f =
        (fstores (cursor f) (replicate (width - w) CHR '' '') f3)\<lparr>cursor := cursor f + width\<rparr>"
      unfolding H f3_def t using c2 True by simp
    then have "AppendHexWithPadding n width f =
      f3\<lparr>fbuf := ftext f @ replicate (width - w) CHR '' '' @ (''0x'' @ num_str 16 n) @
        drop (cursor f + width) (fbuf f2), cursor := cursor f + width\<rparr>"
      unfolding f4 by simp
    then show ?thesis
      using b3(2,3) 2(1,2) room True len[OF ok]
      by (simp add: fmt_ok_def ftext_def[of "_\<lparr>cursor := _\<rparr>"] w_def)
  qed
qed

text \<open>\<open>fmt f n t\<close>: a formatter over \<open>n\<close> bytes that holds the text \<open>t\<close>.\<close>

definition fmt :: "Fmt \<Rightarrow> nat \<Rightarrow> string \<Rightarrow> bool" where
  "fmt f n t = (fmt_ok f \<and> fend f = n \<and> ftext f = t)"

lemma fmt_length: "fmt f n t \<Longrightarrow> cursor f = length t \<and> length t \<le> n"
  by (auto simp: fmt_def fmt_ok_def ftext_def)

lemma fmt_new: "length b = n \<Longrightarrow> fmt (MinimalFormatter b n) n []"
  using fmt_ok_new[of b] by (auto simp: fmt_def ftext_def MinimalFormatter_def)

lemma fmt_String_take: "fmt f n t \<Longrightarrow> fmt (AppendString s f) n (take n (t @ s))"
  using AppendString_spec[of f s] by (simp add: fmt_def)

lemma fmt_String: "fmt f n t \<Longrightarrow> length t + length s \<le> n \<Longrightarrow> fmt (AppendString s f) n (t @ s)"
  using fmt_String_take[of f n t s] by simp

lemma fmt_Uint: "fmt f n t \<Longrightarrow> 2 \<le> radix \<Longrightarrow> length t + length (num_str radix k) \<le> n \<Longrightarrow>
    fmt (AppendUint64 k radix f) n (t @ num_str radix k)"
  using AppendUint64_spec[of f radix k] AppendUint64_fits[of f radix k] fmt_length[of f n t]
  by (simp add: fmt_def)

lemma fmt_Hex: "fmt f n t \<Longrightarrow> length t + max width (2 + length (num_str 16 k)) \<le> n \<Longrightarrow>
    fmt (AppendHexWithPadding k width f) n
      (t @ replicate (width - (2 + length (num_str 16 k))) CHR '' '' @ ''0x'' @ num_str 16 k)"
  using AppendHexWithPadding_spec[of f width k] fmt_length[of f n t] by (simp add: fmt_def)

lemma num_str_length: "2 \<le> radix \<Longrightarrow> n < radix ^ Suc k \<Longrightarrow> length (num_str radix n) \<le> Suc k"
proof (induction k arbitrary: n)
  case 0
  then show ?case by (subst num_str.simps) simp
next
  case (Suc k)
  show ?case
  proof (cases "n < radix")
    case False
    have "n div radix < radix ^ Suc k"
      using Suc.prems by (simp add: less_mult_imp_div_less mult.commute)
    with Suc False show ?thesis by (subst num_str.simps) simp
  qed (use Suc in \<open>subst num_str.simps, simp\<close>)
qed

subsection \<open>The lines of a failure report\<close>

definition u64 :: "int \<Rightarrow> nat" where
  "u64 x = nat (x mod 18446744073709551616)"

lemma u64_less: "u64 x < 18446744073709551616"
proof -
  have "x mod 18446744073709551616 < 18446744073709551616" by simp
  then show ?thesis unfolding u64_def by linarith
qed

lemma u64_decimal: "length (num_str 10 (u64 x)) \<le> 20"
  using num_str_length[of 10 "u64 x" 19] u64_less[of x] by simp

lemma u64_hex: "length (num_str 16 (u64 x)) \<le> 16"
  using num_str_length[of 16 "u64 x" 15] u64_less[of x] by simp

text \<open>The signal numbers are those of Linux.\<close>

definition kFailureSignals :: "(int \<times> string) list" where
  "kFailureSignals =
    [(11, ''SIGSEGV''), (4, ''SIGILL''), (8, ''SIGFPE''), (6, ''SIGABRT''), (7, ''SIGBUS''),
     (15, ''SIGTERM'')]"

text \<open>
  Each function returns the data and size it passes to the failure writer. \<open>buf\<close> is the
  local array before the call, whose contents are unspecified.
\<close>

definition written :: "Fmt \<Rightarrow> string" where
  "written f = take (num_bytes_written f) (fbuf f)"

definition DumpTimeInfo :: "int \<Rightarrow> string \<Rightarrow> string" where
  "DumpTimeInfo time_in_sec buf =
     (let f = MinimalFormatter buf 256;
          f = AppendString ''*** Aborted at '' f;
          f = AppendUint64 (u64 time_in_sec) 10 f;
          f = AppendString '' (unix time)'' f;
          f = AppendString '' try \"date -d @'' f;
          f = AppendUint64 (u64 time_in_sec) 10 f;
          f = AppendString (''\" if you are using GNU date ***'' @ [CHR 0x0A]) f
      in written f)"

text \<open>The loop keeps the last matching name.\<close>

definition signal_name :: "int \<Rightarrow> string option" where
  "signal_name signal_number =
     foldl (\<lambda>name (number, s). if signal_number = number then Some s else name) None kFailureSignals"

definition DumpSignalInfo :: "int \<Rightarrow> int \<Rightarrow> int \<Rightarrow> int \<Rightarrow> int \<Rightarrow> string \<Rightarrow> string" where
  "DumpSignalInfo signal_number si_addr pid tid si_pid buf =
     (let f = MinimalFormatter buf 256;
          f = AppendString ''*** '' f;
          f = (case signal_name signal_number of
                 Some name \<Rightarrow> AppendString name f
               | None \<Rightarrow> AppendUint64 (u64 signal_number) 10 (AppendString ''Signal '' f));
          f = AppendString '' (@0x'' f;
          f = AppendUint64 (u64 si_addr) 16 f;
          f = AppendString '')'' f;
          f = AppendString '' received by PID '' f;
          f = AppendUint64 (u64 pid) 10 f;
          f = AppendString '' (TID 0x'' f;
          f = AppendUint64 (u64 tid) 16 f;
          f = AppendString '') '' f;
          f = AppendString ''from PID '' f;
          f = AppendUint64 (u64 si_pid) 10 f;
          f = AppendString ''; '' f;
          f = AppendString (''stack trace: ***'' @ [CHR 0x0A]) f
      in written f)"

text \<open>\<open>symbolized\<close> is the result of \<open>Symbolize\<close> for \<open>pc - 1\<close>; pointers have eight bytes.\<close>

definition DumpStackFrameInfo :: "string \<Rightarrow> int \<Rightarrow> string option \<Rightarrow> string \<Rightarrow> string" where
  "DumpStackFrameInfo pre pc symbolized buf =
     (let sym = (case symbolized of Some s \<Rightarrow> s | None \<Rightarrow> ''(unknown)'');
          f = MinimalFormatter buf 1024;
          f = AppendString pre f;
          f = AppendString ''@ '' f;
          f = AppendHexWithPadding (u64 pc) 18 f;
          f = AppendString '' '' f;
          f = AppendString sym f;
          f = AppendString [CHR 0x0A] f
      in written f)"

lemma written_fmt: "fmt f n t \<Longrightarrow> written f = t"
  by (simp add: fmt_def written_def ftext_def num_bytes_written_def)

lemma take_take_append: "take n (take n x @ u) = take n (x @ u)"
  by (simp add: min_def)

lemma written_eq: "fmt f n t \<Longrightarrow> t = s \<Longrightarrow> written f = s"
  by (simp add: written_fmt)

lemma signal_name_length: "signal_name n = Some s \<Longrightarrow> length s \<le> 7"
  by (auto simp: signal_name_def kFailureSignals_def split: if_splits)

subsection \<open>Properties\<close>

text \<open>
  The time line of a failure report is never truncated: for every time the 256 bytes
  hold the whole text with both copies of the time in decimal.
\<close>

theorem DumpTimeInfo_text:
  assumes "length buf = 256"
  shows "DumpTimeInfo t buf = ''*** Aborted at '' @ num_str 10 (u64 t) @ '' (unix time)'' @
    '' try \"date -d @'' @ num_str 10 (u64 t) @ ''\" if you are using GNU date ***'' @ [CHR 0x0A]"
  unfolding DumpTimeInfo_def Let_def
  by (rule written_eq, (rule fmt_String fmt_Uint fmt_new)+) (use assms u64_decimal[of t] in simp_all)

lemma zero_decimal: "num_str 10 (u64 0) = ''0''"
  by code_simp

theorem DumpTimeInfo_text_witness:
  "DumpTimeInfo 0 (replicate 256 CHR ''?'') = ''*** Aborted at 0 (unix time) try \"date -d @0'' @
    ''\" if you are using GNU date ***'' @ [CHR 0x0A]"
  using DumpTimeInfo_text[of "replicate 256 CHR ''?''" 0]
  by (simp add: zero_decimal)

text \<open>
  The signal line is never truncated either: it names the signal, or gives its number,
  and the fault address, process, thread and sender are all written in full.
\<close>

theorem DumpSignalInfo_text:
  assumes "length buf = 256"
  shows "DumpSignalInfo sig addr pid tid from_pid buf =
    ''*** '' @ (case signal_name sig of Some name \<Rightarrow> name | None \<Rightarrow> ''Signal '' @ num_str 10 (u64 sig)) @
    '' (@0x'' @ num_str 16 (u64 addr) @ '')'' @ '' received by PID '' @ num_str 10 (u64 pid) @
    '' (TID 0x'' @ num_str 16 (u64 tid) @ '') '' @ ''from PID '' @ num_str 10 (u64 from_pid) @
    ''; '' @ ''stack trace: ***'' @ [CHR 0x0A]"
proof -
  define name where "name = (case signal_name sig of
      Some name \<Rightarrow> name | None \<Rightarrow> ''Signal '' @ num_str 10 (u64 sig))"
  have name: "length name \<le> 27"
    using u64_decimal[of sig] signal_name_length[of sig] by (auto simp: name_def split: option.split)
  have 1: "fmt (case signal_name sig of
          Some name \<Rightarrow> AppendString name f
        | None \<Rightarrow> AppendUint64 (u64 sig) 10 (AppendString ''Signal '' f)) 256 (t @ name)"
    if "fmt f 256 t" "length t = 4" for f t
  proof (cases "signal_name sig")
    case None
    have "fmt (AppendUint64 (u64 sig) 10 (AppendString ''Signal '' f)) 256
        ((t @ ''Signal '') @ num_str 10 (u64 sig))"
      using that u64_decimal[of sig] by (intro fmt_Uint fmt_String) simp_all
    then show ?thesis by (simp add: None name_def)
  next
    case (Some s)
    then show ?thesis
      using fmt_String[OF that(1), of s] that(2) signal_name_length[OF Some] by (simp add: name_def)
  qed
  show ?thesis
    unfolding DumpSignalInfo_def Let_def name_def[symmetric]
    by (rule written_eq, (rule fmt_String fmt_Uint 1 fmt_new)+)
      (use assms name u64_decimal[of pid] u64_decimal[of from_pid] u64_hex[of addr] u64_hex[of tid]
        in simp_all)
qed

lemma sig11: "signal_name 11 = Some ''SIGSEGV''"
  by code_simp

theorem DumpSignalInfo_text_witness:
  "take 11 (DumpSignalInfo 11 0 1 1 0 (replicate 256 CHR ''?'')) = ''*** SIGSEGV''"
  using DumpSignalInfo_text[of "replicate 256 CHR ''?''" 11 0 1 1 0] by (simp add: sig11)

text \<open>
  A stack frame line is the first 1024 bytes of prefix, padded program counter, symbol and
  newline; nothing is stored outside the local buffer whatever the symbol.
\<close>

theorem DumpStackFrameInfo_text:
  assumes "length buf = 1024" and "length pre \<le> 1000"
  shows "DumpStackFrameInfo pre pc symbolized buf =
    take 1024 (pre @ ''@ '' @ replicate (16 - length (num_str 16 (u64 pc))) CHR '' '' @ ''0x'' @
      num_str 16 (u64 pc) @ '' '' @ (case symbolized of Some s \<Rightarrow> s | None \<Rightarrow> ''(unknown)'') @
      [CHR 0x0A])"
proof -
  define sym where "sym = (case symbolized of Some s \<Rightarrow> s | None \<Rightarrow> ''(unknown)'')"
  have hex: "fmt (AppendString '' '' (AppendHexWithPadding (u64 pc) 18 (AppendString ''@ ''
      (AppendString pre (MinimalFormatter buf 1024))))) 1024
     (((([] @ pre) @ ''@ '') @ replicate (18 - (2 + length (num_str 16 (u64 pc)))) CHR '' '' @
        ''0x'' @ num_str 16 (u64 pc)) @ '' '')" (is "fmt ?f _ ?t")
    using assms u64_hex[of pc] by (intro fmt_String fmt_Hex fmt_new) simp_all
  have "fmt (AppendString [CHR 0x0A] (AppendString sym ?f)) 1024 (take 1024 (?t @ sym @ [CHR 0x0A]))"
    using fmt_String_take[OF fmt_String_take[OF hex, of sym], of "[CHR 0x0A]"]
    unfolding take_take_append by (simp only: append_assoc)
  then show ?thesis
    unfolding DumpStackFrameInfo_def Let_def sym_def[symmetric]
    by (rule written_eq) simp
qed

theorem DumpStackFrameInfo_text_witness:
  "DumpStackFrameInfo ''PC: '' 0 None (replicate 1024 CHR ''?'') =
     ''PC: @                0x0 (unknown)'' @ [CHR 0x0A]"
proof -
  have "num_str 16 (u64 0) = ''0''" by code_simp
  then show ?thesis
    using DumpStackFrameInfo_text[of "replicate 1024 CHR ''?''" "''PC: ''" 0 None]
    by (simp add: numeral_eq_Suc)
qed

end
