(* ===== verification/Signal_Handler.thy ===== *)
theory Signal_Handler
  imports Signal_Format
begin

section \<open>The failure signal handler: threads and signals\<close>

text \<open>
  \<open>FailureSignalHandler\<close> of \<^verbatim>\<open>src/signalhandler.cc\<close> as a state machine over several threads
  (the Linux configuration, with \<^verbatim>\<open>HAVE_SIGACTION\<close> and \<^verbatim>\<open>HAVE_STACKTRACE\<close>). A thread has a
  stack of handler activations, each with the signal it handles and its position in the
  handler. While an activation runs its own signal is blocked in its thread, because the
  handler is installed with an empty \<^verbatim>\<open>sa_mask\<close> and without \<^verbatim>\<open>SA_NODEFER\<close>.

  The pointer \<^verbatim>\<open>g_entered_thread_id_pointer\<close> points to the thread id of the thread that set
  it, and the compare and swap is one step.
\<close>

datatype writer = WriteToStderr | Custom nat

datatype disposition = SIG_DFL | FailureSignalHandler

text \<open>What the handler does once it has won the race, and its position in it.\<close>

datatype act = DumpTime | DumpPC | DumpSignal | DumpFrame nat | FlushLogFilesUnsafe | InvokeDefault

datatype position = Entering | Main nat | Reentered | Sleeping

type_synonym activation = "int \<times> position"

record SigState =
  disposition_of :: "int \<Rightarrow> disposition"
  kFailureSignalHandlerInstalled :: bool
  g_failure_writer :: writer
  g_entered_thread :: "nat option"
  activations :: "nat \<Rightarrow> activation list"
  reports :: "(writer \<times> nat \<times> act) list"
  logs_flushed :: bool
  pending :: "int set"
  dead :: bool

definition sig_start :: SigState where
  "sig_start = \<lparr>disposition_of = (\<lambda>_. SIG_DFL), kFailureSignalHandlerInstalled = False,
     g_failure_writer = WriteToStderr, g_entered_thread = None, activations = (\<lambda>_. []),
     reports = [], logs_flushed = False, pending = {}, dead = False\<rparr>"

definition InstallFailureSignalHandler :: "SigState \<Rightarrow> SigState" where
  "InstallFailureSignalHandler st =
     (foldl (\<lambda>st (number, _). st\<lparr>disposition_of := (disposition_of st)(number := FailureSignalHandler)\<rparr>)
        st kFailureSignals)\<lparr>kFailureSignalHandlerInstalled := True\<rparr>"

definition IsFailureSignalHandlerInstalled :: "SigState \<Rightarrow> bool" where
  "IsFailureSignalHandlerInstalled st = (disposition_of st 6 = FailureSignalHandler)"

definition InstallFailureWriter :: "writer \<Rightarrow> SigState \<Rightarrow> SigState" where
  "InstallFailureWriter w st = st\<lparr>g_failure_writer := w\<rparr>"

text \<open>\<^verbatim>\<open>signal(n, SIG_DFL)\<close> followed by \<^verbatim>\<open>kill(getpid(), n)\<close>.\<close>

definition InvokeDefaultSignalHandler :: "int \<Rightarrow> SigState \<Rightarrow> SigState" where
  "InvokeDefaultSignalHandler signal_number st =
     st\<lparr>disposition_of := (disposition_of st)(signal_number := SIG_DFL),
        pending := insert signal_number (pending st)\<rparr>"

text \<open>The lines of the report, for a stack of the given depth, and the whole of the handler.\<close>

definition report_lines :: "nat \<Rightarrow> act list" where
  "report_lines depth = [DumpTime, DumpPC, DumpSignal] @ map DumpFrame [0..<depth]"

definition handler_body :: "nat \<Rightarrow> act list" where
  "handler_body depth = report_lines depth @ [FlushLogFilesUnsafe, InvokeDefault]"

text \<open>The compare and swap, and the test of the old value.\<close>

definition enter_handler :: "nat \<Rightarrow> SigState \<Rightarrow> position \<times> SigState" where
  "enter_handler my_thread_id st =
     (case g_entered_thread st of
        None \<Rightarrow> (Main 0, st\<lparr>g_entered_thread := Some my_thread_id\<rparr>)
      | Some t \<Rightarrow> (if my_thread_id = t then Reentered else Sleeping, st))"

fun do_act :: "nat \<Rightarrow> int \<Rightarrow> act \<Rightarrow> SigState \<Rightarrow> SigState" where
  "do_act t s InvokeDefault st = InvokeDefaultSignalHandler s st"
| "do_act t s FlushLogFilesUnsafe st = st\<lparr>logs_flushed := True\<rparr>"
| "do_act t s a st = st\<lparr>reports := reports st @ [(g_failure_writer st, t, a)]\<rparr>"

text \<open>One step of the topmost activation; \<open>None\<close> when the handler returns.\<close>

definition handler_step :: "nat \<Rightarrow> nat \<Rightarrow> int \<Rightarrow> position \<Rightarrow> SigState \<Rightarrow> position option \<times> SigState" where
  "handler_step depth t s pos st =
     (case pos of
        Entering \<Rightarrow> (let (pos', st') = enter_handler t st in (Some pos', st'))
      | Main k \<Rightarrow>
          if k < length (handler_body depth)
          then (Some (Main (Suc k)), do_act t s (handler_body depth ! k) st)
          else (None, st)
      | Reentered \<Rightarrow> (Some Sleeping, InvokeDefaultSignalHandler s st)
      | Sleeping \<Rightarrow> (Some Sleeping, st))"

definition blocked :: "SigState \<Rightarrow> nat \<Rightarrow> int set" where
  "blocked st t = fst ` set (activations st t)"

text \<open>
  The steps of the process itself, for the threads \<open>T\<close>: delivery of a pending signal to a
  thread that does not block it, death by a default action, and a step of a handler.
\<close>

inductive sig_internal :: "nat set \<Rightarrow> nat \<Rightarrow> SigState \<Rightarrow> SigState \<Rightarrow> bool" for T depth where
  deliver: "\<not> dead st \<Longrightarrow> t \<in> T \<Longrightarrow> s \<in> pending st \<Longrightarrow> s \<notin> blocked st t \<Longrightarrow>
    disposition_of st s = FailureSignalHandler \<Longrightarrow>
    sig_internal T depth st (st\<lparr>pending := pending st - {s},
      activations := (activations st)(t := (s, Entering) # activations st t)\<rparr>)"
| die: "\<not> dead st \<Longrightarrow> t \<in> T \<Longrightarrow> s \<in> pending st \<Longrightarrow> s \<notin> blocked st t \<Longrightarrow>
    disposition_of st s = SIG_DFL \<Longrightarrow> sig_internal T depth st (st\<lparr>dead := True\<rparr>)"
| run: "\<not> dead st \<Longrightarrow> t \<in> T \<Longrightarrow> activations st t = (s, pos) # rest \<Longrightarrow>
    handler_step depth t s pos st = (Some pos', st') \<Longrightarrow>
    sig_internal T depth st (st'\<lparr>activations := (activations st')(t := (s, pos') # rest)\<rparr>)"
| return: "\<not> dead st \<Longrightarrow> t \<in> T \<Longrightarrow> activations st t = (s, pos) # rest \<Longrightarrow>
    handler_step depth t s pos st = (None, st') \<Longrightarrow>
    sig_internal T depth st (st'\<lparr>activations := (activations st')(t := rest)\<rparr>)"

text \<open>The environment raises signals, and the program installs handlers and writers.\<close>

inductive sig_step :: "nat set \<Rightarrow> nat \<Rightarrow> SigState \<Rightarrow> SigState \<Rightarrow> bool" for T depth where
  internal: "sig_internal T depth st st' \<Longrightarrow> sig_step T depth st st'"
| raise: "sig_step T depth st (st\<lparr>pending := insert s (pending st)\<rparr>)"
| install: "sig_step T depth st (InstallFailureSignalHandler st)"
| set_writer: "sig_step T depth st (InstallFailureWriter w st)"

inductive sig_reach :: "nat set \<Rightarrow> nat \<Rightarrow> SigState \<Rightarrow> bool" for T depth where
  start: "sig_reach T depth sig_start"
| step: "sig_reach T depth st \<Longrightarrow> sig_step T depth st st' \<Longrightarrow> sig_reach T depth st'"

inductive_cases sig_internalE: "sig_internal T depth st st'"
inductive_cases sig_stepE: "sig_step T depth st st'"

subsection \<open>The invariant\<close>

definition mains :: "activation list \<Rightarrow> nat list" where
  "mains as = concat (map (\<lambda>(s, pos). case pos of Main k \<Rightarrow> [k] | _ \<Rightarrow> []) as)"

lemma mains_simps [simp]:
  "mains [] = []"
  "mains ((s, Main k) # as) = k # mains as"
  "mains ((s, Entering) # as) = mains as"
  "mains ((s, Reentered) # as) = mains as"
  "mains ((s, Sleeping) # as) = mains as"
  by (simp_all add: mains_def)

text \<open>
  Only the thread that won the race has an activation in the main part, it has at most one,
  and the lines reported are the first ones of the report, by that thread.
\<close>

definition sig_ok :: "nat \<Rightarrow> SigState \<Rightarrow> bool" where
  "sig_ok depth st =
     (case g_entered_thread st of
        None \<Rightarrow> reports st = [] \<and> (\<forall>t. mains (activations st t) = [])
      | Some t \<Rightarrow> (\<forall>t'. t' \<noteq> t \<longrightarrow> mains (activations st t') = []) \<and>
          (\<exists>k. mains (activations st t) \<in> {[], [k]} \<and>
             (mains (activations st t) = [] \<longrightarrow> length (handler_body depth) \<le> k) \<and>
             map snd (reports st) = map (Pair t) (take k (report_lines depth)) \<and>
             (length (report_lines depth) < k \<longrightarrow> logs_flushed st)))"

lemma body_nth:
  "k < length (handler_body depth) \<Longrightarrow>
   handler_body depth ! k =
     (if k < length (report_lines depth) then report_lines depth ! k
      else if k = length (report_lines depth) then FlushLogFilesUnsafe else InvokeDefault)"
  by (auto simp: handler_body_def nth_append nth_Cons split: nat.split)

lemma do_act_report:
  "a \<in> set (report_lines depth) \<Longrightarrow>
   do_act t s a st = st\<lparr>reports := reports st @ [(g_failure_writer st, t, a)]\<rparr>"
  by (auto simp: report_lines_def)

lemma install_frame:
  "g_entered_thread (InstallFailureSignalHandler st) = g_entered_thread st"
  "activations (InstallFailureSignalHandler st) = activations st"
  "reports (InstallFailureSignalHandler st) = reports st"
  "logs_flushed (InstallFailureSignalHandler st) = logs_flushed st"
  "pending (InstallFailureSignalHandler st) = pending st"
  "dead (InstallFailureSignalHandler st) = dead st"
  by (simp_all add: InstallFailureSignalHandler_def kFailureSignals_def)

lemma sig_ok_frame:
  "sig_ok depth st \<Longrightarrow> g_entered_thread st' = g_entered_thread st \<Longrightarrow>
   reports st' = reports st \<Longrightarrow> logs_flushed st' = logs_flushed st \<Longrightarrow>
   (\<And>t. mains (activations st' t) = mains (activations st t)) \<Longrightarrow> sig_ok depth st'"
  by (cases "g_entered_thread st") (simp_all add: sig_ok_def)

lemma sig_ok_Main:
  assumes ok: "sig_ok depth st" and act: "activations st t = (s, Main k) # rest"
  shows "g_entered_thread st = Some t \<and> mains rest = [] \<and>
    (\<forall>t'. t' \<noteq> t \<longrightarrow> mains (activations st t') = []) \<and>
    map snd (reports st) = map (Pair t) (take k (report_lines depth)) \<and>
    (length (report_lines depth) < k \<longrightarrow> logs_flushed st)"
proof -
  have m: "mains (activations st t) = k # mains rest" using act by simp
  have g: "g_entered_thread st = Some t"
  proof (cases "g_entered_thread st")
    case None
    with ok have "mains (activations st t) = []" by (simp add: sig_ok_def)
    with m show ?thesis by simp
  next
    case (Some a)
    with ok have "t \<noteq> a \<Longrightarrow> mains (activations st t) = []" by (simp add: sig_ok_def)
    with m Some show ?thesis by (cases "t = a") simp_all
  qed
  with ok m show ?thesis by (auto simp: sig_ok_def)
qed

lemma enter_ok:
  assumes ok: "sig_ok depth st" and act: "activations st t = (s, Entering) # rest"
    and enter: "enter_handler t st = (pos', st')"
  shows "sig_ok depth (st'\<lparr>activations := (activations st')(t := (s, pos') # rest)\<rparr>)"
proof (cases "g_entered_thread st")
  case None
  with ok act have "mains rest = []" by (auto simp: sig_ok_def dest: spec[of _ t])
  with None ok enter show ?thesis
    by (auto simp: enter_handler_def sig_ok_def handler_body_def)
next
  case (Some t')
  then have "st' = st" "pos' \<in> {Reentered, Sleeping}"
    using enter by (auto simp: enter_handler_def split: if_splits)
  then show ?thesis
    using act by (intro sig_ok_frame[OF ok]) auto
qed

lemma main_ok:
  assumes ok: "sig_ok depth st" and act: "activations st t = (s, Main k) # rest"
    and k: "k < length (handler_body depth)"
  defines "st' \<equiv> do_act t s (handler_body depth ! k) st"
  shows "sig_ok depth (st'\<lparr>activations := (activations st')(t := (s, Main (Suc k)) # rest)\<rparr>)"
proof -
  from sig_ok_Main[OF ok act] have g: "g_entered_thread st = Some t"
    and others: "\<And>t'. t' \<noteq> t \<Longrightarrow> mains (activations st t') = []"
    and rest: "mains rest = []"
    and reps: "map snd (reports st) = map (Pair t) (take k (report_lines depth))"
    and fl: "length (report_lines depth) < k \<Longrightarrow> logs_flushed st"
    by blast+
  consider "k < length (report_lines depth)" | "k = length (report_lines depth)"
    | "k = Suc (length (report_lines depth))"
    using k by (fastforce simp: handler_body_def)
  then show ?thesis
  proof cases
    case 1
    then have "st' = st\<lparr>reports := reports st @ [(g_failure_writer st, t, report_lines depth ! k)]\<rparr>"
      unfolding st'_def body_nth[OF k] by (simp add: do_act_report[OF nth_mem])
    with 1 g others rest reps show ?thesis
      by (simp add: sig_ok_def take_Suc_conv_app_nth)
  next
    case 2
    then have "st' = st\<lparr>logs_flushed := True\<rparr>"
      unfolding st'_def body_nth[OF k] by simp
    with 2 g others rest reps show ?thesis by (simp add: sig_ok_def)
  next
    case 3
    then have "st' = InvokeDefaultSignalHandler s st"
      unfolding st'_def body_nth[OF k] by simp
    with 3 g others rest reps fl show ?thesis
      by (simp add: sig_ok_def InvokeDefaultSignalHandler_def)
  qed
qed

lemma internal_ok:
  assumes "sig_internal T depth st st'" and ok: "sig_ok depth st"
  shows "sig_ok depth st'"
  using assms(1)
proof cases
  case (deliver t s)
  then show ?thesis by (intro sig_ok_frame[OF ok]) auto
next
  case (die t s)
  then show ?thesis by (intro sig_ok_frame[OF ok]) auto
next
  case (run t s pos rest pos' st1)
  show ?thesis
  proof (cases pos)
    case Entering
    with run show ?thesis
      using enter_ok[OF ok, of t s rest pos' st1] by (auto simp: handler_step_def split: prod.splits)
  next
    case (Main k)
    with run show ?thesis
      using main_ok[OF ok, of t s k rest] by (auto simp: handler_step_def split: if_splits)
  next
    case Reentered
    with run show ?thesis
      by (intro sig_ok_frame[OF ok])
        (auto simp: handler_step_def InvokeDefaultSignalHandler_def)
  next
    case Sleeping
    with run show ?thesis by (intro sig_ok_frame[OF ok]) (auto simp: handler_step_def)
  qed
next
  case (return t s pos rest st1)
  then obtain k where k: "pos = Main k" "\<not> k < length (handler_body depth)" "st1 = st"
    by (auto simp: handler_step_def split: position.splits prod.splits if_splits)
  with return have "activations st t = (s, Main k) # rest" by simp
  from sig_ok_Main[OF ok this] return(1) k show ?thesis
    by (auto simp: sig_ok_def intro!: exI[of _ k])
qed

lemma reach_ok: "sig_reach T depth st \<Longrightarrow> sig_ok depth st"
proof (induction rule: sig_reach.induct)
  case start
  then show ?case by (simp add: sig_ok_def sig_start_def)
next
  case (step st st')
  from step(2) show ?case
  proof cases
    case internal
    then show ?thesis using internal_ok step(3) by blast
  next
    case raise
    then show ?thesis by (intro sig_ok_frame[OF step(3)]) auto
  next
    case install
    then show ?thesis by (intro sig_ok_frame[OF step(3)]) (auto simp: install_frame)
  next
    case set_writer
    then show ?thesis by (intro sig_ok_frame[OF step(3)]) (auto simp: InstallFailureWriter_def)
  qed
qed

text \<open>Only the thread that won the race can find itself in the handler a second time.\<close>

definition reentry_ok :: "SigState \<Rightarrow> bool" where
  "reentry_ok st = (\<forall>t s. (s, Reentered) \<in> set (activations st t) \<longrightarrow> g_entered_thread st = Some t)"

lemma do_act_entered [simp]:
  "g_entered_thread (do_act t s a st) = g_entered_thread st" "activations (do_act t s a st) = activations st"
  by (cases a; simp add: InvokeDefaultSignalHandler_def)+

lemma handler_step_entered:
  assumes "handler_step depth t s pos st = (pos', st')"
  shows "activations st' = activations st \<and>
    (g_entered_thread st \<noteq> None \<longrightarrow> g_entered_thread st' = g_entered_thread st) \<and>
    (pos' = Some Reentered \<longrightarrow> g_entered_thread st' = Some t)"
  using assms
  by (auto simp: handler_step_def enter_handler_def InvokeDefaultSignalHandler_def Let_def
      split: position.splits option.splits if_splits)

lemma internal_reentry:
  assumes "sig_internal T depth st st'" and "reentry_ok st"
  shows "reentry_ok st'"
  using assms(1)
proof cases
  case (run t s pos rest pos' st1)
  have s1: "g_entered_thread st1 = g_entered_thread st \<or> g_entered_thread st = None"
    "activations st1 = activations st" "pos' = Reentered \<longrightarrow> g_entered_thread st1 = Some t"
    using handler_step_entered[OF run(5)] by auto
  have "g_entered_thread st' = Some u" if "(q, Reentered) \<in> set (activations st' u)" for u q
  proof (cases "(q, Reentered) \<in> set (activations st u)")
    case True
    then show ?thesis using assms(2) s1(1) run(1) by (auto simp: reentry_ok_def)
  next
    case False
    then have "u = t" "pos' = Reentered" using that run(1,4) s1(2) by (auto split: if_splits)
    then show ?thesis using s1(3) run(1) by simp
  qed
  then show ?thesis by (simp add: reentry_ok_def)
next
  case (return t s pos rest st1)
  then have "st1 = st"
    by (auto simp: handler_step_def split: position.splits prod.splits if_splits)
  moreover have "set (activations st' u) \<subseteq> set (activations st u)" for u
    using return(1,4) \<open>st1 = st\<close> by (auto split: if_splits)
  moreover have "g_entered_thread st' = g_entered_thread st" using return(1) \<open>st1 = st\<close> by simp
  ultimately show ?thesis using assms(2) unfolding reentry_ok_def by (metis subsetD)
qed (use assms(2) in \<open>auto simp: reentry_ok_def split: if_splits\<close>)

lemma reach_reentry: "sig_reach T depth st \<Longrightarrow> reentry_ok st"
proof (induction rule: sig_reach.induct)
  case (step st st')
  from step(2) show ?case
    by cases (use step(3) internal_reentry in \<open>auto simp: reentry_ok_def install_frame InstallFailureWriter_def\<close>)
qed (simp add: reentry_ok_def sig_start_def)

text \<open>Where a step of the process puts a default action back or raises a signal.\<close>

lemma do_act_default:
  "disposition_of (do_act t s a st) q \<noteq> disposition_of st q \<or> q \<in> pending (do_act t s a st) \<and> q \<notin> pending st \<Longrightarrow>
   a = InvokeDefault \<and> q = s"
  by (cases a) (auto simp: InvokeDefaultSignalHandler_def split: if_splits)

lemma handler_step_default:
  assumes "handler_step depth t s pos st = (pos', st')"
    and "disposition_of st' q \<noteq> disposition_of st q \<or> q \<in> pending st' \<and> q \<notin> pending st"
  shows "q = s \<and> disposition_of st' q = SIG_DFL \<and> q \<in> pending st' \<and> (pos = Reentered \<or>
    (\<exists>k. pos = Main k \<and> k < length (handler_body depth) \<and> handler_body depth ! k = InvokeDefault))"
proof (cases pos)
  case Entering
  then show ?thesis using assms
    by (auto simp: handler_step_def enter_handler_def split: option.splits prod.splits if_splits)
next
  case (Main k)
  then have k: "k < length (handler_body depth)" "st' = do_act t s (handler_body depth ! k) st"
    using assms by (auto simp: handler_step_def split: if_splits)
  then have "handler_body depth ! k = InvokeDefault" "q = s"
    using do_act_default assms(2) by metis+
  then show ?thesis using Main k by (simp add: InvokeDefaultSignalHandler_def)
qed (use assms in \<open>auto simp: handler_step_def InvokeDefaultSignalHandler_def split: if_splits\<close>)

lemma default_invoked:
  assumes "sig_internal T depth st st'"
    and "disposition_of st' s \<noteq> disposition_of st s \<or> s \<in> pending st' \<and> s \<notin> pending st"
  shows "\<exists>t pos rest. activations st t = (s, pos) # rest \<and> disposition_of st' s = SIG_DFL \<and>
    s \<in> pending st' \<and> (pos = Reentered \<or>
      (\<exists>k. pos = Main k \<and> k < length (handler_body depth) \<and> handler_body depth ! k = InvokeDefault))"
  using assms(1)
proof cases
  case (run t q pos rest pos' st1)
  then show ?thesis using handler_step_default[OF run(5), of s] assms(2) by auto
next
  case (return t q pos rest st1)
  then show ?thesis using handler_step_default[OF return(5), of s] assms(2) by auto
qed (use assms(2) in auto)

text \<open>Delivery and a step of the topmost activation as functions, to follow a run.\<close>

definition deliver_to :: "nat \<Rightarrow> int \<Rightarrow> SigState \<Rightarrow> SigState" where
  "deliver_to t s st = st\<lparr>pending := pending st - {s},
     activations := (activations st)(t := (s, Entering) # activations st t)\<rparr>"

definition exec_top :: "nat \<Rightarrow> nat \<Rightarrow> SigState \<Rightarrow> SigState" where
  "exec_top depth t st =
     (case activations st t of
        [] \<Rightarrow> st
      | (s, pos) # rest \<Rightarrow>
          (case handler_step depth t s pos st of
             (Some pos', st') \<Rightarrow> st'\<lparr>activations := (activations st')(t := (s, pos') # rest)\<rparr>
           | (None, st') \<Rightarrow> st'\<lparr>activations := (activations st')(t := rest)\<rparr>))"

lemma exec_top_internal:
  assumes "\<not> dead st" and "t \<in> T" and "activations st t = (s, pos) # rest"
  shows "sig_internal T depth st (exec_top depth t st)"
proof -
  obtain o' st' where h: "handler_step depth t s pos st = (o', st')" by (metis surj_pair)
  show ?thesis
  proof (cases o')
    case None
    with h assms(3) show ?thesis
      using sig_internal.return[OF assms, of depth st'] by (simp add: exec_top_def)
  next
    case (Some pos')
    with h assms(3) show ?thesis
      using sig_internal.run[OF assms, of depth pos' st'] by (simp add: exec_top_def)
  qed
qed

lemma exec_top_reach:
  assumes "sig_reach T depth st" and "\<not> dead st" and "t \<in> T"
  shows "sig_reach T depth (exec_top depth t st)"
proof (cases "activations st t")
  case Nil
  with assms(1) show ?thesis by (simp add: exec_top_def)
next
  case (Cons a rest)
  then have "sig_internal T depth st (exec_top depth t st)"
    using exec_top_internal[OF assms(2,3), of "fst a" "snd a" rest] by simp
  then show ?thesis by (intro sig_reach.step[OF assms(1)] sig_step.internal)
qed

lemma deliver_reach:
  assumes "sig_reach T depth st" and "\<not> dead st" and "t \<in> T" and "s \<in> pending st"
    and "s \<notin> blocked st t" and "disposition_of st s = FailureSignalHandler"
  shows "sig_reach T depth (deliver_to t s st)"
  unfolding deliver_to_def
  by (intro sig_reach.step[OF assms(1)] sig_step.internal sig_internal.deliver assms(2-))

definition raise_sig :: "int \<Rightarrow> SigState \<Rightarrow> SigState" where
  "raise_sig s st = st\<lparr>pending := insert s (pending st)\<rparr>"

lemma raise_reach: "sig_reach T depth st \<Longrightarrow> sig_reach T depth (raise_sig s st)"
  unfolding raise_sig_def by (rule sig_reach.step[OF _ sig_step.raise])

lemma install_reach: "sig_reach T depth st \<Longrightarrow> sig_reach T depth (InstallFailureSignalHandler st)"
  by (rule sig_reach.step[OF _ sig_step.install])

lemmas run_defs = deliver_to_def exec_top_def raise_sig_def InstallFailureSignalHandler_def
  kFailureSignals_def sig_start_def handler_step_def enter_handler_def handler_body_def
  report_lines_def InvokeDefaultSignalHandler_def blocked_def

subsection \<open>Properties\<close>

text \<open>
  C11. However many threads fail at once and however their handlers interleave, at most one
  activation of the handler, in one thread, is past the entry test, and what has been written is
  exactly the part of the report up to its position, in order and without repetition.
\<close>

theorem one_thread_reports:
  assumes "sig_reach T depth st"
  shows "\<exists>t k. map snd (reports st) = map (Pair t) (take k (report_lines depth)) \<and>
    (\<forall>u. mains (activations st u) = [] \<or> u = t \<and> mains (activations st u) = [k])"
proof (cases "g_entered_thread st")
  case None
  with reach_ok[OF assms] have "reports st = []" "\<forall>u. mains (activations st u) = []"
    by (simp_all add: sig_ok_def)
  then show ?thesis by (intro exI[of _ 0]) simp
next
  case (Some t)
  with reach_ok[OF assms] show ?thesis by (fastforce simp: sig_ok_def)
qed

text \<open>
  Two threads receive \<^verbatim>\<open>SIGSEGV\<close>, one after the other, with two frames on the stack; the first has
  written two lines when the second one comes to the entry test.
\<close>

definition two_threads :: SigState where
  "two_threads =
     exec_top 2 1 (deliver_to 1 11 (raise_sig 11
       (exec_top 2 0 (exec_top 2 0 (exec_top 2 0 (deliver_to 0 11 (raise_sig 11
         (InstallFailureSignalHandler sig_start))))))))"

lemma two_threads_reach: "sig_reach {0, 1} 2 two_threads"
  unfolding two_threads_def
  by (intro exec_top_reach deliver_reach raise_reach install_reach sig_reach.start)
    (simp_all add: run_defs)

theorem one_thread_reports_witness:
  "map snd (reports two_threads) = [(0, DumpTime), (0, DumpPC)] \<and>
   mains (activations two_threads 0) = [2] \<and> mains (activations two_threads 1) = [] \<and>
   activations two_threads 1 \<noteq> []"
proof -
  have at: "mains (activations two_threads 0) = [2]" "activations two_threads 1 \<noteq> []"
    by (simp_all add: run_defs two_threads_def)
  obtain t k where r: "map snd (reports two_threads) = map (Pair t) (take k (report_lines 2))"
    "\<forall>u. mains (activations two_threads u) = [] \<or> u = t \<and> mains (activations two_threads u) = [k]"
    using one_thread_reports[OF two_threads_reach] by blast
  have "t = 0" "k = 2" using spec[OF r(2), of 0] at(1) by auto
  then show ?thesis using r spec[OF r(2), of 1] at by (simp add: report_lines_def numeral_2_eq_2)
qed

text \<open>
  C18. Whenever a step of the process puts the default action of a signal back, or raises a signal,
  it is a step of the thread that won the race at the entry, in a handler of that signal, and this
  thread has either written every line of the report and flushed the log files, or has found itself
  in the handler a second time. No other thread does it.
\<close>

theorem report_before_default:
  assumes "sig_reach T depth st" and "sig_internal T depth st st'"
    and "disposition_of st' s \<noteq> disposition_of st s \<or> s \<in> pending st' \<and> s \<notin> pending st"
  shows "\<exists>t pos rest. g_entered_thread st = Some t \<and> activations st t = (s, pos) # rest \<and>
    disposition_of st' s = SIG_DFL \<and> s \<in> pending st' \<and>
    (pos = Reentered \<or>
     (\<exists>k. pos = Main k) \<and> map snd (reports st) = map (Pair t) (report_lines depth) \<and> logs_flushed st)"
proof -
  obtain t pos rest where top: "activations st t = (s, pos) # rest"
    and default: "disposition_of st' s = SIG_DFL" "s \<in> pending st'"
    and pos: "pos = Reentered \<or>
      (\<exists>k. pos = Main k \<and> k < length (handler_body depth) \<and> handler_body depth ! k = InvokeDefault)"
    using default_invoked[OF assms(2,3)] by blast
  from pos show ?thesis
  proof
    assume "pos = Reentered"
    then have "g_entered_thread st = Some t"
      using reach_reentry[OF assms(1)] top unfolding reentry_ok_def by (metis list.set_intros(1))
    then show ?thesis using top default \<open>pos = Reentered\<close> by blast
  next
    assume "\<exists>k. pos = Main k \<and> k < length (handler_body depth) \<and> handler_body depth ! k = InvokeDefault"
    then obtain k where k: "pos = Main k" "k < length (handler_body depth)"
      "handler_body depth ! k = InvokeDefault" by blast
    then have "k = Suc (length (report_lines depth))"
      using body_nth[OF k(2)] nth_mem[of k "report_lines depth"]
      by (fastforce simp: handler_body_def report_lines_def split: if_splits)
    with sig_ok_Main[OF reach_ok[OF assms(1)], of t s k rest] top k(1) default show ?thesis by auto
  qed
qed

text \<open>A \<^verbatim>\<open>SIGSEGV\<close> in thread 0, up to the end of the report, and the step after it.\<close>

definition segv_entered :: SigState where
  "segv_entered = exec_top 0 0 (deliver_to 0 11 (raise_sig 11 (InstallFailureSignalHandler sig_start)))"

definition segv_reported :: SigState where
  "segv_reported = exec_top 0 0 (exec_top 0 0 (exec_top 0 0 (exec_top 0 0 segv_entered)))"

lemma segv_entered_reach: "sig_reach {0} 0 segv_entered"
  unfolding segv_entered_def
  by (intro exec_top_reach deliver_reach raise_reach install_reach sig_reach.start)
    (simp_all add: run_defs)

lemma segv_reported_reach: "sig_reach {0} 0 segv_reported"
  unfolding segv_reported_def
  by (intro exec_top_reach segv_entered_reach) (simp_all add: run_defs segv_entered_def)

lemma segv_reported_at:
  "activations segv_reported 0 = [(11, Main 4)]" "\<not> dead segv_reported" "pending segv_reported = {}"
  "pending (exec_top 0 0 segv_reported) = {11}"
  by (simp_all add: run_defs segv_reported_def segv_entered_def)

theorem report_before_default_witness:
  "g_entered_thread segv_reported = Some 0 \<and>
   map snd (reports segv_reported) = [(0, DumpTime), (0, DumpPC), (0, DumpSignal)] \<and>
   logs_flushed segv_reported \<and> disposition_of (exec_top 0 0 segv_reported) 11 = SIG_DFL"
proof -
  have step: "sig_internal {0} 0 segv_reported (exec_top 0 0 segv_reported)"
    using exec_top_internal[of segv_reported 0 "{0}" 11 "Main 4" "[]" 0] segv_reported_at by simp
  have none: "activations segv_reported t = []" if "t \<noteq> 0" for t
    using that by (simp add: run_defs segv_reported_def segv_entered_def)
  from report_before_default[OF segv_reported_reach step, of 11] obtain t pos rest where
    r: "g_entered_thread segv_reported = Some t" "activations segv_reported t = (11, pos) # rest"
    "disposition_of (exec_top 0 0 segv_reported) 11 = SIG_DFL"
    "pos = Reentered \<or> map snd (reports segv_reported) = map (Pair t) (report_lines 0) \<and> logs_flushed segv_reported"
    using segv_reported_at by auto
  then have "t = 0" using none by (cases "t = 0") auto
  then show ?thesis using r segv_reported_at(1) by (auto simp: report_lines_def)
qed

text \<open>
  A second signal in the reporting thread. \<^verbatim>\<open>InvokeDefaultSignalHandler\<close> raises a signal that
  the running activation blocks, and the handler then sleeps for ever instead of returning:
  a process with one thread hangs where the comment says it kills itself.
\<close>

definition segv_then_term :: SigState where
  "segv_then_term = exec_top 0 0 (exec_top 0 0 (deliver_to 0 15 (raise_sig 15 segv_entered)))"

lemma segv_then_term_reach: "sig_reach {0} 0 segv_then_term"
  unfolding segv_then_term_def
  by (intro exec_top_reach deliver_reach raise_reach segv_entered_reach)
    (simp_all add: run_defs segv_entered_def)

lemma reentered_hangs:
  "sig_reach {0} 0 segv_then_term \<and> \<not> dead segv_then_term \<and> reports segv_then_term = [] \<and>
   (\<forall>st'. sig_internal {0} 0 segv_then_term st' \<longrightarrow> st' = segv_then_term)"
proof -
  have st: "activations segv_then_term 0 = [(15, Sleeping), (11, Main 0)]"
    "pending segv_then_term = {15}" "\<not> dead segv_then_term" "reports segv_then_term = []"
    by (simp_all add: run_defs segv_then_term_def segv_entered_def)
  have "st' = segv_then_term" if "sig_internal {0} 0 segv_then_term st'" for st'
    using that by cases (use st in \<open>auto simp: blocked_def handler_step_def fun_upd_idem\<close>)
  then show ?thesis using segv_then_term_reach st by blast
qed

end
