(* ===== verification/Utilities.thy ===== *)
theory Utilities
  imports Signal_Format
begin

section \<open>Utilities: initialisation, process and crash state\<close>

text \<open>
  \<^verbatim>\<open>src/utilities.cc\<close>, \<^verbatim>\<open>src/utilities.h\<close> and the failure functions of \<^verbatim>\<open>src/logging.cc\<close>, in the
  configuration without \<^verbatim>\<open>BUILD_MONOLITHIC\<close>. The state is the file-scope variables of these
  files; what the operating system answers is a parameter.
\<close>

subsection \<open>Compare and swap\<close>

definition sync_val_compare_and_swap :: "'a \<Rightarrow> 'a \<Rightarrow> 'a \<Rightarrow> 'a \<times> 'a" where
  "sync_val_compare_and_swap current oldval newval =
     (current, if current = oldval then newval else current)"

subsection \<open>Names\<close>

definition const_basename :: "string \<Rightarrow> string" where
  "const_basename filepath = after_last_slash filepath"

subsection \<open>State\<close>

text \<open>The functions a failure may end in: the built-in one, the stack dump, a custom one.\<close>

datatype fail_func = internal_logging_fail | DumpStackTraceAndExit | CustomFail nat

record CrashReason =
  cr_filename :: string
  cr_line_number :: int
  cr_message :: string
  cr_depth :: nat

record UState =
  g_program_invocation_short_name :: string
  g_logging_fail_func :: fail_func
  base_logging_fail_func :: "fail_func option"
  g_main_thread_pid :: int
  lacks_gettid :: bool
  g_my_user_name :: string
  g_reason :: "CrashReason option"

definition ustart :: "int \<Rightarrow> UState" where
  "ustart pid = \<lparr>g_program_invocation_short_name = [], g_logging_fail_func = internal_logging_fail,
     base_logging_fail_func = None, g_main_thread_pid = pid, lacks_gettid = False,
     g_my_user_name = [], g_reason = None\<rparr>"

subsection \<open>Initialisation\<close>

definition IsGoogleLoggingInitialized :: "UState \<Rightarrow> bool" where
  "IsGoogleLoggingInitialized st = (g_program_invocation_short_name st \<noteq> [])"

definition ProgramInvocationShortName :: "UState \<Rightarrow> string" where
  "ProgramInvocationShortName st =
     (if g_program_invocation_short_name st \<noteq> [] then g_program_invocation_short_name st
      else ''UNKNOWN'')"

definition InstallFailureFunction :: "fail_func option \<Rightarrow> UState \<Rightarrow> UState" where
  "InstallFailureFunction fail_func st =
     st\<lparr>g_logging_fail_func := (case fail_func of None \<Rightarrow> internal_logging_fail | Some f \<Rightarrow> f)\<rparr>"

definition GetInstalledFailureFunction :: "UState \<Rightarrow> fail_func" where
  "GetInstalledFailureFunction st = g_logging_fail_func st"

definition HasInstalledCustomFailureFunction :: "UState \<Rightarrow> bool" where
  "HasInstalledCustomFailureFunction st = (g_logging_fail_func st \<noteq> internal_logging_fail)"

text \<open>A failed \<^verbatim>\<open>CHECK\<close> ends the program: the error carries its message.\<close>

datatype ufatal = InitTwice | ShutdownWithoutInit

definition InitGoogleLoggingUtilities :: "string \<Rightarrow> UState \<Rightarrow> ufatal + UState" where
  "InitGoogleLoggingUtilities argv0 st =
     (if IsGoogleLoggingInitialized st then Inl InitTwice
      else let st1 = st\<lparr>g_program_invocation_short_name := after_last_slash argv0\<rparr>;
               st2 = InstallFailureFunction None st1;
               st3 = st2\<lparr>base_logging_fail_func := Some (GetInstalledFailureFunction st2)\<rparr>
        in Inr (InstallFailureFunction (Some DumpStackTraceAndExit) st3))"

definition ShutdownGoogleLoggingUtilities :: "UState \<Rightarrow> ufatal + UState" where
  "ShutdownGoogleLoggingUtilities st =
     (if \<not> IsGoogleLoggingInitialized st then Inl ShutdownWithoutInit
      else Inr (st\<lparr>g_program_invocation_short_name := []\<rparr>))"

text \<open>
  What \<^verbatim>\<open>LogMessage::Fail\<close> and \<open>DumpStackTraceAndExit\<close> run: the functions called in turn. The
  stack dump calls the function that was installed when logging was initialised.
\<close>

definition LogMessage_Fail :: "UState \<Rightarrow> fail_func list" where
  "LogMessage_Fail st =
     (case g_logging_fail_func st of
        DumpStackTraceAndExit \<Rightarrow>
          DumpStackTraceAndExit # (case base_logging_fail_func st of None \<Rightarrow> [] | Some f \<Rightarrow> [f])
      | f \<Rightarrow> [f])"

subsection \<open>Process, thread and user\<close>

definition PidHasChanged :: "int \<Rightarrow> UState \<Rightarrow> bool \<times> UState" where
  "PidHasChanged pid st =
     (if g_main_thread_pid st = pid then (False, st) else (True, st\<lparr>g_main_thread_pid := pid\<rparr>))"

text \<open>\<open>gettid\<close> is the answer of the system call, \<open>-1\<close> on failure.\<close>

definition GetTID :: "int \<Rightarrow> int \<Rightarrow> UState \<Rightarrow> int \<times> UState" where
  "GetTID gettid pid st =
     (if \<not> lacks_gettid st then
        (if gettid \<noteq> -1 then (gettid, st) else (pid, st\<lparr>lacks_gettid := True\<rparr>))
      else (pid, st))"

text \<open>\<open>user\<close> is \<^verbatim>\<open>getenv("USER")\<close>, \<open>pw_name\<close> the entry of the password file.\<close>

definition MyUserNameInitializer :: "string option \<Rightarrow> string option \<Rightarrow> nat \<Rightarrow> UState \<Rightarrow> UState" where
  "MyUserNameInitializer user pw_name uid st =
     (case user of
        Some u \<Rightarrow> st\<lparr>g_my_user_name := u\<rparr>
      | None \<Rightarrow>
          let name = (case pw_name of
                Some n \<Rightarrow> n | None \<Rightarrow> take 1023 (''uid'' @ dec_str uid))
          in st\<lparr>g_my_user_name := (if name = [] then ''invalid-user'' else name)\<rparr>)"

definition MyUserName :: "UState \<Rightarrow> string" where
  "MyUserName st = g_my_user_name st"

definition CycleClock_Now :: "int \<Rightarrow> int \<Rightarrow> int" where
  "CycleClock_Now tv_sec tv_usec = tv_sec * 1000000 + tv_usec"

definition UsecToCycles :: "int \<Rightarrow> int" where
  "UsecToCycles usec = usec"

subsection \<open>The crash reason\<close>

definition SetCrashReason :: "CrashReason \<Rightarrow> UState \<Rightarrow> UState" where
  "SetCrashReason r st =
     st\<lparr>g_reason := snd (sync_val_compare_and_swap (g_reason st) None (Some r))\<rparr>"

subsection \<open>Stack traces as text\<close>

text \<open>
  \<^verbatim>\<open>%*p\<close> with the field width of eight-byte pointers, and \<^verbatim>\<open>snprintf\<close> into \<open>n\<close> bytes. The C
  library prints a null pointer as \<^verbatim>\<open>(nil)\<close>.
\<close>

definition kPrintfPointerFieldWidth :: nat where
  "kPrintfPointerFieldWidth = 2 + 2 * 8"

definition pointer_str :: "nat \<Rightarrow> string" where
  "pointer_str pc = (if pc = 0 then ''(nil)'' else ''0x'' @ num_str 16 pc)"

definition snprintf :: "nat \<Rightarrow> string \<Rightarrow> string" where
  "snprintf n text = take (n - 1) text"

definition DumpPC :: "nat \<Rightarrow> string \<Rightarrow> string" where
  "DumpPC pc pre = snprintf 100
     (pre @ ''@ '' @ pad_left kPrintfPointerFieldWidth CHR '' '' (pointer_str pc) @ [CHR 0x0A])"

text \<open>\<open>symbolize\<close> stands for \<open>Symbolize\<close> with a buffer of 1024 bytes.\<close>

definition DumpPCAndSymbol :: "(nat \<Rightarrow> string option) \<Rightarrow> nat \<Rightarrow> string \<Rightarrow> string" where
  "DumpPCAndSymbol symbolize pc pre = snprintf 1024
     (pre @ ''@ '' @ pad_left kPrintfPointerFieldWidth CHR '' '' (pointer_str pc) @ ''  '' @
      (case symbolize (pc - 1) of Some s \<Rightarrow> s | None \<Rightarrow> ''(unknown)'') @ [CHR 0x0A])"

text \<open>\<open>stack\<close> is the result of \<open>GetStackTrace\<close>, at most 32 frames; the lines are written in order.\<close>

definition DumpStackTrace :: "bool \<Rightarrow> (nat \<Rightarrow> string option) \<Rightarrow> nat list \<Rightarrow> string list" where
  "DumpStackTrace FLAGS_symbolize_stacktrace symbolize stack =
     map (\<lambda>pc. if FLAGS_symbolize_stacktrace then DumpPCAndSymbol symbolize pc ''    ''
       else DumpPC pc ''    '') (take 32 stack)"

definition DumpStackTraceToString :: "bool \<Rightarrow> (nat \<Rightarrow> string option) \<Rightarrow> nat list \<Rightarrow> string \<Rightarrow> string" where
  "DumpStackTraceToString flag symbolize stack stacktrace =
     stacktrace @ concat (DumpStackTrace flag symbolize stack)"

subsection \<open>Properties\<close>

text \<open>A run of \<open>PidHasChanged\<close> with the process ids seen at each call.\<close>

fun pid_run :: "int list \<Rightarrow> UState \<Rightarrow> bool list" where
  "pid_run [] st = []"
| "pid_run (p # ps) st = (let (b, st') = PidHasChanged p st in b # pid_run ps st')"

text \<open>
  \<open>PidHasChanged\<close> answers true exactly at the first call after each change of the process
  id, whatever the sequence of ids.
\<close>

theorem PidHasChanged_detects:
  "pid_run ps st = map2 (\<noteq>) (g_main_thread_pid st # ps) ps"
  by (induction ps arbitrary: st) (auto simp: PidHasChanged_def)

text \<open>
  Logging is initialised from \<open>InitGoogleLogging\<close> to \<open>ShutdownGoogleLogging\<close>: a second
  initialisation and a shutdown without one are fatal, and after a shutdown it can start
  again. It needs a program name that does not end in a slash.
\<close>

theorem init_lifecycle:
  assumes "\<not> IsGoogleLoggingInitialized st" and "after_last_slash argv0 \<noteq> []"
  shows "\<exists>st1 st2. InitGoogleLoggingUtilities argv0 st = Inr st1 \<and>
    ProgramInvocationShortName st1 = after_last_slash argv0 \<and>
    InitGoogleLoggingUtilities argv1 st1 = Inl InitTwice \<and>
    ShutdownGoogleLoggingUtilities st = Inl ShutdownWithoutInit \<and>
    ShutdownGoogleLoggingUtilities st1 = Inr st2 \<and>
    ProgramInvocationShortName st2 = ''UNKNOWN'' \<and>
    InitGoogleLoggingUtilities argv1 st2 \<noteq> Inl InitTwice \<and>
    LogMessage_Fail st1 = [DumpStackTraceAndExit, internal_logging_fail]"
  using assms
  by (simp add: InitGoogleLoggingUtilities_def ShutdownGoogleLoggingUtilities_def Let_def
      IsGoogleLoggingInitialized_def ProgramInvocationShortName_def InstallFailureFunction_def
      GetInstalledFailureFunction_def LogMessage_Fail_def)

theorem init_lifecycle_witness:
  "\<exists>st1. InitGoogleLoggingUtilities ''/bin/a'' (ustart 1) = Inr st1 \<and>
    ProgramInvocationShortName st1 = ''a''"
proof -
  have "\<not> IsGoogleLoggingInitialized (ustart 1)" "after_last_slash ''/bin/a'' = ''a''"
    by code_simp+
  then show ?thesis using init_lifecycle[of "ustart 1" "''/bin/a''" "[]"] by auto
qed

text \<open>
  The first crash reason is kept: in whatever order threads set it, the later ones do
  not change it.
\<close>

theorem first_crash_reason_kept:
  "g_reason (foldl (\<lambda>st r. SetCrashReason r st) st rs) =
    (case g_reason st of Some r \<Rightarrow> Some r | None \<Rightarrow> (case rs of [] \<Rightarrow> None | r # _ \<Rightarrow> Some r))"
proof (induction rs arbitrary: st)
  case (Cons r rs)
  then show ?case
    by (cases "g_reason st") (simp_all add: SetCrashReason_def sync_val_compare_and_swap_def)
qed (simp split: option.split)

text \<open>
  An installed failure function does not survive the initialisation, which resets it before
  it saves it; and a program name ending in a slash leaves logging uninitialised.
\<close>

lemma custom_fail_func_lost:
  "map_option LogMessage_Fail (case InitGoogleLoggingUtilities ''a''
      (InstallFailureFunction (Some (CustomFail 7)) (ustart 1)) of Inr st \<Rightarrow> Some st | Inl _ \<Rightarrow> None) =
    Some [DumpStackTraceAndExit, internal_logging_fail]"
  by code_simp

lemma slash_not_initialised:
  "map_option IsGoogleLoggingInitialized (case InitGoogleLoggingUtilities ''a/'' (ustart 1) of
      Inr st \<Rightarrow> Some st | Inl _ \<Rightarrow> None) = Some False"
  by code_simp

end
