(* ===== verification/Raw_Log.thy ===== *)
theory Raw_Log
  imports Utilities
begin

section \<open>Raw logging\<close>

text \<open>
  \<^verbatim>\<open>src/raw_logging.cc\<close>: a message is formatted into a buffer of \<open>kLogBufSize\<close> bytes on the
  stack and written with one system call. A formatted argument is a parameter: the text
  \<open>vsnprintf\<close> produces without a size limit, or \<open>None\<close> when it reports an error.
\<close>

definition kLogBufSize :: nat where
  "kLogBufSize = 3000"

text \<open>The buffer, the position \<^verbatim>\<open>buf\<close> in it and the size left behind it.\<close>

record RawBuf =
  rbuf :: string
  rpos :: nat
  rsize :: nat

text \<open>\<open>vsnprintf\<close> writes at most \<open>rsize - 1\<close> characters and a NUL, and nothing into no space.\<close>

definition vsnprintf :: "string \<Rightarrow> RawBuf \<Rightarrow> RawBuf" where
  "vsnprintf text b =
     (if rsize b = 0 then b
      else let out = take (rsize b - 1) text @ [NUL] in
        b\<lparr>rbuf := take (rpos b) (rbuf b) @ out @ drop (rpos b + length out) (rbuf b)\<rparr>)"

definition DoRawLog :: "string option \<Rightarrow> RawBuf \<Rightarrow> bool \<times> RawBuf" where
  "DoRawLog text b =
     (case text of
        None \<Rightarrow> (False, b)
      | Some t \<Rightarrow>
          let b' = vsnprintf t b; n = length t
          in if n > rsize b then (False, b')
             else (True, b'\<lparr>rsize := rsize b - n, rpos := rpos b + n\<rparr>))"

definition VADoRawLog :: "string option \<Rightarrow> RawBuf \<Rightarrow> bool \<times> RawBuf" where
  "VADoRawLog text b =
     (case text of
        None \<Rightarrow> (False, b)
      | Some t \<Rightarrow>
          let b' = vsnprintf t b; n = length t
          in if n > rsize b then (False, b')
             else (True, b'\<lparr>rsize := rsize b - n, rpos := rpos b + n\<rparr>))"

definition raw_new :: "string \<Rightarrow> RawBuf" where
  "raw_new uninit = \<lparr>rbuf = uninit, rpos = 0, rsize = kLogBufSize\<rparr>"

definition LogSeverityNames :: "string list" where
  "LogSeverityNames = [''INFO'', ''WARNING'', ''ERROR'', ''FATAL'']"

definition GLOG_FATAL :: nat where
  "GLOG_FATAL = 3"

text \<open>The prefix: \<^verbatim>\<open>%c00000000 00:00:00.000000 %5u %s:%d] RAW: \<close>.\<close>

definition raw_prefix :: "nat \<Rightarrow> nat \<Rightarrow> string \<Rightarrow> int \<Rightarrow> string" where
  "raw_prefix severity tid file line =
     take 1 (LogSeverityNames ! severity) @ ''00000000 00:00:00.000000 '' @
     pad_left 5 CHR '' '' (dec_str tid) @ '' '' @ const_basename file @ '':'' @ int_str line @
     ''] RAW: ''"

definition raw_too_long :: string where
  "raw_too_long = ''RAW_LOG ERROR: The Message was too long!'' @ [CHR 0x0A]"

text \<open>
  The message in the buffer: what is written, and the bytes of the message part that go into
  \<^verbatim>\<open>crash_buf\<close>.
\<close>

definition raw_message :: "string \<Rightarrow> string option \<Rightarrow> string \<Rightarrow> string \<times> string" where
  "raw_message pre formatted uninit =
     (let b1 = snd (DoRawLog (Some pre) (raw_new uninit));
          msg_start = rpos b1;
          msg_size = rsize b1;
          (no_chop, b2) = VADoRawLog formatted b1;
          b3 = snd (DoRawLog (Some (if no_chop then [CHR 0x0A] else raw_too_long)) b2)
      in (c_str (rbuf b3), take msg_size (drop msg_start (rbuf b3))))"

record RawFlags =
  FLAGS_logtostdout :: bool
  FLAGS_logtostderr :: bool
  FLAGS_alsologtostderr :: bool
  FLAGS_stderrthreshold :: nat

record RawState =
  ustate :: UState
  raw_stderr :: "string list"
  crashed :: bool
  raw_failed :: bool

text \<open>\<open>depth\<close> is the number of frames \<open>GetStackTrace\<close> finds.\<close>

definition RawLog :: "RawFlags \<Rightarrow> nat \<Rightarrow> nat \<Rightarrow> string \<Rightarrow> int \<Rightarrow> string option \<Rightarrow> nat \<Rightarrow> string \<Rightarrow>
    RawState \<Rightarrow> RawState" where
  "RawLog flags severity tid file line formatted depth uninit st =
     (if \<not> (FLAGS_logtostdout flags \<or> FLAGS_logtostderr flags \<or>
            severity \<ge> FLAGS_stderrthreshold flags \<or> FLAGS_alsologtostderr flags \<or>
            \<not> IsGoogleLoggingInitialized (ustate st)) then st
      else let (text, crash_buf) = raw_message (raw_prefix severity tid file line) formatted uninit;
               st1 = st\<lparr>raw_stderr := raw_stderr st @ [text]\<rparr>
        in if severity = GLOG_FATAL then
             (let (old, crashed') = sync_val_compare_and_swap (crashed st1) False True;
                  st2 = st1\<lparr>crashed := crashed'\<rparr>;
                  st3 = (if \<not> old then
                      st2\<lparr>ustate := SetCrashReason \<lparr>cr_filename = file, cr_line_number = line,
                          cr_message = c_str crash_buf, cr_depth = depth\<rparr> (ustate st2)\<rparr>
                    else st2)
              in st3\<lparr>raw_failed := True\<rparr>)
           else st1)"

subsection \<open>The text that is written\<close>

text \<open>\<open>raw_holds b t\<close>: the text \<open>t\<close> has been written and the position is behind it.\<close>

definition raw_holds :: "RawBuf \<Rightarrow> string \<Rightarrow> bool" where
  "raw_holds b t = (length (rbuf b) = kLogBufSize \<and> rpos b = length t \<and>
     rsize b + rpos b = kLogBufSize \<and> prefix t (rbuf b))"

lemma raw_holds_new: "length uninit = kLogBufSize \<Longrightarrow> raw_holds (raw_new uninit) []"
  by (simp add: raw_holds_def raw_new_def)

lemma vsnprintf_spec:
  assumes "raw_holds b t" and "0 < rsize b"
  shows "\<exists>rest. rbuf (vsnprintf s b) = t @ take (rsize b - 1) s @ NUL # rest \<and>
    length (rbuf (vsnprintf s b)) = kLogBufSize"
proof -
  have "take (rpos b) (rbuf b) = t"
    using assms(1) by (auto simp: raw_holds_def prefix_def)
  then show ?thesis
    using assms by (auto simp: vsnprintf_def Let_def raw_holds_def)
qed

lemma DoRawLog_fits:
  assumes b: "raw_holds b t" and len: "length s < rsize b"
  shows "\<exists>b' rest. DoRawLog (Some s) b = (True, b') \<and> VADoRawLog (Some s) b = (True, b') \<and>
    raw_holds b' (t @ s) \<and> rbuf b' = t @ s @ NUL # rest"
proof -
  obtain rest where "rbuf (vsnprintf s b) = t @ take (rsize b - 1) s @ NUL # rest"
    "length (rbuf (vsnprintf s b)) = kLogBufSize"
    using vsnprintf_spec[OF b, of s] len by auto
  then show ?thesis
    using b len
    by (auto simp: DoRawLog_def VADoRawLog_def Let_def raw_holds_def)
qed

lemma raw_message_fits:
  assumes "length uninit = kLogBufSize" and "length pre + length m + 1 < kLogBufSize"
    and "no_nul pre" and "no_nul m"
  shows "fst (raw_message pre (Some m) uninit) = pre @ m @ [CHR 0x0A]"
proof -
  obtain b1 where 1: "DoRawLog (Some pre) (raw_new uninit) = (True, b1)" "raw_holds b1 pre"
    using DoRawLog_fits[OF raw_holds_new[OF assms(1)], of pre] assms(2)
    by (auto simp: raw_new_def)
  obtain b2 where 2: "VADoRawLog (Some m) b1 = (True, b2)" "raw_holds b2 (pre @ m)"
    using DoRawLog_fits[OF 1(2), of m] assms(2) 1(2) by (auto simp: raw_holds_def)
  obtain b3 rest where "DoRawLog (Some [CHR 0x0A]) b2 = (True, b3)"
    "rbuf b3 = (pre @ m) @ [CHR 0x0A] @ NUL # rest"
    using DoRawLog_fits[OF 2(2), of "[CHR 0x0A]"] assms(2) 2(2) by (auto simp: raw_holds_def)
  moreover have "c_str ((pre @ m @ [CHR 0x0A]) @ NUL # rest) = pre @ m @ [CHR 0x0A]"
    using assms(3,4) by (intro c_str_append_nul) simp
  ultimately show ?thesis
    using 1(1) 2(1) by (simp add: raw_message_def Let_def)
qed

lemma raw_message_nearly_full:
  assumes "length uninit = kLogBufSize" and "length pre < kLogBufSize"
    and "length pre + length m + 1 \<ge> kLogBufSize" and "length pre + length m \<le> kLogBufSize"
    and "no_nul pre" and "no_nul m"
  shows "fst (raw_message pre (Some m) uninit) = pre @ take (kLogBufSize - 1 - length pre) m"
proof -
  define k where "k = kLogBufSize - 1 - length pre"
  obtain b1 where 1: "DoRawLog (Some pre) (raw_new uninit) = (True, b1)" "raw_holds b1 pre"
    using DoRawLog_fits[OF raw_holds_new[OF assms(1)], of pre] assms(2) by (auto simp: raw_new_def)
  have size: "rsize b1 = Suc k" using 1(2) assms(2) by (auto simp: raw_holds_def k_def)
  obtain rest where w: "rbuf (vsnprintf m b1) = pre @ take k m @ NUL # rest"
    "length (rbuf (vsnprintf m b1)) = kLogBufSize"
    using vsnprintf_spec[OF 1(2), of m] size by auto
  define b2 where "b2 = (vsnprintf m b1)\<lparr>rsize := Suc k - length m, rpos := length pre + length m\<rparr>"
  have 2: "VADoRawLog (Some m) b1 = (True, b2)"
    using size assms(4) 1(2) by (auto simp: VADoRawLog_def Let_def b2_def raw_holds_def k_def)
  have "rbuf (snd (DoRawLog (Some [CHR 0x0A]) b2)) = pre @ take k m @ NUL # drop 0 rest"
  proof (cases "length m = k")
    case True
    then show ?thesis using w by (simp add: DoRawLog_def b2_def vsnprintf_def Let_def)
  next
    case False
    then have "rsize b2 = 0" using assms(2-4) by (auto simp: b2_def k_def)
    then show ?thesis using w by (simp add: DoRawLog_def vsnprintf_def Let_def b2_def)
  qed
  moreover have "c_str ((pre @ take k m) @ NUL # rest) = pre @ take k m"
    using assms(5,6) no_nul_take by (intro c_str_append_nul) simp
  ultimately show ?thesis
    using 1(1) 2 by (simp add: raw_message_def Let_def k_def)
qed

lemma raw_message_too_long:
  assumes "length uninit = kLogBufSize" and "length pre + length raw_too_long < kLogBufSize"
    and "length pre + length m > kLogBufSize" and "no_nul pre"
  shows "fst (raw_message pre (Some m) uninit) = pre @ raw_too_long"
proof -
  obtain b1 where 1: "DoRawLog (Some pre) (raw_new uninit) = (True, b1)" "raw_holds b1 pre"
    using DoRawLog_fits[OF raw_holds_new[OF assms(1)], of pre] assms(2) by (auto simp: raw_new_def)
  have size: "0 < rsize b1" "length m > rsize b1" "length raw_too_long < rsize b1"
    using 1(2) assms(2,3) by (auto simp: raw_holds_def)
  define b2 where "b2 = vsnprintf m b1"
  have 2: "VADoRawLog (Some m) b1 = (False, b2)"
    using size by (simp add: VADoRawLog_def Let_def b2_def)
  have same: "rpos b2 = rpos b1" "rsize b2 = rsize b1"
    by (simp_all add: b2_def vsnprintf_def Let_def)
  obtain rest where "rbuf b2 = pre @ rest" "length (rbuf b2) = kLogBufSize"
    using vsnprintf_spec[OF 1(2) size(1), of m] by (auto simp: b2_def)
  then have "raw_holds b2 pre" using 1(2) same by (simp add: raw_holds_def)
  then obtain b3 rest' where "DoRawLog (Some raw_too_long) b2 = (True, b3)"
    "rbuf b3 = pre @ raw_too_long @ NUL # rest'"
    using DoRawLog_fits[of b2 pre raw_too_long] size same by auto
  moreover have "c_str ((pre @ raw_too_long) @ NUL # rest') = pre @ raw_too_long"
    using assms(4) by (intro c_str_append_nul) (simp add: raw_too_long_def)
  ultimately show ?thesis
    using 1(1) 2 by (simp add: raw_message_def Let_def)
qed

subsection \<open>Properties\<close>

text \<open>
  What \<open>RawLog__\<close> writes, for messages of every length: a message that leaves room is
  followed by a newline; one that fills the buffer exactly loses the newline and, when it is
  one longer, its last character; a longer one is replaced by the error text. The 3000 bytes
  of the buffer are never exceeded.
\<close>

theorem raw_message_text:
  assumes "length uninit = kLogBufSize" and "length pre + length raw_too_long < kLogBufSize"
    and "no_nul pre" and "no_nul m"
  shows "fst (raw_message pre (Some m) uninit) =
    (if length pre + length m + 1 < kLogBufSize then pre @ m @ [CHR 0x0A]
     else if length pre + length m \<le> kLogBufSize then pre @ take (kLogBufSize - 1 - length pre) m
     else pre @ raw_too_long)"
  using raw_message_fits[of uninit pre m] raw_message_nearly_full[of uninit pre m]
    raw_message_too_long[of uninit pre m] assms
  by (auto simp: raw_too_long_def)

theorem raw_message_text_witness:
  "fst (raw_message ''p '' (Some (replicate 3000 CHR ''x'')) (replicate 3000 CHR ''?'')) =
     ''p '' @ raw_too_long"
proof -
  have "no_nul (replicate 3000 CHR ''x'')" by (simp add: no_nul_def)
  then show ?thesis
    using raw_message_text[of "replicate 3000 CHR ''?''" "''p ''" "replicate 3000 CHR ''x''"]
    by (simp add: kLogBufSize_def raw_too_long_def)
qed

text \<open>
  A fatal raw message is fatal: it is written to the standard error, the crash reason is
  set at the first one only, and the process fails, unless the message is suppressed by the
  flags; no other severity fails.
\<close>

theorem RawLog_fatal:
  assumes "severity \<ge> FLAGS_stderrthreshold flags" and "\<not> raw_failed st"
  shows "(raw_failed (RawLog flags severity tid file line m depth uninit st) \<longleftrightarrow> severity = GLOG_FATAL) \<and>
    length (raw_stderr (RawLog flags severity tid file line m depth uninit st)) =
      Suc (length (raw_stderr st)) \<and>
    (g_reason (ustate st) \<noteq> None \<longrightarrow>
      g_reason (ustate (RawLog flags severity tid file line m depth uninit st)) = g_reason (ustate st))"
  using assms
  by (simp add: RawLog_def Let_def sync_val_compare_and_swap_def SetCrashReason_def
      split: prod.split)

theorem RawLog_fatal_witness:
  "raw_failed (RawLog \<lparr>FLAGS_logtostdout = False, FLAGS_logtostderr = False,
      FLAGS_alsologtostderr = False, FLAGS_stderrthreshold = 2\<rparr> 3 1 ''a.cc'' 7 (Some ''m'') 0
      (replicate 3000 CHR ''?'')
      \<lparr>ustate = ustart 1, raw_stderr = [], crashed = False, raw_failed = False\<rparr>)"
  using RawLog_fatal[of "\<lparr>FLAGS_logtostdout = False, FLAGS_logtostderr = False,
      FLAGS_alsologtostderr = False, FLAGS_stderrthreshold = 2\<rparr>" 3
      "\<lparr>ustate = ustart 1, raw_stderr = [], crashed = False, raw_failed = False\<rparr>"]
  by (simp add: GLOG_FATAL_def)

end
