(* ===== verification/Sym_Read.thy ===== *)
theory Sym_Read
  imports Signal_Format
begin

section \<open>The symbolizer: reading files\<close>

text \<open>
  \<^verbatim>\<open>src/symbolize.cc\<close>: the routines that read a file in pieces, split \<^verbatim>\<open>/proc/self/maps\<close> into
  lines and parse hexadecimal numbers.

  An open file descriptor is modelled by what \<open>pread\<close> finds at an offset: \<open>None\<close> where the
  call fails, otherwise the bytes available from there up to the end of the file. How the
  kernel serves the calls is a script, threaded through all of them: a call may be interrupted,
  may fail, or may return a short read of at least one byte (zero bytes mean the end of the
  file, as documented); when the script has ended, every call is served in full.
\<close>

type_synonym File = "64 word \<Rightarrow> string option"

datatype PreadEvent = Interrupted | Failed | Chunk nat

text \<open>\<open>Aborted\<close>: a \<^verbatim>\<open>SAFE_ASSERT\<close> failed and \<^verbatim>\<open>AssertFail\<close> ended the process.\<close>

datatype 'a outcome = Aborted | Done (done_value: 'a)

text \<open>A regular file: \<open>off_t\<close> is signed, and \<open>pread\<close> refuses a negative offset.\<close>

definition regular_file :: "string \<Rightarrow> File" where
  "regular_file bs off = (if sint off < 0 then None else Some (drop (unat off) bs))"

text \<open>\<^verbatim>\<open>NO_INTR(len = pread(...))\<close>.\<close>

fun pread_no_intr :: "File \<Rightarrow> nat \<Rightarrow> 64 word \<Rightarrow> PreadEvent list \<Rightarrow> string option \<times> PreadEvent list" where
  "pread_no_intr fd count offset [] = (map_option (take count) (fd offset), [])"
| "pread_no_intr fd count offset (Interrupted # reads) = pread_no_intr fd count offset reads"
| "pread_no_intr fd count offset (Failed # reads) = (None, reads)"
| "pread_no_intr fd count offset (Chunk n # reads) =
     (map_option (take (min count (Suc n))) (fd offset), reads)"

lemma pread_no_intr_length:
  "pread_no_intr fd count offset reads = (Some bs, reads') \<Longrightarrow> length bs \<le> count"
  by (induction fd count offset reads rule: pread_no_intr.induct) auto

function ReadFromOffset_loop :: "File \<Rightarrow> nat \<Rightarrow> 64 word \<Rightarrow> string \<Rightarrow> PreadEvent list \<Rightarrow>
    string option \<times> PreadEvent list" where
  "ReadFromOffset_loop fd count offset buf0 reads =
     (if length buf0 < count then
        (case pread_no_intr fd (count - length buf0) (offset + of_nat (length buf0)) reads of
           (None, reads') \<Rightarrow> (None, reads')
         | (Some bs, reads') \<Rightarrow>
             if bs = [] then (Some buf0, reads')
             else ReadFromOffset_loop fd count offset (buf0 @ bs) reads')
      else (Some buf0, reads))"
  by pat_completeness auto
termination
  by (relation "measure (\<lambda>(fd, count, offset, buf0, reads). count - length buf0)")
    (auto simp: diff_less_mono2)

declare ReadFromOffset_loop.simps [simp del]

definition ssize_max :: nat where
  "ssize_max = 9223372036854775807"

text \<open>The bytes read, or \<open>None\<close> for the result -1.\<close>

definition ReadFromOffset :: "File \<Rightarrow> nat \<Rightarrow> 64 word \<Rightarrow> PreadEvent list \<Rightarrow>
    (string option \<times> PreadEvent list) outcome" where
  "ReadFromOffset fd count offset reads =
     (if ssize_max < count then Aborted
      else let (res, reads') = ReadFromOffset_loop fd count offset [] reads
        in if (case res of None \<Rightarrow> True | Some bs \<Rightarrow> length bs \<le> count) then Done (res, reads')
           else Aborted)"

definition ReadFromOffsetExact :: "File \<Rightarrow> nat \<Rightarrow> 64 word \<Rightarrow> PreadEvent list \<Rightarrow>
    (string option \<times> PreadEvent list) outcome" where
  "ReadFromOffsetExact fd count offset reads =
     (case ReadFromOffset fd count offset reads of
        Aborted \<Rightarrow> Aborted
      | Done (None, reads') \<Rightarrow> Done (None, reads')
      | Done (Some bs, reads') \<Rightarrow> Done (if length bs = count then Some bs else None, reads'))"

subsection \<open>Reading does not depend on how the kernel serves the calls\<close>

text \<open>
  A file is \<^emph>\<open>coherent\<close> when reading on from inside the available bytes finds the rest of them.
\<close>

definition coherent :: "File \<Rightarrow> bool" where
  "coherent fd = (\<forall>offset bs n. fd offset = Some bs \<longrightarrow> n \<le> length bs \<longrightarrow>
     fd (offset + of_nat n) = Some (drop n bs))"

lemma coherentD:
  "coherent fd \<Longrightarrow> fd offset = Some bs \<Longrightarrow> n \<le> length bs \<Longrightarrow>
   fd (offset + of_nat n) = Some (drop n bs)"
  by (auto simp: coherent_def)

definition no_failure :: "PreadEvent list \<Rightarrow> bool" where
  "no_failure reads = (Failed \<notin> set reads)"

lemma no_failure_simps [simp]:
  "no_failure []" "no_failure (e # reads) \<longleftrightarrow> e \<noteq> Failed \<and> no_failure reads"
  by (auto simp: no_failure_def)

text \<open>One call on a file with bytes left returns some of them, and at least one.\<close>

lemma pread_no_intr_some:
  assumes "no_failure reads" and "fd offset = Some bs"
  obtains k reads' where "pread_no_intr fd count offset reads = (Some (take k bs), reads')"
    and "no_failure reads'" and "k \<le> count" and "0 < count \<Longrightarrow> 0 < k"
proof -
  have "\<exists>k reads'. pread_no_intr fd count offset reads = (Some (take k bs), reads') \<and>
      no_failure reads' \<and> k \<le> count \<and> (0 < count \<longrightarrow> 0 < k)"
    using assms
  proof (induction fd count offset reads rule: pread_no_intr.induct)
    case (4 fd count offset n reads)
    then show ?case by (intro exI[of _ "min count (Suc n)"]) auto
  qed auto
  then show ?thesis using that by blast
qed

lemma pread_no_intr_none:
  "no_failure reads \<Longrightarrow> fd offset = None \<Longrightarrow>
   \<exists>reads'. pread_no_intr fd count offset reads = (None, reads') \<and> no_failure reads'"
  by (induction fd count offset reads rule: pread_no_intr.induct) auto

lemma ReadFromOffset_loop_some:
  assumes "coherent fd" and "fd offset = Some bs"
  shows "no_failure reads \<Longrightarrow> n \<le> count \<Longrightarrow> n \<le> length bs \<Longrightarrow>
    \<exists>reads'. ReadFromOffset_loop fd count offset (take n bs) reads = (Some (take count bs), reads') \<and>
      no_failure reads'"
proof (induction "count - n" arbitrary: n reads rule: less_induct)
  case less
  have len: "length (take n bs) = n" using less.prems by simp
  show ?case
  proof (cases "n < count")
    case False
    then show ?thesis using less.prems len by (subst ReadFromOffset_loop.simps) auto
  next
    case True
    have off: "fd (offset + of_nat n) = Some (drop n bs)"
      using coherentD[OF assms less.prems(3)] .
    obtain k reads1 where k: "pread_no_intr fd (count - n) (offset + of_nat n) reads =
        (Some (take k (drop n bs)), reads1)" "no_failure reads1" "k \<le> count - n" "0 < k"
      using pread_no_intr_some[of reads fd "offset + of_nat n" "drop n bs" "count - n"]
        less.prems off True by (metis zero_less_diff)
    show ?thesis
    proof (cases "n = length bs")
      case True
      then show ?thesis using k \<open>n < count\<close> len by (subst ReadFromOffset_loop.simps) auto
    next
      case False
      define m where "m = min (n + k) (length bs)"
      have m: "n < m" "m \<le> count" "m \<le> length bs"
        using False k less.prems by (auto simp: m_def)
      have app: "take n bs @ take k (drop n bs) = take m bs"
        by (simp add: m_def take_add [symmetric] min_def)
      have "ReadFromOffset_loop fd count offset (take n bs) reads =
          ReadFromOffset_loop fd count offset (take m bs) reads1"
        using k \<open>n < count\<close> len False less.prems m
        by (subst ReadFromOffset_loop.simps) (auto simp: app)
      moreover have "count - m < count - n" using m True by linarith
      ultimately show ?thesis using less.hyps[of m reads1] k m by auto
    qed
  qed
qed

lemma ReadFromOffset_some:
  assumes "coherent fd" and "fd offset = Some bs" and "no_failure reads" and "count \<le> ssize_max"
  obtains reads' where "ReadFromOffset fd count offset reads = Done (Some (take count bs), reads')"
    and "no_failure reads'"
  using ReadFromOffset_loop_some[OF assms(1,2,3), of 0 count] assms(4) that
  by (auto simp: ReadFromOffset_def)

lemma ReadFromOffset_none:
  assumes "fd offset = None" and "no_failure reads" and "0 < count" and "count \<le> ssize_max"
  obtains reads' where "ReadFromOffset fd count offset reads = Done (None, reads')"
    and "no_failure reads'"
proof -
  obtain reads' where "pread_no_intr fd count offset reads = (None, reads')" "no_failure reads'"
    using pread_no_intr_none[of reads fd offset count] assms by blast
  then have "ReadFromOffset_loop fd count offset [] reads = (None, reads')"
    using assms(3) by (subst ReadFromOffset_loop.simps) simp
  then show ?thesis using that assms(4) \<open>no_failure reads'\<close> by (simp add: ReadFromOffset_def)
qed

lemma ReadFromOffset_loop_length:
  "ReadFromOffset_loop fd count offset buf0 reads = (Some bs, reads') \<Longrightarrow>
   length buf0 \<le> count \<Longrightarrow> length bs \<le> count"
proof (induction fd count offset buf0 reads rule: ReadFromOffset_loop.induct)
  case (1 fd count offset buf0 reads)
  show ?case
  proof (cases "length buf0 < count")
    case False
    then show ?thesis using 1(2,3) by (subst (asm) ReadFromOffset_loop.simps) auto
  next
    case True
    obtain r reads1 where p: "pread_no_intr fd (count - length buf0)
        (offset + of_nat (length buf0)) reads = (r, reads1)" by fastforce
    show ?thesis
    proof (cases r)
      case None
      then show ?thesis using 1(2) True p by (subst (asm) ReadFromOffset_loop.simps) auto
    next
      case (Some xs)
      then have "length xs \<le> count - length buf0" using p pread_no_intr_length by auto
      then show ?thesis
        using 1(1)[OF True p[symmetric] Some] 1(2,3) True p Some
          ReadFromOffset_loop.simps[of fd count offset buf0 reads]
        by (auto split: if_splits)
    qed
  qed
qed

text \<open>The second assertion of \<open>ReadFromOffset\<close> never fails.\<close>

lemma ReadFromOffset_cases:
  assumes "count \<le> ssize_max"
  obtains res reads' where "ReadFromOffset fd count offset reads = Done (res, reads')"
    and "\<And>bs. res = Some bs \<Longrightarrow> length bs \<le> count"
proof -
  obtain res reads' where r: "ReadFromOffset_loop fd count offset [] reads = (res, reads')"
    by fastforce
  then have "\<And>bs. res = Some bs \<Longrightarrow> length bs \<le> count"
    using ReadFromOffset_loop_length[of fd count offset "[]" reads] by simp
  moreover from this have "ReadFromOffset fd count offset reads = Done (res, reads')"
    using r assms by (auto simp: ReadFromOffset_def split: option.splits)
  ultimately show ?thesis using that by blast
qed

lemma sint_ge_0_iff: "0 \<le> sint (w :: 64 word) \<longleftrightarrow> unat w \<le> ssize_max"
proof -
  define u where "u = uint w"
  have u: "0 \<le> u" "u < 2 ^ 64" using uint_lt2p[of w] by (auto simp: u_def)
  have "0 \<le> sint w \<longleftrightarrow> \<not> bit u 63"
    by (simp add: sint_uint u_def)
  also have "\<dots> \<longleftrightarrow> even (u div 2 ^ 63)"
    by (simp only: bit_iff_odd not_not)
  also have "\<dots> \<longleftrightarrow> u < 2 ^ 63"
  proof (cases "u < 2 ^ 63")
    case True
    then show ?thesis using u by simp
  next
    case False
    then have "u div 2 ^ 63 = 1" using u int_div_pos_eq[of u "2 ^ 63" 1 "u - 2 ^ 63"] by simp
    then show ?thesis using False by simp
  qed
  also have "\<dots> \<longleftrightarrow> unat w \<le> ssize_max"
  proof -
    obtain n where "u = int n" and "unat w = n" using that[of "unat w"] by (simp add: u_def)
    then show ?thesis by (auto simp: ssize_max_def)
  qed
  finally show ?thesis .
qed

lemma unat_add_offset:
  "unat (offset :: 64 word) + n \<le> ssize_max \<Longrightarrow> unat (offset + of_nat n) = unat offset + n"
  by (simp add: ssize_max_def unat_word_ariths take_bit_eq_mod unsigned_of_nat)

lemma regular_file_at:
  "unat offset \<le> ssize_max \<Longrightarrow> regular_file bs offset = Some (drop (unat offset) bs)"
  using sint_ge_0_iff[of offset] by (simp add: regular_file_def)

lemma regular_coherent:
  assumes "length bs \<le> ssize_max"
  shows "coherent (regular_file bs)"
  unfolding coherent_def
proof (intro allI impI)
  fix offset :: "64 word" and cs n
  assume cs: "regular_file bs offset = Some cs" and n: "n \<le> length cs"
  have off: "unat offset \<le> ssize_max"
    using cs sint_ge_0_iff[of offset] by (auto simp: regular_file_def split: if_splits)
  then have eq: "cs = drop (unat offset) bs" using cs regular_file_at by simp
  then have le: "unat offset + n \<le> ssize_max" using off n assms by auto
  then show "regular_file bs (offset + of_nat n) = Some (drop n cs)"
    using unat_add_offset[OF le] regular_file_at[of "offset + of_nat n" bs] eq
    by (simp add: add.commute)
qed

end
