(* ===== verification/Sym_Maps.thy ===== *)
theory Sym_Maps
  imports Sym_Read
begin

section \<open>The symbolizer: the memory map of the process\<close>

text \<open>
  \<^verbatim>\<open>LineReader\<close>, \<^verbatim>\<open>GetHex\<close> and \<^verbatim>\<open>OpenObjectFileContainingPcAndGetStartAddress\<close> of
  \<^verbatim>\<open>src/symbolize.cc\<close>. The pointers into the reader's buffer are positions in it; a cursor into
  the current line is the rest of the line, so \<^verbatim>\<open>cursor == eol\<close> is the empty list.
\<close>

definition LF :: char where
  "LF = CHR 0x0A"

record LineReader =
  lr_buf :: string
  lr_offset :: "64 word"
  lr_bol :: nat
  lr_eol :: nat
  lr_eod :: nat

definition LineReader_new :: "string \<Rightarrow> 64 word \<Rightarrow> LineReader" where
  "LineReader_new buf offset = \<lparr>lr_buf = buf, lr_offset = offset, lr_bol = 0, lr_eol = 0, lr_eod = 0\<rparr>"

text \<open>\<open>memchr\<close> from \<^verbatim>\<open>bol_\<close> up to \<^verbatim>\<open>eod_\<close>.\<close>

definition FindLineFeed :: "LineReader \<Rightarrow> nat option" where
  "FindLineFeed lr =
     (let data = take (lr_eod lr - lr_bol lr) (drop (lr_bol lr) (lr_buf lr));
          k = length (takeWhile (\<lambda>c. c \<noteq> LF) data)
      in if k < length data then Some (lr_bol lr + k) else None)"

definition BufferIsEmpty :: "LineReader \<Rightarrow> bool" where
  "BufferIsEmpty lr = (lr_eod lr = 0)"

definition HasCompleteLine :: "LineReader \<Rightarrow> bool" where
  "HasCompleteLine lr = (\<not> BufferIsEmpty lr \<and> FindLineFeed lr \<noteq> None)"

text \<open>
  The refill of the buffer behind its first \<open>kept\<close> bytes; \<open>None\<close> at the end of the file or on
  an error.
\<close>

definition lr_fill :: "File \<Rightarrow> nat \<Rightarrow> LineReader \<Rightarrow> PreadEvent list \<Rightarrow>
    (LineReader option \<times> PreadEvent list) outcome" where
  "lr_fill fd kept lr reads =
     (case ReadFromOffset fd (length (lr_buf lr) - kept) (lr_offset lr) reads of
        Aborted \<Rightarrow> Aborted
      | Done (None, reads') \<Rightarrow> Done (None, reads')
      | Done (Some bs, reads') \<Rightarrow>
          Done (if bs = [] then None
                else Some (lr\<lparr>lr_buf := take kept (lr_buf lr) @ bs @ drop (kept + length bs) (lr_buf lr),
                   lr_offset := lr_offset lr + of_nat (length bs),
                   lr_eod := kept + length bs, lr_bol := 0\<rparr>), reads'))"

definition lr_find :: "LineReader \<Rightarrow> (string \<times> LineReader) option" where
  "lr_find lr =
     (case FindLineFeed lr of
        None \<Rightarrow> None
      | Some eol \<Rightarrow> Some (take (eol - lr_bol lr) (drop (lr_bol lr) (lr_buf lr)),
          lr\<lparr>lr_eol := eol, lr_buf := (lr_buf lr)[eol := NUL]\<rparr>))"

definition ReadLine :: "File \<Rightarrow> LineReader \<Rightarrow> PreadEvent list \<Rightarrow>
    ((string \<times> LineReader) option \<times> PreadEvent list) outcome" where
  "ReadLine fd lr reads =
     (if BufferIsEmpty lr then
        (case lr_fill fd 0 lr reads of
           Aborted \<Rightarrow> Aborted
         | Done (None, reads') \<Rightarrow> Done (None, reads')
         | Done (Some lr', reads') \<Rightarrow> Done (lr_find lr', reads'))
      else
        (let lr1 = lr\<lparr>lr_bol := lr_eol lr + 1\<rparr>
         in if lr_eod lr1 < lr_bol lr1 then Aborted
            else if HasCompleteLine lr1 then Done (lr_find lr1, reads)
            else
              (let incomplete_line_length = lr_eod lr1 - lr_bol lr1;
                   moved = lr1\<lparr>lr_buf :=
                     take incomplete_line_length (drop (lr_bol lr1) (lr_buf lr1)) @
                     drop incomplete_line_length (lr_buf lr1)\<rparr>
               in case lr_fill fd incomplete_line_length moved reads of
                    Aborted \<Rightarrow> Aborted
                  | Done (None, reads') \<Rightarrow> Done (None, reads')
                  | Done (Some lr', reads') \<Rightarrow> Done (lr_find lr', reads'))))"

subsection \<open>Hexadecimal numbers\<close>

definition is_hex :: "char \<Rightarrow> bool" where
  "is_hex ch = (is_digit ch \<or> (CHR ''A'' \<le> ch \<and> ch \<le> CHR ''F'') \<or> (CHR ''a'' \<le> ch \<and> ch \<le> CHR ''f''))"

definition hex_digit :: "char \<Rightarrow> 64 word" where
  "hex_digit ch = (if ch < CHR ''A'' then of_nat (of_char ch - 48)
     else and (of_nat (of_char ch)) 0xF + 9)"

fun GetHex_loop :: "64 word \<Rightarrow> string \<Rightarrow> 64 word \<times> string" where
  "GetHex_loop hex [] = (hex, [])"
| "GetHex_loop hex (ch # p) =
     (if is_hex ch then GetHex_loop (or (push_bit 4 hex) (hex_digit ch)) p else (hex, ch # p))"

text \<open>The number, and the text from the first character that is no digit.\<close>

definition GetHex :: "string \<Rightarrow> 64 word \<times> string" where
  "GetHex start = GetHex_loop 0 start"

text \<open>The value of hexadecimal digits, most significant first.\<close>

definition hex_nat :: "char \<Rightarrow> nat" where
  "hex_nat c = (if c < CHR ''A'' then of_char c - 48 else of_char c mod 16 + 9)"

definition hex_val :: "nat \<Rightarrow> string \<Rightarrow> nat" where
  "hex_val acc ds = foldl (\<lambda>a c. a * 16 + hex_nat c) acc ds"

lemma hex_val_simps [simp]:
  "hex_val acc [] = acc" "hex_val acc (c # ds) = hex_val (acc * 16 + hex_nat c) ds"
  by (simp_all add: hex_val_def)

lemma hex_val_snoc: "hex_val acc (ds @ [c]) = hex_val acc ds * 16 + hex_nat c"
  by (simp add: hex_val_def)

lemma hex_digit_nat: "hex_digit c = of_nat (hex_nat c)"
proof -
  have "and (of_nat n) 0xF = (of_nat (n mod 16) :: 64 word)" for n
  proof -
    have "and (of_nat n) 0xF = take_bit 4 (of_nat n :: 64 word)"
      by (simp add: take_bit_eq_mask mask_eq_exp_minus_1)
    also have "\<dots> = of_nat (take_bit 4 n)" by (simp add: take_bit_of_nat)
    finally show ?thesis by (simp add: take_bit_eq_mod)
  qed
  then show ?thesis by (simp add: hex_digit_def hex_nat_def)
qed

lemma hex_nat_less: "is_hex c \<Longrightarrow> hex_nat c < 16"
proof -
  have "65 \<le> n \<and> n \<le> 70 \<or> 97 \<le> n \<and> n \<le> 102 \<Longrightarrow> n mod 16 < 7" for n :: nat
    by presburger
  then show "is_hex c \<Longrightarrow> hex_nat c < 16"
    by (auto simp: is_hex_def is_digit_def hex_nat_def less_eq_char_def less_char_def)
qed

lemma or_push_bit_4: "d < 16 \<Longrightarrow> or (push_bit 4 (of_nat n :: 64 word)) (of_nat d) = of_nat (n * 16 + d)"
proof -
  assume "d < 16"
  then have "take_bit 4 d = d" by (simp add: take_bit_nat_eq_self_iff)
  then have "or (push_bit 4 n) d = push_bit 4 n + d"
  proof -
    have "and (push_bit 4 n) (take_bit 4 d) = 0" by (auto simp: bit_eq_iff bit_simps)
    then show ?thesis using \<open>take_bit 4 d = d\<close> by (simp add: disjunctive_add_eq_or)
  qed
  then have "of_nat (or (push_bit 4 n) d) = (of_nat (n * 16 + d) :: 64 word)"
    by (simp add: push_bit_eq_mult)
  moreover have "of_nat (or (push_bit 4 n) d) = or (push_bit 4 (of_nat n :: 64 word)) (of_nat d)"
    by (simp add: of_nat_or_eq push_bit_of_nat)
  ultimately show ?thesis by simp
qed

lemma GetHex_loop_spec:
  "list_all is_hex ds \<Longrightarrow> rest = [] \<or> \<not> is_hex (hd rest) \<Longrightarrow>
   GetHex_loop (of_nat n) (ds @ rest) = (of_nat (hex_val n ds), rest)"
proof (induction ds arbitrary: n)
  case Nil
  then show ?case by (cases rest) auto
next
  case (Cons c ds)
  then have "or (push_bit 4 (of_nat n)) (hex_digit c) = (of_nat (n * 16 + hex_nat c) :: 64 word)"
    using or_push_bit_4[OF hex_nat_less] by (simp add: hex_digit_nat)
  then show ?case using Cons.IH[of "n * 16 + hex_nat c"] Cons.prems by simp
qed

lemma radix_digit_hex: "d < 16 \<Longrightarrow> is_hex (radix_digit d) \<and> hex_nat (radix_digit d) = d"
proof -
  have "list_all (\<lambda>d. is_hex (radix_digit d) \<and> hex_nat (radix_digit d) = d) [0..<16]"
    by code_simp
  then show "d < 16 \<Longrightarrow> is_hex (radix_digit d) \<and> hex_nat (radix_digit d) = d"
    by (simp add: list_all_iff)
qed

lemma num_str_hex: "list_all is_hex (num_str 16 n) \<and> hex_val 0 (num_str 16 n) = n"
proof (induction "16 :: nat" n rule: num_str.induct)
  case (1 n)
  have d: "is_hex (radix_digit (n mod 16))" "hex_nat (radix_digit (n mod 16)) = n mod 16"
    using radix_digit_hex[of "n mod 16"] by simp_all
  show ?case using 1 d by (subst (1 2) num_str.simps) (auto simp: hex_val_snoc)
qed

subsection \<open>ELF headers in memory\<close>

text \<open>Little-endian fields of the ELF structures of a 64-bit machine (\<^verbatim>\<open>elf.h\<close>).\<close>

definition le_val :: "string \<Rightarrow> nat" where
  "le_val bs = foldr (\<lambda>c v. of_char c + 256 * v) bs 0"

definition field :: "string \<Rightarrow> nat \<Rightarrow> nat \<Rightarrow> 'a::len word" where
  "field bs off n = of_nat (le_val (take n (drop off bs)))"

record Ehdr =
  e_ident :: string
  e_type :: "16 word"
  e_phoff :: "64 word"
  e_shoff :: "64 word"
  e_phnum :: "16 word"
  e_shentsize :: "16 word"
  e_shnum :: "16 word"
  e_shstrndx :: "16 word"

definition sizeof_Ehdr :: nat where
  "sizeof_Ehdr = 64"

definition decode_Ehdr :: "string \<Rightarrow> Ehdr" where
  "decode_Ehdr bs = \<lparr>e_ident = take 16 bs, e_type = field bs 16 2, e_phoff = field bs 32 8,
     e_shoff = field bs 40 8, e_phnum = field bs 56 2, e_shentsize = field bs 58 2,
     e_shnum = field bs 60 2, e_shstrndx = field bs 62 2\<rparr>"

record Phdr =
  p_type :: "32 word"
  p_offset :: "64 word"
  p_vaddr :: "64 word"

definition sizeof_Phdr :: nat where
  "sizeof_Phdr = 56"

definition decode_Phdr :: "string \<Rightarrow> Phdr" where
  "decode_Phdr bs = \<lparr>p_type = field bs 0 4, p_offset = field bs 8 8, p_vaddr = field bs 16 8\<rparr>"

definition ELFMAG :: string where
  "ELFMAG = CHR 0x7F # ''ELF''"

definition ET_EXEC :: "16 word" where "ET_EXEC = 2"
definition ET_DYN :: "16 word" where "ET_DYN = 3"
definition PT_LOAD :: "32 word" where "PT_LOAD = 1"

text \<open>The search for the segment that holds file offset 0.\<close>

fun segment_loop :: "File \<Rightarrow> 64 word \<Rightarrow> 64 word \<Rightarrow> nat list \<Rightarrow> 64 word \<Rightarrow> PreadEvent list \<Rightarrow>
    (64 word \<times> PreadEvent list) outcome" where
  "segment_loop mem start_address phoff [] base_address reads = Done (base_address, reads)"
| "segment_loop mem start_address phoff (i # is) base_address reads =
     (case ReadFromOffsetExact mem sizeof_Phdr
        (start_address + phoff + of_nat (i * sizeof_Phdr)) reads of
        Aborted \<Rightarrow> Aborted
      | Done (None, reads') \<Rightarrow> segment_loop mem start_address phoff is base_address reads'
      | Done (Some bs, reads') \<Rightarrow>
          let phdr = decode_Phdr bs
          in if p_type phdr = PT_LOAD \<and> p_offset phdr = 0
             then Done (start_address - p_vaddr phdr, reads')
             else segment_loop mem start_address phoff is base_address reads')"

text \<open>The base address after the ELF header mapped at \<open>start_address\<close> has been looked at.\<close>

definition update_base_address :: "File \<Rightarrow> bool \<Rightarrow> 64 word \<Rightarrow> 64 word \<Rightarrow> PreadEvent list \<Rightarrow>
    (64 word \<times> PreadEvent list) outcome" where
  "update_base_address mem readable start_address base_address reads =
     (if \<not> readable then Done (base_address, reads)
      else case ReadFromOffsetExact mem sizeof_Ehdr start_address reads of
          Aborted \<Rightarrow> Aborted
        | Done (None, reads') \<Rightarrow> Done (base_address, reads')
        | Done (Some bs, reads') \<Rightarrow>
            let ehdr = decode_Ehdr bs
            in if take 4 (e_ident ehdr) \<noteq> ELFMAG then Done (base_address, reads')
               else if e_type ehdr = ET_EXEC then Done (0, reads')
               else if e_type ehdr = ET_DYN then
                 segment_loop mem start_address (e_phoff ehdr) [0..<unat (e_phnum ehdr)]
                   start_address reads'
               else Done (base_address, reads'))"

subsection \<open>The search for the object file\<close>

text \<open>\<open>skip_fields\<close>: the file name, behind two fields that end in spaces.\<close>

fun skip_fields :: "nat \<Rightarrow> string \<Rightarrow> string" where
  "skip_fields num_spaces [] = []"
| "skip_fields num_spaces (c # cur) =
     (if c = CHR '' '' then skip_fields (Suc num_spaces) cur
      else if 2 \<le> num_spaces then c # cur
      else skip_fields num_spaces cur)"

text \<open>\<open>strncpy\<close>, and the terminator that follows it in the code.\<close>

definition strncpy_nul :: "string \<Rightarrow> string \<Rightarrow> string" where
  "strncpy_nul dest source =
     (let s = c_str source; n = length dest
      in if n = 0 then [] else take (n - 1) (s @ replicate n NUL) @ [NUL])"

text \<open>What one line of the map leads to.\<close>

datatype MapResult =
    Malformed
  | NextLine
  | Opened File
  | NotOpened string

record MapState =
  start_address :: "64 word"
  base_address :: "64 word"
  pending :: "PreadEvent list"

text \<open>The part of a line behind the flags, for a map that contains the program counter.\<close>

definition map_object :: "(string \<Rightarrow> File option) \<Rightarrow> string \<Rightarrow> MapResult" where
  "map_object open_file cur =
     (let (file_offset, cur) = GetHex cur
      in if cur = [] \<or> c_hd cur \<noteq> CHR '' '' then Malformed
         else let name = skip_fields 0 (tl cur)
           in if name = [] then Malformed
              else case open_file (c_str name) of
                  Some fd \<Rightarrow> Opened fd
                | None \<Rightarrow> NotOpened name)"

definition map_line :: "(string \<Rightarrow> File option) \<Rightarrow> File \<Rightarrow> 64 word \<Rightarrow> string \<Rightarrow> MapState \<Rightarrow>
    (MapResult \<times> MapState) outcome" where
  "map_line open_file mem pc line st =
     (let (start, cur) = GetHex line; st1 = st\<lparr>start_address := start\<rparr>
      in if cur = [] \<or> c_hd cur \<noteq> CHR ''-'' then Done (Malformed, st1)
      else let (end_address, cur) = GetHex (tl cur)
      in if cur = [] \<or> c_hd cur \<noteq> CHR '' '' then Done (Malformed, st1)
      else let flags = takeWhile (\<lambda>c. c \<noteq> CHR '' '') (tl cur);
               cur = dropWhile (\<lambda>c. c \<noteq> CHR '' '') (tl cur)
      in if cur = [] \<or> length flags < 4 then Done (Malformed, st1)
      else case update_base_address mem (flags ! 0 = CHR ''r'') start (base_address st1) (pending st1) of
          Aborted \<Rightarrow> Aborted
        | Done (base, reads') \<Rightarrow>
            let st2 = st1\<lparr>base_address := base, pending := reads'\<rparr>
            in if \<not> (start \<le> pc \<and> pc < end_address) then Done (NextLine, st2)
               else if flags ! 0 \<noteq> CHR ''r'' \<or> flags ! 2 \<noteq> CHR ''x'' then Done (NextLine, st2)
               else Done (map_object open_file (tl cur), st2))"

text \<open>
  The loop over the lines. The first component of its result is the descriptor of the object
  file, \<open>None\<close> for -1; then come the out parameters.
\<close>

partial_function (option) maps_loop :: "(string \<Rightarrow> File option) \<Rightarrow> File \<Rightarrow> File \<Rightarrow> 64 word \<Rightarrow>
    LineReader \<Rightarrow> string \<Rightarrow> MapState \<Rightarrow> (File option \<times> string \<times> MapState) outcome option" where
  "maps_loop open_file maps mem pc reader name st =
     (case ReadLine maps reader (pending st) of
        Aborted \<Rightarrow> Some Aborted
      | Done (None, reads') \<Rightarrow> Some (Done (None, name, st\<lparr>pending := reads'\<rparr>))
      | Done (Some (line, reader'), reads') \<Rightarrow>
          (case map_line open_file mem pc line (st\<lparr>pending := reads'\<rparr>) of
             Aborted \<Rightarrow> Some Aborted
           | Done (Malformed, st') \<Rightarrow> Some (Done (None, name, st'))
           | Done (NextLine, st') \<Rightarrow> maps_loop open_file maps mem pc reader' name st'
           | Done (Opened fd, st') \<Rightarrow> Some (Done (Some fd, name, st'))
           | Done (NotOpened file, st') \<Rightarrow> Some (Done (None, strncpy_nul name file, st'))))"

text \<open>
  \<open>open_file\<close> is the file system; \<open>uninit\<close> is what the buffer of 1024 bytes on the stack held.
\<close>

definition OpenObjectFileContainingPcAndGetStartAddress :: "(string \<Rightarrow> File option) \<Rightarrow> string \<Rightarrow>
    64 word \<Rightarrow> string \<Rightarrow> MapState \<Rightarrow> (File option \<times> string \<times> MapState) outcome option" where
  "OpenObjectFileContainingPcAndGetStartAddress open_file uninit pc out_file_name st =
     (case open_file ''/proc/self/maps'' of
        None \<Rightarrow> Some (Done (None, out_file_name, st))
      | Some maps \<Rightarrow>
          (case open_file ''/proc/self/mem'' of
             None \<Rightarrow> Some (Done (None, out_file_name, st))
           | Some mem \<Rightarrow>
               maps_loop open_file maps mem pc (LineReader_new uninit 0) out_file_name st))"

subsection \<open>The lines of a file\<close>

text \<open>The bytes of the buffer from \<^verbatim>\<open>bol_\<close> on.\<close>

definition lr_data :: "LineReader \<Rightarrow> string" where
  "lr_data lr = take (lr_eod lr - lr_bol lr) (drop (lr_bol lr) (lr_buf lr))"

text \<open>\<open>text\<close> is what the reader has not returned yet: the rest of the buffer and of the file.\<close>

definition lr_inv :: "File \<Rightarrow> LineReader \<Rightarrow> string \<Rightarrow> bool" where
  "lr_inv fd lr text = (\<exists>f. fd (lr_offset lr) = Some f \<and> lr_eod lr \<le> length (lr_buf lr) \<and>
     (if lr_eod lr = 0 then text = f
      else Suc (lr_eol lr) \<le> lr_eod lr \<and>
        text = take (lr_eod lr - Suc (lr_eol lr)) (drop (Suc (lr_eol lr)) (lr_buf lr)) @ f))"

lemma lr_find_none: "LF \<notin> set (lr_data lr) \<Longrightarrow> lr_find lr = None"
proof -
  assume "LF \<notin> set (lr_data lr)"
  then have "takeWhile (\<lambda>c. c \<noteq> LF) (lr_data lr) = lr_data lr"
    by (subst takeWhile_eq_all_conv) auto
  then have "FindLineFeed lr = None"
    unfolding FindLineFeed_def lr_data_def [symmetric] Let_def by (metis less_irrefl)
  then show ?thesis by (simp add: lr_find_def)
qed

lemma take_while_LF: "LF \<notin> set l \<Longrightarrow> takeWhile (\<lambda>c. c \<noteq> LF) (l @ LF # t) = l"
  by (induction l) auto

lemma lr_find_some:
  assumes "lr_data lr = l @ LF # t" and "LF \<notin> set l" and "lr_eod lr \<le> length (lr_buf lr)"
  obtains lr' where "lr_find lr = Some (l, lr')" and "lr_eod lr' = lr_eod lr"
    and "lr_offset lr' = lr_offset lr" and "length (lr_buf lr') = length (lr_buf lr)"
    and "Suc (lr_eol lr') \<le> lr_eod lr"
    and "take (lr_eod lr - Suc (lr_eol lr')) (drop (Suc (lr_eol lr')) (lr_buf lr')) = t"
proof -
  define eol where "eol = lr_bol lr + length l"
  define lr' where "lr' = lr\<lparr>lr_eol := eol, lr_buf := (lr_buf lr)[eol := NUL]\<rparr>"
  have data: "take (lr_eod lr - lr_bol lr) (drop (lr_bol lr) (lr_buf lr)) = l @ LF # t"
    using assms(1) by (simp add: lr_data_def)
  have len: "length (l @ LF # t) = lr_eod lr - lr_bol lr"
    using assms(3) by (subst data [symmetric]) simp
  have find: "FindLineFeed lr = Some eol"
    by (simp add: FindLineFeed_def data take_while_LF assms(2) eol_def)
  have line: "take (eol - lr_bol lr) (drop (lr_bol lr) (lr_buf lr)) = l"
  proof -
    have "take (eol - lr_bol lr) (drop (lr_bol lr) (lr_buf lr)) =
        take (length l) (take (lr_eod lr - lr_bol lr) (drop (lr_bol lr) (lr_buf lr)))"
      using len by (simp add: eol_def min_def)
    then show ?thesis by (simp add: data)
  qed
  have rest: "take (lr_eod lr - Suc eol) (drop (Suc eol) ((lr_buf lr)[eol := NUL])) = t"
  proof -
    have "take (lr_eod lr - Suc eol) (drop (Suc eol) ((lr_buf lr)[eol := NUL])) =
        drop (Suc (length l)) (take (lr_eod lr - lr_bol lr) (drop (lr_bol lr) (lr_buf lr)))"
      by (simp add: eol_def drop_take add.commute)
    then show ?thesis by (simp add: data)
  qed
  show ?thesis
  proof (rule that)
    show "lr_find lr = Some (l, lr')"
      by (simp add: lr_find_def find line lr'_def)
    show "Suc (lr_eol lr') \<le> lr_eod lr" using len by (simp add: lr'_def eol_def)
    show "take (lr_eod lr - Suc (lr_eol lr')) (drop (Suc (lr_eol lr')) (lr_buf lr')) = t"
      using rest by (simp add: lr'_def)
  qed (simp_all add: lr'_def)
qed

lemma lr_fill_spec:
  assumes "coherent fd" and "fd (lr_offset lr) = Some f" and "no_failure reads"
    and "kept \<le> length (lr_buf lr)" and "length (lr_buf lr) \<le> ssize_max"
  defines "bs \<equiv> take (length (lr_buf lr) - kept) f"
  obtains reads' where "no_failure reads'" and "bs = [] \<Longrightarrow> lr_fill fd kept lr reads = Done (None, reads')"
    and "bs \<noteq> [] \<Longrightarrow> \<exists>lr'. lr_fill fd kept lr reads = Done (Some lr', reads') \<and>
      lr_data lr' = take kept (lr_buf lr) @ bs \<and> fd (lr_offset lr') = Some (drop (length bs) f) \<and>
      lr_eod lr' \<le> length (lr_buf lr') \<and> lr_eod lr' \<noteq> 0 \<and>
      length (lr_buf lr') = length (lr_buf lr)"
proof -
  obtain reads' where r: "ReadFromOffset fd (length (lr_buf lr) - kept) (lr_offset lr) reads =
      Done (Some bs, reads')" "no_failure reads'"
  proof -
    have "length (lr_buf lr) - kept \<le> ssize_max" using assms(5) by simp
    then show ?thesis
      using ReadFromOffset_some[OF assms(1,2,3), of "length (lr_buf lr) - kept"] that
      unfolding bs_def by blast
  qed
  have off: "fd (lr_offset lr + of_nat (length bs)) = Some (drop (length bs) f)"
    using coherentD[OF assms(1,2)] by (simp add: bs_def)
  show ?thesis
  proof (rule that[of reads'])
    assume "bs \<noteq> []"
    moreover have "length bs \<le> length (lr_buf lr) - kept" by (simp add: bs_def)
    ultimately show "\<exists>lr'. lr_fill fd kept lr reads = Done (Some lr', reads') \<and>
      lr_data lr' = take kept (lr_buf lr) @ bs \<and> fd (lr_offset lr') = Some (drop (length bs) f) \<and>
      lr_eod lr' \<le> length (lr_buf lr') \<and> lr_eod lr' \<noteq> 0 \<and>
      length (lr_buf lr') = length (lr_buf lr)"
      using r off assms(4) by (auto simp: lr_fill_def lr_data_def)
  qed (use r in \<open>simp_all add: lr_fill_def\<close>)
qed

text \<open>The buffer filled up to its end holds a line that fits into it.\<close>

lemma split_line:
  assumes "p @ f = l @ LF # t" and "length p \<le> n" and "length l < n" and "LF \<notin> set p"
  shows "\<exists>t'. p @ take (n - length p) f = l @ LF # t' \<and> t = t' @ drop (n - length p) f \<and>
    take (n - length p) f \<noteq> []"
proof -
  have A: "p @ take (n - length p) f = take n (p @ f)" using assms(2) by simp
  have "take n (l @ LF # t) = l @ LF # take (n - Suc (length l)) t"
    using assms(3) by (simp add: take_Cons')
  then have B: "p @ take (n - length p) f = l @ LF # take (n - Suc (length l)) t"
    using A assms(1) by simp
  have C: "drop (n - length p) f = drop (n - Suc (length l)) t"
  proof -
    have "drop (n - length p) f = drop n (p @ f)" using assms(2) by simp
    also have "\<dots> = drop n (l @ LF # t)" by (simp add: assms(1))
    also have "\<dots> = drop (n - Suc (length l)) t" using assms(3) by (simp add: drop_Cons')
    finally show ?thesis .
  qed
  have "take (n - length p) f \<noteq> []"
  proof
    assume "take (n - length p) f = []"
    then have "p = l @ LF # take (n - Suc (length l)) t" using B by (metis append_Nil2)
    then show False using assms(4) by simp
  qed
  then show ?thesis using B C by (metis append_take_drop_id)
qed

lemma lr_inv_after_find:
  assumes "lr_data lr = l @ LF # t'" and "LF \<notin> set l" and "lr_eod lr \<le> length (lr_buf lr)"
    and "lr_eod lr \<noteq> 0" and "fd (lr_offset lr) = Some f"
  shows "\<exists>lr'. lr_find lr = Some (l, lr') \<and> lr_inv fd lr' (t' @ f) \<and>
    length (lr_buf lr') = length (lr_buf lr)"
proof -
  obtain lr' where lr': "lr_find lr = Some (l, lr')" "lr_eod lr' = lr_eod lr"
    "lr_offset lr' = lr_offset lr" "length (lr_buf lr') = length (lr_buf lr)"
    "Suc (lr_eol lr') \<le> lr_eod lr"
    "take (lr_eod lr - Suc (lr_eol lr')) (drop (Suc (lr_eol lr')) (lr_buf lr')) = t'"
    using lr_find_some[OF assms(1-3)] by blast
  then have "lr_inv fd lr' (t' @ f)"
    using assms(3-5) by (simp add: lr_inv_def)
  then show ?thesis using lr' by blast
qed

lemma lr_data_no_LF: "\<not> HasCompleteLine lr \<Longrightarrow> lr_eod lr \<noteq> 0 \<Longrightarrow> LF \<notin> set (lr_data lr)"
proof
  assume "\<not> HasCompleteLine lr" and "lr_eod lr \<noteq> 0" and in_data: "LF \<in> set (lr_data lr)"
  then have "FindLineFeed lr = None" by (simp add: HasCompleteLine_def BufferIsEmpty_def)
  then have "\<not> length (takeWhile (\<lambda>c. c \<noteq> LF) (lr_data lr)) < length (lr_data lr)"
    by (auto simp: FindLineFeed_def lr_data_def [symmetric] Let_def split: if_splits)
  then have "length (takeWhile (\<lambda>c. c \<noteq> LF) (lr_data lr)) = length (lr_data lr)"
    using length_takeWhile_le[of "\<lambda>c. c \<noteq> LF" "lr_data lr"] by linarith
  then have "takeWhile (\<lambda>c. c \<noteq> LF) (lr_data lr) = lr_data lr"
    by (metis takeWhile_eq_take take_all order_refl)
  then show False using in_data by (metis set_takeWhileD)
qed

text \<open>A line that fits into the buffer is returned, and the text behind it is left.\<close>

lemma ReadLine_line:
  assumes fd: "coherent fd" and reads: "no_failure reads" and inv: "lr_inv fd lr (l @ LF # t)"
    and l: "LF \<notin> set l" "length l < length (lr_buf lr)" and len: "length (lr_buf lr) \<le> ssize_max"
  shows "\<exists>lr' reads'. ReadLine fd lr reads = Done (Some (l, lr'), reads') \<and> lr_inv fd lr' t \<and>
    no_failure reads' \<and> length (lr_buf lr') = length (lr_buf lr)"
proof -
  obtain f where f: "fd (lr_offset lr) = Some f" "lr_eod lr \<le> length (lr_buf lr)"
    using inv by (auto simp: lr_inv_def)
  have fill: "\<exists>lr' reads'. (case lr_fill fd (length p) lr1 reads of
        Aborted \<Rightarrow> Aborted
      | Done (None, reads') \<Rightarrow> Done (None, reads')
      | Done (Some lr', reads') \<Rightarrow> Done (lr_find lr', reads')) = Done (Some (l, lr'), reads') \<and>
      lr_inv fd lr' t \<and> no_failure reads' \<and> length (lr_buf lr') = length (lr_buf lr)"
    if p: "take (length p) (lr_buf lr1) = p" "LF \<notin> set p" "p @ f = l @ LF # t"
      "length p \<le> length (lr_buf lr)"
      and lr1: "lr_offset lr1 = lr_offset lr" "length (lr_buf lr1) = length (lr_buf lr)" for p lr1
  proof -
    define n where "n = length (lr_buf lr)"
    define bs where "bs = take (n - length p) f"
    obtain t' where t': "p @ bs = l @ LF # t'" "t = t' @ drop (n - length p) f" "bs \<noteq> []"
      using split_line[OF p(3), of n] p l by (auto simp: n_def bs_def)
    obtain reads' where r: "no_failure reads'"
      "\<exists>lr'. lr_fill fd (length p) lr1 reads = Done (Some lr', reads') \<and>
        lr_data lr' = take (length p) (lr_buf lr1) @ bs \<and>
        fd (lr_offset lr') = Some (drop (length bs) f) \<and>
        lr_eod lr' \<le> length (lr_buf lr') \<and> lr_eod lr' \<noteq> 0 \<and>
        length (lr_buf lr') = length (lr_buf lr1)"
      using lr_fill_spec[OF fd, of lr1 f reads "length p"] f(1) reads p(4) lr1 len t'(3)
      unfolding bs_def n_def by (metis (no_types, lifting))
    then obtain lr2 where lr2: "lr_fill fd (length p) lr1 reads = Done (Some lr2, reads')"
      "lr_data lr2 = l @ LF # t'" "fd (lr_offset lr2) = Some (drop (length bs) f)"
      "lr_eod lr2 \<le> length (lr_buf lr2)" "lr_eod lr2 \<noteq> 0" "length (lr_buf lr2) = n"
      using p(1) t'(1) lr1(2) by (auto simp: n_def)
    have "drop (length bs) f = drop (n - length p) f" by (simp add: bs_def min_def)
    then show ?thesis
      using lr_inv_after_find[OF lr2(2) l(1) lr2(4,5), of fd "drop (length bs) f"] lr2 r(1) t'(2) by (auto simp: n_def)
  qed
  show ?thesis
  proof (cases "lr_eod lr = 0")
    case True
    then have "f = l @ LF # t" using inv f by (auto simp: lr_inv_def)
    then show ?thesis using fill[of "[]" lr] True by (simp add: ReadLine_def BufferIsEmpty_def)
  next
    case False
    define lr1 where "lr1 = lr\<lparr>lr_bol := Suc (lr_eol lr)\<rparr>"
    have data: "Suc (lr_eol lr) \<le> lr_eod lr" "lr_data lr1 @ f = l @ LF # t"
      using inv f False by (auto simp: lr_inv_def lr1_def lr_data_def)
    have same: "lr_eod lr1 = lr_eod lr" "lr_buf lr1 = lr_buf lr" "lr_offset lr1 = lr_offset lr"
      "lr_bol lr1 = Suc (lr_eol lr)"
      by (simp_all add: lr1_def)
    have dlen: "length (lr_data lr1) = lr_eod lr - Suc (lr_eol lr)"
      using f(2) by (simp add: lr_data_def same)
    show ?thesis
    proof (cases "HasCompleteLine lr1")
      case True
      then have "LF \<in> set (lr_data lr1)" using lr_find_none by (fastforce simp: HasCompleteLine_def lr_find_def)
      then obtain a b where ab: "lr_data lr1 = a @ LF # b" "LF \<notin> set a" by (metis split_list_first)
      then have "a = l \<and> t = b @ f"
        using data(2) l(1) take_while_LF[of a "b @ f"] take_while_LF[of l t] by auto
      then show ?thesis
        using lr_inv_after_find[of lr1 l b fd f] ab l(1) f same False True reads data
        by (auto simp: ReadLine_def BufferIsEmpty_def lr1_def [symmetric] Let_def)
    next
      case F: False
      define p where "p = lr_data lr1"
      define m where "m = lr1\<lparr>lr_buf := p @ drop (length p) (lr_buf lr)\<rparr>"
      have m: "lr1\<lparr>lr_buf := take (lr_eod lr1 - lr_bol lr1) (drop (lr_bol lr1) (lr_buf lr1)) @
          drop (lr_eod lr1 - lr_bol lr1) (lr_buf lr1)\<rparr> = m"
        using dlen by (simp add: m_def p_def same lr_data_def)
      have plen: "length p = lr_eod lr1 - lr_bol lr1" using dlen by (simp add: p_def same)
      have "LF \<notin> set p" using lr_data_no_LF[OF F] False by (simp add: p_def same)
      moreover have "take (length p) (lr_buf m) = p" by (simp add: m_def)
      moreover have "length (lr_buf m) = length (lr_buf lr)" using f(2) dlen by (simp add: m_def p_def)
      moreover have "lr_offset m = lr_offset lr" by (simp add: m_def same)
      moreover have "length p \<le> length (lr_buf lr)" using f(2) dlen by (simp add: p_def)
      moreover have "p @ f = l @ LF # t" using data by (simp add: p_def)
      ultimately show ?thesis
        using fill[of p m] F False data(1) m plen
        by (simp add: ReadLine_def BufferIsEmpty_def lr1_def [symmetric] Let_def same)
    qed
  qed
qed

text \<open>Nothing is returned at the end of the file.\<close>

lemma ReadLine_end:
  assumes fd: "coherent fd" and reads: "no_failure reads" and inv: "lr_inv fd lr []"
    and len: "length (lr_buf lr) \<le> ssize_max"
  shows "\<exists>reads'. ReadLine fd lr reads = Done (None, reads') \<and> no_failure reads'"
proof -
  have f: "fd (lr_offset lr) = Some []" "lr_eod lr \<le> length (lr_buf lr)"
    using inv by (auto simp: lr_inv_def split: if_splits)
  have fill: "\<exists>reads'. lr_fill fd k lr1 reads = Done (None, reads') \<and> no_failure reads'"
    if "lr_offset lr1 = lr_offset lr" "length (lr_buf lr1) = length (lr_buf lr)"
      "k \<le> length (lr_buf lr)" for k lr1
    using lr_fill_spec[OF fd, of lr1 "[]" reads k] that f reads len by (metis take_Nil)
  show ?thesis
  proof (cases "lr_eod lr = 0")
    case True
    then show ?thesis using fill[of lr 0] by (auto simp: ReadLine_def BufferIsEmpty_def)
  next
    case False
    define lr1 where "lr1 = lr\<lparr>lr_bol := Suc (lr_eol lr)\<rparr>"
    have eod: "lr_eod lr = Suc (lr_eol lr)" using inv False f(2) by (auto simp: lr_inv_def)
    have "lr_data lr1 = []" by (simp add: lr_data_def lr1_def eod)
    then have "FindLineFeed lr1 = None"
      unfolding FindLineFeed_def lr_data_def [symmetric] by simp
    then have "\<not> HasCompleteLine lr1"
      by (simp add: HasCompleteLine_def)
    then show ?thesis
      using fill[of "lr1\<lparr>lr_buf := lr_buf lr\<rparr>" 0] eod False
      by (auto simp: ReadLine_def BufferIsEmpty_def lr1_def Let_def)
  qed
qed

lemma lr_inv_new: "fd offset = Some text \<Longrightarrow> lr_inv fd (LineReader_new buf offset) text"
  by (simp add: lr_inv_def LineReader_new_def)

subsection \<open>The map that contains the program counter\<close>

text \<open>What \<open>ReadFromOffsetExact\<close> reads, whatever the calls return.\<close>

definition exact_bytes :: "File \<Rightarrow> nat \<Rightarrow> 64 word \<Rightarrow> string option" where
  "exact_bytes fd count offset =
     (case fd offset of
        None \<Rightarrow> None
      | Some bs \<Rightarrow> if count \<le> length bs then Some (take count bs) else None)"

lemma ReadFromOffsetExact_bytes:
  assumes "coherent fd" and "no_failure reads" and "0 < count" and "count \<le> ssize_max"
  shows "\<exists>reads'. ReadFromOffsetExact fd count offset reads = Done (exact_bytes fd count offset, reads') \<and>
    no_failure reads'"
proof (cases "fd offset")
  case None
  obtain reads' where "ReadFromOffset fd count offset reads = Done (None, reads')" "no_failure reads'"
    by (rule ReadFromOffset_none[where fd = fd and offset = offset, OF None assms(2-4)])
  then show ?thesis using None by (simp add: ReadFromOffsetExact_def exact_bytes_def)
next
  case (Some bs)
  obtain reads' where "ReadFromOffset fd count offset reads = Done (Some (take count bs), reads')"
    "no_failure reads'"
    by (rule ReadFromOffset_some[where offset = offset, OF assms(1) Some assms(2,4)])
  then show ?thesis using Some by (simp add: ReadFromOffsetExact_def exact_bytes_def min_def)
qed

text \<open>The base address when no call fails.\<close>

fun segment_base :: "File \<Rightarrow> 64 word \<Rightarrow> 64 word \<Rightarrow> nat list \<Rightarrow> 64 word \<Rightarrow> 64 word" where
  "segment_base mem start phoff [] base = base"
| "segment_base mem start phoff (i # is) base =
     (case exact_bytes mem sizeof_Phdr (start + phoff + of_nat (i * sizeof_Phdr)) of
        None \<Rightarrow> segment_base mem start phoff is base
      | Some bs \<Rightarrow>
          if p_type (decode_Phdr bs) = PT_LOAD \<and> p_offset (decode_Phdr bs) = 0
          then start - p_vaddr (decode_Phdr bs) else segment_base mem start phoff is base)"

definition base_after :: "File \<Rightarrow> bool \<Rightarrow> 64 word \<Rightarrow> 64 word \<Rightarrow> 64 word" where
  "base_after mem readable start base =
     (if \<not> readable then base
      else case exact_bytes mem sizeof_Ehdr start of
          None \<Rightarrow> base
        | Some bs \<Rightarrow>
            let ehdr = decode_Ehdr bs
            in if take 4 (e_ident ehdr) \<noteq> ELFMAG then base
               else if e_type ehdr = ET_EXEC then 0
               else if e_type ehdr = ET_DYN
                 then segment_base mem start (e_phoff ehdr) [0..<unat (e_phnum ehdr)] start
               else base)"

lemma segment_loop_base:
  "coherent mem \<Longrightarrow> no_failure reads \<Longrightarrow>
   \<exists>reads'. segment_loop mem start phoff is base reads =
     Done (segment_base mem start phoff is base, reads') \<and> no_failure reads'"
proof (induction "is" arbitrary: reads)
  case (Cons i "is")
  obtain reads1 where r: "ReadFromOffsetExact mem sizeof_Phdr
        (start + phoff + of_nat (i * sizeof_Phdr)) reads =
      Done (exact_bytes mem sizeof_Phdr (start + phoff + of_nat (i * sizeof_Phdr)), reads1)"
    "no_failure reads1"
    using ReadFromOffsetExact_bytes[OF Cons.prems, of sizeof_Phdr]
    by (auto simp: sizeof_Phdr_def ssize_max_def)
  obtain reads2 where "segment_loop mem start phoff is base reads1 =
      Done (segment_base mem start phoff is base, reads2)" "no_failure reads2"
    using Cons.IH[OF Cons.prems(1) r(2)] by blast
  then show ?case
    using r by (auto simp: Let_def split: option.splits)
qed simp

lemma update_base_address_base:
  assumes "coherent mem" and "no_failure reads"
  shows "\<exists>reads'. update_base_address mem readable start base reads =
    Done (base_after mem readable start base, reads') \<and> no_failure reads'"
proof -
  obtain reads1 where r: "ReadFromOffsetExact mem sizeof_Ehdr start reads =
      Done (exact_bytes mem sizeof_Ehdr start, reads1)" "no_failure reads1"
    using ReadFromOffsetExact_bytes[OF assms, of sizeof_Ehdr]
    by (auto simp: sizeof_Ehdr_def ssize_max_def)
  then show ?thesis
    using segment_loop_base[OF assms(1) r(2)] assms(2)
    by (auto simp: update_base_address_def base_after_def Let_def split: option.splits)
qed

text \<open>
  A line of the map, and what the search takes from it. The kernel prints addresses and offsets in
  hexadecimal with at least eight digits.
\<close>

definition hex_field :: "64 word \<Rightarrow> string" where
  "hex_field w = pad_left 8 CHR ''0'' (num_str 16 (unat w))"

record MapEntry =
  me_start :: "64 word"
  me_end :: "64 word"
  me_flags :: string
  me_rest :: string

definition map_text :: "MapEntry \<Rightarrow> string" where
  "map_text e = hex_field (me_start e) @ CHR ''-'' # hex_field (me_end e) @
     CHR '' '' # me_flags e @ CHR '' '' # me_rest e"

definition entry_ok :: "MapEntry \<Rightarrow> bool" where
  "entry_ok e = (LF \<notin> set (map_text e) \<and> length (map_text e) < 1024 \<and>
     CHR '' '' \<notin> set (me_flags e) \<and> 4 \<le> length (me_flags e))"

definition readable_entry :: "MapEntry \<Rightarrow> bool" where
  "readable_entry e = (me_flags e ! 0 = CHR ''r'')"

text \<open>The entry is searched: it contains the counter, and is readable and executable.\<close>

definition selected :: "64 word \<Rightarrow> MapEntry \<Rightarrow> bool" where
  "selected pc e = (me_start e \<le> pc \<and> pc < me_end e \<and> readable_entry e \<and> me_flags e ! 2 = CHR ''x'')"

lemma hex_val_zeros: "hex_val 0 (replicate k CHR ''0'' @ ds) = hex_val 0 ds"
  by (induction k) (simp_all add: hex_nat_def)

lemma hex_field_hex: "list_all is_hex (hex_field w) \<and> hex_val 0 (hex_field w) = unat w"
proof -
  have "is_hex CHR ''0''" by (simp add: is_hex_def is_digit_def less_eq_char_def)
  then show ?thesis
    using num_str_hex[of "unat w"] by (auto simp: hex_field_def pad_left_def hex_val_zeros list_all_iff)
qed

lemma GetHex_hex_field:
  "rest = [] \<or> \<not> is_hex (hd rest) \<Longrightarrow> GetHex (hex_field w @ rest) = (w, rest)"
  using GetHex_loop_spec[of "hex_field w" rest 0] hex_field_hex[of w]
  by (simp add: GetHex_def)

lemma not_hex_sep [simp]: "\<not> is_hex CHR ''-''" "\<not> is_hex CHR '' ''" "\<not> is_hex LF"
  by (simp_all add: is_hex_def is_digit_def less_eq_char_def LF_def)

lemma map_line_text:
  assumes e: "entry_ok e" and mem: "coherent mem" and reads: "no_failure (pending st)"
  shows "\<exists>reads'. map_line open_file mem pc (map_text e) st =
      Done (if selected pc e then map_object open_file (me_rest e) else NextLine,
        st\<lparr>start_address := me_start e,
         base_address := base_after mem (readable_entry e) (me_start e) (base_address st),
         pending := reads'\<rparr>) \<and> no_failure reads'"
proof -
  obtain reads' where r: "update_base_address mem (me_flags e ! 0 = CHR ''r'') (me_start e)
      (base_address st) (pending st) =
      Done (base_after mem (readable_entry e) (me_start e) (base_address st), reads')"
    "no_failure reads'"
    using update_base_address_base[OF mem reads] unfolding readable_entry_def by blast
  define t2 where "t2 = CHR '' '' # me_flags e @ CHR '' '' # me_rest e"
  have 1: "GetHex (map_text e) =
      (me_start e, CHR ''-'' # hex_field (me_end e) @ t2)"
    unfolding map_text_def t2_def by (rule GetHex_hex_field) simp
  have 2: "GetHex (hex_field (me_end e) @ t2) = (me_end e, t2)"
    by (rule GetHex_hex_field) (simp add: t2_def)
  have 3: "takeWhile (\<lambda>c. c \<noteq> CHR '' '') (me_flags e @ CHR '' '' # me_rest e) = me_flags e"
    "dropWhile (\<lambda>c. c \<noteq> CHR '' '') (me_flags e @ CHR '' '' # me_rest e) = CHR '' '' # me_rest e"
    using e by (auto simp: entry_ok_def takeWhile_append dropWhile_append)
  have "\<not> length (me_flags e) < 4" using e by (simp add: entry_ok_def)
  then show ?thesis
    using r
    by (auto simp: map_line_def 1 [unfolded t2_def] 2 [unfolded t2_def] 3 Let_def selected_def
        readable_entry_def)
qed

definition maps_text :: "MapEntry list \<Rightarrow> string" where
  "maps_text es = concat (map (\<lambda>e. map_text e @ [LF]) es)"

text \<open>The base address after the entries have been looked at in turn.\<close>

definition base_after_all :: "File \<Rightarrow> MapEntry list \<Rightarrow> 64 word \<Rightarrow> 64 word" where
  "base_after_all mem es base =
     foldl (\<lambda>b e. base_after mem (readable_entry e) (me_start e) b) base es"

lemma maps_loop_step:
  assumes "coherent maps" and "coherent mem" and "no_failure (pending st)" and "entry_ok e"
    and "lr_inv maps reader (map_text e @ LF # t)" and "length (lr_buf reader) = 1024"
  obtains reader' reads' where
    "maps_loop open_file maps mem pc reader name st =
      (let st' = st\<lparr>start_address := me_start e,
             base_address := base_after mem (readable_entry e) (me_start e) (base_address st),
             pending := reads'\<rparr>
       in case if selected pc e then map_object open_file (me_rest e) else NextLine of
           Malformed \<Rightarrow> Some (Done (None, name, st'))
         | NextLine \<Rightarrow> maps_loop open_file maps mem pc reader' name st'
         | Opened fd \<Rightarrow> Some (Done (Some fd, name, st'))
         | NotOpened file \<Rightarrow> Some (Done (None, strncpy_nul name file, st')))"
    and "no_failure reads'" and "lr_inv maps reader' t" and "length (lr_buf reader') = 1024"
proof -
  obtain reader' reads1 where 1: "ReadLine maps reader (pending st) =
      Done (Some (map_text e, reader'), reads1)" "lr_inv maps reader' t" "no_failure reads1"
    "length (lr_buf reader') = 1024"
    using ReadLine_line[OF assms(1,3,5)] assms(4,6) by (auto simp: entry_ok_def ssize_max_def)
  obtain reads2 where 2: "map_line open_file mem pc (map_text e) (st\<lparr>pending := reads1\<rparr>) =
      Done (if selected pc e then map_object open_file (me_rest e) else NextLine,
        st\<lparr>start_address := me_start e,
          base_address := base_after mem (readable_entry e) (me_start e) (base_address st),
          pending := reads2\<rparr>)" "no_failure reads2"
    using map_line_text[OF assms(4,2), of "st\<lparr>pending := reads1\<rparr>" open_file pc] 1(3) by auto
  show ?thesis
    by (rule that[OF _ 2(2) 1(2,4)], subst maps_loop.simps) (simp add: 1(1) 2(1) Let_def)
qed

lemma maps_loop_skip:
  assumes "coherent maps" and "coherent mem"
  shows "no_failure (pending st) \<Longrightarrow> list_all entry_ok es \<Longrightarrow> list_all (\<lambda>e. \<not> selected pc e) es \<Longrightarrow>
    lr_inv maps reader (maps_text es @ t) \<Longrightarrow> length (lr_buf reader) = 1024 \<Longrightarrow>
    \<exists>reader' st'. maps_loop open_file maps mem pc reader name st =
        maps_loop open_file maps mem pc reader' name st' \<and>
      base_address st' = base_after_all mem es (base_address st) \<and> no_failure (pending st') \<and>
      lr_inv maps reader' t \<and> length (lr_buf reader') = 1024"
proof (induction es arbitrary: reader st)
  case (Cons e es)
  obtain reader1 reads1 where 1: "maps_loop open_file maps mem pc reader name st =
      maps_loop open_file maps mem pc reader1 name (st\<lparr>start_address := me_start e,
        base_address := base_after mem (readable_entry e) (me_start e) (base_address st),
        pending := reads1\<rparr>)" "no_failure reads1" "lr_inv maps reader1 (maps_text es @ t)"
    "length (lr_buf reader1) = 1024"
    using maps_loop_step[OF assms Cons.prems(1), of e reader "maps_text es @ t" open_file pc name]
      Cons.prems by (auto simp: maps_text_def)
  show ?case
    using Cons.IH[OF _ _ _ 1(3,4), of "st\<lparr>start_address := me_start e,
        base_address := base_after mem (readable_entry e) (me_start e) (base_address st),
        pending := reads1\<rparr>"] 1 Cons.prems
    by (simp add: base_after_all_def)
qed (auto simp: maps_text_def base_after_all_def)

text \<open>The fields behind the flags: offset, device, inode and the file name.\<close>

definition rest_text :: "64 word \<Rightarrow> string \<Rightarrow> string \<Rightarrow> nat \<Rightarrow> string \<Rightarrow> string" where
  "rest_text offset dev inode pad path =
     hex_field offset @ CHR '' '' # dev @ CHR '' '' # inode @
       replicate (Suc pad) CHR '' '' @ path"

lemma skip_fields_word:
  "CHR '' '' \<notin> set w \<Longrightarrow> n < 2 \<Longrightarrow> skip_fields n (w @ CHR '' '' # s) = skip_fields (Suc n) s"
  by (induction w) auto

lemma skip_fields_pad:
  "2 \<le> n \<Longrightarrow> skip_fields n (replicate k CHR '' '' @ s) = skip_fields (n + k) s"
  by (induction k arbitrary: n) auto

lemma map_object_rest:
  assumes "CHR '' '' \<notin> set dev" and "CHR '' '' \<notin> set inode" and "path \<noteq> []"
    and "hd path \<noteq> CHR '' ''" and "no_nul path"
  shows "map_object open_file (rest_text offset dev inode pad path) =
    (case open_file path of Some fd \<Rightarrow> Opened fd | None \<Rightarrow> NotOpened path)"
proof -
  have "skip_fields 0 (dev @ CHR '' '' # inode @ CHR '' '' # replicate pad CHR '' '' @ path) = path"
    using assms by (cases path) (simp_all add: skip_fields_word skip_fields_pad numeral_2_eq_2)
  moreover have "c_str path = path" using assms(5) by (rule c_str_no_nul)
  moreover have "GetHex (rest_text offset dev inode pad path) =
      (offset, CHR '' '' # dev @ CHR '' '' # inode @ CHR '' '' # replicate pad CHR '' '' @ path)"
    unfolding rest_text_def by (subst GetHex_hex_field) simp_all
  ultimately show ?thesis using assms(3) by (simp add: map_object_def)
qed

lemma maps_search:
  assumes "open_file ''/proc/self/maps'' = Some maps" and "open_file ''/proc/self/mem'' = Some mem"
    and "coherent maps" and "coherent mem" and "no_failure (pending st)" and "length uninit = 1024"
    and "maps 0 = Some (maps_text (es @ e # es') @ t)" and "list_all entry_ok (es @ [e])"
    and "list_all (\<lambda>e. \<not> selected pc e) es" and "selected pc e"
    and "me_rest e = rest_text offset dev inode pad path" and "CHR '' '' \<notin> set dev"
    and "CHR '' '' \<notin> set inode" and "path \<noteq> []" and "hd path \<noteq> CHR '' ''" and "no_nul path"
  shows "\<exists>st'. OpenObjectFileContainingPcAndGetStartAddress open_file uninit pc out st =
      Some (Done (case open_file path of
          Some fd \<Rightarrow> (Some fd, out, st')
        | None \<Rightarrow> (None, strncpy_nul out path, st'))) \<and>
    start_address st' = me_start e \<and> base_address st' = base_after_all mem (es @ [e]) (base_address st)"
proof -
  have content: "maps 0 = Some (maps_text es @ (map_text e @ LF # (maps_text es' @ t)))"
    using assms(7) by (simp add: maps_text_def)
  have e_ok: "entry_ok e" using assms(8) by simp
  have lr_new: "length (lr_buf (LineReader_new uninit 0)) = 1024"
    using assms(6) by (simp add: LineReader_new_def)
  obtain reader st1 where 1: "maps_loop open_file maps mem pc (LineReader_new uninit 0) out st =
      maps_loop open_file maps mem pc reader out st1"
    "base_address st1 = base_after_all mem es (base_address st)" "no_failure (pending st1)"
    "lr_inv maps reader (map_text e @ LF # (maps_text es' @ t))" "length (lr_buf reader) = 1024"
    using maps_loop_skip[where name = out and open_file = open_file, OF assms(3,4,5) _ assms(9)
        lr_inv_new[where fd = maps and offset = 0, OF content], of uninit] lr_new assms(8)
    by auto
  obtain reader' reads' where 2: "maps_loop open_file maps mem pc reader out st1 =
      (let st' = st1\<lparr>start_address := me_start e,
             base_address := base_after mem (readable_entry e) (me_start e) (base_address st1),
             pending := reads'\<rparr>
       in case if selected pc e then map_object open_file (me_rest e) else NextLine of
           Malformed \<Rightarrow> Some (Done (None, out, st'))
         | NextLine \<Rightarrow> maps_loop open_file maps mem pc reader' out st'
         | Opened fd \<Rightarrow> Some (Done (Some fd, out, st'))
         | NotOpened path \<Rightarrow> Some (Done (None, strncpy_nul out path, st')))"
    by (rule maps_loop_step[where open_file = open_file and pc = pc and name = out,
        OF assms(3,4) 1(3) e_ok 1(4,5)]) (rule that)
  have "map_object open_file (me_rest e) =
      (case open_file path of Some fd \<Rightarrow> Opened fd | None \<Rightarrow> NotOpened path)"
    unfolding assms(11) by (rule map_object_rest[OF assms(12-16)])
  then show ?thesis
    using assms(1,2,10) 1(1,2) 2
    by (auto simp: OpenObjectFileContainingPcAndGetStartAddress_def Let_def base_after_all_def
        split: option.splits)
qed

text \<open>
  C24. The search of the memory map: for a map whose lines fit into the reader's buffer, and
  however the kernel splits the reads, the file that is opened is the one named by the first
  entry that contains the program counter and is readable and executable; the start address
  is that entry's, the base address is the one found by the entries up to it. When the file
  cannot be opened its name is left in the caller's buffer, cut to its size and terminated.
\<close>

theorem maps_search_finds:
  assumes "open_file ''/proc/self/maps'' = Some maps" and "open_file ''/proc/self/mem'' = Some mem"
    and "coherent maps" and "coherent mem" and "no_failure (pending st)" and "length uninit = 1024"
    and "maps 0 = Some (maps_text (es @ e # es') @ t)" and "list_all entry_ok (es @ [e])"
    and "list_all (\<lambda>e. \<not> selected pc e) es" and "selected pc e"
    and "me_rest e = rest_text offset dev inode pad path" and "CHR '' '' \<notin> set dev"
    and "CHR '' '' \<notin> set inode" and "path \<noteq> []" and "hd path \<noteq> CHR '' ''" and "no_nul path"
  shows "\<exists>st'. OpenObjectFileContainingPcAndGetStartAddress open_file uninit pc out st =
      Some (Done (case open_file path of
          Some fd \<Rightarrow> (Some fd, out, st')
        | None \<Rightarrow> (None, strncpy_nul out path, st'))) \<and>
    start_address st' = me_start e \<and> base_address st' = base_after_all mem (es @ [e]) (base_address st)"
  by (rule maps_search[OF assms])

text \<open>The example line of the source, behind a line for the page before it.\<close>

definition demo_entry :: MapEntry where
  "demo_entry = \<lparr>me_start = 0x08048000, me_end = 0x0804c000, me_flags = ''r-xp'',
     me_rest = rest_text 0 ''08:01'' ''2142121'' 3 ''/bin/cat''\<rparr>"

definition demo_other :: MapEntry where
  "demo_other = \<lparr>me_start = 0x08047000, me_end = 0x08048000, me_flags = ''r--p'',
     me_rest = rest_text 0 ''08:01'' ''2142121'' 3 ''/bin/cat''\<rparr>"

lemma demo_hex:
  "hex_field 0x08047000 = ''08047000''" "hex_field 0x08048000 = ''08048000''"
  "hex_field 0x0804c000 = ''0804c000''" "hex_field 0 = ''00000000''" "replicate 4 CHR '' '' = ''    ''"
proof -
  have d: "radix_digit 0 = CHR ''0''" "radix_digit 4 = CHR ''4''" "radix_digit 7 = CHR ''7''"
    "radix_digit 8 = CHR ''8''" "radix_digit 12 = CHR ''c''"
    by code_simp+
  have zeros: "replicate 7 CHR ''0'' = ''0000000''" by (simp add: numeral_eq_Suc)
  have n: "num_str 16 0x08047000 = ''8047000''" "num_str 16 0x08048000 = ''8048000''"
    "num_str 16 0x0804c000 = ''804c000''" "num_str 16 0 = ''0''"
    by (simp_all add: num_str.simps d)
  show "hex_field 0x08047000 = ''08047000''" "hex_field 0x08048000 = ''08048000''"
    "hex_field 0x0804c000 = ''0804c000''" "hex_field 0 = ''00000000''"
    using zeros by (simp_all add: hex_field_def pad_left_def n)
qed (simp add: numeral_eq_Suc)

lemma demo_text:
  "map_text demo_entry = ''08048000-0804c000 r-xp 00000000 08:01 2142121    /bin/cat''"
  "map_text demo_other = ''08047000-08048000 r--p 00000000 08:01 2142121    /bin/cat''"
  by (simp_all add: map_text_def demo_entry_def demo_other_def rest_text_def demo_hex)

lemma demo_map: "list_all entry_ok [demo_other, demo_entry]" "\<not> selected 0x08048005 demo_other"
  "selected 0x08048005 demo_entry" "length (maps_text [demo_other, demo_entry]) \<le> ssize_max"
  by (simp_all add: entry_ok_def demo_text maps_text_def ssize_max_def LF_def selected_def
      readable_entry_def) (simp_all add: demo_entry_def demo_other_def)

definition demo_files :: "string \<Rightarrow> File option" where
  "demo_files path =
     (if path = ''/proc/self/maps'' then Some (regular_file (maps_text [demo_other, demo_entry]))
      else if path = ''/proc/self/mem'' then Some (regular_file []) else None)"

theorem maps_search_finds_witness:
  "\<exists>st'. OpenObjectFileContainingPcAndGetStartAddress demo_files (replicate 1024 NUL) 0x08048005
      (replicate 6 CHR ''?'') \<lparr>start_address = 0, base_address = 0, pending = [Chunk 7, Interrupted]\<rparr> =
      Some (Done (None, ''/bin/'' @ [NUL], st')) \<and> start_address st' = 0x08048000"
proof -
  have "coherent (regular_file (maps_text [demo_other, demo_entry]))" "coherent (regular_file [])"
    using demo_map(4) by (auto intro: regular_coherent)
  moreover have "regular_file (maps_text [demo_other, demo_entry]) 0 =
      Some (maps_text ([demo_other] @ demo_entry # []) @ [])"
    by (simp add: regular_file_at)
  moreover have "strncpy_nul (replicate 6 CHR ''?'') ''/bin/cat'' = ''/bin/'' @ [NUL]" by code_simp
  moreover have "list_all entry_ok ([demo_other] @ [demo_entry])"
    "list_all (\<lambda>e. \<not> selected 0x08048005 e) [demo_other]" "selected 0x08048005 demo_entry"
    using demo_map by simp_all
  moreover have "me_rest demo_entry = rest_text 0 ''08:01'' ''2142121'' 3 ''/bin/cat''"
    "me_start demo_entry = 0x08048000"
    by (simp_all add: demo_entry_def)
  ultimately show ?thesis
    using maps_search_finds[where open_file = demo_files and mem = "regular_file []"
        and maps = "regular_file (maps_text [demo_other, demo_entry])" and pc = "0x08048005"
        and st = "\<lparr>start_address = 0, base_address = 0, pending = [Chunk 7, Interrupted]\<rparr>"
        and uninit = "replicate 1024 NUL" and es = "[demo_other]" and e = demo_entry and es' = "[]"
        and t = "[]" and offset = 0 and dev = "''08:01''" and inode = "''2142121''" and pad = 3
        and path = "''/bin/cat''" and out = "replicate 6 CHR ''?''"]
    by (auto simp: demo_files_def)
qed

end
