(* ===== verification/Sym_Elf.thy ===== *)
theory Sym_Elf
  imports Sym_Maps Demangle_Grammar
begin

section \<open>The symbolizer: symbol tables and the symbolized text\<close>

text \<open>
  The rest of \<^verbatim>\<open>src/symbolize.cc\<close> for ELF files: the search for a section and for a symbol, the
  safe string routines, and \<open>SymbolizeAndDemangle\<close>. A result \<open>None\<close> is a run that does not end
  (a loop that makes no progress), \<open>Some Aborted\<close> a run that ends in a failed \<^verbatim>\<open>SAFE_ASSERT\<close>.
\<close>

subsection \<open>Runs that may abort or not end\<close>

definition andThen :: "'a outcome option \<Rightarrow> ('a \<Rightarrow> 'b outcome option) \<Rightarrow> 'b outcome option" where
  "andThen r f = (case r of None \<Rightarrow> None | Some Aborted \<Rightarrow> Some Aborted | Some (Done a) \<Rightarrow> f a)"

lemma andThen_simps [simp]:
  "andThen None f = None" "andThen (Some Aborted) f = Some Aborted" "andThen (Some (Done a)) f = f a"
  by (simp_all add: andThen_def)

lemma andThen_eq_Done:
  "andThen r f = Some (Done b) \<longleftrightarrow> (\<exists>a. r = Some (Done a) \<and> f a = Some (Done b))"
  by (auto simp: andThen_def split: option.splits outcome.splits)

subsection \<open>The structures of a file\<close>

record Shdr =
  sh_name :: "32 word"
  sh_type :: "32 word"
  sh_offset :: "64 word"
  sh_size :: "64 word"
  sh_link :: "32 word"
  sh_entsize :: "64 word"

definition sizeof_Shdr :: nat where
  "sizeof_Shdr = 64"

definition decode_Shdr :: "string \<Rightarrow> Shdr" where
  "decode_Shdr bs = \<lparr>sh_name = field bs 0 4, sh_type = field bs 4 4, sh_offset = field bs 24 8,
     sh_size = field bs 32 8, sh_link = field bs 40 4, sh_entsize = field bs 56 8\<rparr>"

record Sym =
  st_name :: "32 word"
  st_shndx :: "16 word"
  st_value :: "64 word"
  st_size :: "64 word"

definition sizeof_Sym :: nat where
  "sizeof_Sym = 24"

definition decode_Sym :: "string \<Rightarrow> Sym" where
  "decode_Sym bs = \<lparr>st_name = field bs 0 4, st_shndx = field bs 6 2, st_value = field bs 8 8,
     st_size = field bs 16 8\<rparr>"

text \<open>An array of \<open>n\<close> elements of a size, at the start of the bytes.\<close>

definition array_of :: "nat \<Rightarrow> nat \<Rightarrow> string \<Rightarrow> string list" where
  "array_of sz n bs = map (\<lambda>i. take sz (drop (i * sz) bs)) [0..<n]"

definition FileGetElfType :: "File \<Rightarrow> PreadEvent list \<Rightarrow> (16 word option \<times> PreadEvent list) outcome" where
  "FileGetElfType fd reads =
     (case ReadFromOffsetExact fd sizeof_Ehdr 0 reads of
        Aborted \<Rightarrow> Aborted
      | Done (None, reads') \<Rightarrow> Done (None, reads')
      | Done (Some bs, reads') \<Rightarrow>
          Done (if take 4 (e_ident (decode_Ehdr bs)) \<noteq> ELFMAG then None
                else Some (e_type (decode_Ehdr bs)), reads'))"

subsection \<open>Sections\<close>

text \<open>The loop of \<open>GetSectionHeaderByType\<close>, which reads 16 headers at a time.\<close>

partial_function (option) sections_loop :: "File \<Rightarrow> nat \<Rightarrow> 64 word \<Rightarrow> 32 word \<Rightarrow> nat \<Rightarrow>
    PreadEvent list \<Rightarrow> (Shdr option \<times> PreadEvent list) outcome option" where
  "sections_loop fd sh_num sh_offs ty i reads =
     (if i < sh_num then
        (let num_bytes_left = (sh_num - i) * sizeof_Shdr;
             num_bytes_to_read = (if 16 * sizeof_Shdr > num_bytes_left then num_bytes_left
                                  else 16 * sizeof_Shdr)
         in case ReadFromOffset fd num_bytes_to_read (sh_offs + of_nat (i * sizeof_Shdr)) reads of
              Aborted \<Rightarrow> Some Aborted
            | Done (None, reads') \<Rightarrow> Some (Done (None, reads'))
            | Done (Some bs, reads') \<Rightarrow>
                if length bs mod sizeof_Shdr \<noteq> 0 then Some Aborted
                else let num_headers_in_buf = length bs div sizeof_Shdr
                  in if 16 < num_headers_in_buf then Some Aborted
                     else case find (\<lambda>s. sh_type s = ty)
                           (map decode_Shdr (array_of sizeof_Shdr num_headers_in_buf bs)) of
                         Some s \<Rightarrow> Some (Done (Some s, reads'))
                       | None \<Rightarrow> sections_loop fd sh_num sh_offs ty (i + num_headers_in_buf) reads')
      else Some (Done (None, reads)))"

definition GetSectionHeaderByType :: "File \<Rightarrow> 16 word \<Rightarrow> 64 word \<Rightarrow> 32 word \<Rightarrow> PreadEvent list \<Rightarrow>
    (Shdr option \<times> PreadEvent list) outcome option" where
  "GetSectionHeaderByType fd sh_num sh_offs ty reads =
     sections_loop fd (unat sh_num) sh_offs ty 0 reads"

definition kMaxSectionNameLen :: nat where
  "kMaxSectionNameLen = 64"

text \<open>
  The loop of \<open>GetSectionHeaderByName\<close> over the section numbers; \<open>name\<close> includes its terminator.
\<close>

fun names_loop :: "File \<Rightarrow> string \<Rightarrow> Ehdr \<Rightarrow> Shdr \<Rightarrow> nat list \<Rightarrow> PreadEvent list \<Rightarrow>
    (Shdr option \<times> PreadEvent list) outcome" where
  "names_loop fd name ehdr shstrtab [] reads = Done (None, reads)"
| "names_loop fd name ehdr shstrtab (i # is) reads =
     (case ReadFromOffsetExact fd sizeof_Shdr
        (e_shoff ehdr + of_nat (unat (e_shentsize ehdr) * i)) reads of
        Aborted \<Rightarrow> Aborted
      | Done (None, reads') \<Rightarrow> Done (None, reads')
      | Done (Some bs, reads') \<Rightarrow>
          let hdr = decode_Shdr bs
          in if kMaxSectionNameLen < length name then Done (None, reads')
             else case ReadFromOffset fd (length name) (sh_offset shstrtab + ucast (sh_name hdr)) reads' of
                 Aborted \<Rightarrow> Aborted
               | Done (None, reads'') \<Rightarrow> Done (None, reads'')
               | Done (Some header_name, reads'') \<Rightarrow>
                   if length header_name \<noteq> length name
                   then names_loop fd name ehdr shstrtab is reads''
                   else if header_name = name then Done (Some hdr, reads'')
                   else names_loop fd name ehdr shstrtab is reads'')"

definition GetSectionHeaderByName :: "File \<Rightarrow> string \<Rightarrow> PreadEvent list \<Rightarrow>
    (Shdr option \<times> PreadEvent list) outcome" where
  "GetSectionHeaderByName fd name reads =
     (case ReadFromOffsetExact fd sizeof_Ehdr 0 reads of
        Aborted \<Rightarrow> Aborted
      | Done (None, reads') \<Rightarrow> Done (None, reads')
      | Done (Some bs, reads') \<Rightarrow>
          let ehdr = decode_Ehdr bs
          in case ReadFromOffsetExact fd sizeof_Shdr
               (e_shoff ehdr + ucast (e_shentsize ehdr) * ucast (e_shstrndx ehdr)) reads' of
               Aborted \<Rightarrow> Aborted
             | Done (None, reads'') \<Rightarrow> Done (None, reads'')
             | Done (Some sbs, reads'') \<Rightarrow>
                 names_loop fd name ehdr (decode_Shdr sbs) [0..<unat (e_shnum ehdr)] reads'')"

subsection \<open>Symbols\<close>

definition covers :: "64 word \<Rightarrow> 64 word \<Rightarrow> Sym \<Rightarrow> bool" where
  "covers pc symbol_offset symbol =
     (let start_addr = st_value symbol + symbol_offset; end_addr = start_addr + st_size symbol
      in st_value symbol \<noteq> 0 \<and> st_shndx symbol \<noteq> 0 \<and> start_addr \<le> pc \<and> pc < end_addr)"

text \<open>The name of the symbol that was found, read into the whole of \<open>out\<close>.\<close>

definition read_name :: "File \<Rightarrow> string \<Rightarrow> Shdr \<Rightarrow> Sym \<Rightarrow> PreadEvent list \<Rightarrow>
    (bool \<times> string \<times> PreadEvent list) outcome" where
  "read_name fd out strtab symbol reads =
     (case ReadFromOffset fd (length out) (sh_offset strtab + ucast (st_name symbol)) reads of
        Aborted \<Rightarrow> Aborted
      | Done (None, reads') \<Rightarrow> Done (False, replicate (length out) NUL, reads')
      | Done (Some bs, reads') \<Rightarrow>
          let out' = bs @ drop (length bs) out
          in if bs = [] \<or> NUL \<notin> set out' then Done (False, replicate (length out) NUL, reads')
             else Done (True, out', reads'))"

text \<open>
  The loop of \<open>FindSymbol\<close>; \<open>i\<close> is a 32-bit counter. A read that fails returns -1, which is no
  multiple of the symbol size as a \<open>size_t\<close>, so the assertion behind it fails.
\<close>

partial_function (option) symbols_loop :: "64 word \<Rightarrow> File \<Rightarrow> string \<Rightarrow> 64 word \<Rightarrow> Shdr \<Rightarrow> Shdr \<Rightarrow>
    nat \<Rightarrow> nat \<Rightarrow> PreadEvent list \<Rightarrow> (bool \<times> string \<times> PreadEvent list) outcome option" where
  "symbols_loop pc fd out symbol_offset strtab symtab num_symbols i reads =
     (if i < num_symbols then
        (let offset = sh_offset symtab + of_nat i * sh_entsize symtab;
             num_symbols_to_read = min 32 (num_symbols - i)
         in case ReadFromOffset fd (sizeof_Sym * num_symbols_to_read) offset reads of
              Aborted \<Rightarrow> Some Aborted
            | Done (None, reads') \<Rightarrow> Some Aborted
            | Done (Some bs, reads') \<Rightarrow>
                if length bs mod sizeof_Sym \<noteq> 0 then Some Aborted
                else let num_symbols_in_buf = length bs div sizeof_Sym
                  in if num_symbols_to_read < num_symbols_in_buf then Some Aborted
                     else case find (covers pc symbol_offset)
                           (map decode_Sym (array_of sizeof_Sym num_symbols_in_buf bs)) of
                         Some symbol \<Rightarrow> Some (read_name fd out strtab symbol reads')
                       | None \<Rightarrow> symbols_loop pc fd out symbol_offset strtab symtab num_symbols
                           ((i + num_symbols_in_buf) mod 4294967296) reads')
      else Some (Done (False, out, reads)))"

text \<open>A table with an entry size of zero makes the program divide by zero, which ends it.\<close>

definition FindSymbol :: "64 word \<Rightarrow> File \<Rightarrow> string \<Rightarrow> 64 word \<Rightarrow> Shdr \<Rightarrow> Shdr \<Rightarrow> PreadEvent list \<Rightarrow>
    (bool \<times> string \<times> PreadEvent list) outcome option" where
  "FindSymbol pc fd out symbol_offset strtab symtab reads =
     (if sh_entsize symtab = 0 then Some Aborted
      else symbols_loop pc fd out symbol_offset strtab symtab
        (unat (sh_size symtab) div unat (sh_entsize symtab)) 0 reads)"

definition SHT_SYMTAB :: "32 word" where "SHT_SYMTAB = 2"
definition SHT_DYNSYM :: "32 word" where "SHT_DYNSYM = 11"

text \<open>
  One symbol table, by its type: \<open>Inl\<close> when the whole search ends with this result, \<open>Inr\<close> when
  it goes on.
\<close>

definition search_table :: "32 word \<Rightarrow> Ehdr \<Rightarrow> 64 word \<Rightarrow> File \<Rightarrow> string \<Rightarrow> 64 word \<Rightarrow>
    PreadEvent list \<Rightarrow> ((bool \<times> string \<times> PreadEvent list) + (string \<times> PreadEvent list)) outcome option" where
  "search_table ty ehdr pc fd out base_addr reads =
     andThen (GetSectionHeaderByType fd (e_shnum ehdr) (e_shoff ehdr) ty reads) (\<lambda>(hdr, reads1).
       case hdr of
         None \<Rightarrow> Some (Done (Inr (out, reads1)))
       | Some symtab \<Rightarrow>
           (case ReadFromOffsetExact fd sizeof_Shdr
              (e_shoff ehdr + ucast (sh_link symtab) * of_nat sizeof_Shdr) reads1 of
              Aborted \<Rightarrow> Some Aborted
            | Done (None, reads2) \<Rightarrow> Some (Done (Inl (False, out, reads2)))
            | Done (Some bs, reads2) \<Rightarrow>
                andThen (FindSymbol pc fd out base_addr (decode_Shdr bs) symtab reads2)
                  (\<lambda>(found, out', reads3).
                    Some (Done (if found then Inl (True, out', reads3) else Inr (out', reads3))))))"

definition GetSymbolFromObjectFile :: "File \<Rightarrow> 64 word \<Rightarrow> string \<Rightarrow> 64 word \<Rightarrow> PreadEvent list \<Rightarrow>
    (bool \<times> string \<times> PreadEvent list) outcome option" where
  "GetSymbolFromObjectFile fd pc out base_addr reads =
     (case ReadFromOffsetExact fd sizeof_Ehdr 0 reads of
        Aborted \<Rightarrow> Some Aborted
      | Done (None, reads1) \<Rightarrow> Some (Done (False, out, reads1))
      | Done (Some bs, reads1) \<Rightarrow>
          andThen (search_table SHT_SYMTAB (decode_Ehdr bs) pc fd out base_addr reads1) (\<lambda>r.
            case r of
              Inl res \<Rightarrow> Some (Done res)
            | Inr (out2, reads2) \<Rightarrow>
                andThen (search_table SHT_DYNSYM (decode_Ehdr bs) pc fd out2 base_addr reads2) (\<lambda>r.
                  case r of
                    Inl res \<Rightarrow> Some (Done res)
                  | Inr (out3, reads3) \<Rightarrow> Some (Done (False, out3, reads3)))))"

subsection \<open>Text routines that are safe in a signal handler\<close>

text \<open>
  The digits of \<open>itoa_r\<close>, least significant first, written at position \<open>p\<close>; \<open>None\<close> when the
  space runs out. The loop runs once at least.
\<close>

function itoa_loop :: "nat \<Rightarrow> nat \<Rightarrow> nat \<Rightarrow> nat \<Rightarrow> string \<Rightarrow> nat option \<times> string" where
  "itoa_loop base i padding p buf =
     (if base < 2 then (None, buf)
      else if length buf < p + 2 then (None, buf[0 := NUL])
      else let buf' = buf[p := ''0123456789abcdef'' ! (i mod base)];
               i' = i div base;
               padding' = (if 0 < padding then padding - 1 else padding)
        in if 0 < i' \<or> 0 < padding' then itoa_loop base i' padding' (Suc p) buf'
           else (Some (Suc p), buf'))"
  by pat_completeness auto
termination
proof (relation "measure (\<lambda>(base, i, padding, p, buf). i + padding)", goal_cases)
  case (2 base i padding p buf buf' i' padding')
  then have "i' \<le> i" and "1 < base" by simp_all
  moreover have "0 < i' \<Longrightarrow> i' < i"
    using 2 \<open>1 < base\<close> by (cases "i = 0") (simp_all add: div_less_dividend)
  ultimately have "i' \<le> i" and "0 < i' \<Longrightarrow> i' < i" by blast+
  moreover have "padding' \<le> padding" and "0 < padding' \<Longrightarrow> padding' < padding"
    using 2 by (auto split: if_splits)
  moreover have "0 < i' \<or> 0 < padding'" using 2 by simp
  ultimately have "i' + padding' < i + padding" by (auto intro: add_less_le_mono add_le_less_mono)
  then show ?case by simp
qed simp

declare itoa_loop.simps [simp del]

text \<open>The characters between \<open>start\<close> and \<open>ptr\<close> are swapped from both ends.\<close>

function itoa_reverse :: "nat \<Rightarrow> nat \<Rightarrow> string \<Rightarrow> string" where
  "itoa_reverse start ptr buf =
     (if start < ptr - 1
      then itoa_reverse (Suc start) (ptr - 1) (buf[ptr - 1 := buf ! start, start := buf ! (ptr - 1)])
      else buf)"
  by pat_completeness auto
termination by (relation "measure (\<lambda>(start, ptr, buf). ptr)") auto

declare itoa_reverse.simps [simp del]

text \<open>The flag is whether \<^verbatim>\<open>buf\<close> is returned, rather than a null pointer.\<close>

definition itoa_r :: "64 word \<Rightarrow> string \<Rightarrow> nat \<Rightarrow> nat \<Rightarrow> bool \<times> string" where
  "itoa_r i buf base padding =
     (if length buf < 1 then (False, buf)
      else if base < 2 \<or> 16 < base then (False, buf[0 := NUL])
      else case itoa_loop base (unat i) padding 0 buf of
          (None, buf') \<Rightarrow> (False, buf')
        | (Some p, buf') \<Rightarrow> (True, itoa_reverse 0 p (buf'[p := NUL])))"

definition SafeAppendString :: "string \<Rightarrow> string \<Rightarrow> string outcome" where
  "SafeAppendString source dest =
     (let dest_string_length = length (c_str dest)
      in if dest_string_length < length dest
         then Done (take dest_string_length dest @ strncpy_nul (drop dest_string_length dest) source)
         else Aborted)"

text \<open>A null pointer from \<open>itoa_r\<close> would be read by \<open>SafeAppendString\<close> and end the process.\<close>

definition SafeAppendHexNumber :: "64 word \<Rightarrow> string \<Rightarrow> string outcome" where
  "SafeAppendHexNumber val dest =
     (let (ok, buf) = itoa_r val (replicate 17 NUL) 16 0
      in if ok then SafeAppendString (c_str buf) dest else Aborted)"

text \<open>The name in the buffer is replaced by its demangled form when that fits.\<close>

definition DemangleInplace :: "string \<Rightarrow> string \<Rightarrow> string outcome option" where
  "DemangleInplace uninit out =
     (case Demangle (c_str out) uninit of
        None \<Rightarrow> None
      | Some (ok, demangled) \<Rightarrow>
          Some (if ok then
              let len = length (c_str demangled)
              in if len + 1 \<le> length out then
                   (if len < length demangled then Done (c_str demangled @ NUL # drop (len + 1) out)
                    else Aborted)
                 else Done out
            else Done out))"

subsection \<open>Symbolizing\<close>

text \<open>
  The two callbacks. The first one opens the object file: it gets the program counter, the two
  addresses and the buffer behind its first byte, and returns the descriptor with their new
  values. The second one writes a prefix into the buffer and returns its size.
\<close>

record SymCallbacks =
  g_symbolize_callback :: "(File \<Rightarrow> 64 word \<Rightarrow> string \<Rightarrow> 64 word \<Rightarrow> int \<times> string) option"
  g_symbolize_open_object_file_callback ::
    "(64 word \<Rightarrow> string \<Rightarrow> MapState \<Rightarrow> File option \<times> string \<times> MapState) option"

definition InstallSymbolizeCallback ::
    "(File \<Rightarrow> 64 word \<Rightarrow> string \<Rightarrow> 64 word \<Rightarrow> int \<times> string) option \<Rightarrow> SymCallbacks \<Rightarrow> SymCallbacks" where
  "InstallSymbolizeCallback callback cbs = cbs\<lparr>g_symbolize_callback := callback\<rparr>"

definition InstallSymbolizeOpenObjectFileCallback ::
    "(64 word \<Rightarrow> string \<Rightarrow> MapState \<Rightarrow> File option \<times> string \<times> MapState) option \<Rightarrow>
     SymCallbacks \<Rightarrow> SymCallbacks" where
  "InstallSymbolizeOpenObjectFileCallback callback cbs =
     cbs\<lparr>g_symbolize_open_object_file_callback := callback\<rparr>"

text \<open>What the library finds around it: the file system and the contents of fresh stack arrays.\<close>

record SymEnv =
  open_file :: "string \<Rightarrow> File option"
  uninit_line :: string
  uninit_demangled :: string

text \<open>The name of the object file with the offset in it, in parentheses.\<close>

definition append_offset :: "64 word \<Rightarrow> string \<Rightarrow> string outcome option" where
  "append_offset offset out =
     andThen (Some (SafeAppendString ''+0x'' (out[length out - 1 := NUL]))) (\<lambda>out1.
     andThen (Some (SafeAppendHexNumber offset out1)) (\<lambda>out2.
     Some (SafeAppendString '')'' out2)))"

text \<open>
  \<open>beyond\<close> is the byte behind the caller's buffer: it is read, as \<^verbatim>\<open>out[1]\<close>, when the buffer
  has a single byte.
\<close>

definition out_1 :: "char \<Rightarrow> string \<Rightarrow> char" where
  "out_1 beyond out = (if 1 < length out then out ! 1 else beyond)"

definition open_object :: "SymEnv \<Rightarrow> SymCallbacks \<Rightarrow> 64 word \<Rightarrow> string \<Rightarrow> MapState \<Rightarrow>
    (File option \<times> string \<times> MapState) outcome option" where
  "open_object env cbs pc out_file_name st =
     (case g_symbolize_open_object_file_callback cbs of
        Some cb \<Rightarrow> Some (Done (cb pc out_file_name st))
      | None \<Rightarrow> OpenObjectFileContainingPcAndGetStartAddress (open_file env) (uninit_line env) pc
          out_file_name st)"

text \<open>
  The symbolize callback may write a prefix; the buffer and its size move behind it. The result
  is the prefix and the rest of the buffer.
\<close>

definition run_callback :: "SymCallbacks \<Rightarrow> File \<Rightarrow> 64 word \<Rightarrow> string \<Rightarrow> 64 word \<Rightarrow> string \<times> string" where
  "run_callback cbs fd pc out relocation =
     (case g_symbolize_callback cbs of
        None \<Rightarrow> ([], out)
      | Some cb \<Rightarrow>
          let (n, out') = cb fd pc out relocation
          in if 0 < n then (take (nat n) out', drop (nat n) out') else ([], out'))"

definition symbolize_open :: "SymEnv \<Rightarrow> SymCallbacks \<Rightarrow> char \<Rightarrow> 64 word \<Rightarrow> File \<Rightarrow> string \<Rightarrow> MapState \<Rightarrow>
    (bool \<times> string) outcome option" where
  "symbolize_open env cbs beyond pc fd out st =
     (case FileGetElfType fd (pending st) of
        Aborted \<Rightarrow> Some Aborted
      | Done (None, reads1) \<Rightarrow> Some (Done (False, out))
      | Done (Some elf_type, reads1) \<Rightarrow>
          let (pre, out1) = run_callback cbs fd pc out
                (if elf_type = ET_DYN then start_address st else 0)
          in andThen (GetSymbolFromObjectFile fd pc out1 (base_address st) reads1)
               (\<lambda>(found, out2, reads2).
                 if found then
                   andThen (DemangleInplace (uninit_demangled env) out2) (\<lambda>out3.
                     Some (Done (True, pre @ out3)))
                 else if out_1 beyond out2 \<noteq> NUL \<and> Option.is_none (g_symbolize_callback cbs) then
                   andThen (append_offset (pc - base_address st) out2) (\<lambda>out3.
                     Some (Done (True, pre @ out3)))
                 else Some (Done (False, pre @ out2))))"

definition SymbolizeAndDemangle :: "SymEnv \<Rightarrow> SymCallbacks \<Rightarrow> char \<Rightarrow> 64 word \<Rightarrow> string \<Rightarrow>
    PreadEvent list \<Rightarrow> (bool \<times> string) outcome option" where
  "SymbolizeAndDemangle env cbs beyond pc out reads =
     (if length out < 1 then Some (Done (False, out))
      else andThen (Some (SafeAppendString ''('' (out[0 := NUL]))) (\<lambda>out1.
        andThen (open_object env cbs pc (tl out1)
            \<lparr>start_address = 0, base_address = 0, pending = reads\<rparr>) (\<lambda>(object_fd, file_name, st).
          let out2 = hd out1 # file_name
          in case object_fd of
               None \<Rightarrow>
                 if out_1 beyond out2 \<noteq> NUL then
                   andThen (append_offset (pc - base_address st) out2) (\<lambda>out3. Some (Done (True, out3)))
                 else Some (Done (False, out2))
             | Some fd \<Rightarrow> symbolize_open env cbs beyond pc fd out2 st)))"

definition Symbolize :: "SymEnv \<Rightarrow> SymCallbacks \<Rightarrow> char \<Rightarrow> 64 word \<Rightarrow> string \<Rightarrow>
    PreadEvent list \<Rightarrow> (bool \<times> string) outcome option" where
  "Symbolize env cbs beyond pc out reads = SymbolizeAndDemangle env cbs beyond pc out reads"

end
