(* ===== verification/Sym_Spec.thy ===== *)
theory Sym_Spec
  imports Sym_Elf
begin

section \<open>The symbolizer: its properties\<close>

text \<open>
  The safe string routines write what their comments promise; the searches find the first
  section and the first symbol, however the reads are split; \<open>SymbolizeAndDemangle\<close> leaves a
  terminated text in the caller's buffer.
\<close>

subsection \<open>Numbers\<close>

text \<open>A number in a radix, padded with zeros.\<close>

definition padded_num :: "nat \<Rightarrow> nat \<Rightarrow> nat \<Rightarrow> string" where
  "padded_num base padding i = pad_left padding CHR ''0'' (num_str base i)"

lemma itoa_digit: "d < 16 \<Longrightarrow> ''0123456789abcdef'' ! d = radix_digit d"
proof -
  have "list_all (\<lambda>d. ''0123456789abcdef'' ! d = radix_digit d) [0..<16]" by code_simp
  then show "d < 16 \<Longrightarrow> ?thesis" by (simp add: list_all_iff)
qed

lemma padded_num_step:
  assumes "2 \<le> base"
  shows "rev (padded_num base padding i) = radix_digit (i mod base) #
    (if 0 < i div base \<or> 0 < padding - 1
     then rev (padded_num base (padding - 1) (i div base)) else [])"
proof (cases "i < base")
  case True
  then have "num_str base i = [radix_digit (i mod base)]" by (simp add: num_str.simps)
  moreover have "radix_digit 0 = CHR ''0''" by code_simp
  then have "num_str base 0 = [CHR ''0'']" using assms by (simp add: num_str.simps)
  moreover have "replicate (padding - 1) CHR ''0'' = (if 0 < padding - 1
      then CHR ''0'' # replicate (padding - 1 - 1) CHR ''0'' else [])"
    by (cases "padding - 1") auto
  ultimately show ?thesis
    using True by (simp add: padded_num_def pad_left_def replicate_append_same)
next
  case False
  then have "num_str base i = num_str base (i div base) @ [radix_digit (i mod base)]"
    using assms by (subst num_str.simps) simp
  moreover have "0 < i div base" using False assms by (simp add: div_greater_zero_iff)
  ultimately show ?thesis by (simp add: padded_num_def pad_left_def)
qed

lemma itoa_loop_spec:
  "2 \<le> base \<Longrightarrow> base \<le> 16 \<Longrightarrow>
   (if p + length (padded_num base padding i) < length buf
    then itoa_loop base i padding p buf = (Some (p + length (padded_num base padding i)),
      take p buf @ rev (padded_num base padding i) @ drop (p + length (padded_num base padding i)) buf)
    else \<exists>buf'. itoa_loop base i padding p buf = (None, buf'[0 := NUL]) \<and> length buf' = length buf)"
proof (induction base i padding p buf rule: itoa_loop.induct)
  case (1 base i padding p buf)
  define i' where "i' = i div base"
  define padding' where "padding' = (if 0 < padding then padding - 1 else padding)"
  define d where "d = radix_digit (i mod base)"
  have pad: "padding' = padding - 1" by (simp add: padding'_def)
  have "i mod base < base" using 1(2) by simp
  then have dig: "''0123456789abcdef'' ! (i mod base) = d"
    using itoa_digit[of "i mod base"] 1(3) by (simp add: d_def)
  have step: "rev (padded_num base padding i) = d #
      (if 0 < i' \<or> 0 < padding' then rev (padded_num base padding' i') else [])"
    using padded_num_step[OF 1(2)] by (simp add: i'_def pad d_def)
  then have len: "length (padded_num base padding i) =
      Suc (if 0 < i' \<or> 0 < padding' then length (padded_num base padding' i') else 0)"
    by (metis length_Cons length_rev list.size(3))
  have unfold: "itoa_loop base i padding p buf =
      (if length buf < p + 2 then (None, buf[0 := NUL])
       else if 0 < i' \<or> 0 < padding' then itoa_loop base i' padding' (Suc p) (buf[p := d])
       else (Some (Suc p), buf[p := d]))"
    using 1(2) by (subst itoa_loop.simps) (simp add: Let_def i'_def padding'_def dig)
  show ?case
  proof (cases "length buf < p + 2")
    case True
    then show ?thesis using unfold len by auto
  next
    case room: False
    have upd: "take (Suc p) (buf[p := d]) = take p buf @ [d]"
      using room by (simp add: take_Suc_conv_app_nth)
    show ?thesis
    proof (cases "0 < i' \<or> 0 < padding'")
      case True
      have "if Suc p + length (padded_num base padding' i') < length (buf[p := d])
        then itoa_loop base i' padding' (Suc p) (buf[p := d]) =
          (Some (Suc p + length (padded_num base padding' i')),
           take (Suc p) (buf[p := d]) @ rev (padded_num base padding' i') @
           drop (Suc p + length (padded_num base padding' i')) (buf[p := d]))
        else \<exists>buf'. itoa_loop base i' padding' (Suc p) (buf[p := d]) = (None, buf'[0 := NUL]) \<and>
          length buf' = length (buf[p := d])"
        by (rule 1(1)[OF _ _ _ i'_def padding'_def True]) (use 1(2,3) room dig in simp_all)
      then show ?thesis using True room unfold len step upd by (simp split: if_splits)
    next
      case False
      then show ?thesis using room unfold len step by (simp add: upd_conv_take_nth_drop)
    qed
  qed
qed

lemma itoa_reverse_spec:
  "itoa_reverse (length a) (length a + length m) (a @ m @ b) = a @ rev m @ b"
proof (induction "length m" arbitrary: a m b rule: less_induct)
  case less
  show ?case
  proof (cases "length m < 2")
    case True
    then have "rev m = m" by (cases m) auto
    then show ?thesis using True by (subst itoa_reverse.simps) auto
  next
    case False
    then obtain x m' where 1: "m = x # m'" "m' \<noteq> []" by (cases m) auto
    then obtain m2 y where 2: "m = x # m2 @ [y]" by (metis rev_exhaust)
    have "itoa_reverse (length a) (length a + length m) (a @ m @ b) =
        itoa_reverse (Suc (length a)) (length a + Suc (length m2)) (a @ y # m2 @ x # b)"
      by (subst itoa_reverse.simps) (simp add: 2 nth_append list_update_append)
    also have "\<dots> = itoa_reverse (length (a @ [y])) (length (a @ [y]) + length m2)
        ((a @ [y]) @ m2 @ (x # b))"
      by simp
    also have "\<dots> = (a @ [y]) @ rev m2 @ (x # b)"
      using less[of m2 "a @ [y]" "x # b"] by (simp add: 2)
    finally show ?thesis by (simp add: 2)
  qed
qed

lemma itoa_r_cases:
  fixes i :: "64 word" and padding :: nat
  assumes "2 \<le> base" and "base \<le> 16" and "buf \<noteq> []"
  defines "t \<equiv> padded_num base padding (unat i)"
  shows "if length t < length buf
    then itoa_r i buf base padding = (True, t @ NUL # drop (Suc (length t)) buf)
    else \<exists>buf'. itoa_r i buf base padding = (False, NUL # buf') \<and> length buf' = length buf - 1"
proof (cases "length t < length buf")
  case True
  have "itoa_loop base (unat i) padding 0 buf = (Some (length t), rev t @ drop (length t) buf)"
    using itoa_loop_spec[OF assms(1,2), of 0 padding "unat i" buf] True by (simp add: t_def)
  moreover have "(rev t @ drop (length t) buf)[length t := NUL] = rev t @ NUL # drop (Suc (length t)) buf"
    using True by (simp add: list_update_append Cons_nth_drop_Suc [symmetric])
  moreover have "itoa_reverse 0 (length t) (rev t @ NUL # drop (Suc (length t)) buf) =
      t @ NUL # drop (Suc (length t)) buf"
    using itoa_reverse_spec[of "[]" "rev t"] by simp
  ultimately show ?thesis using assms True by (simp add: itoa_r_def)
next
  case False
  then obtain buf' where "itoa_loop base (unat i) padding 0 buf = (None, buf'[0 := NUL])"
    "length buf' = length buf"
    using itoa_loop_spec[OF assms(1,2), of 0 padding "unat i" buf] by (auto simp: t_def)
  moreover obtain c cs where "buf' = c # cs" using calculation(2) assms(3) by (cases buf') auto
  ultimately show ?thesis using assms False by (auto simp: itoa_r_def)
qed

subsection \<open>Text in a bounded buffer\<close>

text \<open>\<open>holds_str out n t\<close>: a terminated buffer of size \<open>n\<close> that holds the text \<open>t\<close>, cut to fit.\<close>

definition holds_str :: "string \<Rightarrow> nat \<Rightarrow> string \<Rightarrow> bool" where
  "holds_str out n t = (length out = n \<and> NUL \<in> set out \<and> c_str out = take (n - 1) t)"

lemma c_str_idem [simp]: "c_str (c_str s) = c_str s"
  by (simp add: c_str_no_nul no_nul_c_str)

lemma strncpy_nul_holds:
  assumes "dest \<noteq> []"
  shows "holds_str (strncpy_nul dest source) (length dest) (c_str source)"
proof -
  define s n where "s = c_str source" and "n = length dest"
  have n: "0 < n" using assms by (simp add: n_def)
  have len: "length (strncpy_nul dest source) = n"
    using n by (simp add: strncpy_nul_def Let_def n_def [symmetric] s_def [symmetric])
  have "take (n - 1) (s @ replicate n NUL) @ [NUL] = take (n - 1) s @ NUL # replicate (n - 1 - length s) NUL"
    using replicate_append_same[of "n - 1 - length s" NUL] by simp
  then have "c_str (strncpy_nul dest source) = take (n - 1) s"
    using n c_str_append_nul[OF no_nul_take[OF no_nul_c_str[of source]]]
    by (simp add: strncpy_nul_def Let_def n_def [symmetric] s_def [symmetric])
  then show ?thesis
    using len n by (simp add: holds_str_def s_def n_def strncpy_nul_def Let_def)
qed

lemma c_str_split: "NUL \<in> set b \<Longrightarrow> \<exists>rest. b = c_str b @ NUL # rest"
  unfolding c_str_def by (induction b) auto

lemma SafeAppendString_holds:
  assumes "holds_str dest n t" and "0 < n"
  shows "\<exists>out. SafeAppendString source dest = Done out \<and> holds_str out n (t @ c_str source)"
proof -
  define k where "k = length (c_str dest)"
  have dest: "length dest = n" "NUL \<in> set dest" "c_str dest = take (n - 1) t"
    using assms(1) by (auto simp: holds_str_def)
  have k: "k < n" using length_c_str_less[OF dest(2)] dest(1) by (simp add: k_def)
  have pre: "take k dest = c_str dest" using c_str_split[OF dest(2)] by (metis append_eq_conv_conj k_def)
  define new where "new = strncpy_nul (drop k dest) source"
  have new: "length new = n - k" "NUL \<in> set new" "c_str new = take (n - k - 1) (c_str source)"
    using strncpy_nul_holds[of "drop k dest" source] k dest(1) by (simp_all add: new_def holds_str_def)
  have "c_str (take k dest @ new) = take k dest @ c_str new"
    using c_str_split[OF new(2)] pre no_nul_c_str[of dest] c_str_append_nul
    by (metis append.assoc c_str_append_nul no_nul_c_str no_nul_simps(3))
  also have "\<dots> = take (n - 1) (t @ c_str source)"
    using pre dest(3) new(3) k by (auto simp: k_def min_def)
  finally have "holds_str (take k dest @ new) n (t @ c_str source)"
    using new k dest(1) by (auto simp: holds_str_def)
  then show ?thesis using k dest(1) by (simp add: SafeAppendString_def k_def new_def Let_def)
qed

lemma holds_str_exact: "holds_str out n t \<Longrightarrow> holds_str out n (c_str out)"
  by (simp add: holds_str_def)

lemma holds_str_self: "NUL \<in> set out \<Longrightarrow> holds_str out (length out) (c_str out)"
  using length_c_str_less[of out] by (simp add: holds_str_def)

lemma padded_num_0: "padded_num base 0 i = num_str base i"
  by (simp add: padded_num_def pad_left_def)

lemma hex_no_nul: "no_nul (num_str 16 i)"
  using num_str_hex[of i] by (auto simp: no_nul_def list_all_iff is_hex_def is_digit_def less_eq_char_def)

lemma num_str_hex_length: "length (num_str 16 (unat (w :: 64 word))) \<le> 16"
proof -
  have "unat w < 16 ^ Suc 15" using unsigned_less[of w, where 'a = nat] by simp
  then show ?thesis using num_str_length[of 16 "unat w" 15] by simp
qed

lemma itoa_r_hex:
  "\<exists>buf. itoa_r w (replicate 17 NUL) 16 0 = (True, buf) \<and> c_str buf = num_str 16 (unat w)"
  using itoa_r_cases[of 16 "replicate 17 NUL" 0 w] num_str_hex_length[of w]
    c_str_append_nul[OF hex_no_nul[of "unat w"]]
  by (auto simp: padded_num_0 split: if_splits)

lemma SafeAppendHexNumber_holds:
  assumes "holds_str dest n t" and "0 < n"
  shows "\<exists>out. SafeAppendHexNumber w dest = Done out \<and> holds_str out n (t @ num_str 16 (unat w))"
  using itoa_r_hex[of w] SafeAppendString_holds[OF assms, of "num_str 16 (unat w)"]
    c_str_no_nul[OF hex_no_nul]
  by (auto simp: SafeAppendHexNumber_def)

lemma append_offset_holds:
  assumes "holds_str out n t" and "0 < n"
  shows "\<exists>out'. append_offset w out = Some (Done out') \<and>
    holds_str out' n (t @ ''+0x'' @ num_str 16 (unat w) @ '')'')"
proof -
  have out: "length out = n" "NUL \<in> set out" "c_str out = take (n - 1) t"
    using assms(1) by (auto simp: holds_str_def)
  obtain rest where rest: "out = c_str out @ NUL # rest" using c_str_split[OF out(2)] by blast
  define out0 where "out0 = out[length out - 1 := NUL]"
  have "\<exists>rest'. out0 = c_str out @ NUL # rest' \<and> length rest' = length rest"
  proof (cases rest rule: rev_cases)
    case Nil
    then show ?thesis using rest unfolding out0_def
      by (metis butlast_snoc length_butlast list_update_length)
  next
    case (snoc ys y)
    then have eq: "out = (c_str out @ NUL # ys) @ [y]" using rest by simp
    have "out0 = (c_str out @ NUL # ys) @ [NUL]"
      unfolding out0_def by (subst (2) eq, subst eq) (simp add: list_update_append)
    then show ?thesis using snoc by auto
  qed
  then have "holds_str out0 n t"
    using out(1,3) rest c_str_append_nul[OF no_nul_c_str[of out]]
    by (auto simp: holds_str_def out0_def)
  then obtain out1 where 1: "SafeAppendString ''+0x'' out0 = Done out1" "holds_str out1 n (t @ ''+0x'')"
    using SafeAppendString_holds[OF _ assms(2), of out0 t "''+0x''"] by (auto simp: c_str_def)
  then obtain out2 where 2: "SafeAppendHexNumber w out1 = Done out2"
    "holds_str out2 n (t @ ''+0x'' @ num_str 16 (unat w))"
    using SafeAppendHexNumber_holds[OF 1(2) assms(2), of w] by auto
  then show ?thesis
    using SafeAppendString_holds[OF 2(2) assms(2), of "'')''"] 1(1)
    by (auto simp: append_offset_def out0_def c_str_def)
qed

lemma num_str_no_nul: "2 \<le> base \<Longrightarrow> base \<le> 16 \<Longrightarrow> no_nul (num_str base n)"
proof (induction base n rule: num_str.induct)
  case (1 base n)
  have "list_all (\<lambda>d. radix_digit d \<noteq> NUL) [0..<16]" by code_simp
  moreover have "n mod base < base" using 1(2) by simp
  then have "n mod base < 16" using 1(3) by (rule less_le_trans)
  ultimately have "radix_digit (n mod base) \<noteq> NUL" by (simp add: list_all_iff)
  then show ?case using 1 by (subst num_str.simps) auto
qed

text \<open>
  \<open>itoa_r\<close> never writes more than the buffer: when the digits, padded with zeros, and the
  terminator fit, the buffer holds them; otherwise the result is a null pointer and the buffer
  holds the empty text.
\<close>

theorem itoa_r_digits:
  assumes "2 \<le> base" and "base \<le> 16" and "buf \<noteq> []"
  shows "\<exists>buf'. itoa_r i buf base padding = (length (padded_num base padding (unat i)) < length buf, buf') \<and>
    length buf' = length buf \<and>
    c_str buf' = (if length (padded_num base padding (unat i)) < length buf
      then padded_num base padding (unat i) else [])"
proof (cases "length (padded_num base padding (unat i)) < length buf")
  case True
  have "no_nul (padded_num base padding (unat i))"
    using num_str_no_nul[OF assms(1,2), of "unat i"] by (auto simp: padded_num_def pad_left_def no_nul_def)
  then show ?thesis using itoa_r_cases[OF assms, of padding i] True by (auto simp: c_str_append_nul)
next
  case False
  obtain buf' where "itoa_r i buf base padding = (False, NUL # buf')" "length buf' = length buf - 1"
    using itoa_r_cases[OF assms, of padding i] False by auto
  then show ?thesis using False assms(3) by (auto simp: c_str_def)
qed

theorem itoa_r_digits_witness:
  "(\<exists>buf'. itoa_r 255 (replicate 5 NUL) 16 4 = (True, buf') \<and> c_str buf' = ''00ff'') \<and>
   (\<exists>buf'. itoa_r 255 (replicate 4 NUL) 16 4 = (False, buf') \<and> c_str buf' = [])"
proof -
  have "num_str 16 255 = [radix_digit 15, radix_digit 15]" by (simp add: num_str.simps)
  moreover have "radix_digit 15 = CHR ''f''" "replicate 2 CHR ''0'' = ''00''" by code_simp+
  moreover have "unat (255 :: 64 word) = 255" by simp
  ultimately have "padded_num 16 4 (unat (255 :: 64 word)) = ''00ff''"
    by (simp add: padded_num_def pad_left_def del: unsigned_numeral)
  then show ?thesis
    using itoa_r_digits[of 16 "replicate 5 NUL" 255 4] itoa_r_digits[of 16 "replicate 4 NUL" 255 4] by auto
qed

subsection \<open>Sections\<close>

lemma array_of_take:
  "i < n \<Longrightarrow> n * sz \<le> m \<Longrightarrow> array_of sz n (take m bs) ! i = array_of sz n bs ! i"
proof -
  assume "i < n" and "n * sz \<le> m"
  then have "i * sz + sz \<le> m" using mult_le_mono1[of "Suc i" n sz] by simp
  then show ?thesis using \<open>i < n\<close> by (simp add: array_of_def drop_take min_def)
qed

lemma array_of_take_eq: "n * sz \<le> m \<Longrightarrow> array_of sz n (take m bs) = array_of sz n bs"
  using array_of_take[of _ n sz m bs] by (intro nth_equalityI) (simp_all add: array_of_def)

lemma array_of_drop: "array_of sz k (drop (i * sz) bs) = drop i (take (i + k) (array_of sz (i + k) bs))"
  by (rule nth_equalityI) (simp_all add: array_of_def add.commute algebra_simps)

lemma array_of_split: "array_of sz (i + k) bs = array_of sz i bs @ array_of sz k (drop (i * sz) bs)"
  by (rule nth_equalityI) (auto simp: array_of_def nth_append algebra_simps)

lemma find_append: "find P (xs @ ys) = (case find P xs of None \<Rightarrow> find P ys | Some x \<Rightarrow> Some x)"
  by (induction xs) auto

text \<open>The headers of a table of \<open>n\<close> sections, and one round of the search.\<close>

definition headers :: "nat \<Rightarrow> string \<Rightarrow> Shdr list" where
  "headers n bs = map decode_Shdr (array_of sizeof_Shdr n bs)"

lemma sections_loop_step:
  assumes "coherent fd" and "fd (offs + of_nat (i * sizeof_Shdr)) = Some bs" and "no_failure reads"
    and "i < n" and "(n - i) * sizeof_Shdr \<le> length bs"
  defines "k \<equiv> min 16 (n - i)"
  shows "\<exists>reads'. no_failure reads' \<and> sections_loop fd n offs ty i reads =
    (case find (\<lambda>s. sh_type s = ty) (headers k bs) of
       Some s \<Rightarrow> Some (Done (Some s, reads'))
     | None \<Rightarrow> sections_loop fd n offs ty (i + k) reads')"
proof -
  have to_read: "(if 16 * sizeof_Shdr > (n - i) * sizeof_Shdr then (n - i) * sizeof_Shdr
      else 16 * sizeof_Shdr) = k * sizeof_Shdr"
    by (auto simp: k_def sizeof_Shdr_def min_def)
  obtain reads' where r: "ReadFromOffset fd (k * sizeof_Shdr) (offs + of_nat (i * sizeof_Shdr)) reads =
      Done (Some (take (k * sizeof_Shdr) bs), reads')" "no_failure reads'"
    by (rule ReadFromOffset_some[where offset = "offs + of_nat (i * sizeof_Shdr)", OF assms(1-3),
          of "k * sizeof_Shdr"]) (auto simp: k_def sizeof_Shdr_def ssize_max_def)
  have "k * sizeof_Shdr \<le> (n - i) * sizeof_Shdr" by (simp add: k_def)
  then have "k * sizeof_Shdr \<le> length bs" using assms(5) by linarith
  then have len: "length (take (k * sizeof_Shdr) bs) = k * sizeof_Shdr" by simp
  have "\<not> 16 < k" by (simp add: k_def)
  moreover have "0 < sizeof_Shdr" by (simp add: sizeof_Shdr_def)
  then have "k * sizeof_Shdr mod sizeof_Shdr = 0" "k * sizeof_Shdr div sizeof_Shdr = k" by simp_all
  moreover have "array_of sizeof_Shdr k (take (k * sizeof_Shdr) bs) = array_of sizeof_Shdr k bs"
    by (rule array_of_take_eq) simp
  ultimately have "sections_loop fd n offs ty i reads =
    (case find (\<lambda>s. sh_type s = ty) (headers k bs) of
       Some s \<Rightarrow> Some (Done (Some s, reads'))
     | None \<Rightarrow> sections_loop fd n offs ty (i + k) reads')"
    unfolding headers_def
    by (subst sections_loop.simps)
      (simp only: assms(4) Let_def to_read r(1) len if_True if_False outcome.case prod.case option.case
        not_True_eq_False simp_thms)
  then show ?thesis using r(2) by blast
qed

lemma sections_loop_spec:
  assumes "coherent fd" and "fd offs = Some bs" and "n * sizeof_Shdr \<le> length bs"
  shows "i \<le> n \<Longrightarrow> no_failure reads \<Longrightarrow> \<exists>reads'. no_failure reads' \<and>
    sections_loop fd n offs ty i reads =
      Some (Done (find (\<lambda>s. sh_type s = ty) (headers (n - i) (drop (i * sizeof_Shdr) bs)), reads'))"
proof (induction "n - i" arbitrary: i reads rule: less_induct)
  case less
  show ?case
  proof (cases "i < n")
    case False
    then show ?thesis
      using less.prems by (intro exI[of _ reads]) (subst sections_loop.simps, simp add: headers_def array_of_def)
  next
    case True
    define k where "k = min 16 (n - i)"
    have le: "i * sizeof_Shdr \<le> length bs"
      using assms(3) True by (meson le_trans less_imp_le_nat mult_le_mono1)
    have at: "fd (offs + of_nat (i * sizeof_Shdr)) = Some (drop (i * sizeof_Shdr) bs)"
      using coherentD[OF assms(1,2) le] .
    have len: "(n - i) * sizeof_Shdr \<le> length (drop (i * sizeof_Shdr) bs)"
      using assms(3) by (simp add: diff_mult_distrib)
    obtain reads1 where 1: "no_failure reads1" "sections_loop fd n offs ty i reads =
        (case find (\<lambda>s. sh_type s = ty) (headers k (drop (i * sizeof_Shdr) bs)) of
           Some s \<Rightarrow> Some (Done (Some s, reads1))
         | None \<Rightarrow> sections_loop fd n offs ty (i + k) reads1)"
      using sections_loop_step[where fd = fd and offs = offs, OF assms(1) at less.prems(2) True len, of ty]
      unfolding k_def by blast
    have k: "0 < k" "i + k \<le> n" using True by (auto simp: k_def)
    obtain reads2 where 2: "no_failure reads2" "sections_loop fd n offs ty (i + k) reads1 =
        Some (Done (find (\<lambda>s. sh_type s = ty)
          (headers (n - (i + k)) (drop ((i + k) * sizeof_Shdr) bs)), reads2))"
      using less.hyps[OF diff_less_mono2 k(2) 1(1)] k True by auto
    have split: "headers (n - i) (drop (i * sizeof_Shdr) bs) = headers k (drop (i * sizeof_Shdr) bs) @
        headers (n - (i + k)) (drop ((i + k) * sizeof_Shdr) bs)"
      using array_of_split[of sizeof_Shdr k "n - (i + k)" "drop (i * sizeof_Shdr) bs"] k(2)
      by (simp add: headers_def algebra_simps)
    show ?thesis using 1 2 by (auto simp: split find_append split: option.splits)
  qed
qed

text \<open>
  \<open>GetSectionHeaderByType\<close> returns the first header of the type, for any number of
  sections and however the reads are split, when the whole table is in the file.
\<close>

theorem GetSectionHeaderByType_first:
  assumes "coherent fd" and "fd sh_offs = Some bs" and "unat sh_num * sizeof_Shdr \<le> length bs"
    and "no_failure reads"
  shows "\<exists>reads'. GetSectionHeaderByType fd sh_num sh_offs ty reads =
    Some (Done (find (\<lambda>s. sh_type s = ty) (headers (unat sh_num) bs), reads'))"
  using sections_loop_spec[where fd = fd and offs = sh_offs, OF assms(1-3), of 0 reads ty] assms(4)
  by (auto simp: GetSectionHeaderByType_def)

theorem GetSectionHeaderByType_first_witness:
  "\<exists>reads'. GetSectionHeaderByType (regular_file (replicate 128 CHR 0x02)) 2 0 0x02020202 [Chunk 3] =
    Some (Done (Some (decode_Shdr (replicate 64 CHR 0x02)), reads'))"
proof -
  have "array_of sizeof_Shdr 2 (replicate 128 CHR 0x02) = [replicate 64 CHR 0x02, replicate 64 CHR 0x02]"
    by (simp add: array_of_def sizeof_Shdr_def upt_rec)
  moreover have "sh_type (decode_Shdr (replicate 64 CHR 0x02)) = 0x02020202"
  proof -
    have "replicate 4 CHR 0x02 = [CHR 0x02, CHR 0x02, CHR 0x02, CHR 0x02]" by code_simp
    then show ?thesis by (simp add: decode_Shdr_def field_def le_val_def)
  qed
  ultimately have "find (\<lambda>s. sh_type s = 0x02020202) (headers 2 (replicate 128 CHR 0x02)) =
      Some (decode_Shdr (replicate 64 CHR 0x02))"
    by (simp add: headers_def)
  moreover have "coherent (regular_file (replicate 128 CHR 0x02))"
    by (rule regular_coherent) (simp add: ssize_max_def)
  moreover have "regular_file (replicate 128 CHR 0x02) 0 = Some (replicate 128 CHR 0x02)"
    by (simp add: regular_file_at)
  ultimately show ?thesis
    using GetSectionHeaderByType_first[of "regular_file (replicate 128 CHR 0x02)" 0
        "replicate 128 CHR 0x02" 2 "[Chunk 3]" "0x02020202"]
    by (simp add: sizeof_Shdr_def)
qed

text \<open>A table that the file cuts off behind a header: the loop makes no progress and never ends.\<close>

lemma sections_loop_truncated:
  assumes "coherent fd" and "fd (offs + of_nat (i * sizeof_Shdr)) = Some []" and "i < n"
  shows "sections_loop fd n offs ty i [] = None"
proof -
  define c where "c = (if 16 * sizeof_Shdr > (n - i) * sizeof_Shdr then (n - i) * sizeof_Shdr
      else 16 * sizeof_Shdr)"
  have c: "c \<le> ssize_max" by (auto simp: c_def sizeof_Shdr_def ssize_max_def)
  have "ReadFromOffset_loop fd c (offs + of_nat (i * sizeof_Shdr)) [] [] = (Some [], [])"
    using assms(2) by (subst ReadFromOffset_loop.simps) simp
  then have r: "ReadFromOffset fd c (offs + of_nat (i * sizeof_Shdr)) [] = Done (Some [], [])"
    using c by (simp add: ReadFromOffset_def)
  define stuck where "stuck = (\<lambda>fd' n' offs' ty' i' (reads' :: PreadEvent list) (y :: (Shdr option \<times> PreadEvent list) outcome).
    \<not> (fd' = fd \<and> n' = n \<and> offs' = offs \<and> i' = i \<and> (ty' :: 32 word) = ty \<and> reads' = []))"
  have never: "stuck fd' n' offs' ty' i' reads' y"
    if "sections_loop fd' n' offs' ty' i' reads' = Some y" for fd' n' offs' ty' i' reads' y
    using that
  proof (rule sections_loop.raw_induct [rotated])
    fix loop fd' n' offs' ty' i' reads' and y :: "(Shdr option \<times> PreadEvent list) outcome"
    assume IH: "\<And>fd' n' offs' ty' i' reads' y. loop fd' n' offs' ty' i' reads' = Some y \<Longrightarrow>
        stuck fd' n' offs' ty' i' reads' y"
      and step: "(if i' < n' then
          (let num_bytes_left = (n' - i') * sizeof_Shdr;
               num_bytes_to_read = (if 16 * sizeof_Shdr > num_bytes_left then num_bytes_left
                                    else 16 * sizeof_Shdr)
           in case ReadFromOffset fd' num_bytes_to_read (offs' + of_nat (i' * sizeof_Shdr)) reads' of
                Aborted \<Rightarrow> Some Aborted
              | Done (None, reads') \<Rightarrow> Some (Done (None, reads'))
              | Done (Some bs, reads') \<Rightarrow>
                  if length bs mod sizeof_Shdr \<noteq> 0 then Some Aborted
                  else let num_headers_in_buf = length bs div sizeof_Shdr
                    in if 16 < num_headers_in_buf then Some Aborted
                       else case find (\<lambda>s. sh_type s = ty')
                             (map decode_Shdr (array_of sizeof_Shdr num_headers_in_buf bs)) of
                           Some s \<Rightarrow> Some (Done (Some s, reads'))
                         | None \<Rightarrow> loop fd' n' offs' ty' (i' + num_headers_in_buf) reads')
        else Some (Done (None, reads'))) = Some y"
    show "stuck fd' n' offs' ty' i' reads' y"
    proof (rule ccontr)
      assume not: "\<not> stuck fd' n' offs' ty' i' reads' y"
      then have "loop fd n offs ty i [] = Some y"
        using step r [unfolded c_def] assms(3) by (simp add: stuck_def Let_def array_of_def)
      from IH[OF this] show False by (simp add: stuck_def)
    qed
  qed
  show ?thesis
  proof (cases "sections_loop fd n offs ty i []")
    case (Some y)
    then show ?thesis using never[OF Some] by (simp add: stuck_def)
  qed simp
qed

subsection \<open>Symbols\<close>

definition symbols :: "nat \<Rightarrow> string \<Rightarrow> Sym list" where
  "symbols n bs = map decode_Sym (array_of sizeof_Sym n bs)"

lemma symbols_loop_step:
  assumes "coherent fd" and at: "fd (sh_offset symtab + of_nat i * sh_entsize symtab) = Some bs"
    and "no_failure reads" and "i < n" and "(n - i) * sizeof_Sym \<le> length bs" and "n < 4294967296"
  defines "k \<equiv> min 32 (n - i)"
  shows "\<exists>reads'. no_failure reads' \<and> symbols_loop pc fd out base strtab symtab n i reads =
    (case find (covers pc base) (symbols k bs) of
       Some s \<Rightarrow> Some (read_name fd out strtab s reads')
     | None \<Rightarrow> symbols_loop pc fd out base strtab symtab n (i + k) reads')"
proof -
  obtain reads' where r: "ReadFromOffset fd (sizeof_Sym * k)
      (sh_offset symtab + of_nat i * sh_entsize symtab) reads =
      Done (Some (take (sizeof_Sym * k) bs), reads')" "no_failure reads'"
    by (rule ReadFromOffset_some[where offset = "sh_offset symtab + of_nat i * sh_entsize symtab",
          OF assms(1) at assms(3), of "sizeof_Sym * k"]) (auto simp: k_def sizeof_Sym_def ssize_max_def)
  have "sizeof_Sym * k \<le> (n - i) * sizeof_Sym" by (simp add: k_def)
  then have "sizeof_Sym * k \<le> length bs" using assms(5) by linarith
  then have len: "length (take (sizeof_Sym * k) bs) = sizeof_Sym * k" by simp
  have "0 < sizeof_Sym" by (simp add: sizeof_Sym_def)
  then have "sizeof_Sym * k mod sizeof_Sym = 0" "sizeof_Sym * k div sizeof_Sym = k" by simp_all
  moreover have "array_of sizeof_Sym k (take (sizeof_Sym * k) bs) = array_of sizeof_Sym k bs"
    by (rule array_of_take_eq) simp
  moreover have "(i + k) mod 4294967296 = i + k" using assms(4,6) by (simp add: k_def)
  moreover have "min 32 (n - i) = k" by (simp add: k_def)
  ultimately have "symbols_loop pc fd out base strtab symtab n i reads =
    (case find (covers pc base) (symbols k bs) of
       Some s \<Rightarrow> Some (read_name fd out strtab s reads')
     | None \<Rightarrow> symbols_loop pc fd out base strtab symtab n (i + k) reads')"
    unfolding symbols_def
    by (subst symbols_loop.simps)
      (simp only: assms(4) Let_def r(1) len if_True if_False outcome.case prod.case option.case
        not_True_eq_False simp_thms less_irrefl)
  then show ?thesis using r(2) by blast
qed

lemma symbols_loop_spec:
  assumes "coherent fd" and "fd (sh_offset symtab) = Some bs" and "n * sizeof_Sym \<le> length bs"
    and "sh_entsize symtab = of_nat sizeof_Sym" and "n < 4294967296"
  shows "i \<le> n \<Longrightarrow> no_failure reads \<Longrightarrow> \<exists>reads'. no_failure reads' \<and>
    symbols_loop pc fd out base strtab symtab n i reads =
      Some (case find (covers pc base) (symbols (n - i) (drop (i * sizeof_Sym) bs)) of
              Some s \<Rightarrow> read_name fd out strtab s reads'
            | None \<Rightarrow> Done (False, out, reads'))"
proof (induction "n - i" arbitrary: i reads rule: less_induct)
  case less
  show ?case
  proof (cases "i < n")
    case False
    then show ?thesis
      using less.prems by (intro exI[of _ reads]) (subst symbols_loop.simps, simp add: symbols_def array_of_def)
  next
    case True
    define k where "k = min 32 (n - i)"
    have le: "i * sizeof_Sym \<le> length bs"
      using assms(3) True by (meson le_trans less_imp_le_nat mult_le_mono1)
    have at: "fd (sh_offset symtab + of_nat i * sh_entsize symtab) = Some (drop (i * sizeof_Sym) bs)"
      using coherentD[OF assms(1,2) le] by (simp add: assms(4))
    have len: "(n - i) * sizeof_Sym \<le> length (drop (i * sizeof_Sym) bs)"
      using assms(3) by (simp add: diff_mult_distrib)
    obtain reads1 where 1: "no_failure reads1" "symbols_loop pc fd out base strtab symtab n i reads =
        (case find (covers pc base) (symbols k (drop (i * sizeof_Sym) bs)) of
           Some s \<Rightarrow> Some (read_name fd out strtab s reads1)
         | None \<Rightarrow> symbols_loop pc fd out base strtab symtab n (i + k) reads1)"
      using symbols_loop_step[where fd = fd and symtab = symtab, OF assms(1) at less.prems(2) True len assms(5),
          of pc out base strtab] unfolding k_def by blast
    have k: "0 < k" "i + k \<le> n" using True by (auto simp: k_def)
    obtain reads2 where 2: "no_failure reads2" "symbols_loop pc fd out base strtab symtab n (i + k) reads1 =
        Some (case find (covers pc base) (symbols (n - (i + k)) (drop ((i + k) * sizeof_Sym) bs)) of
              Some s \<Rightarrow> read_name fd out strtab s reads2
            | None \<Rightarrow> Done (False, out, reads2))"
      using less.hyps[OF diff_less_mono2 k(2) 1(1)] k True by auto
    have split: "symbols (n - i) (drop (i * sizeof_Sym) bs) = symbols k (drop (i * sizeof_Sym) bs) @
        symbols (n - (i + k)) (drop ((i + k) * sizeof_Sym) bs)"
      using array_of_split[of sizeof_Sym k "n - (i + k)" "drop (i * sizeof_Sym) bs"] k(2)
      by (simp add: symbols_def algebra_simps)
    show ?thesis using 1 2 by (auto simp: split find_append split: option.splits)
  qed
qed

text \<open>The name of a symbol, when it fits into the buffer with its terminator.\<close>

lemma read_name_fits:
  assumes "coherent fd" and "no_failure reads" and "length out \<le> ssize_max"
    and at: "fd (sh_offset strtab + ucast (st_name s)) = Some (name @ NUL # rest)"
    and "no_nul name" and "length name < length out"
  shows "\<exists>out' reads'. read_name fd out strtab s reads = Done (True, out', reads') \<and>
    length out' = length out \<and> NUL \<in> set out' \<and> c_str out' = name"
proof -
  define bs where "bs = take (length out) (name @ NUL # rest)"
  obtain reads' where r: "ReadFromOffset fd (length out) (sh_offset strtab + ucast (st_name s)) reads =
      Done (Some bs, reads')"
    unfolding bs_def
    by (rule ReadFromOffset_some[where offset = "sh_offset strtab + ucast (st_name s)",
          OF assms(1) at assms(2,3)])
  have bs: "bs = name @ NUL # take (length out - Suc (length name)) rest"
    using assms(6) by (simp add: bs_def take_Cons')
  have "length bs \<le> length out" by (simp add: bs_def)
  moreover have "c_str (bs @ drop (length bs) out) = name"
    using c_str_append_nul[OF assms(5)] by (simp add: bs)
  ultimately show ?thesis using r by (simp add: read_name_def bs Let_def)
qed

lemma FindSymbol_spec:
  assumes "coherent fd" and "fd (sh_offset symtab) = Some bs"
    and "sh_size symtab = of_nat (n * sizeof_Sym)" and "n * sizeof_Sym \<le> length bs" and "n < 4294967296"
    and "sh_entsize symtab = of_nat sizeof_Sym" and "no_failure reads"
  shows "\<exists>reads'. no_failure reads' \<and> FindSymbol pc fd out base strtab symtab reads =
    Some (case find (covers pc base) (symbols n bs) of
            Some s \<Rightarrow> read_name fd out strtab s reads'
          | None \<Rightarrow> Done (False, out, reads'))"
proof -
  have "unat (of_nat m :: 64 word) = m" if "m < 18446744073709551616" for m
    using that by (simp add: unsigned_of_nat take_bit_nat_eq_self_iff)
  moreover have "n * sizeof_Sym < 18446744073709551616" using assms(5) by (simp add: sizeof_Sym_def)
  ultimately have "unat (sh_size symtab) = n * sizeof_Sym" unfolding assms(3) by blast
  moreover have "unat (sh_entsize symtab) = sizeof_Sym" "sh_entsize symtab \<noteq> 0"
    using assms(6) by (simp_all add: sizeof_Sym_def)
  ultimately have "FindSymbol pc fd out base strtab symtab reads =
      symbols_loop pc fd out base strtab symtab n 0 reads"
    by (simp add: FindSymbol_def sizeof_Sym_def)
  then show ?thesis
    using symbols_loop_spec[OF assms(1,2,4,6,5), of 0 reads pc out base strtab] assms(7) by simp
qed

text \<open>
  A defined symbol occupies the addresses from its value, moved by the base address, up to its size;
  a symbol without a value or without a section occupies none.
\<close>

definition occupies :: "64 word \<Rightarrow> 64 word \<Rightarrow> Sym \<Rightarrow> bool" where
  "occupies pc base s = (st_value s \<noteq> 0 \<and> st_shndx s \<noteq> 0 \<and>
     uint pc \<in> {uint (st_value s + base) ..< uint (st_value s + base) + uint (st_size s)})"

definition in_address_space :: "64 word \<Rightarrow> Sym \<Rightarrow> bool" where
  "in_address_space base s = (uint (st_value s + base) + uint (st_size s) < 2 ^ 64)"

lemma covers_occupies: "in_address_space base s \<Longrightarrow> covers pc base s \<longleftrightarrow> occupies pc base s"
proof -
  assume a: "in_address_space base s"
  then have "uint (st_value s + base + st_size s) = uint (st_value s + base) + uint (st_size s)"
    by (subst uint_plus_simple_iff [symmetric]) (simp add: in_address_space_def uint_add_lem no_olen_add)
  then show ?thesis by (auto simp: covers_def occupies_def Let_def word_le_def word_less_def)
qed

lemma find_covers:
  "list_all (in_address_space base) ss \<Longrightarrow> find (covers pc base) ss = find (occupies pc base) ss"
  by (induction ss) (auto simp: covers_occupies)

text \<open>
  C38. \<open>FindSymbol\<close> succeeds exactly when a defined symbol of the table occupies the address of the
  program counter, and then writes the name of the first such symbol, provided the name and its
  terminator fit into the buffer; otherwise it leaves the buffer alone. It does so for every table
  in the file whose symbols end within the address space, and every way the reads are split.
\<close>

theorem FindSymbol_first:
  assumes "coherent fd" and "fd (sh_offset symtab) = Some bs"
    and "sh_size symtab = of_nat (n * sizeof_Sym)" and "n * sizeof_Sym \<le> length bs" and "n < 4294967296"
    and "sh_entsize symtab = of_nat sizeof_Sym" and "no_failure reads"
    and "length out \<le> ssize_max" and "no_nul name" and "length name < length out"
    and "list_all (in_address_space base) (symbols n bs)"
    and "\<And>s. find (occupies pc base) (symbols n bs) = Some s \<Longrightarrow>
      \<exists>rest. fd (sh_offset strtab + ucast (st_name s)) = Some (name @ NUL # rest)"
  shows "\<exists>out' reads'. FindSymbol pc fd out base strtab symtab reads =
      Some (Done (find (occupies pc base) (symbols n bs) \<noteq> None, out', reads')) \<and>
    (if find (occupies pc base) (symbols n bs) = None then out' = out
     else length out' = length out \<and> c_str out' = name)"
proof -
  obtain reads' where r: "no_failure reads'" "FindSymbol pc fd out base strtab symtab reads =
    Some (case find (occupies pc base) (symbols n bs) of
            Some s \<Rightarrow> read_name fd out strtab s reads'
          | None \<Rightarrow> Done (False, out, reads'))"
    using FindSymbol_spec[OF assms(1-7), of pc out base strtab] find_covers[OF assms(11)] by metis
  show ?thesis
  proof (cases "find (occupies pc base) (symbols n bs)")
    case None
    then show ?thesis using r(2) by simp
  next
    case (Some s)
    then obtain rest where "fd (sh_offset strtab + ucast (st_name s)) = Some (name @ NUL # rest)"
      using assms(12) by blast
    from read_name_fits[OF assms(1) r(1) assms(8) this assms(9,10)]
    show ?thesis using r(2) Some by auto
  qed
qed

text \<open>A file with one symbol of value 8 and size 8, followed by its name.\<close>

definition demo_symbols :: string where
  "demo_symbols = [NUL, NUL, NUL, NUL, NUL, NUL, CHR 0x01, NUL, CHR 0x08, NUL, NUL, NUL, NUL, NUL, NUL, NUL,
     CHR 0x08, NUL, NUL, NUL, NUL, NUL, NUL, NUL] @ ''main'' @ [NUL]"

definition demo_symtab :: Shdr where
  "demo_symtab = \<lparr>sh_name = 0, sh_type = 2, sh_offset = 0, sh_size = 24, sh_link = 0, sh_entsize = 24\<rparr>"

definition demo_strtab :: Shdr where
  "demo_strtab = \<lparr>sh_name = 0, sh_type = 3, sh_offset = 24, sh_size = 5, sh_link = 0, sh_entsize = 0\<rparr>"

theorem FindSymbol_first_witness:
  "\<exists>out' reads'. FindSymbol 10 (regular_file demo_symbols) (replicate 8 CHR ''?'') 0 demo_strtab demo_symtab
     [Chunk 1] = Some (Done (True, out', reads')) \<and> c_str out' = ''main''"
proof -
  have len: "length demo_symbols = 29" by (simp add: demo_symbols_def)
  have syms: "symbols 1 demo_symbols = [\<lparr>st_name = 0, st_shndx = 1, st_value = 8, st_size = 8\<rparr>]"
    by (simp add: symbols_def array_of_def decode_Sym_def field_def le_val_def demo_symbols_def sizeof_Sym_def)
  have "occupies 10 0 \<lparr>st_name = 0, st_shndx = 1, st_value = 8, st_size = 8\<rparr>"
    by (simp add: occupies_def)
  then have find: "find (occupies 10 0) (symbols 1 demo_symbols) =
      Some \<lparr>st_name = 0, st_shndx = 1, st_value = 8, st_size = 8\<rparr>"
    by (simp only: syms find.simps if_True)
  have space: "list_all (in_address_space 0) (symbols 1 demo_symbols)"
    unfolding syms by (simp add: in_address_space_def)
  have "drop 24 demo_symbols = ''main'' @ [NUL]" by (simp add: demo_symbols_def)
  then have name: "regular_file demo_symbols (sh_offset demo_strtab + ucast (0 :: 32 word)) =
      Some (''main'' @ NUL # [])"
    using regular_file_at[of 24 demo_symbols] by (simp add: demo_strtab_def ssize_max_def)
  have at: "regular_file demo_symbols (sh_offset demo_symtab) = Some demo_symbols"
    by (simp add: demo_symtab_def regular_file_at)
  have coh: "coherent (regular_file demo_symbols)"
    by (rule regular_coherent) (simp add: len ssize_max_def)
  show ?thesis
    using FindSymbol_first[OF coh at, of 1 "[Chunk 1]" "replicate 8 CHR ''?''" "''main''" 0 10 demo_strtab]
      find name len space
    by (fastforce simp: demo_symtab_def sizeof_Sym_def ssize_max_def)
qed

subsection \<open>What symbolizing leaves in the buffer\<close>

text \<open>A buffer of the same size that is terminated when the routine reports success.\<close>

definition kept :: "string \<Rightarrow> bool \<Rightarrow> string \<Rightarrow> bool" where
  "kept out ok out' = (length out' = length out \<and> (ok \<longrightarrow> NUL \<in> set out'))"

lemma kept_trans: "kept out b out1 \<Longrightarrow> kept out1 c out2 \<Longrightarrow> kept out c out2"
  by (simp add: kept_def)

lemma kept_refl: "kept out False out"
  by (simp add: kept_def)

lemma ReadFromOffset_Done_le:
  "ReadFromOffset fd count offset reads = Done (Some bs, reads') \<Longrightarrow> length bs \<le> count"
  by (auto simp: ReadFromOffset_def Let_def split: if_splits prod.splits)

lemma read_name_kept:
  assumes "read_name fd out strtab s reads = Done (ok, out', reads')"
  shows "kept out ok out'"
proof (cases "ReadFromOffset fd (length out) (sh_offset strtab + ucast (st_name s)) reads")
  case (Done p)
  obtain res reads1 where p: "p = (res, reads1)" by fastforce
  have "length bs + (length out - length bs) = length out" if "res = Some bs" for bs
    using ReadFromOffset_Done_le[of fd "length out" _ reads bs reads1] Done p that by simp
  then show ?thesis
    using assms Done p
    by (auto simp: read_name_def kept_def Let_def split: option.splits if_splits)
qed (use assms in \<open>simp add: read_name_def\<close>)

lemma symbols_loop_kept:
  assumes "symbols_loop pc fd out base strtab symtab n i reads = Some res"
  shows "res = Done (ok, out', reads') \<Longrightarrow> kept out ok out'"
  using assms
proof (induction arbitrary: ok out' reads'
    rule: symbols_loop.raw_induct [rotated, consumes 1, case_names step])
  case (step loop pc fd out base strtab symtab n i reads res)
  show ?case
  proof (cases "i < n")
    case False
    then show ?thesis using step(2,3) by (auto simp: kept_refl)
  next
    case True
    show ?thesis
      using step True
      by (auto simp: Let_def dest: read_name_kept split: outcome.splits option.splits if_splits prod.splits)
  qed
qed

lemma FindSymbol_kept:
  "FindSymbol pc fd out base strtab symtab reads = Some (Done (ok, out', reads')) \<Longrightarrow> kept out ok out'"
  by (auto simp: FindSymbol_def dest: symbols_loop_kept split: if_splits)

lemma search_table_kept:
  assumes "search_table ty ehdr pc fd out base reads = Some (Done r)"
  shows "case r of Inl (ok, out', reads') \<Rightarrow> kept out ok out' | Inr (out', reads') \<Rightarrow> kept out False out'"
proof -
  obtain hdr reads1 where h: "GetSectionHeaderByType fd (e_shnum ehdr) (e_shoff ehdr) ty reads =
      Some (Done (hdr, reads1))"
    using assms unfolding search_table_def andThen_eq_Done by auto
  show ?thesis
  proof (cases hdr)
    case None
    then show ?thesis using assms h by (auto simp: search_table_def kept_refl)
  next
    case (Some symtab)
    have k: "kept out False out'" if "kept out ok out'" for ok out'
      using that by (simp add: kept_def)
    show ?thesis
      using assms h Some
      by (auto simp: search_table_def andThen_eq_Done kept_refl dest!: FindSymbol_kept
          split: outcome.splits option.splits if_splits intro: k)
  qed
qed

lemma GetSymbolFromObjectFile_kept:
  assumes "GetSymbolFromObjectFile fd pc out base reads = Some (Done (ok, out', reads'))"
  shows "kept out ok out'"
proof -
  consider (eof) "ok = False" "out' = out"
    | (tables) ehdr reads1 r where "search_table SHT_SYMTAB ehdr pc fd out base reads1 = Some (Done r)"
      "(case r of Inl res \<Rightarrow> Some (Done res)
        | Inr (out2, reads2) \<Rightarrow> andThen (search_table SHT_DYNSYM ehdr pc fd out2 base reads2) (\<lambda>r.
            case r of Inl res \<Rightarrow> Some (Done res)
            | Inr (out3, reads3) \<Rightarrow> Some (Done (False, out3, reads3)))) = Some (Done (ok, out', reads'))"
    using assms unfolding GetSymbolFromObjectFile_def
    by (auto simp: andThen_eq_Done split: outcome.splits option.splits)
  then show ?thesis
  proof cases
    case tables
    show ?thesis
    proof (cases r)
      case (Inl res)
      then show ?thesis using tables search_table_kept[OF tables(1)] by auto
    next
      case (Inr p)
      obtain out2 reads2 where p: "p = (out2, reads2)" by fastforce
      have k: "kept out False out2" using search_table_kept[OF tables(1)] Inr p by simp
      obtain r2 where r2: "search_table SHT_DYNSYM ehdr pc fd out2 base reads2 = Some (Done r2)"
        "(case r2 of Inl res \<Rightarrow> Some (Done res)
          | Inr (out3, reads3) \<Rightarrow> Some (Done (False, out3, reads3))) = Some (Done (ok, out', reads'))"
        using tables(2) Inr p by (auto simp: andThen_eq_Done)
      have "kept out2 ok out'"
        using search_table_kept[OF r2(1)] r2(2) by (cases r2) auto
      then show ?thesis using k kept_trans by blast
    qed
  qed (simp add: kept_refl)
qed

lemma strncpy_nul_length: "length (strncpy_nul dest source) = length dest"
  using strncpy_nul_holds[of dest source] by (cases "dest = []") (auto simp: holds_str_def strncpy_nul_def)

lemma maps_loop_length:
  assumes "maps_loop open_f maps mem pc reader name st = Some res"
  shows "res = Done (fd, name', st') \<Longrightarrow> length name' = length name"
  using assms
proof (induction arbitrary: fd name' st' rule: maps_loop.raw_induct [rotated, consumes 1, case_names step])
  case (step loop open_f maps mem pc reader name st res)
  then show ?case
    by (auto simp: strncpy_nul_length
        split: outcome.splits option.splits prod.splits MapResult.splits)
qed

lemma open_object_length:
  "g_symbolize_open_object_file_callback cbs = None \<Longrightarrow>
   open_object env cbs pc name st = Some (Done (fd, name', st')) \<Longrightarrow> length name' = length name"
  by (auto simp: open_object_def OpenObjectFileContainingPcAndGetStartAddress_def
      dest: maps_loop_length split: option.splits)

lemma SafeAppendString_kept: "SafeAppendString source dest = Done out \<Longrightarrow> kept dest True out"
proof -
  assume a: "SafeAppendString source dest = Done out"
  then have l: "length (c_str dest) < length dest"
    and out: "out = take (length (c_str dest)) dest @ strncpy_nul (drop (length (c_str dest)) dest) source"
    by (auto simp: SafeAppendString_def Let_def split: if_splits)
  have "holds_str (strncpy_nul (drop (length (c_str dest)) dest) source)
      (length (drop (length (c_str dest)) dest)) (c_str source)"
    by (rule strncpy_nul_holds) (use l in simp)
  then show ?thesis using l by (auto simp: kept_def out holds_str_def)
qed

lemma append_offset_kept: "append_offset w out = Some (Done out') \<Longrightarrow> kept out True out'"
proof -
  assume "append_offset w out = Some (Done out')"
  then obtain out1 out2 where 1: "SafeAppendString ''+0x'' (out[length out - 1 := NUL]) = Done out1"
    and 2: "SafeAppendHexNumber w out1 = Done out2" and 3: "SafeAppendString '')'' out2 = Done out'"
    by (auto simp: append_offset_def andThen_eq_Done)
  have "kept out1 True out2"
    using 2 by (auto simp: SafeAppendHexNumber_def Let_def dest: SafeAppendString_kept
        split: prod.splits if_splits)
  then show ?thesis
    using SafeAppendString_kept[OF 1] SafeAppendString_kept[OF 3] by (simp add: kept_def)
qed

lemma DemangleInplace_kept:
  assumes "DemangleInplace uninit out = Some (Done out')" and "NUL \<in> set out"
  shows "kept out True out'"
proof -
  obtain ok dem where d: "Demangle (c_str out) uninit = Some (ok, dem)"
    using assms(1) by (auto simp: DemangleInplace_def split: option.splits)
  have "out' = c_str dem @ NUL # drop (length (c_str dem) + 1) out \<and> length (c_str dem) + 1 \<le> length out \<or>
      out' = out"
    using assms(1) d by (auto simp: DemangleInplace_def Let_def split: if_splits)
  then show ?thesis using assms(2) by (auto simp: kept_def)
qed

lemma symbolize_open_plain:
  assumes "FileGetElfType fd (pending st) = Done (Some ty, reads1)" and "g_symbolize_callback cbs = None"
  shows "symbolize_open env cbs beyond pc fd out st =
    andThen (GetSymbolFromObjectFile fd pc out (base_address st) reads1) (\<lambda>(found, out2, reads2).
      if found then andThen (DemangleInplace (uninit_demangled env) out2) (\<lambda>out3. Some (Done (True, out3)))
      else if out_1 beyond out2 \<noteq> NUL
      then andThen (append_offset (pc - base_address st) out2) (\<lambda>out3. Some (Done (True, out3)))
      else Some (Done (False, out2)))"
  using assms by (simp add: symbolize_open_def run_callback_def cong: if_cong)

lemma symbolize_open_kept:
  assumes "symbolize_open env cbs beyond pc fd out st = Some (Done (ok, out'))"
    and "g_symbolize_callback cbs = None"
  shows "kept out ok out'"
proof (cases "FileGetElfType fd (pending st)")
  case (Done p)
  obtain res reads1 where p: "p = (res, reads1)" by fastforce
  show ?thesis
  proof (cases res)
    case None
    then show ?thesis using assms(1) Done p by (simp add: symbolize_open_def kept_refl)
  next
    case (Some ty)
    then have elf: "FileGetElfType fd (pending st) = Done (Some ty, reads1)" using Done p by simp
    obtain found out2 reads2 where
      g: "GetSymbolFromObjectFile fd pc out (base_address st) reads1 = Some (Done (found, out2, reads2))"
      and r: "(if found then andThen (DemangleInplace (uninit_demangled env) out2) (\<lambda>out3. Some (Done (True, out3)))
         else if out_1 beyond out2 \<noteq> NUL
         then andThen (append_offset (pc - base_address st) out2) (\<lambda>out3. Some (Done (True, out3)))
         else Some (Done (False, out2))) = Some (Done (ok, out'))"
      using assms(1) unfolding symbolize_open_plain[OF elf assms(2)] andThen_eq_Done by auto
    have k: "kept out found out2" by (rule GetSymbolFromObjectFile_kept[OF g])
    consider "found" "ok" "DemangleInplace (uninit_demangled env) out2 = Some (Done out')"
      | "ok" "append_offset (pc - base_address st) out2 = Some (Done out')" | "\<not> ok" "out' = out2"
      using r by (auto simp: andThen_eq_Done split: if_splits)
    then show ?thesis
      by cases (use k in \<open>auto simp: kept_def dest: DemangleInplace_kept append_offset_kept
        intro: DemangleInplace_kept [unfolded kept_def, THEN conjunct1]\<close>)
  qed
qed (use assms(1) in \<open>simp add: symbolize_open_def\<close>)

text \<open>
  C25. Memory safety of \<open>Symbolize\<close> without callbacks: on every run that returns the caller's
  buffer has its size, and when success is reported it holds a terminated text, whatever the
  object files contain and however the reads end.
\<close>

theorem Symbolize_terminated:
  assumes "Symbolize env cbs beyond pc out reads = Some (Done (ok, out'))"
    and "g_symbolize_callback cbs = None" and "g_symbolize_open_object_file_callback cbs = None"
  shows "length out' = length out \<and> (if ok then NUL \<in> set out' else True)"
proof (cases "length out < 1")
  case True
  then show ?thesis using assms(1) by (auto simp: Symbolize_def SymbolizeAndDemangle_def)
next
  case False
  obtain out1 object_fd name st where 1: "SafeAppendString ''('' (out[0 := NUL]) = Done out1"
    and 2: "open_object env cbs pc (tl out1) \<lparr>start_address = 0, base_address = 0, pending = reads\<rparr> =
      Some (Done (object_fd, name, st))"
    and 3: "(let out2 = hd out1 # name
       in case object_fd of
         None \<Rightarrow> if out_1 beyond out2 \<noteq> NUL
           then andThen (append_offset (pc - base_address st) out2) (\<lambda>out3. Some (Done (True, out3)))
           else Some (Done (False, out2))
       | Some fd \<Rightarrow> symbolize_open env cbs beyond pc fd out2 st) = Some (Done (ok, out'))"
    using assms(1) False by (auto simp: Symbolize_def SymbolizeAndDemangle_def andThen_eq_Done)
  define out2 where "out2 = hd out1 # name"
  have "length out1 = length out" using SafeAppendString_kept[OF 1] by (simp add: kept_def)
  then have len: "length out2 = length out"
    using open_object_length[OF assms(3) 2] False by (simp add: out2_def)
  have "kept out2 ok out'"
  proof (cases object_fd)
    case None
    then show ?thesis
      using 3 by (auto simp: out2_def [symmetric] Let_def andThen_eq_Done kept_refl
          dest: append_offset_kept split: if_splits)
  next
    case (Some fd)
    then show ?thesis using 3 symbolize_open_kept[OF _ assms(2)] by (simp add: out2_def Let_def)
  qed
  then show ?thesis using len by (simp add: kept_def)
qed

text \<open>
  \<open>Symbolize\<close> of an address in a file that cannot be opened succeeds with the text
  \<^verbatim>\<open>(<file>+0x<offset>)\<close>, the offset being relative to the base address the map gives, cut to the
  caller's buffer.
\<close>

theorem Symbolize_unopened:
  assumes "open_file env ''/proc/self/maps'' = Some maps" and "open_file env ''/proc/self/mem'' = Some mem"
    and "coherent maps" and "coherent mem" and "no_failure reads" and "length (uninit_line env) = 1024"
    and "maps 0 = Some (maps_text (es @ e # es') @ t)" and "list_all entry_ok (es @ [e])"
    and "list_all (\<lambda>e. \<not> selected pc e) es" and "selected pc e"
    and "me_rest e = rest_text offset dev inode pad path" and "CHR '' '' \<notin> set dev"
    and "CHR '' '' \<notin> set inode" and "path \<noteq> []" and "hd path \<noteq> CHR '' ''" and "no_nul path"
    and "open_file env path = None" and "g_symbolize_open_object_file_callback cbs = None"
    and "3 \<le> length out"
  shows "\<exists>out'. Symbolize env cbs beyond pc out reads = Some (Done (True, out')) \<and>
    c_str out' = take (length out - 1)
      (''('' @ path @ ''+0x'' @ num_str 16 (unat (pc - base_after_all mem (es @ [e]) 0)) @ '')'')"
proof -
  define n where "n = length out"
  have n3: "3 \<le> n" using assms(19) by (simp add: n_def)
  define st0 where "st0 = \<lparr>start_address = 0, base_address = 0, pending = reads\<rparr>"
  have "holds_str (out[0 := NUL]) n []"
    using assms(19) by (cases out) (auto simp: holds_str_def n_def c_str_def)
  then obtain out1 where 1: "SafeAppendString ''('' (out[0 := NUL]) = Done out1" "holds_str out1 n ''(''"
    using SafeAppendString_holds[of "out[0 := NUL]" n "[]" "''(''"] n3 c_str_no_nul[of "''(''"]
    by auto
  have "c_str out1 = ''(''" using 1(2) n3 by (simp add: holds_str_def)
  moreover have "NUL \<in> set out1" "length out1 = n" using 1(2) by (simp_all add: holds_str_def)
  ultimately obtain rest where out1: "out1 = CHR ''('' # rest" "length rest = n - 1"
    using c_str_split[of out1] by fastforce
  then have hd1: "hd out1 = CHR ''(''" and len1: "length (tl out1) = n - 1" "tl out1 \<noteq> []"
    using n3 by auto
  obtain st' where 2: "OpenObjectFileContainingPcAndGetStartAddress (open_file env) (uninit_line env) pc
      (tl out1) st0 = Some (Done (None, strncpy_nul (tl out1) path, st'))"
    "base_address st' = base_after_all mem (es @ [e]) 0"
    using maps_search[where open_file = "open_file env" and st = st0 and out = "tl out1",
        OF assms(1-4) _ assms(6-16)] assms(5,17) by (auto simp: st0_def)
  define out2 where "out2 = CHR ''('' # strncpy_nul (tl out1) path"
  have name: "holds_str (strncpy_nul (tl out1) path) (n - 1) path"
    using strncpy_nul_holds[OF len1(2), of path] len1(1) c_str_no_nul[OF assms(16)] by simp
  then have "holds_str out2 n (''('' @ path)"
    using assms(19) by (auto simp: holds_str_def out2_def n_def c_str_def take_Cons')
  then obtain out' where 3: "append_offset (pc - base_address st') out2 = Some (Done out')"
    "holds_str out' n (''('' @ path @ ''+0x'' @ num_str 16 (unat (pc - base_address st')) @ '')'')"
    using append_offset_holds[of out2 n "''('' @ path" "pc - base_address st'"] n3
    by auto
  have "c_str (strncpy_nul (tl out1) path) = hd path # take (n - 3) (tl path)"
    using name n3 assms(14) by (cases path) (auto simp: holds_str_def take_Cons' numeral_3_eq_3)
  then obtain nm where "strncpy_nul (tl out1) path = hd path # nm"
    by (cases "strncpy_nul (tl out1) path") (auto simp: c_str_def split: if_splits)
  moreover have "hd path \<noteq> NUL" using assms(14,16) by (cases path) auto
  ultimately have "out_1 beyond out2 \<noteq> NUL" by (simp add: out_1_def out2_def)
  then have "Symbolize env cbs beyond pc out reads = Some (Done (True, out'))"
    using 1(1) 2(1) 3(1) assms(18,19) hd1
    by (cases out) (simp_all add: Symbolize_def SymbolizeAndDemangle_def open_object_def st0_def out2_def)
  then show ?thesis using 3(2) 2(2) by (simp add: holds_str_def n_def)
qed

theorem Symbolize_unopened_witness:
  "\<exists>out'. Symbolize \<lparr>open_file = demo_files, uninit_line = replicate 1024 NUL, uninit_demangled = []\<rparr>
      \<lparr>g_symbolize_callback = None, g_symbolize_open_object_file_callback = None\<rparr> NUL 0x08048005
      (replicate 12 CHR ''?'') [Interrupted, Chunk 2] = Some (Done (True, out')) \<and>
    c_str out' = ''(/bin/cat+0''"
proof -
  have "coherent (regular_file (maps_text [demo_other, demo_entry]))" "coherent (regular_file [])"
    using demo_map(4) by (auto intro: regular_coherent)
  moreover have "regular_file (maps_text [demo_other, demo_entry]) 0 =
      Some (maps_text ([demo_other] @ demo_entry # []) @ [])"
    by (simp add: regular_file_at)
  moreover have "list_all entry_ok ([demo_other] @ [demo_entry])"
    "list_all (\<lambda>e. \<not> selected 0x08048005 e) [demo_other]" "selected 0x08048005 demo_entry"
    using demo_map by simp_all
  moreover have "me_rest demo_entry = rest_text 0 ''08:01'' ''2142121'' 3 ''/bin/cat''"
    by (simp add: demo_entry_def)
  ultimately show ?thesis
    using Symbolize_unopened[where maps = "regular_file (maps_text [demo_other, demo_entry])"
        and env = "\<lparr>open_file = demo_files, uninit_line = replicate 1024 NUL, uninit_demangled = []\<rparr>"
        and mem = "regular_file []" and pc = "0x08048005" and reads = "[Interrupted, Chunk 2]" and es = "[demo_other]"
        and e = demo_entry and es' = "[]" and t = "[]" and offset = 0 and dev = "''08:01''"
        and inode = "''2142121''" and pad = 3 and path = "''/bin/cat''" and out = "replicate 12 CHR ''?''"
        and cbs = "\<lparr>g_symbolize_callback = None, g_symbolize_open_object_file_callback = None\<rparr>" and beyond = NUL]
    by (auto simp: demo_files_def)
qed

theorem Symbolize_terminated_witness:
  "\<exists>out'. Symbolize \<lparr>open_file = demo_files, uninit_line = replicate 1024 NUL, uninit_demangled = []\<rparr>
      \<lparr>g_symbolize_callback = None, g_symbolize_open_object_file_callback = None\<rparr> NUL 0x08048005
      (replicate 12 CHR ''?'') [Interrupted, Chunk 2] = Some (Done (True, out')) \<and>
    length out' = 12 \<and> NUL \<in> set out'"
  using Symbolize_unopened_witness Symbolize_terminated by fastforce

end
