(* ===== verification/Log_Text.thy ===== *)
theory Log_Text
  imports Utilities
begin

section \<open>Logging: text routines\<close>

text \<open>
  The routines of \<^verbatim>\<open>src/logging.cc\<close> that only build text: durations, shell quoting, trimming,
  splitting, the messages of failed checks, error numbers, and the prefix of a log line.
  A \<^verbatim>\<open>std::string\<close> is the list of its characters; it may contain NUL.
\<close>

subsection \<open>Durations\<close>

definition two_digits :: "int \<Rightarrow> string" where
  "two_digits x = pad_left 2 CHR ''0'' (int_str x)"

text \<open>Division and remainder of C truncate towards zero.\<close>

definition c_div :: "int \<Rightarrow> int \<Rightarrow> int" where
  "c_div a b = sgn a * sgn b * (\<bar>a\<bar> div \<bar>b\<bar>)"

definition c_mod :: "int \<Rightarrow> int \<Rightarrow> int" where
  "c_mod a b = a - c_div a b * b"

definition PrettyDuration :: "int \<Rightarrow> string" where
  "PrettyDuration secs =
     (let mins = c_div secs 60;
          hours = c_div mins 60;
          mins = c_mod mins 60;
          secs = c_mod secs 60
      in int_str hours @ '':'' @ two_digits mins @ '':'' @ two_digits secs)"

subsection \<open>Quoting for the shell\<close>

definition kDontNeedShellEscapeChars :: string where
  "kDontNeedShellEscapeChars =
     ''ABCDEFGHIJKLMNOPQRSTUVWXYZabcdefghijklmnopqrstuvwxyz0123456789+-_.=/:,@''"

definition shell_special :: "char \<Rightarrow> bool" where
  "shell_special c = (c = CHR 0x5C \<or> c = CHR ''$'' \<or> c = CHR 0x22 \<or> c = CHR 0x60)"

definition ShellEscape :: "string \<Rightarrow> string" where
  "ShellEscape src =
     (if src \<noteq> [] \<and> list_all (\<lambda>c. c \<in> set kDontNeedShellEscapeChars) src then src
      else if CHR 0x27 \<notin> set src then [CHR 0x27] @ src @ [CHR 0x27]
      else [CHR 0x22] @ concat (map (\<lambda>c. if shell_special c then [CHR 0x5C, c] else [c]) src) @ [CHR 0x22])"

subsection \<open>Trimming and splitting\<close>

text \<open>\<open>isspace\<close> in the C locale.\<close>

definition c_isspace :: "char \<Rightarrow> bool" where
  "c_isspace c = (c \<in> {CHR '' '', CHR 0x09, CHR 0x0A, CHR 0x0B, CHR 0x0C, CHR 0x0D})"

definition trim :: "string \<Rightarrow> string" where
  "trim s = (let s1 = dropWhile c_isspace s in rev (dropWhile c_isspace (rev s1)))"

text \<open>
  The position of the next delimiter: the first of the delimiter characters that occurs at or
  behind \<open>from\<close> decides, not the one that occurs first.
\<close>

definition find_from :: "string \<Rightarrow> char \<Rightarrow> nat \<Rightarrow> nat option" where
  "find_from str c from =
     (let k = length (takeWhile (\<lambda>x. x \<noteq> c) (drop from str))
      in if from + k < length str then Some (from + k) else None)"

fun next_delim :: "string \<Rightarrow> string \<Rightarrow> nat \<Rightarrow> nat option" where
  "next_delim str [] from = None"
| "next_delim str (i # delimeter) from =
     (case find_from str i from of Some idx \<Rightarrow> Some idx | None \<Rightarrow> next_delim str delimeter from)"

function split_loop :: "string \<Rightarrow> string \<Rightarrow> nat \<Rightarrow> string list" where
  "split_loop str delimeter from =
     (case next_delim str delimeter from of
        None \<Rightarrow> [drop from str]
      | Some to \<Rightarrow>
          if from \<le> to \<and> to < length str
          then take (to - from) (drop from str) # split_loop str delimeter (to + 1)
          else [drop from str])"
  by pat_completeness auto
termination by (relation "measure (\<lambda>(str, delimeter, from). length str - from)") auto

declare split_loop.simps [simp del]

definition split_str :: "string \<Rightarrow> string \<Rightarrow> string list" where
  "split_str str delimeter = (if str = [] then [] else split_loop str delimeter 0)"

subsection \<open>Failed checks\<close>

text \<open>The messages of \<^verbatim>\<open>CHECK_STREQ\<close> and its variants; \<open>None\<close> stands for a null pointer.\<close>

definition to_lower :: "char \<Rightarrow> char" where
  "to_lower c = (if is_upper c then char_of (of_char c + 32 :: nat) else c)"

definition str_eq :: "bool \<Rightarrow> string \<Rightarrow> string \<Rightarrow> bool" where
  "str_eq ignore_case s1 s2 =
     (if ignore_case then map to_lower s1 = map to_lower s2 else s1 = s2)"

definition CheckStrImpl :: "string \<Rightarrow> bool \<Rightarrow> bool \<Rightarrow> string option \<Rightarrow> string option \<Rightarrow> string \<Rightarrow>
    string option" where
  "CheckStrImpl name ignore_case expected s1 s2 names =
     (let equal = (case (s1, s2) of
            (None, None) \<Rightarrow> True
          | (Some a, Some b) \<Rightarrow> str_eq ignore_case a b
          | _ \<Rightarrow> False);
          show_str = (\<lambda>s. case s of None \<Rightarrow> [] | Some a \<Rightarrow> a)
      in if equal = expected then None
         else Some (name @ '' failed: '' @ names @ '' ('' @ show_str s1 @ '' vs. '' @ show_str s2 @ '')''))"

definition CHECK_STREQ :: "string option \<Rightarrow> string option \<Rightarrow> string \<Rightarrow> string option" where
  "CHECK_STREQ = CheckStrImpl ''CHECK_STREQ'' False True"

definition CHECK_STRNE :: "string option \<Rightarrow> string option \<Rightarrow> string \<Rightarrow> string option" where
  "CHECK_STRNE = CheckStrImpl ''CHECK_STRNE'' False False"

definition CHECK_STRCASEEQ :: "string option \<Rightarrow> string option \<Rightarrow> string \<Rightarrow> string option" where
  "CHECK_STRCASEEQ = CheckStrImpl ''CHECK_STRCASEEQ'' True True"

definition CHECK_STRCASENE :: "string option \<Rightarrow> string option \<Rightarrow> string \<Rightarrow> string option" where
  "CHECK_STRCASENE = CheckStrImpl ''CHECK_STRCASENE'' True False"

text \<open>The stream of a \<open>CheckOpMessageBuilder\<close>, and the text of two values.\<close>

definition CheckOpMessageBuilder :: "string \<Rightarrow> string" where
  "CheckOpMessageBuilder exprtext = exprtext @ '' (''"

definition ForVar2 :: "string \<Rightarrow> string" where
  "ForVar2 stream = stream @ '' vs. ''"

definition NewString :: "string \<Rightarrow> string" where
  "NewString stream = stream @ '')''"

definition MakeCheckOpString :: "string \<Rightarrow> string \<Rightarrow> string \<Rightarrow> string" where
  "MakeCheckOpString exprtext v1 v2 = NewString (ForVar2 (CheckOpMessageBuilder exprtext @ v1) @ v2)"

text \<open>Characters: \<open>char\<close> is signed.\<close>

definition schar :: "char \<Rightarrow> int" where
  "schar c = (let n = of_char c in if n < 128 then n else n - 256)"

definition MakeCheckOpValueString_char :: "char \<Rightarrow> string" where
  "MakeCheckOpValueString_char v =
     (if 32 \<le> schar v \<and> schar v \<le> 126 then [CHR 0x27, v, CHR 0x27]
      else ''char value '' @ int_str (schar v))"

definition MakeCheckOpValueString_schar :: "char \<Rightarrow> string" where
  "MakeCheckOpValueString_schar v =
     (if 32 \<le> schar v \<and> schar v \<le> 126 then [CHR 0x27, v, CHR 0x27]
      else ''signed char value '' @ int_str (schar v))"

definition MakeCheckOpValueString_uchar :: "char \<Rightarrow> string" where
  "MakeCheckOpValueString_uchar v =
     (if 32 \<le> (of_char v :: int) \<and> (of_char v :: int) \<le> 126 then [CHR 0x27, v, CHR 0x27]
      else ''unsigned char value '' @ int_str (of_char v))"

definition MakeCheckOpValueString_nullptr :: string where
  "MakeCheckOpValueString_nullptr = ''nullptr''"

subsection \<open>Error numbers\<close>

text \<open>
  What \<open>strerror_r\<close> of the C library does: it may set \<open>errno\<close>, it may write into the buffer, and
  it returns a pointer, null (the standard's variant), the buffer itself or another string (the
  GNU variant).
\<close>

datatype strerror_ret = NullRet | SameBuf | OtherStr string

record StrErr =
  se_errno :: int
  se_buf :: string
  se_ret :: strerror_ret

definition strncat_nul :: "string \<Rightarrow> nat \<Rightarrow> string \<Rightarrow> string" where
  "strncat_nul s n buf = (let t = take n (c_str s) @ [NUL] in t @ drop (length t) buf)"

text \<open>The result is the return code, the buffer, and \<open>errno\<close>.\<close>

definition posix_strerror_r :: "(string \<Rightarrow> StrErr) \<Rightarrow> string option \<Rightarrow> int \<Rightarrow> int \<times> string \<times> int" where
  "posix_strerror_r strerror_r buf errno =
     (case buf of
        None \<Rightarrow> (- 1, [], 22)
      | Some b \<Rightarrow>
          if b = [] then (- 1, [], 22)
          else let r = strerror_r (b[0 := NUL])
            in if se_errno r \<noteq> 0 then (- 1, (se_buf r)[0 := NUL], se_errno r)
               else let b1 = (se_buf r)[length b - 1 := NUL]
                 in case se_ret r of
                      NullRet \<Rightarrow> (0, b1, errno)
                    | SameBuf \<Rightarrow> (0, b1, errno)
                    | OtherStr s \<Rightarrow> (0, strncat_nul s (length b - 1) (b1[0 := NUL]), errno))"

definition StrError :: "(string \<Rightarrow> StrErr) \<Rightarrow> string \<Rightarrow> int \<Rightarrow> string" where
  "StrError strerror_r uninit err =
     (let (rc, buf, _) = posix_strerror_r strerror_r (Some uninit) 0
      in if rc < 0 \<or> hd buf = NUL then take 99 (''Error number '' @ int_str err) else c_str buf)"

subsection \<open>The prefix of a line\<close>

text \<open>\<^verbatim>\<open>std::tm\<close>, as far as the library reads it.\<close>

record Tm =
  tm_year :: int
  tm_mon :: int
  tm_mday :: int
  tm_hour :: int
  tm_min :: int
  tm_sec :: int
  tm_isdst :: int

record LogMessageTime =
  time_struct :: Tm
  timestamp :: int
  usecs :: int
  gmtoffset :: int

definition CalcGmtOffset :: "bool \<Rightarrow> (int \<Rightarrow> Tm) \<Rightarrow> (int \<Rightarrow> Tm) \<Rightarrow> (Tm \<Rightarrow> int) \<Rightarrow> LogMessageTime \<Rightarrow>
    LogMessageTime" where
  "CalcGmtOffset utc localtime_r gmtime_r mktime t =
     (let (gmt_struct, isDst) =
            (if utc then (time_struct t, tm_isdst (localtime_r (timestamp t)))
             else (gmtime_r (timestamp t), tm_isdst (time_struct t)));
          gmt_sec = mktime gmt_struct
      in t\<lparr>gmtoffset := timestamp t - gmt_sec + (if isDst \<noteq> 0 then 3600 else 0)\<rparr>)"

text \<open>\<open>usec\<close> is the fraction of the time in microseconds, truncated as the conversion does.\<close>

definition LogMessageTime_new :: "bool \<Rightarrow> (int \<Rightarrow> Tm) \<Rightarrow> (int \<Rightarrow> Tm) \<Rightarrow> (Tm \<Rightarrow> int) \<Rightarrow> int \<Rightarrow> int \<Rightarrow>
    LogMessageTime" where
  "LogMessageTime_new utc localtime_r gmtime_r mktime ts usec =
     CalcGmtOffset utc localtime_r gmtime_r mktime
       \<lparr>time_struct = (if utc then gmtime_r ts else localtime_r ts), timestamp = ts, usecs = usec,
        gmtoffset = 0\<rparr>"

text \<open>\<open>zero w x\<close> is the number with leading zeros: \<^verbatim>\<open>setfill('0') << setw(w)\<close>.\<close>

definition zero :: "nat \<Rightarrow> int \<Rightarrow> string" where
  "zero w x = pad_left w CHR ''0'' (int_str x)"

definition time_text :: "bool \<Rightarrow> LogMessageTime \<Rightarrow> string" where
  "time_text year_in_prefix t =
     (if year_in_prefix then zero 4 (1900 + tm_year (time_struct t)) else []) @
     zero 2 (1 + tm_mon (time_struct t)) @ zero 2 (tm_mday (time_struct t)) @ '' '' @
     zero 2 (tm_hour (time_struct t)) @ '':'' @ zero 2 (tm_min (time_struct t)) @ '':'' @
     zero 2 (tm_sec (time_struct t)) @ ''.'' @ zero 6 (usecs t)"

text \<open>\<open>LogSink::ToString\<close>; the prefix of \<open>LogMessage::Init\<close> is the same with the base name.\<close>

definition line_prefix :: "bool \<Rightarrow> string \<Rightarrow> string \<Rightarrow> int \<Rightarrow> LogMessageTime \<Rightarrow> int \<Rightarrow> string" where
  "line_prefix year_in_prefix severity_name fname line t tid =
     take 1 severity_name @ time_text year_in_prefix t @ '' '' @
     pad_left 5 CHR '' '' (int_str tid) @ '' '' @ fname @ '':'' @ int_str line @ ''] ''"

definition LogSink_ToString :: "bool \<Rightarrow> string \<Rightarrow> string \<Rightarrow> int \<Rightarrow> LogMessageTime \<Rightarrow> int \<Rightarrow> string \<Rightarrow> string" where
  "LogSink_ToString year_in_prefix severity_name fname line t tid msg =
     line_prefix year_in_prefix severity_name fname line t tid @ msg"

subsection \<open>Durations: the fields\<close>

lemma c_div_nonneg: "0 \<le> a \<Longrightarrow> 0 < b \<Longrightarrow> c_div a b = a div b"
  by (cases "a = 0") (simp_all add: c_div_def sgn_if)

lemma c_mod_nonneg: "0 \<le> a \<Longrightarrow> 0 < b \<Longrightarrow> c_mod a b = a mod b"
  by (simp add: c_mod_def c_div_nonneg minus_div_mult_eq_mod)

lemma PrettyDuration_fields:
  assumes "0 \<le> secs"
  obtains h m s where "PrettyDuration secs = int_str h @ '':'' @ two_digits m @ '':'' @ two_digits s"
    and "0 \<le> h" "0 \<le> m" "m < 60" "0 \<le> s" "s < 60" "secs = h * 3600 + m * 60 + s"
proof (rule that)
  let ?m = "secs div 60"
  have "0 \<le> ?m" using assms by simp
  then show "PrettyDuration secs = int_str (?m div 60) @ '':'' @ two_digits (?m mod 60) @ '':'' @
      two_digits (secs mod 60)"
    using assms by (simp add: PrettyDuration_def Let_def c_div_nonneg c_mod_nonneg)
  show "secs = ?m div 60 * 3600 + ?m mod 60 * 60 + secs mod 60" by presburger
qed (use assms in auto)

subsection \<open>Quoting is undone by the shell\<close>

text \<open>
  How a POSIX shell reads a word of a command line, character by character. No command line can
  carry a NUL. Outside quotes only characters with no meaning of their own are taken; between
  single quotes everything is literal; between double quotes a dollar or a backquote starts an
  expansion, and a backslash quotes a dollar, a backquote, a double quote and a backslash, joins
  two lines, and is kept in front of any other character. The result is the word, or \<open>None\<close> when
  the text is not one word without expansions.
\<close>

definition sh_meta :: "char \<Rightarrow> bool" where
  "sh_meta c = (c \<in> set ''|&;<>()$ *?[]#~!{}^%'' \<union>
     {CHR 0x60, CHR 0x5C, CHR 0x22, CHR 0x27, CHR 0x09, CHR 0x0A})"

datatype quoting = Unquoted | SingleQuoted | DoubleQuoted | Backslash

definition sh_char :: "quoting \<Rightarrow> char \<Rightarrow> (quoting \<times> string) option" where
  "sh_char q c =
     (if c = NUL then None
      else case q of
        Unquoted \<Rightarrow>
          if c = CHR 0x27 then Some (SingleQuoted, [])
          else if c = CHR 0x22 then Some (DoubleQuoted, [])
          else if sh_meta c then None
          else Some (Unquoted, [c])
      | SingleQuoted \<Rightarrow> if c = CHR 0x27 then Some (Unquoted, []) else Some (SingleQuoted, [c])
      | DoubleQuoted \<Rightarrow>
          if c = CHR 0x22 then Some (Unquoted, [])
          else if c = CHR ''$'' \<or> c = CHR 0x60 then None
          else if c = CHR 0x5C then Some (Backslash, [])
          else Some (DoubleQuoted, [c])
      | Backslash \<Rightarrow>
          if c \<in> {CHR ''$'', CHR 0x60, CHR 0x22, CHR 0x5C} then Some (DoubleQuoted, [c])
          else if c = CHR 0x0A then Some (DoubleQuoted, [])
          else Some (DoubleQuoted, [CHR 0x5C, c]))"

primrec sh_read :: "string \<Rightarrow> quoting \<Rightarrow> string option" where
  "sh_read [] q = (if q = Unquoted then Some [] else None)"
| "sh_read (c # cs) q = (case sh_char q c of
     None \<Rightarrow> None | Some (q', out) \<Rightarrow> map_option ((@) out) (sh_read cs q'))"

definition sh_word :: "string \<Rightarrow> string option" where
  "sh_word s = (if s = [] then None else sh_read s Unquoted)"

lemma plain_not_meta: "list_all (\<lambda>c. \<not> sh_meta c \<and> c \<noteq> NUL) kDontNeedShellEscapeChars"
  by code_simp

lemma plain_not_meta':
  "c \<in> set kDontNeedShellEscapeChars \<Longrightarrow> \<not> sh_meta c \<and> c \<noteq> NUL"
  using plain_not_meta by (simp add: list_all_iff)

lemma sh_meta_quotes: "sh_meta CHR 0x27" "sh_meta CHR 0x22"
  by (simp_all add: sh_meta_def)

lemma sh_read_plain: "\<forall>c\<in>set s. \<not> sh_meta c \<and> c \<noteq> NUL \<Longrightarrow> sh_read s Unquoted = Some s"
  using sh_meta_quotes by (induction s) (auto simp: sh_char_def)

lemma sh_read_single:
  "CHR 0x27 \<notin> set s \<Longrightarrow> NUL \<notin> set s \<Longrightarrow> sh_read (s @ [CHR 0x27]) SingleQuoted = Some s"
  by (induction s) (auto simp: sh_char_def)

lemma sh_read_double:
  "NUL \<notin> set s \<Longrightarrow> sh_read
     (concat (map (\<lambda>c. if shell_special c then [CHR 0x5C, c] else [c]) s) @ [CHR 0x22]) DoubleQuoted = Some s"
  by (induction s) (auto simp: shell_special_def sh_char_def)

text \<open>C39. A POSIX shell reads the quoted form of any text without NUL back as exactly one word,
  that text: there is no splitting, no expansion and no command hidden in it.\<close>

theorem ShellEscape_roundtrip:
  assumes "NUL \<notin> set s"
  shows "sh_word (ShellEscape s) = Some s"
proof (cases "s \<noteq> [] \<and> list_all (\<lambda>c. c \<in> set kDontNeedShellEscapeChars) s")
  case True
  then show ?thesis
    using assms by (auto simp: ShellEscape_def sh_word_def list_all_iff plain_not_meta' intro!: sh_read_plain)
next
  case False
  then have "ShellEscape s = (if CHR 0x27 \<notin> set s then [CHR 0x27] @ s @ [CHR 0x27]
     else [CHR 0x22] @ concat (map (\<lambda>c. if shell_special c then [CHR 0x5C, c] else [c]) s) @ [CHR 0x22])"
    unfolding ShellEscape_def by (simp only: if_False)
  then show ?thesis
    using assms by (simp add: sh_word_def sh_char_def sh_read_single sh_read_double)
qed

text \<open>The text \<^verbatim>\<open>it's $HOME\<close>.\<close>

theorem ShellEscape_roundtrip_witness:
  "ShellEscape (''it'' @ [CHR 0x27] @ ''s $HOME'') =
     [CHR 0x22] @ ''it'' @ [CHR 0x27] @ ''s '' @ [CHR 0x5C] @ ''$HOME'' @ [CHR 0x22] \<and>
   sh_word (ShellEscape (''it'' @ [CHR 0x27] @ ''s $HOME'')) = Some (''it'' @ [CHR 0x27] @ ''s $HOME'')"
proof
  show "ShellEscape (''it'' @ [CHR 0x27] @ ''s $HOME'') =
     [CHR 0x22] @ ''it'' @ [CHR 0x27] @ ''s '' @ [CHR 0x5C] @ ''$HOME'' @ [CHR 0x22]"
    by code_simp
qed (rule ShellEscape_roundtrip, simp)

subsection \<open>Splitting and joining\<close>

lemma find_from_Some:
  assumes "find_from s c k = Some t"
  shows "k \<le> t" "t < length s" "drop k s = take (t - k) (drop k s) @ c # drop (t + 1) s"
    and "c \<notin> set (take (t - k) (drop k s))"
proof -
  let ?n = "length (takeWhile (\<lambda>x. x \<noteq> c) (drop k s))"
  have t: "t = k + ?n" "k + ?n < length s"
    using assms by (auto simp: find_from_def Let_def split: if_splits)
  then show "k \<le> t" "t < length s" by auto
  have take: "take ?n (drop k s) = takeWhile (\<lambda>x. x \<noteq> c) (drop k s)"
    by (metis takeWhile_eq_take)
  have "?n < length (drop k s)" using t by simp
  then have "drop k s ! ?n = c" using nth_length_takeWhile by blast
  then have "drop k s = take ?n (drop k s) @ c # drop (Suc ?n) (drop k s)"
    using \<open>?n < length (drop k s)\<close> by (metis id_take_nth_drop)
  then show "drop k s = take (t - k) (drop k s) @ c # drop (t + 1) s"
    using t by (simp add: add.commute)
  show "c \<notin> set (take (t - k) (drop k s))"
    using t take by (auto dest: set_takeWhileD)
qed

lemma find_from_None: "find_from s c k = None \<Longrightarrow> c \<notin> set (drop k s)"
proof
  assume none: "find_from s c k = None" and c: "c \<in> set (drop k s)"
  have "length (takeWhile (\<lambda>x. x \<noteq> c) (drop k s)) < length (drop k s)"
  proof -
    obtain ys zs where eq: "drop k s = ys @ c # zs" "c \<notin> set ys" using split_list_first[OF c] by blast
    then have "takeWhile (\<lambda>x. x \<noteq> c) (drop k s) = takeWhile (\<lambda>x. x \<noteq> c) ys" by (simp add: takeWhile_tail)
    then show ?thesis unfolding eq(1) using length_takeWhile_le[of _ ys] by (simp add: le_imp_less_Suc trans_le_add1)
  qed
  then show False using none by (simp add: find_from_def Let_def split: if_splits)
qed

lemma split_loop_nonempty: "split_loop s ds k \<noteq> []"
  by (subst split_loop.simps) (auto split: option.split)

lemma split_loop_single:
  "join [d] (split_loop s [d] k) = drop k s \<and> (\<forall>p\<in>set (split_loop s [d] k). d \<notin> set p)"
proof (induction s "[d]" k rule: split_loop.induct)
  case (1 s k)
  show ?case
  proof (cases "find_from s d k")
    case None
    have "split_loop s [d] k = [drop k s]"
      by (subst split_loop.simps) (simp add: None)
    then show ?thesis using find_from_None[OF None] by (simp add: join_def)
  next
    case (Some t)
    note f = find_from_Some[OF Some]
    have eq: "split_loop s [d] k = take (t - k) (drop k s) # split_loop s [d] (t + 1)"
      by (subst split_loop.simps) (simp add: Some f(1,2))
    have ih: "join [d] (split_loop s [d] (t + 1)) = drop (t + 1) s"
      "\<forall>p\<in>set (split_loop s [d] (t + 1)). d \<notin> set p"
      using 1[of t] Some f(1,2) by simp_all
    have j: "join [d] (x # ys) = x @ d # join [d] ys" if "ys \<noteq> []" for x ys
      using that by (cases ys) (simp_all add: join_def)
    have "join [d] (split_loop s [d] k) = drop k s"
      unfolding eq j[OF split_loop_nonempty] ih(1) using f(3) by simp
    then show ?thesis unfolding eq using ih(2) f(4) by simp
  qed
qed

text \<open>Splitting a text at a single delimiter gives parts without the delimiter whose
  concatenation with the delimiter between them is the text; the empty text has no parts.\<close>

theorem split_join:
  "join [d] (split_str s [d]) = s \<and> (\<forall>p\<in>set (split_str s [d]). d \<notin> set p) \<and>
   (split_str s [d] = [] \<longleftrightarrow> s = [])"
  using split_loop_single[of d s 0]
  by (auto simp: split_str_def split_loop_nonempty) (simp add: join_def)

theorem split_join_witness:
  "\<forall>p\<in>set (split_str ''a,b'' '',''). CHR '','' \<notin> set p"
  using split_join[of "CHR '',''" "''a,b''"] by blast

text \<open>
  With several delimiters the one listed first is looked for first, so that a part may contain
  the others: the text is not cut at the nearest delimiter.
\<close>

lemma split_first_listed: "split_str ''a;b,c'' '',;'' = [''a;b'', ''c'']"
  by code_simp

subsection \<open>Error texts\<close>

lemma posix_strerror_r_len:
  assumes "\<And>b. length (se_buf (f b)) = length b" and "b \<noteq> []" and "posix_strerror_r f (Some b) e = (rc, buf, e')"
  shows "length buf = length b \<and> (rc = 0 \<longrightarrow> NUL \<in> set buf)"
proof -
  have last: "NUL \<in> set ((se_buf (f (b[0 := NUL])))[length b - 1 := NUL])"
    using assms(1)[of "b[0 := NUL]"] assms(2)
    by (auto simp: set_update_memI)
  have cat: "length (strncat_nul s (length b - 1) x) = length b \<and> NUL \<in> set (strncat_nul s (length b - 1) x)"
    if "length x = length b" for s x
    using that assms(2) by (cases b) (auto simp: strncat_nul_def Let_def)
  show ?thesis
    using assms last by (auto simp: posix_strerror_r_def Let_def cat split: if_splits strerror_ret.splits simp del: One_nat_def)
qed

lemma int_str_nonempty: "int_str x \<noteq> []"
  by (simp add: int_str_def dec_str_nonempty)

lemma c_str_nonempty: "buf \<noteq> [] \<Longrightarrow> hd buf \<noteq> NUL \<Longrightarrow> c_str buf \<noteq> []"
  by (cases buf) (simp_all add: c_str_def)

text \<open>The text of an error number is never empty and always fits the 100 byte buffer with its
  terminator, whichever variant of \<open>strerror_r\<close> the C library has, whether it fails or not and
  whatever it leaves in the buffer, as long as it does not write past it.\<close>

theorem StrError_bounded:
  assumes "\<And>b. length (se_buf (strerror_r b)) = length b" and "length uninit = 100"
  shows "StrError strerror_r uninit err \<noteq> [] \<and> length (StrError strerror_r uninit err) < 100"
proof -
  obtain rc buf e where eq: "posix_strerror_r strerror_r (Some uninit) 0 = (rc, buf, e)"
    using prod_cases3 by blast
  have ne: "uninit \<noteq> []" using assms(2) by auto
  note len = posix_strerror_r_len[OF assms(1) ne eq]
  have rc: "rc = 0 \<or> rc < 0"
    using eq ne by (auto simp: posix_strerror_r_def Let_def split: if_splits strerror_ret.splits)
  have fits: "length (c_str buf) < 100" if "rc = 0"
    using that len length_c_str_less[of buf] assms(2) by simp
  have "c_str buf \<noteq> []" if "hd buf \<noteq> NUL"
    using that len assms(2) by (intro c_str_nonempty) auto
  then show ?thesis using rc fits by (auto simp: StrError_def eq)
qed

theorem StrError_bounded_witness:
  "StrError (\<lambda>b. \<lparr>se_errno = 0, se_buf = b, se_ret = OtherStr ''Success''\<rparr>) (replicate 100 CHR ''x'') 0 \<noteq> []"
  using StrError_bounded[of "\<lambda>b. \<lparr>se_errno = 0, se_buf = b, se_ret = OtherStr ''Success''\<rparr>"
    "replicate 100 CHR ''x''" 0] by simp

subsection \<open>String checks\<close>

lemma check_str_dual:
  "CHECK_STREQ a b n = None \<longleftrightarrow> CHECK_STRNE a b n \<noteq> None"
  "CHECK_STRCASEEQ a b n = None \<longleftrightarrow> CHECK_STRCASENE a b n \<noteq> None"
  by (simp_all add: CHECK_STREQ_def CHECK_STRNE_def CHECK_STRCASEEQ_def CHECK_STRCASENE_def
    CheckStrImpl_def Let_def)

lemma check_str_null:
  "CHECK_STREQ None None n = None"
  "CHECK_STREQ None (Some s) ''n'' = Some (''CHECK_STREQ failed: n ( vs. '' @ s @ '')'')"
  by (simp_all add: CHECK_STREQ_def CheckStrImpl_def)

lemma check_streq_iff: "CHECK_STREQ (Some a) (Some b) n = None \<longleftrightarrow> a = b"
  by (simp add: CHECK_STREQ_def CheckStrImpl_def str_eq_def Let_def)

lemma check_op_text: "MakeCheckOpString e v1 v2 = e @ '' ('' @ v1 @ '' vs. '' @ v2 @ '')''"
  by (simp add: MakeCheckOpString_def CheckOpMessageBuilder_def ForVar2_def NewString_def)

subsection \<open>The prefix of a line\<close>

lemma pad_left_length: "length s \<le> w \<Longrightarrow> length (pad_left w c s) = w"
  by (simp add: pad_left_def)

lemma length_dec_str_less: "n < 10 ^ k \<Longrightarrow> 0 < k \<Longrightarrow> length (dec_str n) \<le> k"
proof (induction k arbitrary: n)
  case (Suc k)
  show ?case
  proof (cases "n < 10")
    case True then show ?thesis by (simp add: dec_str.simps[of n])
  next
    case False
    then have "k \<noteq> 0" using Suc.prems by (cases k) auto
    moreover have "n div 10 < 10 ^ k" using Suc.prems by (simp add: div_less_iff_less_mult mult.commute)
    ultimately have "length (dec_str (n div 10)) \<le> k" using Suc.IH by simp
    then show ?thesis using False by (simp add: dec_str.simps[of n])
  qed
qed simp

lemma length_zero: "0 \<le> x \<Longrightarrow> x < 10 ^ w \<Longrightarrow> 0 < w \<Longrightarrow> length (zero w x) = w"
  unfolding zero_def int_str_def
  by (intro pad_left_length) (auto simp: nat_less_iff intro!: length_dec_str_less)

text \<open>A time is in range when its fields are what the C library promises.\<close>

definition tm_ok :: "LogMessageTime \<Rightarrow> bool" where
  "tm_ok t = (let tm = time_struct t in
     0 \<le> tm_mon tm \<and> tm_mon tm \<le> 11 \<and> 1 \<le> tm_mday tm \<and> tm_mday tm \<le> 31 \<and>
     0 \<le> tm_hour tm \<and> tm_hour tm \<le> 23 \<and> 0 \<le> tm_min tm \<and> tm_min tm \<le> 59 \<and>
     0 \<le> tm_sec tm \<and> tm_sec tm \<le> 60 \<and> 0 \<le> usecs t \<and> usecs t < 1000000 \<and>
     - 900 \<le> tm_year tm \<and> tm_year tm < 8100)"

lemma time_text_width:
  assumes "tm_ok t"
  shows "length (time_text year_in_prefix t) = (if year_in_prefix then 24 else 20)"
proof -
  have w: "length (zero 4 (1900 + tm_year (time_struct t))) = 4"
    "length (zero 2 (1 + tm_mon (time_struct t))) = 2" "length (zero 2 (tm_mday (time_struct t))) = 2"
    "length (zero 2 (tm_hour (time_struct t))) = 2" "length (zero 2 (tm_min (time_struct t))) = 2"
    "length (zero 2 (tm_sec (time_struct t))) = 2" "length (zero 6 (usecs t)) = 6"
    using assms unfolding tm_ok_def Let_def by (auto intro!: length_zero)
  then show ?thesis by (simp add: time_text_def)
qed

end
