(* ===== verification/Log_Dirs.thy ===== *)
theory Log_Dirs
  imports Log_Text
begin

section \<open>Logging: environment, directories and truncation\<close>

text \<open>
  The parts of \<^verbatim>\<open>src/logging.cc\<close> that read the environment (default flag values, colours, the
  directories for log files) and the truncation of oversized files. What the operating system
  answers (\<open>getenv\<close>, \<open>stat\<close>, \<open>access\<close>, \<open>open\<close>, \<open>pread\<close>, \<open>pwrite\<close>) is a parameter.
\<close>

subsection \<open>Default values of flags\<close>

text \<open>\<^verbatim>\<open>memchr("tTyY1\0", valstr[0], 6)\<close>: the six bytes contain a NUL.\<close>

definition BoolFromEnv :: "string option \<Rightarrow> bool \<Rightarrow> bool" where
  "BoolFromEnv valstr defval =
     (case valstr of None \<Rightarrow> defval | Some s \<Rightarrow> c_hd s \<in> set ''tTyY1'' \<union> {NUL})"

definition DefaultLogDir :: "(string \<Rightarrow> string option) \<Rightarrow> string" where
  "DefaultLogDir getenv =
     (case getenv ''GOOGLE_LOG_DIR'' of
        Some env \<Rightarrow> if env \<noteq> [] then env
          else (case getenv ''TEST_TMPDIR'' of Some env \<Rightarrow> if env \<noteq> [] then env else [] | None \<Rightarrow> [])
      | None \<Rightarrow> (case getenv ''TEST_TMPDIR'' of Some env \<Rightarrow> if env \<noteq> [] then env else [] | None \<Rightarrow> []))"

definition MaxLogSize :: "32 word \<Rightarrow> 32 word" where
  "MaxLogSize max_log_size = (if 0 < max_log_size \<and> max_log_size < 4096 then max_log_size else 1)"

text \<open>An empty value counts as true.\<close>

lemma BoolFromEnv_empty: "BoolFromEnv (Some []) d"
  by (simp add: BoolFromEnv_def)

text \<open>Every size of 4096 MB or more is overridden to 1 MB, not only 0.\<close>

lemma MaxLogSize_overridden: "MaxLogSize 4096 = 1"
  by (simp add: MaxLogSize_def)

lemma MaxLogSize_bounds: "0 < unat (MaxLogSize m)" "unat (MaxLogSize m) < 4096"
proof -
  have "unat m < 4096" if "m < 4096"
    using that by (simp add: word_less_nat_alt)
  then show "0 < unat (MaxLogSize m)" "unat (MaxLogSize m) < 4096"
    by (auto simp: MaxLogSize_def unat_gt_0 word_neq_0_conv[symmetric])
qed

text \<open>The size in bytes, computed in 32 bits, does not wrap around.\<close>

lemma MaxLogSize_shift: "unat (push_bit 20 (MaxLogSize m)) = unat (MaxLogSize m) * 2 ^ 20"
proof -
  have "unat (MaxLogSize m) * 2 ^ 20 < 2 ^ LENGTH(32)"
    using MaxLogSize_bounds(2)[of m] by simp
  then show ?thesis
    by (simp add: push_bit_eq_mult unat_word_ariths unat_mult_lem mult.commute)
qed

subsection \<open>Colours\<close>

datatype GLogColor = COLOR_DEFAULT | COLOR_RED | COLOR_GREEN | COLOR_YELLOW

definition TerminalSupportsColor :: "string option \<Rightarrow> bool" where
  "TerminalSupportsColor term_var =
     (case term_var of
        None \<Rightarrow> False
      | Some t \<Rightarrow> t \<noteq> [] \<and> t \<in> set [''xterm'', ''xterm-color'', ''xterm-256color'', ''screen-256color'',
          ''konsole'', ''konsole-16color'', ''konsole-256color'', ''screen'', ''linux'', ''cygwin''])"

text \<open>Severities are the indices 0 to 3; \<open>None\<close> is a failed assertion.\<close>

definition SeverityToColor :: "nat \<Rightarrow> GLogColor option" where
  "SeverityToColor severity =
     (if severity = 0 then Some COLOR_DEFAULT
      else if severity = 1 then Some COLOR_YELLOW
      else if severity = 2 \<or> severity = 3 then Some COLOR_RED
      else None)"

fun GetAnsiColorCode :: "GLogColor \<Rightarrow> string" where
  "GetAnsiColorCode COLOR_RED = ''1''"
| "GetAnsiColorCode COLOR_GREEN = ''2''"
| "GetAnsiColorCode COLOR_YELLOW = ''3''"
| "GetAnsiColorCode COLOR_DEFAULT = []"

datatype Output = Stdout | Stderr

record ColorFlags =
  terminal_supports_color :: bool
  FLAGS_colorlogtostderr :: bool
  FLAGS_colorlogtostdout :: bool
  stderrthreshold :: int

text \<open>What is written to which stream; \<open>None\<close> is a failed assertion.\<close>

definition ColoredWriteToStderrOrStdout :: "ColorFlags \<Rightarrow> Output \<Rightarrow> nat \<Rightarrow> string \<Rightarrow>
    (Output \<times> string) option" where
  "ColoredWriteToStderrOrStdout fl out severity message =
     (case (if terminal_supports_color fl \<and>
               (out \<noteq> Stdout \<and> FLAGS_colorlogtostderr fl \<or> out = Stdout \<and> FLAGS_colorlogtostdout fl)
            then SeverityToColor severity else Some COLOR_DEFAULT) of
        None \<Rightarrow> None
      | Some color \<Rightarrow>
          if color = COLOR_DEFAULT then Some (out, message)
          else Some (out, [CHR 0x1B] @ ''[0;3'' @ GetAnsiColorCode color @ ''m'' @ message @
                 [CHR 0x1B] @ ''[m''))"

definition ColoredWriteToStdout :: "ColorFlags \<Rightarrow> nat \<Rightarrow> string \<Rightarrow> (Output \<times> string) option" where
  "ColoredWriteToStdout fl severity message =
     (let out = (if stderrthreshold fl \<le> int severity then Stderr else Stdout)
      in ColoredWriteToStderrOrStdout fl out severity message)"

definition ColoredWriteToStderr :: "ColorFlags \<Rightarrow> nat \<Rightarrow> string \<Rightarrow> (Output \<times> string) option" where
  "ColoredWriteToStderr fl severity message = ColoredWriteToStderrOrStdout fl Stderr severity message"

lemma SeverityToColor_some: "severity < 4 \<Longrightarrow> SeverityToColor severity \<noteq> None"
  by (auto simp: SeverityToColor_def)

lemma ColoredWrite_some: "severity < 4 \<Longrightarrow> \<exists>t. ColoredWriteToStderrOrStdout fl out severity m = Some (out, t)"
  using SeverityToColor_some[of severity]
  by (auto simp: ColoredWriteToStderrOrStdout_def split: option.split)

subsection \<open>Directories\<close>

definition GetHostName :: "string option \<Rightarrow> string" where
  "GetHostName nodename = (case nodename of None \<Rightarrow> [] | Some n \<Rightarrow> n)"

text \<open>The cached host name: the result and the new value of the cache.\<close>

definition hostname :: "string option \<Rightarrow> string \<Rightarrow> string" where
  "hostname nodename cached =
     (if cached = [] then (let h = GetHostName nodename in if h = [] then ''(unknown)'' else h)
      else cached)"

text \<open>
  The candidates in turn, up to the first directory that exists. \<open>None\<close> as a result stands for
  the access \<^verbatim>\<open>dstr[dstr.size() - 1]\<close> of an empty string, which is out of bounds.
\<close>

fun candidates_loop :: "(string \<Rightarrow> bool) \<Rightarrow> string option list \<Rightarrow> string list option" where
  "candidates_loop is_dir [] = Some []"
| "candidates_loop is_dir (None # ds) = candidates_loop is_dir ds"
| "candidates_loop is_dir (Some d # ds) =
     (if d = [] then None
      else let dstr = (if last d \<noteq> CHR ''/'' then d @ ''/'' else d)
        in if is_dir d then Some [dstr] else map_option ((#) dstr) (candidates_loop is_dir ds))"

definition GetTempDirectories :: "(string \<Rightarrow> string option) \<Rightarrow> (string \<Rightarrow> bool) \<Rightarrow> string list option" where
  "GetTempDirectories getenv is_dir =
     candidates_loop is_dir [getenv ''TEST_TMPDIR'', getenv ''TMPDIR'', getenv ''TMP'', Some ''/tmp'']"

text \<open>The list is computed once: the last argument and the result are \<open>logging_directories_list\<close>.\<close>

definition GetLoggingDirectories :: "string \<Rightarrow> (string \<Rightarrow> string option) \<Rightarrow> (string \<Rightarrow> bool) \<Rightarrow>
    string list option \<Rightarrow> string list option" where
  "GetLoggingDirectories log_dir getenv is_dir cached =
     (case cached of
        Some dirs \<Rightarrow> Some dirs
      | None \<Rightarrow>
          if log_dir \<noteq> [] then
            (if last log_dir \<notin> {CHR ''/''} then Some [log_dir @ ''/''] else Some [log_dir])
          else map_option (\<lambda>list. list @ [''./'']) (GetTempDirectories getenv is_dir))"

text \<open>\<open>exists p\<close>: \<open>access(p, 0)\<close> returns 0.\<close>

fun erase_missing :: "(string \<Rightarrow> bool) \<Rightarrow> string list \<Rightarrow> string list" where
  "erase_missing exists [] = []"
| "erase_missing exists (d # ds) =
     (if \<not> exists d then erase_missing exists ds else d # erase_missing exists ds)"

definition GetExistingTempDirectories :: "(string \<Rightarrow> string option) \<Rightarrow> (string \<Rightarrow> bool) \<Rightarrow>
    (string \<Rightarrow> bool) \<Rightarrow> string list option" where
  "GetExistingTempDirectories getenv is_dir exists =
     map_option (erase_missing exists) (GetTempDirectories getenv is_dir)"

lemma erase_missing_filter: "erase_missing exists ds = filter exists ds"
  by (induction ds) auto

lemma candidates_loop_slash:
  "candidates_loop is_dir ds = Some list \<Longrightarrow> \<forall>d\<in>set list. d \<noteq> [] \<and> last d = CHR ''/''"
proof (induction is_dir ds arbitrary: list rule: candidates_loop.induct)
  case (3 is_dir d ds)
  show ?case
  proof (cases "d = [] \<or> is_dir d")
    case False
    then obtain rest where "candidates_loop is_dir ds = Some rest"
      "list = (if last d \<noteq> CHR ''/'' then d @ ''/'' else d) # rest"
      using 3(2) by (auto simp: Let_def)
    then show ?thesis using 3(1)[of _ rest] False by auto
  qed (use 3(2) in \<open>auto simp: Let_def split: if_splits\<close>)
qed auto

lemma candidates_loop_some:
  "\<forall>d\<in>set ds. d \<noteq> Some [] \<Longrightarrow> candidates_loop is_dir ds \<noteq> None"
  by (induction is_dir ds rule: candidates_loop.induct) (auto simp: Let_def)

text \<open>When none of the environment variables for temporary directories is set to the empty
  text, the list of logging directories is found, it is never empty and each of its entries ends
  in a slash, so that a file name can be appended.\<close>

theorem GetLoggingDirectories_slash:
  assumes "\<forall>v\<in>set [''TEST_TMPDIR'', ''TMPDIR'', ''TMP'']. getenv v \<noteq> Some []"
  shows "\<exists>dirs. GetLoggingDirectories log_dir getenv is_dir None = Some dirs \<and> dirs \<noteq> [] \<and>
    (\<forall>d\<in>set dirs. d \<noteq> [] \<and> last d = CHR ''/'')"
proof -
  have "GetTempDirectories getenv is_dir \<noteq> None"
    unfolding GetTempDirectories_def using assms by (intro candidates_loop_some) auto
  then obtain list where list: "GetTempDirectories getenv is_dir = Some list" by blast
  then have "\<forall>d\<in>set list. d \<noteq> [] \<and> last d = CHR ''/''"
    unfolding GetTempDirectories_def using candidates_loop_slash by blast
  then show ?thesis using list by (auto simp: GetLoggingDirectories_def)
qed

theorem GetLoggingDirectories_slash_witness:
  "\<exists>dirs. GetLoggingDirectories [] (\<lambda>v. if v = ''TMP'' then Some ''/var/tmp'' else None) (\<lambda>d. True) None =
     Some dirs \<and> dirs \<noteq> []"
  using GetLoggingDirectories_slash[of "\<lambda>v. if v = ''TMP'' then Some ''/var/tmp'' else None" "[]" "\<lambda>d. True"]
  by auto

text \<open>A variable that is set to the empty text takes the code out of bounds.\<close>

lemma empty_variable_out_of_bounds:
  "getenv ''TEST_TMPDIR'' = Some [] \<Longrightarrow> GetTempDirectories getenv is_dir = None"
  by (simp add: GetTempDirectories_def)

subsection \<open>Truncation\<close>

text \<open>
  One turn of the copying loop: the read may fail or be short (at least one byte when there is
  one), the write may be complete, short or fail. When the script of events has ended all calls
  are complete.
\<close>

datatype WriteEvent = WriteAll | WriteSome nat | WriteFails

datatype IoEvent = ReadFails | ReadSome nat WriteEvent

datatype TruncMsg =
    UnableToTruncate
  | TruncatedEFBIG
  | UnableToOpen
  | UnableToFstat
  | TruncatingTo "64 word"
  | UnableToWrite
  | ExpectedToWrite nat nat
  | UnableToRead

definition kCopyBlockSize :: nat where
  "kCopyBlockSize = 8192"

definition pread_block :: "string \<Rightarrow> nat \<Rightarrow> nat \<Rightarrow> string" where
  "pread_block contents offset n = take (min kCopyBlockSize (Suc n)) (drop offset contents)"

definition pwrite_at :: "string \<Rightarrow> nat \<Rightarrow> string \<Rightarrow> string" where
  "pwrite_at contents offset bs =
     (if bs = [] then contents
      else take offset contents @ replicate (offset - length contents) NUL @ bs @
        drop (offset + length bs) contents)"

definition ftruncate :: "string \<Rightarrow> nat \<Rightarrow> string" where
  "ftruncate contents n = take n contents @ replicate (n - length contents) NUL"

definition next_event :: "IoEvent list \<Rightarrow> IoEvent \<times> IoEvent list" where
  "next_event evs = (case evs of [] \<Rightarrow> (ReadSome kCopyBlockSize WriteAll, []) | e # es \<Rightarrow> (e, es))"

text \<open>The copying loop: the contents, the final write offset and the messages logged.\<close>

partial_function (option) copy_loop :: "IoEvent list \<Rightarrow> string \<Rightarrow> nat \<Rightarrow> nat \<Rightarrow> TruncMsg list \<Rightarrow>
    (string \<times> nat \<times> TruncMsg list) option" where
  "copy_loop evs contents read_offset write_offset msgs =
     (case next_event evs of
        (ReadFails, _) \<Rightarrow> Some (contents, write_offset, msgs @ [UnableToRead])
      | (ReadSome n w, evs') \<Rightarrow>
          let copybuf = pread_block contents read_offset n; bytesin = length copybuf
          in if bytesin = 0 then Some (contents, write_offset, msgs)
             else (case w of
                WriteFails \<Rightarrow> Some (contents, write_offset, msgs @ [UnableToWrite])
              | WriteAll \<Rightarrow>
                  copy_loop evs' (pwrite_at contents write_offset copybuf) (read_offset + bytesin)
                    (write_offset + bytesin) msgs
              | WriteSome k \<Rightarrow>
                  let bytesout = min k bytesin
                  in copy_loop evs' (pwrite_at contents write_offset (take bytesout copybuf))
                    (read_offset + bytesin) (write_offset + bytesout)
                    (if bytesout \<noteq> bytesin then msgs @ [ExpectedToWrite bytesin bytesout] else msgs)))"

text \<open>
  The file system as the routine meets it: the error number of \<open>open\<close> for the given
  \<open>O_NOFOLLOW\<close>, whether \<open>truncate\<close>, \<open>fstat\<close> and \<open>ftruncate\<close> succeed, whether the file is regular.
\<close>

record TruncEnv =
  te_open :: "string \<Rightarrow> bool \<Rightarrow> int option"
  te_truncate_ok :: bool
  te_fstat_ok :: bool
  te_is_reg :: bool
  te_ftruncate_ok :: bool

definition procfd_prefix :: string where
  "procfd_prefix = ''/proc/self/fd/''"

definition TruncateLogFile :: "TruncEnv \<Rightarrow> IoEvent list \<Rightarrow> string \<Rightarrow> 64 word \<Rightarrow> 64 word \<Rightarrow> string \<Rightarrow>
    (string \<times> TruncMsg list) option" where
  "TruncateLogFile env evs path limit keep contents =
     (let no_follow = take (length procfd_prefix) path \<noteq> procfd_prefix;
          st_size = int (length contents)
      in case te_open env path no_follow of
           Some errno \<Rightarrow>
             if errno = 27 then
               (if \<not> te_truncate_ok env then Some (contents, [UnableToTruncate])
                else Some ([], [TruncatedEFBIG]))
             else Some (contents, [UnableToOpen])
         | None \<Rightarrow>
             if \<not> te_fstat_ok env then Some (contents, [UnableToFstat])
             else if \<not> te_is_reg env then Some (contents, [])
             else if st_size \<le> sint limit then Some (contents, [])
             else if st_size \<le> sint keep then Some (contents, [])
             else (case copy_loop evs contents (nat (st_size - sint keep)) 0 [TruncatingTo keep] of
                     None \<Rightarrow> None
                   | Some (contents', write_offset, msgs) \<Rightarrow>
                       if \<not> te_ftruncate_ok env then Some (contents', msgs @ [UnableToTruncate])
                       else Some (ftruncate contents' write_offset, msgs)))"

text \<open>The calls of \<open>TruncateStdoutStderr\<close>; the limit is computed in 32 bits.\<close>

definition TruncateStdoutStderr :: "32 word \<Rightarrow> (string \<times> 64 word \<times> 64 word) list" where
  "TruncateStdoutStderr max_log_size =
     (let limit = ucast (push_bit 20 (MaxLogSize max_log_size)); keep = push_bit 20 1
      in [(''/proc/self/fd/1'', limit, keep), (''/proc/self/fd/2'', limit, keep)])"

lemma length_pwrite_at:
  "offset + length bs \<le> length contents \<Longrightarrow> length (pwrite_at contents offset bs) = length contents"
  by (auto simp: pwrite_at_def)

lemma pwrite_at_inside:
  assumes "offset + length bs \<le> length contents"
  shows "take (offset + length bs) (pwrite_at contents offset bs) = take offset contents @ bs"
    and "drop (offset + length bs) (pwrite_at contents offset bs) = drop (offset + length bs) contents"
proof -
  have "pwrite_at contents offset bs = take offset contents @ bs @ drop (offset + length bs) contents"
    using assms by (simp add: pwrite_at_def)
  moreover have "length (take offset contents) = offset" using assms by simp
  ultimately show "take (offset + length bs) (pwrite_at contents offset bs) = take offset contents @ bs"
    and "drop (offset + length bs) (pwrite_at contents offset bs) = drop (offset + length bs) contents"
    by simp_all
qed

text \<open>The events of a run without errors, in which every write is complete.\<close>

definition complete_io :: "IoEvent list \<Rightarrow> bool" where
  "complete_io evs = list_all (\<lambda>e. case e of ReadFails \<Rightarrow> False | ReadSome n w \<Rightarrow> w = WriteAll) evs"

lemma next_event_complete:
  "complete_io evs \<Longrightarrow> \<exists>n evs'. next_event evs = (ReadSome n WriteAll, evs') \<and> complete_io evs'"
  by (cases evs) (auto simp: complete_io_def next_event_def split: IoEvent.splits)

text \<open>
  The invariant of the loop: what has been written is the text between the start of the tail and
  the read offset, and behind the read offset the file is unchanged.
\<close>

lemma copy_loop_complete:
  assumes "complete_io evs" and "r \<le> length orig" and "w \<le> r" and "length contents = length orig"
    and "drop r contents = drop r orig" and "take w contents = take w (drop (r - w) orig)"
  shows "\<exists>contents' w'. copy_loop evs contents r w msgs = Some (contents', w', msgs) \<and>
    take w' contents' = drop (r - w) orig \<and> w' \<le> length contents'"
  using assms
proof (induction "length orig - r" arbitrary: evs contents r w rule: less_induct)
  case less
  obtain n evs' where ev: "next_event evs = (ReadSome n WriteAll, evs')" "complete_io evs'"
    using next_event_complete[OF less.prems(1)] by blast
  let ?b = "pread_block contents r n"
  show ?case
  proof (cases "?b = []")
    case True
    then have "length orig = r"
      using less.prems(2,4) by (auto simp: pread_block_def kCopyBlockSize_def)
    moreover have "copy_loop evs contents r w msgs = Some (contents, w, msgs)"
      by (subst copy_loop.simps) (simp add: ev True)
    ultimately show ?thesis using less.prems by simp
  next
    case False
    let ?L = "length ?b"
    let ?c = "pwrite_at contents w ?b"
    have L: "0 < ?L" "r + ?L \<le> length orig" "?b = take ?L (drop r orig)"
      using False less.prems(2,4,5) by (auto simp: pread_block_def min_def)
    have inside: "w + ?L \<le> length contents" using L less.prems(3,4) by simp
    have "drop (r + ?L) ?c = drop (r - w) (drop (w + ?L) ?c)" using less.prems(3) by (simp add: add.commute)
    also have "\<dots> = drop (r + ?L) contents"
      unfolding pwrite_at_inside(2)[OF inside] using less.prems(3) by (simp add: add.commute)
    also have "\<dots> = drop (r + ?L) orig"
      by (metis add.commute drop_drop less.prems(5))
    finally have drop: "drop (r + ?L) ?c = drop (r + ?L) orig" .
    have "take (w + ?L) ?c = take w (drop (r - w) orig) @ take ?L (drop r orig)"
      unfolding pwrite_at_inside(1)[OF inside] less.prems(6) using L(3) by simp
    also have "\<dots> = take (w + ?L) (drop (r - w) orig)"
      using less.prems(3) by (simp add: take_add)
    finally have take: "take (w + ?L) ?c = take (w + ?L) (drop (r + ?L - (w + ?L)) orig)" by simp
    have "copy_loop evs contents r w msgs = copy_loop evs' ?c (r + ?L) (w + ?L) msgs"
      by (subst copy_loop.simps) (simp add: ev False Let_def)
    moreover have less: "length orig - (r + ?L) < length orig - r"
      using L(1,2) by linarith
    moreover have "\<exists>contents' w'. copy_loop evs' ?c (r + ?L) (w + ?L) msgs = Some (contents', w', msgs) \<and>
        take w' contents' = drop (r + ?L - (w + ?L)) orig \<and> w' \<le> length contents'"
      by (rule less.hyps) (use less L ev(2) less.prems inside drop take length_pwrite_at[OF inside] in auto)
    ultimately show ?thesis by simp
  qed
qed

text \<open>A regular file that is larger than both the limit and the amount to keep is replaced by
  exactly its last \<open>keep\<close> bytes, however the kernel cuts the reads into pieces, when no call fails
  and no write is short. In particular the copying returns, although it overwrites the file that
  it reads.\<close>

theorem TruncateLogFile_keeps_tail:
  assumes "te_open env path (take (length procfd_prefix) path \<noteq> procfd_prefix) = None"
    and "te_fstat_ok env" and "te_is_reg env" and "te_ftruncate_ok env"
    and "sint limit < int (length contents)" and "0 \<le> sint keep" and "sint keep < int (length contents)"
    and "complete_io evs"
  shows "TruncateLogFile env evs path limit keep contents =
    Some (drop (length contents - nat (sint keep)) contents, [TruncatingTo keep])"
proof -
  let ?r = "nat (int (length contents) - sint keep)"
  have r: "?r = length contents - nat (sint keep)" "?r \<le> length contents"
    using assms(6,7) by auto
  obtain contents' w' where loop:
    "copy_loop evs contents ?r 0 [TruncatingTo keep] = Some (contents', w', [TruncatingTo keep])"
    "take w' contents' = drop ?r contents" "w' \<le> length contents'"
    using copy_loop_complete[OF assms(8) r(2), of 0 contents "[TruncatingTo keep]"] by auto
  then show ?thesis
    using assms by (simp add: TruncateLogFile_def Let_def ftruncate_def r(1))
qed

theorem TruncateLogFile_keeps_tail_witness:
  "TruncateLogFile \<lparr>te_open = \<lambda>p n. None, te_truncate_ok = True, te_fstat_ok = True, te_is_reg = True,
     te_ftruncate_ok = True\<rparr> [ReadSome 0 WriteAll] ''log'' 3 2 ''abcde'' = Some (''de'', [TruncatingTo 2])"
  using TruncateLogFile_keeps_tail[of "\<lparr>te_open = \<lambda>p n. None, te_truncate_ok = True, te_fstat_ok = True,
    te_is_reg = True, te_ftruncate_ok = True\<rparr>" "''log''" 3 "''abcde''" 2 "[ReadSome 0 WriteAll]"]
  by (simp add: complete_io_def)

text \<open>A short write is logged, but the bytes it left out are lost: the next block goes behind the
  bytes that were written.\<close>

lemma short_write_loses:
  "TruncateLogFile \<lparr>te_open = \<lambda>p n. None, te_truncate_ok = True, te_fstat_ok = True, te_is_reg = True,
     te_ftruncate_ok = True\<rparr> [ReadSome 1 (WriteSome 1)] ''log'' 3 3 ''abcde'' =
   Some (''ce'', [TruncatingTo 3, ExpectedToWrite 2 1])"
  unfolding TruncateLogFile_def
  apply (simp add: Let_def)
  apply (subst copy_loop.simps, simp add: next_event_def pread_block_def kCopyBlockSize_def pwrite_at_def Let_def)
  apply (subst copy_loop.simps, simp add: next_event_def pread_block_def kCopyBlockSize_def pwrite_at_def Let_def)
  apply (subst copy_loop.simps, simp add: next_event_def pread_block_def kCopyBlockSize_def ftruncate_def Let_def)
  done

end
