(* ===== verification/Log_Env.thy ===== *)
theory Log_Env
  imports Log_Dirs
begin

section \<open>Logging: flags, environment and effects\<close>

text \<open>
  What the log files share: the flags of \<^verbatim>\<open>src/logging.cc\<close>, the answers of the operating system
  during one call, the effects a call has on it, and the parts of \<^verbatim>\<open>std::filesystem::path\<close> that
  the code uses.
\<close>

subsection \<open>Flags\<close>

record LogFlags =
  FLAGS_timestamp_in_logfile_name :: bool
  FLAGS_log_file_header :: bool
  FLAGS_log_year_in_prefix :: bool
  FLAGS_logbufsecs :: int
  FLAGS_logcleansecs :: int
  FLAGS_log_link :: string
  FLAGS_max_log_size :: "32 word"
  FLAGS_log_rolling_policy :: string
  FLAGS_max_logfile_num :: nat
  FLAGS_stop_logging_if_full_disk :: bool
  FLAGS_log_utc_time :: bool
  FLAGS_drop_log_memory :: bool

definition default_flags :: LogFlags where
  "default_flags =
     \<lparr>FLAGS_timestamp_in_logfile_name = True, FLAGS_log_file_header = True,
      FLAGS_log_year_in_prefix = True, FLAGS_logbufsecs = 30, FLAGS_logcleansecs = 300,
      FLAGS_log_link = [], FLAGS_max_log_size = 1800, FLAGS_log_rolling_policy = ''size'',
      FLAGS_max_logfile_num = 10, FLAGS_stop_logging_if_full_disk = False,
      FLAGS_log_utc_time = False, FLAGS_drop_log_memory = True\<rparr>"

subsection \<open>The operating system during one call\<close>

text \<open>
  The answers the calls made during one operation get; the file names are the ones passed to the
  system. \<open>env_stat\<close> gives the modification time and the size, \<open>env_readdir\<close> the entries of a
  directory with a mark for directories and links, \<open>env_open\<close> whether \<open>open\<close> succeeds (the second
  argument is \<open>O_EXCL\<close>). The last three components are what the code reads without having
  initialised it.
\<close>

record LogEnv =
  env_now :: int
  env_time :: int
  env_localtime :: "int \<Rightarrow> Tm"
  env_gmtime :: "int \<Rightarrow> Tm"
  env_mktime :: "Tm \<Rightarrow> int"
  env_pid :: int
  env_uname :: "string option"
  env_user :: string
  env_log_dirs :: "string list"
  env_stat :: "string \<Rightarrow> (int \<times> int) option"
  env_readdir :: "string \<Rightarrow> (bool \<times> string) list option"
  env_open :: "string \<Rightarrow> bool \<Rightarrow> bool"
  env_lock :: "string \<Rightarrow> bool"
  env_fdopen :: "string \<Rightarrow> bool"
  env_symlink :: "string \<Rightarrow> bool"
  env_enospc :: bool
  uninit_time :: int
  uninit_count :: int
  uninit_extension :: string

datatype Effect =
    EOpen string bool
  | EClose string
  | ERemove string
  | EUnlink string
  | ESymlink string string
  | EHardLink string string
  | EWrite string string
  | EFlush string
  | EFadvise string "32 word" "32 word"
  | EStderr string

subsection \<open>Paths\<close>

definition path_filename :: "string \<Rightarrow> string" where
  "path_filename p = after_last_slash p"

definition parent_part :: "string \<Rightarrow> string" where
  "parent_part p = take (length p - length (after_last_slash p)) p"

definition replace_filename :: "string \<Rightarrow> string \<Rightarrow> string" where
  "replace_filename p name = parent_part p @ name"

text \<open>The file name without its extension: a leading dot does not start one.\<close>

definition path_stem :: "string \<Rightarrow> string" where
  "path_stem name =
     (if name = ''.'' \<or> name = ''..'' \<or> CHR ''.'' \<notin> set (tl name) then name
      else take (length name - length (takeWhile (\<lambda>c. c \<noteq> CHR ''.'') (rev name)) - 1) name)"

definition replace_extension :: "string \<Rightarrow> string \<Rightarrow> string" where
  "replace_extension p ext =
     parent_part p @ path_stem (path_filename p) @
     (if ext = [] then [] else if hd ext = CHR ''.'' then ext else CHR ''.'' # ext)"

definition path_append :: "string \<Rightarrow> string \<Rightarrow> string" where
  "path_append p q = (if p = [] \<or> last p = CHR ''/'' then p @ q else p @ ''/'' @ q)"

lemma after_last_slash_suffix: "suffix (after_last_slash s) s"
  unfolding after_last_slash_def suffix_def
  by (metis rev_append rev_rev_ident takeWhile_dropWhile_id)

lemma parent_part_filename: "parent_part p @ path_filename p = p"
proof -
  obtain d where "p = d @ after_last_slash p" using after_last_slash_suffix[of p] by (auto simp: suffix_def)
  then show ?thesis
    unfolding parent_part_def path_filename_def by (metis append_eq_conv_conj length_append add_diff_cancel_right')
qed

text \<open>Replacing the file name by one that continues it continues the path.\<close>

lemma replace_filename_append: "replace_filename p (path_filename p @ t) = p @ t"
  unfolding replace_filename_def by (metis append_assoc parent_part_filename)

subsection \<open>Lists of files by time\<close>

text \<open>
  \<^verbatim>\<open>std::multiset<Filetime>\<close>, ordered by the time; an element is inserted behind the elements
  with the same time.
\<close>

record Filetime =
  ft_name :: string
  ft_time :: int

fun insert_ft :: "Filetime \<Rightarrow> Filetime list \<Rightarrow> Filetime list" where
  "insert_ft x [] = [x]"
| "insert_ft x (y # ys) = (if ft_time x < ft_time y then x # y # ys else y # insert_ft x ys)"

lemma set_insert_ft: "set (insert_ft x ys) = insert x (set ys)"
  by (induction ys) auto

lemma length_insert_ft [simp]: "length (insert_ft x ys) = Suc (length ys)"
  by (induction ys) auto

lemma sorted_insert_ft: "sorted (map ft_time ys) \<Longrightarrow> sorted (map ft_time (insert_ft x ys))"
  by (induction ys) (auto simp: set_insert_ft)

end
