(* ===== verification/Log_Cleaner.thy ===== *)
theory Log_Cleaner
  imports Log_Env
begin

section \<open>Logging: the cleaner of overdue log files\<close>

text \<open>
  The class \<^verbatim>\<open>LogCleaner\<close> of \<^verbatim>\<open>src/logging.cc\<close>: which files it takes for logs of the program,
  which of them are overdue, and what it unlinks.
\<close>

record LogCleaner =
  enabled :: bool
  overdue_days :: nat
  next_cleanup_time :: int

definition LogCleaner_new :: LogCleaner where
  "LogCleaner_new = \<lparr>enabled = False, overdue_days = 7, next_cleanup_time = 0\<rparr>"

definition Enable :: "nat \<Rightarrow> LogCleaner \<Rightarrow> LogCleaner" where
  "Enable days c = c\<lparr>enabled := True, overdue_days := days\<rparr>"

definition Disable :: "LogCleaner \<Rightarrow> LogCleaner" where
  "Disable c = c\<lparr>enabled := False\<rparr>"

text \<open>
  The product is computed in \<open>int\<close>: \<open>None\<close> when it overflows (undefined behaviour). \<open>now\<close> is
  \<open>CycleClock_Now()\<close>, in microseconds.
\<close>

definition UpdateCleanUpTime :: "int \<Rightarrow> int \<Rightarrow> LogCleaner \<Rightarrow> LogCleaner option" where
  "UpdateCleanUpTime logcleansecs now c =
     (let next_time = logcleansecs * 1000000
      in if - (2 ^ 31) \<le> next_time \<and> next_time < 2 ^ 31 then Some (c\<lparr>next_cleanup_time := now + next_time\<rparr>)
         else None)"

lemma UpdateCleanUpTime_overflow:
  "UpdateCleanUpTime 2148 now c = None" "UpdateCleanUpTime 2147 now c \<noteq> None"
  by (simp_all add: UpdateCleanUpTime_def)

subsection \<open>Which files are logs of the program\<close>

text \<open>Duplicated delimiters in the base name are removed.\<close>

fun clean_loop :: "string \<Rightarrow> string \<Rightarrow> string" where
  "clean_loop cleaned [] = cleaned"
| "clean_loop cleaned (c # cs) =
     (if cleaned = [] then clean_loop (cleaned @ [c]) cs
      else if c \<notin> {CHR ''/''} \<or> c \<noteq> last cleaned then clean_loop (cleaned @ [c]) cs
      else clean_loop cleaned cs)"

text \<open>The character at position \<open>k\<close> behind the base name.\<close>

definition stamp_char :: "nat \<Rightarrow> char \<Rightarrow> bool" where
  "stamp_char k c =
     (if k \<le> 7 then is_digit c
      else if k = 8 then c = CHR ''-''
      else if k \<le> 14 then is_digit c
      else if k = 15 then c = CHR ''.''
      else is_digit c)"

fun stamp_loop :: "nat \<Rightarrow> string \<Rightarrow> bool" where
  "stamp_loop k [] = True"
| "stamp_loop k (c # cs) = (if \<not> stamp_char k c then False else stamp_loop (Suc k) cs)"

definition IsLogFromCurrentProject :: "string \<Rightarrow> string \<Rightarrow> string \<Rightarrow> bool" where
  "IsLogFromCurrentProject filepath base_filename filename_extension =
     (let cleaned = clean_loop [] base_filename;
          characters = (\<lambda>first last. stamp_loop 0 (take (last - first) (drop first filepath)))
      in if \<not> prefix cleaned filepath then False
         else if filename_extension \<noteq> [] then
           (if length filepath \<le> length cleaned then False
            else if take (length filename_extension) (drop (length cleaned) filepath) = filename_extension
            then characters (length (cleaned @ filename_extension)) (length filepath)
            else if length filepath \<le> length filename_extension then False
            else let real_size = length filepath - length filename_extension
              in if drop real_size filepath \<noteq> filename_extension then False
                 else characters (length cleaned) real_size)
         else characters (length cleaned) (length filepath))"

definition IsLogLastModifiedOver :: "(string \<Rightarrow> (int \<times> int) option) \<Rightarrow> int \<Rightarrow> string \<Rightarrow> nat \<Rightarrow> bool" where
  "IsLogLastModifiedOver stat current_time filepath days =
     (case stat filepath of
        Some (last_modified_time, _) \<Rightarrow> int days * 86400 < current_time - last_modified_time
      | None \<Rightarrow> False)"

subsection \<open>The overdue files of a directory\<close>

definition log_path :: "string \<Rightarrow> string \<Rightarrow> string" where
  "log_path log_directory name =
     (if log_directory \<noteq> [] \<and> last log_directory \<in> {CHR ''/''} then log_directory @ name else name)"

fun overdue_loop :: "(string \<Rightarrow> (int \<times> int) option) \<Rightarrow> int \<Rightarrow> string \<Rightarrow> nat \<Rightarrow> string \<Rightarrow> string \<Rightarrow>
    (bool \<times> string) list \<Rightarrow> string list" where
  "overdue_loop stat current_time dir days base ext [] = []"
| "overdue_loop stat current_time dir days base ext ((_, d_name) # ents) =
     (if d_name = ''.'' \<or> d_name = ''..'' then overdue_loop stat current_time dir days base ext ents
      else let filepath = log_path dir d_name
        in if IsLogFromCurrentProject filepath base ext \<and> IsLogLastModifiedOver stat current_time filepath days
           then filepath # overdue_loop stat current_time dir days base ext ents
           else overdue_loop stat current_time dir days base ext ents)"

definition GetOverdueLogNames :: "LogEnv \<Rightarrow> string \<Rightarrow> nat \<Rightarrow> string \<Rightarrow> string \<Rightarrow> string list" where
  "GetOverdueLogNames env log_directory days base_filename filename_extension =
     (case env_readdir env log_directory of
        None \<Rightarrow> []
      | Some ents \<Rightarrow> overdue_loop (env_stat env) (env_time env) log_directory days base_filename
          filename_extension ents)"

text \<open>The directories that are scanned.\<close>

definition clean_dirs :: "LogEnv \<Rightarrow> bool \<Rightarrow> string \<Rightarrow> string list" where
  "clean_dirs env base_filename_selected base_filename =
     (if \<not> base_filename_selected then env_log_dirs env
      else if CHR ''/'' \<in> set base_filename then [parent_part base_filename]
      else [''.''])"

text \<open>
  \<open>None\<close>: an assertion fails or the next time overflows. Otherwise the cleaner and the effects.
\<close>

definition Run :: "LogFlags \<Rightarrow> LogEnv \<Rightarrow> bool \<Rightarrow> string \<Rightarrow> string \<Rightarrow> LogCleaner \<Rightarrow>
    (LogCleaner \<times> Effect list) option" where
  "Run fl env base_filename_selected base_filename filename_extension c =
     (if \<not> enabled c then None
      else if base_filename_selected \<and> base_filename = [] then None
      else if env_now env < next_cleanup_time c then Some (c, [])
      else (case UpdateCleanUpTime (FLAGS_logcleansecs fl) (env_now env) c of
              None \<Rightarrow> None
            | Some c' \<Rightarrow>
                Some (c', concat (map (\<lambda>dir. map EUnlink (GetOverdueLogNames env dir (overdue_days c')
                  base_filename filename_extension))
                  (clean_dirs env base_filename_selected base_filename)))))"

subsection \<open>The names the cleaner accepts\<close>

text \<open>The end of a log file name: date, time and process id.\<close>

definition is_stamp :: "string \<Rightarrow> bool" where
  "is_stamp s = (\<exists>date time pid. s = date @ CHR ''-'' # time @ CHR ''.'' # pid \<and> length date = 8 \<and>
     length time = 6 \<and> list_all is_digit (date @ time @ pid))"

lemma stamp_loop_nth: "stamp_loop k cs \<longleftrightarrow> (\<forall>i<length cs. stamp_char (k + i) (cs ! i))"
proof (induction cs arbitrary: k)
  case (Cons c cs)
  have "(\<forall>i<length (c # cs). stamp_char (k + i) ((c # cs) ! i)) \<longleftrightarrow>
      stamp_char k c \<and> (\<forall>i<length cs. stamp_char (Suc k + i) (cs ! i))"
    by (auto simp: less_Suc_eq_0_disj)
  then show ?case using Cons by simp
qed simp

lemma stamp_loop_append: "stamp_loop k (s @ t) \<longleftrightarrow> stamp_loop k s \<and> stamp_loop (k + length s) t"
  by (induction s arbitrary: k) auto

lemma stamp_loop_digits:
  assumes "\<And>i. k \<le> i \<Longrightarrow> i < k + length s \<Longrightarrow> i \<noteq> 8 \<and> i \<noteq> 15"
  shows "stamp_loop k s \<longleftrightarrow> list_all is_digit s"
  using assms
proof (induction s arbitrary: k)
  case (Cons c s)
  have "stamp_char k c \<longleftrightarrow> is_digit c" using Cons.prems[of k] by (auto simp: stamp_char_def)
  then show ?case using Cons.IH[of "Suc k"] Cons.prems by simp
qed simp

lemma is_stamp_stamp_loop: "is_stamp s \<Longrightarrow> stamp_loop 0 s"
  by (auto simp: is_stamp_def stamp_loop_append stamp_loop_digits) (simp_all add: stamp_char_def)

text \<open>A text that is accepted can be completed to a date, a time and a process id.\<close>

definition filler :: "nat \<Rightarrow> char" where
  "filler k = (if k = 8 then CHR ''-'' else if k = 15 then CHR ''.'' else CHR ''0'')"

lemma stamp_filler: "stamp_loop k (map filler [k..<n])"
  by (simp add: stamp_loop_nth) (auto simp: stamp_char_def filler_def is_digit_of_char)

lemma split_at: "n \<le> length s \<Longrightarrow> \<exists>d r. s = d @ r \<and> length d = n"
  by (intro exI[of _ "take n s"] exI[of _ "drop n s"]) simp

lemma stamp_loop_is_stamp:
  assumes "stamp_loop 0 s" and "16 \<le> length s"
  shows "is_stamp s"
proof -
  obtain d r1 where d: "s = d @ r1" "length d = 8" using split_at[of 8 s] assms(2) by auto
  then obtain c1 r2 where c1: "r1 = c1 # r2" using assms(2) by (cases r1) auto
  obtain t r3 where t: "r2 = t @ r3" "length t = 6" using split_at[of 6 r2] assms(2) d c1 by auto
  then obtain c2 p where c2: "r3 = c2 # p" using assms(2) d c1 by (cases r3) auto
  have "stamp_loop 0 d" "stamp_char 8 c1" "stamp_loop 9 t" "stamp_char 15 c2" "stamp_loop 16 p"
    using assms(1) d c1 t c2 by (auto simp: stamp_loop_append split: if_splits)
  then have "list_all is_digit (d @ t @ p)" "c1 = CHR ''-''" "c2 = CHR ''.''"
    using d t by (simp_all add: stamp_loop_digits) (simp_all add: stamp_char_def)
  then show ?thesis unfolding is_stamp_def using d c1 t c2 by blast
qed

lemma stamp_loop_iff: "stamp_loop 0 cs \<longleftrightarrow> (\<exists>s. is_stamp s \<and> prefix cs s)"
proof
  assume "stamp_loop 0 cs"
  then have "stamp_loop 0 (cs @ map filler [length cs..<16])"
    by (simp add: stamp_loop_append stamp_filler)
  then have "is_stamp (cs @ map filler [length cs..<16])" by (rule stamp_loop_is_stamp) simp
  then show "\<exists>s. is_stamp s \<and> prefix cs s" by (meson prefixI)
next
  assume "\<exists>s. is_stamp s \<and> prefix cs s"
  then show "stamp_loop 0 cs"
    using is_stamp_stamp_loop by (metis prefix_def stamp_loop_append)
qed

text \<open>Without an extension the cleaner takes a file for a log of the program exactly when its path
  is the base name, with repeated slashes removed, followed by a date, a time and a process id or
  by a beginning of such a text. (So the base name alone, or with a few digits, is accepted too.)\<close>

theorem IsLogFromCurrentProject_iff:
  "IsLogFromCurrentProject filepath base [] \<longleftrightarrow>
   (\<exists>cs s. filepath = clean_loop [] base @ cs \<and> is_stamp s \<and> prefix cs s)"
proof -
  have "IsLogFromCurrentProject filepath base [] \<longleftrightarrow>
      (\<exists>cs. filepath = clean_loop [] base @ cs \<and> stamp_loop 0 cs)"
    by (auto simp: IsLogFromCurrentProject_def Let_def prefix_def)
  then show ?thesis by (simp only: stamp_loop_iff) blast
qed

text \<open>Removing repeated slashes: nothing changes when there are none.\<close>

fun no_double_slash :: "string \<Rightarrow> bool" where
  "no_double_slash (c # d # cs) = ((c \<noteq> CHR ''/'' \<or> d \<noteq> CHR ''/'') \<and> no_double_slash (d # cs))"
| "no_double_slash _ = True"

lemma clean_loop_append:
  "no_double_slash (last cleaned # cs) \<Longrightarrow> cleaned \<noteq> [] \<Longrightarrow> clean_loop cleaned cs = cleaned @ cs"
  by (induction cs arbitrary: cleaned) auto

lemma clean_loop_id: "no_double_slash base \<Longrightarrow> clean_loop [] base = base"
  by (cases base) (auto simp: clean_loop_append)

lemma no_double_slash_snoc:
  "no_double_slash (xs @ [y]) \<longleftrightarrow> no_double_slash xs \<and> (xs = [] \<or> last xs \<noteq> CHR ''/'' \<or> y \<noteq> CHR ''/'')"
  by (induction xs rule: no_double_slash.induct) auto

lemma clean_loop_no_double: "no_double_slash cleaned \<Longrightarrow> no_double_slash (clean_loop cleaned cs)"
  by (induction cs arbitrary: cleaned) (auto simp: no_double_slash_snoc)

text \<open>A file of another program whose name is the base name and a number is taken for a log.\<close>

lemma foreign_file_accepted: "IsLogFromCurrentProject ''/tmp/data2'' ''/tmp/data'' []"
  by code_simp

text \<open>Names with the stamp of the daily policy are not recognised.\<close>

lemma daily_name_rejected: "\<not> IsLogFromCurrentProject ''/tmp/app.20240131.77'' ''/tmp/app.'' []"
  by code_simp

subsection \<open>What the cleaner removes\<close>

lemma overdue_loop_set:
  "set (overdue_loop stat now dir days base ext ents) =
   {log_path dir name | mark name. (mark, name) \<in> set ents \<and> name \<noteq> ''.'' \<and> name \<noteq> ''..'' \<and>
      IsLogFromCurrentProject (log_path dir name) base ext \<and>
      IsLogLastModifiedOver stat now (log_path dir name) days}"
  by (induction stat now dir days base ext ents rule: overdue_loop.induct) (auto simp: Let_def)

text \<open>
  The names that are taken for logs, written out: the base name with runs of slashes made one, then
  a beginning of a date, a time and a process id, with the extension in front of it or behind it. (An
  extension that overlaps the base name is enough, too.)
\<close>

fun squeeze :: "string \<Rightarrow> string" where
  "squeeze (c # d # cs) = (if c = CHR ''/'' \<and> d = CHR ''/'' then squeeze (d # cs) else c # squeeze (d # cs))"
| "squeeze s = s"

definition stamp_beginning :: "string \<Rightarrow> bool" where
  "stamp_beginning cs = (\<exists>s. is_stamp s \<and> prefix cs s)"

definition log_name :: "string \<Rightarrow> string \<Rightarrow> string \<Rightarrow> bool" where
  "log_name base ext p = (\<exists>rest. p = squeeze base @ rest \<and>
     (if ext = [] then stamp_beginning rest
      else if prefix ext rest then \<exists>cs. rest = ext @ cs \<and> stamp_beginning cs
      else rest \<noteq> [] \<and> suffix ext p \<and> p \<noteq> ext \<and>
        stamp_beginning (take (length rest - length ext) rest)))"

lemma clean_loop_snoc: "clean_loop (xs @ [x]) cs = xs @ squeeze (x # cs)"
proof (induction cs arbitrary: xs x)
  case (Cons c cs)
  show ?case
    using Cons[of xs x] Cons[of "xs @ [x]" c] by auto
qed simp

lemma clean_loop_squeeze: "clean_loop [] base = squeeze base"
  using clean_loop_snoc[of "[]"] by (cases base) auto

lemma take_prefix_iff: "take (length ext) rest = ext \<longleftrightarrow> prefix ext rest"
  by (metis append_take_drop_id append_eq_conv_conj prefix_def)

lemma drop_suffix_iff:
  "length ext \<le> length p \<Longrightarrow> drop (length p - length ext) p = ext \<longleftrightarrow> suffix ext p"
  by (metis append_eq_conv_conj append_take_drop_id diff_diff_cancel length_append length_drop
      length_take min.absorb2 suffix_def suffix_drop add_diff_cancel_right')

lemma IsLogFromCurrentProject_names:
  "IsLogFromCurrentProject p base ext \<longleftrightarrow> log_name base ext p"
proof (cases "prefix (squeeze base) p")
  case False
  then show ?thesis by (auto simp: IsLogFromCurrentProject_def log_name_def clean_loop_squeeze Let_def)
next
  case True
  then obtain rest where p: "p = squeeze base @ rest" by (auto simp: prefix_def)
  have sb: "stamp_loop 0 cs \<longleftrightarrow> stamp_beginning cs" for cs
    by (simp add: stamp_loop_iff stamp_beginning_def)
  have name: "log_name base ext p \<longleftrightarrow>
     (if ext = [] then stamp_beginning rest
      else if prefix ext rest then \<exists>cs. rest = ext @ cs \<and> stamp_beginning cs
      else rest \<noteq> [] \<and> suffix ext p \<and> p \<noteq> ext \<and> stamp_beginning (take (length rest - length ext) rest))"
    by (simp add: log_name_def p)
  consider "ext = []" | cs where "ext \<noteq> []" "rest = ext @ cs" | "ext \<noteq> []" "\<not> prefix ext rest"
    by (auto simp: prefix_def)
  then show ?thesis
  proof cases
    case 1
    then show ?thesis using name by (simp add: IsLogFromCurrentProject_def clean_loop_squeeze p sb)
  next
    case 2
    then show ?thesis using name by (simp add: IsLogFromCurrentProject_def clean_loop_squeeze p sb)
  next
    case 3
    have "suffix ext p \<and> p \<noteq> ext \<longleftrightarrow> length ext < length p \<and> drop (length p - length ext) p = ext"
      by (cases "length ext < length p")
        (auto simp: drop_suffix_iff suffix_def)
    moreover have "take (length p - length ext - length (squeeze base)) rest = take (length rest - length ext) rest"
      by (simp add: p)
    ultimately show ?thesis
      unfolding name using 3
      by (auto simp: IsLogFromCurrentProject_def clean_loop_squeeze p sb take_prefix_iff Let_def)
  qed
qed

lemma IsLogLastModifiedOver_age:
  "IsLogLastModifiedOver stat now p days \<longleftrightarrow>
   (\<exists>mtime size. stat p = Some (mtime, size) \<and> mtime + int days * (24 * 60 * 60) < now)"
  by (auto simp: IsLogLastModifiedOver_def split: option.split)

text \<open>
  The files that should go: listed in a scanned directory, with a name of the form above, and last
  changed more than the given number of days ago.
\<close>

definition overdue_file :: "LogEnv \<Rightarrow> bool \<Rightarrow> string \<Rightarrow> string \<Rightarrow> nat \<Rightarrow> string \<Rightarrow> bool" where
  "overdue_file env selected base ext days p =
     (\<exists>dir ents mark name mtime size. dir \<in> set (clean_dirs env selected base) \<and> env_readdir env dir = Some ents \<and>
        (mark, name) \<in> set ents \<and> name \<noteq> ''.'' \<and> name \<noteq> ''..'' \<and> p = log_path dir name \<and>
        log_name base ext p \<and>
        env_stat env p = Some (mtime, size) \<and> mtime + int days * (24 * 60 * 60) < env_time env)"

lemma GetOverdueLogNames_set:
  "p \<in> set (GetOverdueLogNames env dir days base ext) \<longleftrightarrow>
   (\<exists>ents mark name. env_readdir env dir = Some ents \<and> (mark, name) \<in> set ents \<and> name \<noteq> ''.'' \<and>
      name \<noteq> ''..'' \<and> p = log_path dir name \<and> IsLogFromCurrentProject p base ext \<and>
      IsLogLastModifiedOver (env_stat env) (env_time env) p days)"
  by (cases "env_readdir env dir"; simp add: GetOverdueLogNames_def overdue_loop_set; blast)


text \<open>A directory with one old log, one new log and a foreign file.\<close>

definition demo_tm :: Tm where
  "demo_tm = \<lparr>tm_year = 124, tm_mon = 0, tm_mday = 31, tm_hour = 1, tm_min = 2, tm_sec = 3, tm_isdst = 0\<rparr>"

definition demo_env :: LogEnv where
  "demo_env = \<lparr>env_now = 1000000, env_time = 1000000, env_localtime = \<lambda>_. demo_tm, env_gmtime = \<lambda>_. demo_tm,
     env_mktime = \<lambda>_. 0, env_pid = 77, env_uname = Some ''host'', env_user = ''me'', env_log_dirs = [''/tmp/''],
     env_stat = (\<lambda>p. if p = ''/tmp/a.20240131-010203.77'' then Some (0, 5)
       else if p = ''/tmp/a.20240131-010203.78'' then Some (999999, 5) else None),
     env_readdir = (\<lambda>d. if d = ''/tmp/'' then Some [(True, ''.''), (False, ''a.20240131-010203.77''),
       (False, ''a.20240131-010203.78''), (False, ''other'')] else None),
     env_open = \<lambda>_ _. True, env_lock = \<lambda>_. True, env_fdopen = \<lambda>_. True, env_symlink = \<lambda>_. True,
     env_enospc = False, uninit_time = 0, uninit_count = 0, uninit_extension = []\<rparr>"

lemma demo_run:
  "map_option snd (Run default_flags demo_env True ''/tmp/a.'' [] (Enable 3 LogCleaner_new)) =
   Some [EUnlink ''/tmp/a.20240131-010203.77'']"
  by code_simp


end
