(* ===== verification/Log_File.thy ===== *)
theory Log_File
  imports Log_Cleaner Raw_Log
begin

section \<open>Logging: log files\<close>

text \<open>
  The class \<^verbatim>\<open>LogFileObject\<close> of \<^verbatim>\<open>src/logging.cc\<close>: one log file per severity, its name, its rolling
  over by size, day or hour, the limits on the number of files, and the writing of messages.
  \<open>log_file\<close> is the path of the open file, \<open>None\<close> for a null \<open>file_\<close>. Every operation maps the
  object and the globals it shares with the others to their new values; what it does to the
  file system is appended to \<open>effects\<close>.
\<close>

record LogFileObject =
  base_filename_selected :: bool
  base_filename :: string
  symlink_basename :: string
  filename_extension :: string
  log_file :: "string option"
  severity :: nat
  bytes_since_flush :: "32 word"
  dropped_mem_length :: "32 word"
  file_length :: "64 word"
  rollover_attempt :: "32 word"
  next_flush_time :: int
  start_time :: int
  file_list :: "Filetime list"
  initialized :: bool
  tm_time :: Tm

record LogGlobals =
  stop_writing :: bool
  rolling_file_number :: int
  log_cleaner :: LogCleaner
  cached_hostname :: string
  application_fingerprint :: string
  utils :: UState
  effects :: "Effect list"

type_synonym FileState = "LogFileObject \<times> LogGlobals"

definition emit :: "Effect \<Rightarrow> LogGlobals \<Rightarrow> LogGlobals" where
  "emit e g = g\<lparr>effects := effects g @ [e]\<rparr>"

definition emits :: "Effect list \<Rightarrow> LogGlobals \<Rightarrow> LogGlobals" where
  "emits es g = g\<lparr>effects := effects g @ es\<rparr>"

definition kRolloverAttemptFrequency :: "32 word" where
  "kRolloverAttemptFrequency = 0x20"

definition zero_tm :: Tm where
  "zero_tm = \<lparr>tm_year = 0, tm_mon = 0, tm_mday = 0, tm_hour = 0, tm_min = 0, tm_sec = 0, tm_isdst = 0\<rparr>"

text \<open>\<open>tm_time_\<close> is not initialised by the constructor: a parameter.\<close>

definition LogFileObject_new :: "nat \<Rightarrow> string option \<Rightarrow> string \<Rightarrow> int \<Rightarrow> Tm \<Rightarrow> LogFileObject" where
  "LogFileObject_new sev base short_name now uninit_tm =
     \<lparr>base_filename_selected = (base \<noteq> None), base_filename = (case base of None \<Rightarrow> [] | Some b \<Rightarrow> b),
      symlink_basename = short_name, filename_extension = [], log_file = None, severity = sev,
      bytes_since_flush = 0, dropped_mem_length = 0, file_length = 0,
      rollover_attempt = kRolloverAttemptFrequency - 1, next_flush_time = 0, start_time = now,
      file_list = [], initialized = False, tm_time = uninit_tm\<rparr>"

subsection \<open>Closing, names and flushing\<close>

definition close_file :: "FileState \<Rightarrow> FileState" where
  "close_file = (\<lambda>(f, g). (case log_file f of None \<Rightarrow> (f, g)
     | Some p \<Rightarrow> (f\<lparr>log_file := None\<rparr>, emit (EClose p) g)))"

definition close_renamed :: "FileState \<Rightarrow> FileState" where
  "close_renamed = (\<lambda>(f, g). if log_file f \<noteq> None
     then (let (f1, g1) = close_file (f, g) in (f1\<lparr>rollover_attempt := kRolloverAttemptFrequency - 1\<rparr>, g1))
     else (f, g))"

definition SetBasename :: "string \<Rightarrow> FileState \<Rightarrow> FileState" where
  "SetBasename basename = (\<lambda>(f, g).
     (let f1 = f\<lparr>base_filename_selected := True\<rparr>
      in if base_filename f1 \<noteq> basename
         then (let (f2, g2) = close_renamed (f1, g) in (f2\<lparr>base_filename := basename\<rparr>, g2))
         else (f1, g)))"

definition SetExtension :: "string \<Rightarrow> FileState \<Rightarrow> FileState" where
  "SetExtension ext = (\<lambda>(f, g).
     if filename_extension f \<noteq> ext
     then (let (f2, g2) = close_renamed (f, g) in (f2\<lparr>filename_extension := ext\<rparr>, g2))
     else (f, g))"

definition SetSymlinkBasename :: "string \<Rightarrow> FileState \<Rightarrow> FileState" where
  "SetSymlinkBasename name = (\<lambda>(f, g). (f\<lparr>symlink_basename := name\<rparr>, g))"

definition FlushUnlocked :: "LogFlags \<Rightarrow> LogEnv \<Rightarrow> FileState \<Rightarrow> FileState" where
  "FlushUnlocked fl env = (\<lambda>(f, g).
     (let (f1, g1) = (case log_file f of None \<Rightarrow> (f, g)
            | Some p \<Rightarrow> (f\<lparr>bytes_since_flush := 0\<rparr>, emit (EFlush p) g))
      in (f1\<lparr>next_flush_time := env_now env + FLAGS_logbufsecs fl * 1000000\<rparr>, g1)))"

subsection \<open>Choosing a name\<close>

text \<open>\<^verbatim>\<open>std::map<time_t, fs::path>\<close>: an entry whose key is taken is not inserted.\<close>

definition map_insert :: "int \<times> string \<Rightarrow> (int \<times> string) list \<Rightarrow> (int \<times> string) list" where
  "map_insert e m = (if fst e \<in> fst ` set m then m else m @ [e])"

fun min_element :: "(int \<times> string) list \<Rightarrow> string" where
  "min_element [] = []"
| "min_element [e] = snd e"
| "min_element (e # d # m) = min_element ((if fst d < fst e then d else e) # m)"

definition megabytes :: "int \<Rightarrow> int" where
  "megabytes n = n div 2 ^ 20"

text \<open>\<^verbatim>\<open>snprintf(..., "-%03d", i)\<close>.\<close>

definition seqnrstr :: "nat \<Rightarrow> string" where
  "seqnrstr i = ''-'' @ zero 3 (int i)"

fun suitable_loop :: "LogFlags \<Rightarrow> LogEnv \<Rightarrow> string \<Rightarrow> nat \<Rightarrow> nat \<Rightarrow> (int \<times> string) list \<Rightarrow>
    (int \<times> string) list + string" where
  "suitable_loop fl env origin 0 i fileMap = Inl fileMap"
| "suitable_loop fl env origin (Suc n) i fileMap =
     (let nextName = replace_filename origin (path_filename origin @ seqnrstr i)
      in case env_stat env nextName of
           Some (mtime, st_size) \<Rightarrow>
             if megabytes st_size < uint (MaxLogSize (FLAGS_max_log_size fl)) then Inr nextName
             else suitable_loop fl env origin n (Suc i) (map_insert (mtime, nextName) fileMap)
         | None \<Rightarrow> Inr nextName)"

text \<open>
  The number of files to try, and the new value of \<open>FLAGS_rolling_file_number\<close>. For 1 to 100 the
  code does not set the local variable.
\<close>

definition max_logfile_count :: "LogEnv \<Rightarrow> int \<Rightarrow> int \<times> int" where
  "max_logfile_count env number =
     (if number < 0 \<or> 100 < number then (10, 10)
      else if number = 0 then (2147483647, number)
      else (uninit_count env, number))"

definition GetSuitableFileName :: "LogFlags \<Rightarrow> LogEnv \<Rightarrow> string \<Rightarrow> LogGlobals \<Rightarrow> string \<times> LogGlobals" where
  "GetSuitableFileName fl env originName g =
     (case env_stat env originName of
        None \<Rightarrow> (originName, g)
      | Some (mtime, st_size) \<Rightarrow>
          if uint (MaxLogSize (FLAGS_max_log_size fl)) < megabytes st_size then
            (let (count, number) = max_logfile_count env (rolling_file_number g);
                 g1 = g\<lparr>rolling_file_number := number\<rparr>
             in case suitable_loop fl env originName (nat count) 0 [(mtime, originName)] of
                  Inr nextName \<Rightarrow> (nextName, g1)
                | Inl fileMap \<Rightarrow>
                    let nextName = min_element fileMap in (nextName, emit (ERemove nextName) g1))
          else (originName, g))"

subsection \<open>Creating a file\<close>

definition CreateLogfileInternal :: "LogFlags \<Rightarrow> LogEnv \<Rightarrow> string \<Rightarrow> bool \<Rightarrow> FileState \<Rightarrow> bool \<times> FileState" where
  "CreateLogfileInternal fl env filename excl = (\<lambda>(f, g).
     if \<not> env_open env filename excl then (False, (f, g))
     else let g1 = emit (EOpen filename excl) g
       in if \<not> env_lock env filename then (False, (f, emit (EClose filename) g1))
          else if \<not> env_fdopen env filename then
            (let g2 = emit (EClose filename) g1
             in (False, (f\<lparr>log_file := None\<rparr>,
                  if FLAGS_timestamp_in_logfile_name fl then emit (ERemove filename) g2 else g2)))
          else (True, (f\<lparr>log_file := Some filename\<rparr>, g1)))"

text \<open>
  The links to a new log file. The extension is what the code finds at the address
  \<^verbatim>\<open>'.' + LogSeverityNames[severity_]\<close>, an addition of a character to a pointer.
\<close>

definition link_effects :: "LogFlags \<Rightarrow> LogEnv \<Rightarrow> string \<Rightarrow> string \<Rightarrow> Effect list" where
  "link_effects fl env symlink_base filename =
     (let linkpath = replace_extension symlink_base (uninit_extension env);
          linkdest = path_filename filename;
          first = [ERemove linkpath] @
            (if env_symlink env linkpath then [ESymlink linkdest linkpath] else [EHardLink linkdest linkpath]);
          linkpath2 = path_append (FLAGS_log_link fl) (path_filename linkpath);
          second = [ERemove linkpath2] @
            (if env_symlink env linkpath2 then [ESymlink filename linkpath2] else [EHardLink filename linkpath2])
      in if FLAGS_log_link fl \<noteq> [] then first @ second else first)"

definition CreateLogfile :: "LogFlags \<Rightarrow> LogEnv \<Rightarrow> string \<Rightarrow> FileState \<Rightarrow> bool \<times> FileState" where
  "CreateLogfile fl env time_pid_string = (\<lambda>(f, g).
     (let string_filename = base_filename f @
            (if FLAGS_timestamp_in_logfile_name fl then time_pid_string else []) @ filename_extension f;
          (filename, g1) = GetSuitableFileName fl env string_filename g;
          (success, (f2, g2)) = CreateLogfileInternal fl env filename (FLAGS_timestamp_in_logfile_name fl) (f, g1)
      in if \<not> success then (False, (f2, g2))
         else let f3 = f2\<lparr>file_list := insert_ft \<lparr>ft_name = string_filename, ft_time = uninit_time env\<rparr>
                (file_list f2)\<rparr>
           in (True, (f3, if symlink_basename f3 \<noteq> []
                then emits (link_effects fl env (symlink_basename f3) filename) g2 else g2))))"

subsection \<open>The number of files\<close>

fun trim_files :: "nat \<Rightarrow> Filetime list \<Rightarrow> Effect list \<times> Filetime list" where
  "trim_files num [] = ([], [])"
| "trim_files num (x # xs) =
     (if 0 < num \<and> num \<le> length (x # xs)
      then (let (es, ys) = trim_files num xs in (EUnlink (ft_name x) # es, ys))
      else ([], x # xs))"

definition trim_history :: "LogFlags \<Rightarrow> FileState \<Rightarrow> FileState" where
  "trim_history fl = (\<lambda>(f, g).
     (let (es, ys) = trim_files (FLAGS_max_logfile_num fl) (file_list f)
      in (f\<lparr>file_list := ys\<rparr>, emits es g)))"

text \<open>The files of the directory in order of time, and the path at which \<open>stat\<close> failed, if any.\<close>

fun history_loop :: "LogEnv \<Rightarrow> string \<Rightarrow> string \<Rightarrow> (bool \<times> string) list \<Rightarrow> Filetime list \<Rightarrow>
    Filetime list \<times> string option" where
  "history_loop env dir start [] fs = (fs, None)"
| "history_loop env dir start ((skip, filename) # ents) fs =
     (if skip then history_loop env dir start ents fs
      else if prefix start filename then
        (let filepath = dir @ ''/'' @ filename
         in case env_stat env filepath of
              None \<Rightarrow> (fs, Some filepath)
            | Some (mtime, _) \<Rightarrow>
                history_loop env dir start ents (insert_ft \<lparr>ft_name = filepath, ft_time = mtime\<rparr> fs))
      else history_loop env dir start ents fs)"

definition CheckHistoryFileNum :: "LogFlags \<Rightarrow> LogEnv \<Rightarrow> FileState \<Rightarrow> FileState" where
  "CheckHistoryFileNum fl env = (\<lambda>(f, g).
     case env_log_dirs env of
       [] \<Rightarrow> (f, g)
     | dir # _ \<Rightarrow>
         (case env_readdir env dir of
            None \<Rightarrow> (f, emit (EStderr (''open log dir '' @ dir @ '' fail'' @ [CHR 0x0A])) g)
          | Some ents \<Rightarrow>
              let (fs, failed) = history_loop env dir
                    (symlink_basename f @ ''.'' @ LogSeverityNames ! severity f) ents [];
                  f1 = f\<lparr>file_list := fs\<rparr>
              in case failed of
                   Some p \<Rightarrow> (f1, emit (EStderr (''state '' @ p @ '' fail'' @ [CHR 0x0A])) g)
                 | None \<Rightarrow> trim_history fl (f1, g)))"

subsection \<open>Rolling over\<close>

definition same_day :: "Tm \<Rightarrow> Tm \<Rightarrow> bool" where
  "same_day s t = (tm_year s = tm_year t \<and> tm_mon s = tm_mon t \<and> tm_mday s = tm_mday t)"

definition CheckNeedRollLogFiles :: "LogFlags \<Rightarrow> LogEnv \<Rightarrow> int \<Rightarrow> FileState \<Rightarrow> bool \<times> FileState" where
  "CheckNeedRollLogFiles fl env ts = (\<lambda>(f, g).
     let tm = env_localtime env ts
     in if FLAGS_log_rolling_policy fl = ''day'' then (\<not> same_day tm (tm_time f), (f, g))
        else if FLAGS_log_rolling_policy fl = ''hour'' then
          (\<not> (same_day tm (tm_time f) \<and> tm_hour tm = tm_hour (tm_time f)), (f, g))
        else if ucast (MaxLogSize (FLAGS_max_log_size fl)) \<le> drop_bit 20 (file_length f) then (True, (f, g))
        else (let (changed, u) = PidHasChanged (env_pid env) (utils g)
              in (changed, (f, g\<lparr>utils := u\<rparr>))))"

definition roll_over :: "FileState \<Rightarrow> FileState" where
  "roll_over s = (let (f, g) = close_file s
     in (f\<lparr>file_length := 0, bytes_since_flush := 0, dropped_mem_length := 0,
           rollover_attempt := kRolloverAttemptFrequency - 1\<rparr>, g))"

subsection \<open>Writing\<close>

text \<open>The first message by size: the newest file of an earlier run is opened again.\<close>

definition reopen_newest :: "LogFlags \<Rightarrow> LogEnv \<Rightarrow> FileState \<Rightarrow> FileState" where
  "reopen_newest fl env = (\<lambda>(f, g).
     if log_file f = None \<and> \<not> initialized f \<and> FLAGS_log_rolling_policy fl = ''size'' then
       (let (f1, g1) = CheckHistoryFileNum fl env (f, g)
        in if file_list f1 \<noteq> [] then
             (let (success, (f2, g2)) = CreateLogfileInternal fl env (ft_name (last (file_list f1))) False (f1, g1)
              in (if success then f2\<lparr>initialized := True\<rparr> else f2, g2))
           else (f1, g1))
     else (f, g))"

definition time_pid_text :: "LogFlags \<Rightarrow> Tm \<Rightarrow> int \<Rightarrow> string" where
  "time_pid_text fl tm main_pid =
     int_str (1900 + tm_year tm) @ zero 2 (1 + tm_mon tm) @ zero 2 (tm_mday tm) @
     (if FLAGS_log_rolling_policy fl = ''hour'' then zero 2 (tm_hour tm)
      else if FLAGS_log_rolling_policy fl \<noteq> ''day'' then
        ''-'' @ zero 2 (tm_hour tm) @ zero 2 (tm_min tm) @ zero 2 (tm_sec tm)
      else []) @
     ''.'' @ int_str main_pid"

definition stripped_filename :: "LogEnv \<Rightarrow> FileState \<Rightarrow> string" where
  "stripped_filename env = (\<lambda>(f, g).
     (let uidname = (if env_user env = [] then ''invalid-user'' else env_user env)
      in ProgramInvocationShortName (utils g) @ ''.'' @ GetHostName (env_uname env) @ ''.'' @ uidname @
         ''.log.'' @ LogSeverityNames ! severity f @ ''.''))"

fun try_dirs :: "LogFlags \<Rightarrow> LogEnv \<Rightarrow> string \<Rightarrow> string \<Rightarrow> string list \<Rightarrow> FileState \<Rightarrow> bool \<times> FileState" where
  "try_dirs fl env name stamp [] s = (False, s)"
| "try_dirs fl env name stamp (dir # dirs) s =
     (let (f, g) = s;
          (ok, s1) = CreateLogfile fl env stamp (f\<lparr>base_filename := dir @ ''/'' @ name\<rparr>, g)
      in if ok then (True, s1) else try_dirs fl env name stamp dirs s1)"

definition file_header :: "LogFlags \<Rightarrow> LogEnv \<Rightarrow> Tm \<Rightarrow> FileState \<Rightarrow> string" where
  "file_header fl env tm = (\<lambda>(f, g).
     (let utc = env_mktime env (env_gmtime env (env_time env))
      in ''Log file created at: '' @ int_str (1900 + tm_year tm) @ ''/'' @ zero 2 (1 + tm_mon tm) @ ''/'' @
         zero 2 (tm_mday tm) @ '' '' @ zero 2 (tm_hour tm) @ '':'' @ zero 2 (tm_min tm) @ '':'' @
         zero 2 (tm_sec tm) @ (if FLAGS_log_utc_time fl then '' UTC'' else []) @
         int_str (env_time env - utc) @ [CHR 0x0A] @ ''Running on machine: '' @
         hostname (env_uname env) (cached_hostname g) @ [CHR 0x0A] @
         (if application_fingerprint g \<noteq> []
          then ''Application fingerprint: '' @ application_fingerprint g @ [CHR 0x0A] else []) @
         ''Running duration (h:mm:ss): '' @ PrettyDuration (c_div (env_now env - start_time f) 1000000) @
         [CHR 0x0A] @ ''Log line format: [IWEF]'' @
         (if FLAGS_log_year_in_prefix fl then ''yyyymmdd hh:mm:ss.uuuuuu'' else ''mmdd hh:mm:ss.uuuuuu'') @
         '' threadid file:line] msg'' @ [CHR 0x0A]))"

text \<open>\<open>fwrite\<close> to the log file: \<open>None\<close> when there is no file (a null pointer).\<close>

definition fwrite :: "string \<Rightarrow> FileState \<Rightarrow> FileState option" where
  "fwrite bs = (\<lambda>(f, g). case log_file f of None \<Rightarrow> None | Some p \<Rightarrow> Some (f, emit (EWrite p bs) g))"

definition count_bytes :: "string \<Rightarrow> LogFileObject \<Rightarrow> LogFileObject" where
  "count_bytes bs f = f\<lparr>file_length := file_length f + of_nat (length bs),
     bytes_since_flush := bytes_since_flush f + of_nat (length bs)\<rparr>"

definition write_header :: "LogFlags \<Rightarrow> LogEnv \<Rightarrow> Tm \<Rightarrow> FileState \<Rightarrow> FileState option" where
  "write_header fl env tm s =
     (if FLAGS_log_file_header fl then
        (let text = file_header fl env tm s; g0 = snd s;
             s0 = (fst s, g0\<lparr>cached_hostname := hostname (env_uname env) (cached_hostname g0)\<rparr>)
         in case fwrite text s0 of None \<Rightarrow> None | Some (f, g) \<Rightarrow> Some (count_bytes text f, g))
      else Some s)"

text \<open>The time in the name of a new file, and the check of the number of files before it is made.\<close>

definition file_time :: "LogFlags \<Rightarrow> LogEnv \<Rightarrow> int \<Rightarrow> Tm" where
  "file_time fl env ts = (if FLAGS_log_utc_time fl then env_gmtime env ts else env_localtime env ts)"

definition prepare_file :: "LogFlags \<Rightarrow> LogEnv \<Rightarrow> int \<Rightarrow> FileState \<Rightarrow> FileState" where
  "prepare_file fl env ts = (\<lambda>(f, g).
     (let (f1, g1) = (if \<not> initialized f
            then (let (f', g') = CheckHistoryFileNum fl env (f, g) in (f'\<lparr>initialized := True\<rparr>, g'))
            else trim_history fl (f, g))
      in (f1\<lparr>tm_time := file_time fl env ts\<rparr>, g1)))"

definition create_named :: "LogFlags \<Rightarrow> LogEnv \<Rightarrow> string \<Rightarrow> FileState \<Rightarrow> bool \<times> FileState" where
  "create_named fl env stamp s =
     (if base_filename_selected (fst s) then CreateLogfile fl env stamp s
      else try_dirs fl env (stripped_filename env s) stamp (env_log_dirs env) s)"

definition create_failed :: "bool \<Rightarrow> string \<Rightarrow> Effect list" where
  "create_failed selected stamp =
     (if selected then [EStderr ''Could not create log file'',
        EStderr (''COULD NOT CREATE LOGFILE '' @ [CHR 0x27] @ stamp @ [CHR 0x27] @ ''!'' @ [CHR 0x0A])]
      else [EStderr ''Could not create logging file'',
        EStderr (''COULD NOT CREATE A LOGGINGFILE '' @ stamp @ ''!'')])"

text \<open>
  Making a file when there is none: every 32nd call tries. The result tells whether the message is
  to be written.
\<close>

definition make_file :: "LogFlags \<Rightarrow> LogEnv \<Rightarrow> int \<Rightarrow> FileState \<Rightarrow> (bool \<times> FileState) option" where
  "make_file fl env ts = (\<lambda>(f, g).
     let f1 = f\<lparr>rollover_attempt := rollover_attempt f + 1\<rparr>
     in if rollover_attempt f1 \<noteq> kRolloverAttemptFrequency then Some (False, (f1, g))
        else let s2 = prepare_file fl env ts (f1\<lparr>rollover_attempt := 0\<rparr>, g);
                 stamp = time_pid_text fl (file_time fl env ts) (g_main_thread_pid (utils (snd s2)));
                 (ok, (f3, g3)) = create_named fl env stamp s2
          in if \<not> ok then Some (False, (f3, emits (create_failed (base_filename_selected (fst s2)) stamp) g3))
             else map_option (Pair True) (write_header fl env (file_time fl env ts) (f3, g3)))"

text \<open>The message itself; the result tells whether flushing is to be considered.\<close>

definition write_message :: "LogFlags \<Rightarrow> LogEnv \<Rightarrow> string \<Rightarrow> FileState \<Rightarrow> (bool \<times> FileState) option" where
  "write_message fl env message = (\<lambda>(f, g).
     if \<not> stop_writing g then
       (case fwrite message (f, g) of
          None \<Rightarrow> None
        | Some (f1, g1) \<Rightarrow>
            if FLAGS_stop_logging_if_full_disk fl \<and> env_enospc env
            then Some (False, (f1, g1\<lparr>stop_writing := True\<rparr>))
            else Some (True, (count_bytes message f1, g1)))
     else Some (False, (f, if next_flush_time f \<le> env_now env then g\<lparr>stop_writing := False\<rparr> else g)))"

unbundle bit_operations_syntax

text \<open>Dropping written data from memory; the lengths are 32-bit words.\<close>

definition drop_memory :: "LogFlags \<Rightarrow> FileState \<Rightarrow> FileState" where
  "drop_memory fl = (\<lambda>(f, g).
     if FLAGS_drop_log_memory fl \<and> 0x300000 \<le> file_length f then
       (let total_drop_length = ucast ((file_length f AND 0xFFF00000) - 0x100000) :: 32 word;
            this_drop_length = total_drop_length - dropped_mem_length f
        in if 0x200000 \<le> this_drop_length then
             (f\<lparr>dropped_mem_length := total_drop_length\<rparr>,
              (case log_file f of None \<Rightarrow> g
               | Some p \<Rightarrow> emit (EFadvise p (dropped_mem_length f) this_drop_length) g))
           else (f, g))
     else (f, g))"

definition flush_if_due :: "LogFlags \<Rightarrow> LogEnv \<Rightarrow> bool \<Rightarrow> FileState \<Rightarrow> FileState option" where
  "flush_if_due fl env force_flush = (\<lambda>(f, g).
     if force_flush \<or> 1000000 \<le> bytes_since_flush f \<or> next_flush_time f \<le> env_now env then
       (let (f1, g1) = drop_memory fl (FlushUnlocked fl env (f, g))
        in if enabled (log_cleaner g1) then
             (case Run fl env (base_filename_selected f1) (base_filename f1) (filename_extension f1) (log_cleaner g1) of
                None \<Rightarrow> None
              | Some (c, es) \<Rightarrow> Some (f1, emits es (g1\<lparr>log_cleaner := c\<rparr>)))
           else Some (f1, g1))
     else Some (f, g))"

text \<open>\<open>None\<close>: the null file is used, or the cleaner fails.\<close>

definition Write :: "LogFlags \<Rightarrow> LogEnv \<Rightarrow> bool \<Rightarrow> int \<Rightarrow> string \<Rightarrow> FileState \<Rightarrow> FileState option" where
  "Write fl env force_flush ts message s =
     (if base_filename_selected (fst s) \<and> base_filename (fst s) = [] then Some s
      else let (roll_needed, s1) = CheckNeedRollLogFiles fl env ts s;
               s2 = (if roll_needed then roll_over s1 else s1);
               s3 = reopen_newest fl env s2
        in case (if log_file (fst s3) = None then make_file fl env ts s3 else Some (True, s3)) of
             None \<Rightarrow> None
           | Some (False, s4) \<Rightarrow> Some s4
           | Some (True, s4) \<Rightarrow>
               (case write_message fl env message s4 of
                  None \<Rightarrow> None
                | Some (False, s5) \<Rightarrow> Some s5
                | Some (True, s5) \<Rightarrow> flush_if_due fl env force_flush s5))"

text \<open>The other operations of the \<open>Logger\<close> interface.\<close>

definition LogSize :: "FileState \<Rightarrow> 64 word" where
  "LogSize s = file_length (fst s)"

definition LogFileObject_delete :: "FileState \<Rightarrow> FileState" where
  "LogFileObject_delete = close_file"

end
