(* ===== verification/Log_File_Spec.thy ===== *)
theory Log_File_Spec
  imports Log_File
begin

section \<open>Logging: properties of log files\<close>

text \<open>
  The discipline of the file handles over every sequence of operations, the rolling over by size,
  the retries after a failure, the limit on the number of files, and the agreement of the names
  that are made with the names the cleaner looks for.
\<close>

subsection \<open>Handles\<close>

text \<open>
  What a sequence of effects does to one file handle: \<open>None\<close> as a result when a file is opened
  while another is open, or when a file is closed, written, flushed or advised on that is not the
  open one.
\<close>

fun effect_step :: "string option \<Rightarrow> Effect \<Rightarrow> string option option" where
  "effect_step st (EOpen p excl) = (if st = None then Some (Some p) else None)"
| "effect_step st (EClose p) = (if st = Some p then Some None else None)"
| "effect_step st (EWrite p bs) = (if st = Some p then Some st else None)"
| "effect_step st (EFlush p) = (if st = Some p then Some st else None)"
| "effect_step st (EFadvise p off len) = (if st = Some p then Some st else None)"
| "effect_step st _ = Some st"

fun run_effects :: "string option \<Rightarrow> Effect list \<Rightarrow> string option option" where
  "run_effects st [] = Some st"
| "run_effects st (e # es) = (case effect_step st e of None \<Rightarrow> None | Some st' \<Rightarrow> run_effects st' es)"

lemma run_effects_append:
  "run_effects st (es @ fs) = (case run_effects st es of None \<Rightarrow> None | Some st' \<Rightarrow> run_effects st' fs)"
  by (induction es arbitrary: st) (auto split: option.splits)

definition consistent :: "FileState \<Rightarrow> bool" where
  "consistent s = (run_effects None (effects (snd s)) = Some (log_file (fst s)))"

lemma consistent_iff: "consistent (f, g) \<longleftrightarrow> run_effects None (effects g) = Some (log_file f)"
  by (simp add: consistent_def)

text \<open>Effects that do not touch the handle.\<close>

definition quiet :: "Effect \<Rightarrow> bool" where
  "quiet e = (\<forall>st. effect_step st e = Some st)"

lemma quiet_simps [simp]:
  "quiet (ERemove p)" "quiet (EUnlink p)" "quiet (ESymlink p q)" "quiet (EHardLink p q)" "quiet (EStderr m)"
  by (simp_all add: quiet_def)

lemma run_effects_quiet: "list_all quiet es \<Longrightarrow> run_effects st es = Some st"
  by (induction es) (auto simp: quiet_def)

lemma consistent_emits: "list_all quiet es \<Longrightarrow> consistent (f, g) \<Longrightarrow> consistent (f, emits es g)"
  by (simp add: consistent_iff emits_def run_effects_append run_effects_quiet)

lemma consistent_emit: "quiet e \<Longrightarrow> consistent (f, g) \<Longrightarrow> consistent (f, emit e g)"
  by (simp add: consistent_iff emit_def run_effects_append quiet_def)

lemma effects_emit [simp]: "effects (emit e g) = effects g @ [e]"
  by (simp add: emit_def)

lemma effects_emits [simp]: "effects (emits es g) = effects g @ es"
  by (simp add: emits_def)

lemma consistent_close: "consistent s \<Longrightarrow> consistent (close_file s) \<and> log_file (fst (close_file s)) = None"
  by (cases s) (auto simp: close_file_def consistent_iff run_effects_append split: option.splits)

lemma consistent_close_renamed: "consistent s \<Longrightarrow> consistent (close_renamed s)"
  using consistent_close[of s]
  by (cases s) (auto simp: close_renamed_def consistent_iff split: prod.splits)

lemma consistent_SetBasename: "consistent s \<Longrightarrow> consistent (SetBasename b s)"
  using consistent_close_renamed[of "(fst s\<lparr>base_filename_selected := True\<rparr>, snd s)"]
  by (cases s) (auto simp: SetBasename_def consistent_iff Let_def split: prod.splits)

lemma consistent_SetExtension: "consistent s \<Longrightarrow> consistent (SetExtension b s)"
  using consistent_close_renamed[of s]
  by (cases s) (auto simp: SetExtension_def consistent_iff Let_def split: prod.splits)

lemma consistent_SetSymlinkBasename: "consistent s \<Longrightarrow> consistent (SetSymlinkBasename b s)"
  by (cases s) (auto simp: SetSymlinkBasename_def consistent_iff)

lemma consistent_FlushUnlocked:
  "consistent s \<Longrightarrow> consistent (FlushUnlocked fl env s) \<and> log_file (fst (FlushUnlocked fl env s)) = log_file (fst s)"
  by (cases s) (auto simp: FlushUnlocked_def consistent_iff run_effects_append split: option.splits)

lemma GetSuitableFileName_effects:
  "GetSuitableFileName fl env p g = (q, g') \<Longrightarrow> \<exists>es. effects g' = effects g @ es \<and> list_all quiet es"
  by (auto simp: GetSuitableFileName_def max_logfile_count_def Let_def
      split: option.splits if_splits sum.splits)

lemma consistent_CreateLogfileInternal:
  assumes "consistent (f, g)" and "log_file f = None"
    and "CreateLogfileInternal fl env p excl (f, g) = (ok, f', g')"
  shows "consistent (f', g') \<and> (ok \<longleftrightarrow> log_file f' \<noteq> None)"
  using assms
  by (auto simp: CreateLogfileInternal_def consistent_iff run_effects_append Let_def split: if_splits)

lemma link_effects_quiet: "list_all quiet (link_effects fl env b p)"
  by (simp add: link_effects_def Let_def)

lemma consistent_CreateLogfile:
  assumes "consistent (f, g)" and "log_file f = None"
    and "CreateLogfile fl env stamp (f, g) = (ok, f', g')"
  shows "consistent (f', g') \<and> (ok \<longleftrightarrow> log_file f' \<noteq> None)"
proof -
  obtain p g1 where name: "GetSuitableFileName fl env (base_filename f @
      (if FLAGS_timestamp_in_logfile_name fl then stamp else []) @ filename_extension f) g = (p, g1)"
    by (metis surj_pair)
  have c1: "consistent (f, g1)"
    using GetSuitableFileName_effects[OF name] assms(1)
    by (auto simp: consistent_iff run_effects_append run_effects_quiet)
  obtain ok2 f2 g2 where int: "CreateLogfileInternal fl env p (FLAGS_timestamp_in_logfile_name fl) (f, g1) = (ok2, f2, g2)"
    by (metis surj_pair)
  note c2 = consistent_CreateLogfileInternal[OF c1 assms(2) int]
  then show ?thesis
    using assms(3) name int
    by (auto simp: CreateLogfile_def Let_def consistent_iff run_effects_append link_effects_quiet
        run_effects_quiet split: if_splits)
qed

lemma trim_files_quiet: "trim_files n xs = (es, ys) \<Longrightarrow> list_all quiet es"
  by (induction n xs arbitrary: es ys rule: trim_files.induct) (auto split: if_splits prod.splits)

lemma consistent_trim_history:
  "consistent s \<Longrightarrow> consistent (trim_history fl s) \<and> log_file (fst (trim_history fl s)) = log_file (fst s)"
  by (cases s) (auto simp: trim_history_def consistent_iff run_effects_append run_effects_quiet
      dest: trim_files_quiet split: prod.splits)

lemma trim_history_pair:
  "consistent (trim_history fl (f\<lparr>file_list := xs\<rparr>, g)) \<and>
     log_file (fst (trim_history fl (f\<lparr>file_list := xs\<rparr>, g))) = log_file f"
  if "consistent (f, g)"
  using that consistent_trim_history[of "(f\<lparr>file_list := xs\<rparr>, g)" fl] by (simp add: consistent_iff)

lemma consistent_CheckHistoryFileNum:
  assumes "consistent s"
  shows "consistent (CheckHistoryFileNum fl env s) \<and>
     log_file (fst (CheckHistoryFileNum fl env s)) = log_file (fst s)"
proof -
  obtain f g where s: "s = (f, g)" by (cases s)
  have c: "run_effects None (effects g) = Some (log_file f)" "consistent (f, g)"
    using assms by (simp_all add: s consistent_iff)
  note trim = trim_history_pair[OF c(2)]
  show ?thesis
    by (auto simp: s CheckHistoryFileNum_def consistent_iff run_effects_append Let_def c(1) trim
        split: list.splits option.splits prod.splits)
qed

lemma consistent_reopen_newest:
  assumes "consistent s"
  shows "consistent (reopen_newest fl env s)"
proof -
  obtain f g where s: "s = (f, g)" by (cases s)
  obtain f1 g1 where h: "CheckHistoryFileNum fl env (f, g) = (f1, g1)" by (metis surj_pair)
  have c1: "consistent (f1, g1)" "log_file f1 = log_file f"
    using consistent_CheckHistoryFileNum[OF assms, of fl env] by (simp_all add: s h)
  obtain ok f2 g2 where int:
    "CreateLogfileInternal fl env (ft_name (last (file_list f1))) False (f1, g1) = (ok, f2, g2)"
    by (metis surj_pair)
  have "log_file f = None \<Longrightarrow> consistent (f2, g2)"
    using consistent_CreateLogfileInternal[OF c1(1) _ int] c1(2) by simp
  then show ?thesis
    using assms c1 by (auto simp: s reopen_newest_def h int Let_def consistent_iff)
qed

lemma consistent_try_dirs:
  assumes "consistent s" and "log_file (fst s) = None" and "try_dirs fl env name stamp dirs s = (ok, f', g')"
  shows "consistent (f', g') \<and> (ok \<longleftrightarrow> log_file f' \<noteq> None)"
  using assms
proof (induction dirs arbitrary: s)
  case Nil
  then show ?case by (cases s) auto
next
  case (Cons dir dirs)
  obtain f g where s: "s = (f, g)" by (cases s)
  obtain ok1 f1 g1 where cr:
    "CreateLogfile fl env stamp (f\<lparr>base_filename := dir @ ''/'' @ name\<rparr>, g) = (ok1, f1, g1)"
    by (metis surj_pair)
  have "consistent (f\<lparr>base_filename := dir @ ''/'' @ name\<rparr>, g)"
    using Cons.prems(1) by (simp add: s consistent_iff)
  then have "consistent (f1, g1) \<and> (ok1 \<longleftrightarrow> log_file f1 \<noteq> None)"
    using consistent_CreateLogfile[OF _ _ cr] Cons.prems(2) by (simp add: s)
  then show ?case
    using Cons.IH[of "(f1, g1)"] Cons.prems(3) by (auto simp: s cr[simplified] Let_def split: if_splits)
qed

lemma consistent_write_message:
  assumes "consistent s" and "log_file (fst s) \<noteq> None"
  shows "\<exists>ok s'. write_message fl env message s = Some (ok, s') \<and> consistent s' \<and>
    log_file (fst s') = log_file (fst s) \<and> base_filename_selected (fst s') = base_filename_selected (fst s) \<and>
    base_filename (fst s') = base_filename (fst s) \<and> log_cleaner (snd s') = log_cleaner (snd s)"
  using assms
  by (cases s) (auto simp: write_message_def fwrite_def count_bytes_def consistent_iff run_effects_append emit_def)

text \<open>What the cleaner needs in order not to fail.\<close>

definition cleaner_ok :: "LogFlags \<Rightarrow> LogCleaner \<Rightarrow> bool" where
  "cleaner_ok fl c = (enabled c \<longrightarrow> 0 \<le> FLAGS_logcleansecs fl \<and> FLAGS_logcleansecs fl \<le> 2147)"

lemma Run_some:
  assumes "enabled c" and "cleaner_ok fl c" and "\<not> (selected \<and> base = [])"
  shows "\<exists>c' es. Run fl env selected base ext c = Some (c', es) \<and> list_all quiet es \<and> cleaner_ok fl c'"
proof (cases "env_now env < next_cleanup_time c")
  case True
  then show ?thesis using assms by (auto simp: Run_def)
next
  case False
  have "list_all quiet (concat (map (\<lambda>dir. map EUnlink (GetOverdueLogNames env dir days base ext)) dirs))"
    for days dirs
    by (induction dirs) (auto simp: list_all_iff)
  then show ?thesis
    using False assms by (auto simp: Run_def UpdateCleanUpTime_def cleaner_ok_def)
qed

lemma drop_memory_fields:
  "log_file (fst (drop_memory fl s)) = log_file (fst s)"
  "base_filename_selected (fst (drop_memory fl s)) = base_filename_selected (fst s)"
  "base_filename (fst (drop_memory fl s)) = base_filename (fst s)"
  "log_cleaner (snd (drop_memory fl s)) = log_cleaner (snd s)"
  by (cases s; auto simp: drop_memory_def Let_def emit_def split: option.splits)+

lemma consistent_drop_memory: "consistent s \<Longrightarrow> consistent (drop_memory fl s)"
  by (cases s) (auto simp: drop_memory_def Let_def consistent_iff run_effects_append split: option.splits)

lemma FlushUnlocked_fields:
  "log_file (fst (FlushUnlocked fl env s)) = log_file (fst s)"
  "base_filename_selected (fst (FlushUnlocked fl env s)) = base_filename_selected (fst s)"
  "base_filename (fst (FlushUnlocked fl env s)) = base_filename (fst s)"
  "log_cleaner (snd (FlushUnlocked fl env s)) = log_cleaner (snd s)"
  by (cases s; auto simp: FlushUnlocked_def Let_def emit_def split: option.splits)+

lemma flush_if_due_ok:
  assumes "consistent s" and "cleaner_ok fl (log_cleaner (snd s))"
    and "\<not> (base_filename_selected (fst s) \<and> base_filename (fst s) = [])"
  shows "\<exists>s'. flush_if_due fl env force_flush s = Some s' \<and> consistent s' \<and> cleaner_ok fl (log_cleaner (snd s'))"
proof -
  obtain f g where s: "s = (f, g)" by (cases s)
  obtain f1 g1 where d: "drop_memory fl (FlushUnlocked fl env (f, g)) = (f1, g1)" by (metis surj_pair)
  have c1: "consistent (f1, g1)"
    using consistent_drop_memory[of "FlushUnlocked fl env s" fl] consistent_FlushUnlocked[OF assms(1)] d s by simp
  have k1: "log_cleaner g1 = log_cleaner g" "\<not> (base_filename_selected f1 \<and> base_filename f1 = [])"
    using drop_memory_fields[of fl "FlushUnlocked fl env s"] FlushUnlocked_fields[of fl env s] d s assms(3)
    by simp_all
  show ?thesis
  proof (cases "enabled (log_cleaner g1)")
    case True
    have "cleaner_ok fl (log_cleaner g1)" using assms(2) k1(1) s by simp
    then obtain c es where "Run fl env (base_filename_selected f1) (base_filename f1) (filename_extension f1)
        (log_cleaner g1) = Some (c, es)" "list_all quiet es" "cleaner_ok fl c"
      using Run_some[OF True _ k1(2)] by blast
    then show ?thesis
      using True c1 assms(1,2) by (auto simp: s flush_if_due_def d consistent_iff run_effects_append
          run_effects_quiet emits_def)
  next
    case False
    then show ?thesis using c1 k1 assms(1,2) by (auto simp: s flush_if_due_def d)
  qed
qed

lemma CheckNeedRoll_fields:
  assumes "CheckNeedRollLogFiles fl env ts s = (roll, s1)"
  shows "fst s1 = fst s \<and> effects (snd s1) = effects (snd s) \<and> log_cleaner (snd s1) = log_cleaner (snd s) \<and>
    stop_writing (snd s1) = stop_writing (snd s)"
  using assms by (cases s) (auto simp: CheckNeedRollLogFiles_def Let_def split: if_splits prod.splits)

text \<open>What no step before the flush changes: the chosen base name and the cleaner; and the effects are
  only added to.\<close>

definition keeps_base :: "FileState \<Rightarrow> FileState \<Rightarrow> bool" where
  "keeps_base s s' = (base_filename_selected (fst s') = base_filename_selected (fst s) \<and>
     (base_filename_selected (fst s) \<longrightarrow> base_filename (fst s') = base_filename (fst s)) \<and>
     log_cleaner (snd s') = log_cleaner (snd s) \<and> prefix (effects (snd s)) (effects (snd s')))"

lemma keeps_base_refl: "keeps_base s s"
  by (simp add: keeps_base_def)

lemma keeps_base_trans: "keeps_base s t \<Longrightarrow> keeps_base t u \<Longrightarrow> keeps_base s u"
  by (auto simp: keeps_base_def)

lemma keeps_base_close: "keeps_base s (close_file s)"
  by (cases s) (auto simp: keeps_base_def close_file_def emit_def split: option.splits)

lemma keeps_base_roll_over: "keeps_base s (roll_over s)"
  using keeps_base_close[of s] by (auto simp: roll_over_def keeps_base_def split: prod.splits)

lemma keeps_base_trim: "keeps_base s (trim_history fl s)"
  by (cases s) (auto simp: trim_history_def keeps_base_def emits_def split: prod.splits)

lemma keeps_base_CheckHistory: "keeps_base s (CheckHistoryFileNum fl env s)"
proof -
  obtain f g where s: "s = (f, g)" by (cases s)
  have "keeps_base (f, g) (trim_history fl (f\<lparr>file_list := xs\<rparr>, g))" for xs
    using keeps_base_trim[of "(f\<lparr>file_list := xs\<rparr>, g)" fl] by (simp add: keeps_base_def)
  moreover have "keeps_base (f, g) (f\<lparr>file_list := xs\<rparr>, emit e g)" "keeps_base (f, g) (f, emit e g)" for xs e
    by (simp_all add: keeps_base_def emit_def)
  ultimately show ?thesis
    by (auto simp: s CheckHistoryFileNum_def Let_def keeps_base_refl split: list.splits option.splits prod.splits)
qed

lemma keeps_base_CreateLogfileInternal:
  "CreateLogfileInternal fl env p excl s = (ok, s') \<Longrightarrow> keeps_base s s'"
  by (cases s) (auto simp: CreateLogfileInternal_def keeps_base_def emit_def Let_def split: if_splits)

lemma GetSuitableFileName_cleaner:
  "GetSuitableFileName fl env p g = (q, g') \<Longrightarrow> log_cleaner g' = log_cleaner g \<and> prefix (effects g) (effects g')"
  by (auto simp: GetSuitableFileName_def Let_def emit_def split: option.splits if_splits sum.splits prod.splits)

lemma keeps_base_CreateLogfile:
  assumes "CreateLogfile fl env stamp s = (ok, s')"
  shows "keeps_base s s'"
proof -
  obtain f g where s: "s = (f, g)" by (cases s)
  obtain p g1 where name: "GetSuitableFileName fl env (base_filename f @
      (if FLAGS_timestamp_in_logfile_name fl then stamp else []) @ filename_extension f) g = (p, g1)"
    by (metis surj_pair)
  obtain ok2 f2 g2 where int: "CreateLogfileInternal fl env p (FLAGS_timestamp_in_logfile_name fl) (f, g1) = (ok2, f2, g2)"
    by (metis surj_pair)
  note k = GetSuitableFileName_cleaner[OF name] keeps_base_CreateLogfileInternal[OF int]
  then have "prefix (effects g) (effects g2)"
    unfolding keeps_base_def by (auto intro: prefix_order.trans)
  then show ?thesis
    using assms name int k
    by (auto simp: s CreateLogfile_def Let_def keeps_base_def emits_def split: if_splits)
qed

lemma keeps_base_reopen: "keeps_base s (reopen_newest fl env s)"
proof -
  obtain f g where s: "s = (f, g)" by (cases s)
  obtain f1 g1 where h: "CheckHistoryFileNum fl env (f, g) = (f1, g1)" by (metis surj_pair)
  obtain ok f2 g2 where int:
    "CreateLogfileInternal fl env (ft_name (last (file_list f1))) False (f1, g1) = (ok, f2, g2)"
    by (metis surj_pair)
  have "keeps_base s (f1, g1)" using keeps_base_CheckHistory[of s fl env] by (simp add: s h)
  moreover have "keeps_base (f1, g1) (f2, g2)" by (rule keeps_base_CreateLogfileInternal[OF int])
  ultimately show ?thesis
    by (auto simp: s reopen_newest_def h int Let_def keeps_base_def)
qed

lemma keeps_base_try_dirs:
  "try_dirs fl env name stamp dirs s = (ok, s') \<Longrightarrow> \<not> base_filename_selected (fst s) \<Longrightarrow> keeps_base s s'"
proof (induction dirs arbitrary: s)
  case Nil
  then show ?case by (simp add: keeps_base_refl)
next
  case (Cons dir dirs)
  obtain f g where s: "s = (f, g)" by (cases s)
  obtain ok1 s1 where cr:
    "CreateLogfile fl env stamp (f\<lparr>base_filename := dir @ ''/'' @ name\<rparr>, g) = (ok1, s1)"
    by (metis surj_pair)
  have k: "keeps_base s s1"
    using keeps_base_CreateLogfile[OF cr] Cons.prems(2) by (simp add: s keeps_base_def)
  then show ?case
    using Cons.IH[of s1] Cons.prems cr[simplified] keeps_base_trans[of s s1 s']
    by (auto simp: s Let_def keeps_base_def split: if_splits)
qed

lemma keeps_base_write_header:
  "write_header fl env tm s = Some s' \<Longrightarrow> keeps_base s s'"
  by (cases s) (auto simp: write_header_def fwrite_def count_bytes_def keeps_base_def emit_def Let_def
      split: if_splits option.splits)

lemma write_header_file:
  assumes "consistent s" and "log_file (fst s) \<noteq> None"
  shows "\<exists>s'. write_header fl env tm s = Some s' \<and> consistent s' \<and> log_file (fst s') = log_file (fst s)"
  using assms
  by (cases s) (auto simp: write_header_def fwrite_def count_bytes_def consistent_iff run_effects_append Let_def)

lemma consistent_record [simp]:
  "consistent (f\<lparr>rollover_attempt := n\<rparr>, g) = consistent (f, g)"
  "consistent (f\<lparr>initialized := b\<rparr>, g) = consistent (f, g)"
  "consistent (f\<lparr>tm_time := t\<rparr>, g) = consistent (f, g)"
  by (simp_all add: consistent_iff)

lemma prepare_file_ok:
  assumes "consistent s"
  shows "consistent (prepare_file fl env ts s) \<and> log_file (fst (prepare_file fl env ts s)) = log_file (fst s) \<and>
    keeps_base s (prepare_file fl env ts s)"
  using consistent_CheckHistoryFileNum[OF assms, of fl env] consistent_trim_history[OF assms, of fl]
    keeps_base_CheckHistory[of s fl env] keeps_base_trim[of s fl]
  by (cases s) (auto simp: prepare_file_def keeps_base_def split: prod.splits)

lemma create_named_ok:
  assumes "consistent s" and "log_file (fst s) = None" and "create_named fl env stamp s = (ok, s')"
  shows "consistent s' \<and> (ok \<longleftrightarrow> log_file (fst s') \<noteq> None) \<and> keeps_base s s'"
proof -
  obtain f g f' g' where s: "s = (f, g)" "s' = (f', g')" by (metis surj_pair)
  show ?thesis
  proof (cases "base_filename_selected f")
    case True
    then have "CreateLogfile fl env stamp (f, g) = (ok, f', g')" using assms(3) by (simp add: create_named_def s)
    then show ?thesis
      using consistent_CreateLogfile keeps_base_CreateLogfile assms(1,2) by (fastforce simp: s)
  next
    case False
    then have "try_dirs fl env (stripped_filename env s) stamp (env_log_dirs env) s = (ok, f', g')"
      using assms(3) by (simp add: create_named_def s)
    then show ?thesis
      using consistent_try_dirs[OF assms(1,2)] keeps_base_try_dirs False by (fastforce simp: s)
  qed
qed

lemma create_failed_quiet: "list_all quiet (create_failed selected stamp)"
  by (simp add: create_failed_def)

text \<open>After \<open>make_file\<close> reports a file there is one, and it never uses the null file.\<close>

lemma make_file_ok:
  assumes "consistent s" and "log_file (fst s) = None"
  shows "\<exists>ok s'. make_file fl env ts s = Some (ok, s') \<and> consistent s' \<and> keeps_base s s' \<and>
    (ok \<longrightarrow> log_file (fst s') \<noteq> None)"
proof -
  obtain f g where s: "s = (f, g)" by (cases s)
  let ?f1 = "f\<lparr>rollover_attempt := rollover_attempt f + 1\<rparr>"
  let ?s2 = "prepare_file fl env ts (?f1\<lparr>rollover_attempt := 0\<rparr>, g)"
  let ?stamp = "time_pid_text fl (file_time fl env ts) (g_main_thread_pid (utils (snd ?s2)))"
  obtain ok f3 g3 where cr: "create_named fl env ?stamp ?s2 = (ok, f3, g3)" by (metis surj_pair)
  have c1: "consistent (?f1, g)" "consistent (?f1\<lparr>rollover_attempt := 0\<rparr>, g)" using assms(1) by (simp_all add: s)
  have k1: "keeps_base s (?f1, g)" "keeps_base s (?f1\<lparr>rollover_attempt := 0\<rparr>, g)"
    by (simp_all add: s keeps_base_def)
  note p = prepare_file_ok[OF c1(2), of fl env ts]
  have c3: "consistent (f3, g3) \<and> (ok \<longleftrightarrow> log_file f3 \<noteq> None) \<and> keeps_base ?s2 (f3, g3)"
    using create_named_ok[OF _ _ cr] p assms(2) by (simp add: s)
  have k3: "keeps_base s (f3, g3)"
    using c3 p k1(2) keeps_base_trans by blast
  have eq: "make_file fl env ts s =
    (if rollover_attempt ?f1 \<noteq> kRolloverAttemptFrequency then Some (False, (?f1, g))
     else if \<not> ok then Some (False, (f3, emits (create_failed (base_filename_selected (fst ?s2)) ?stamp) g3))
     else map_option (Pair True) (write_header fl env (file_time fl env ts) (f3, g3)))"
    unfolding make_file_def s Let_def prod.case cr by (rule refl)
  show ?thesis
  proof (cases "rollover_attempt ?f1 = kRolloverAttemptFrequency \<and> ok")
    case True
    then obtain s4 where "write_header fl env (file_time fl env ts) (f3, g3) = Some s4" "consistent s4"
      "log_file (fst s4) \<noteq> None"
      using write_header_file[of "(f3, g3)" fl env "file_time fl env ts"] c3 by auto
    then show ?thesis using True k3 keeps_base_write_header keeps_base_trans by (auto simp: eq)
  next
    case False
    have "keeps_base s (f3, emits es g3)" for es using k3 by (simp add: keeps_base_def emits_def)
    then show ?thesis using False c1 c3 k1 by (auto simp: eq consistent_emits create_failed_quiet)
  qed
qed

text \<open>
  One call of \<open>Write\<close>: it returns, the handles stay in order, and the cleaner keeps working.
\<close>

lemma Write_ok:
  assumes "consistent s" and "cleaner_ok fl (log_cleaner (snd s))"
  shows "\<exists>s'. Write fl env force ts message s = Some s' \<and> consistent s' \<and> cleaner_ok fl (log_cleaner (snd s'))"
proof (cases "base_filename_selected (fst s) \<and> base_filename (fst s) = []")
  case True
  then show ?thesis using assms by (simp add: Write_def)
next
  case False
  obtain roll s1 where r: "CheckNeedRollLogFiles fl env ts s = (roll, s1)" by (metis surj_pair)
  let ?s2 = "if roll then roll_over s1 else s1"
  let ?s3 = "reopen_newest fl env ?s2"
  have k1: "keeps_base s s1" "consistent s1"
    using CheckNeedRoll_fields[OF r] assms(1) by (simp_all add: keeps_base_def consistent_def)
  have c2: "consistent (roll_over s1)"
    using consistent_close[OF k1(2)] by (auto simp: roll_over_def consistent_iff split: prod.splits)
  have k2: "keeps_base s ?s2" "consistent ?s2"
    using k1 c2 keeps_base_trans[OF k1(1) keeps_base_roll_over[of s1]] by simp_all
  have k3: "keeps_base s ?s3" "consistent ?s3"
    by (rule keeps_base_trans[OF k2(1) keeps_base_reopen], rule consistent_reopen_newest[OF k2(2)])
  obtain ok s4 where m: "(if log_file (fst ?s3) = None then make_file fl env ts ?s3 else Some (True, ?s3)) = Some (ok, s4)"
    "consistent s4" "keeps_base ?s3 s4" "ok \<longrightarrow> log_file (fst s4) \<noteq> None"
    using make_file_ok[OF k3(2), of fl env ts] k3(2) by (cases "log_file (fst ?s3) = None") (auto simp: keeps_base_refl)
  have k4: "keeps_base s s4" using keeps_base_trans[OF k3(1) m(3)] .
  have eq: "Write fl env force ts message s = (if \<not> ok then Some s4 else
      (case write_message fl env message s4 of
         None \<Rightarrow> None
       | Some (False, s5) \<Rightarrow> Some s5
       | Some (True, s5) \<Rightarrow> flush_if_due fl env force s5))"
    using False unfolding Write_def r Let_def prod.case m(1) by auto
  show ?thesis
  proof (cases ok)
    case True
    then obtain go s5 where w: "write_message fl env message s4 = Some (go, s5)" "consistent s5"
      "base_filename_selected (fst s5) = base_filename_selected (fst s4)"
      "base_filename (fst s5) = base_filename (fst s4)" "log_cleaner (snd s5) = log_cleaner (snd s4)"
      using consistent_write_message[OF m(2)] m(4) by blast
    have "cleaner_ok fl (log_cleaner (snd s5))" "\<not> (base_filename_selected (fst s5) \<and> base_filename (fst s5) = [])"
      using w k4 False assms(2) by (auto simp: keeps_base_def)
    then show ?thesis using flush_if_due_ok[OF w(2)] True w by (cases go) (auto simp: eq)
  next
    case False
    then show ?thesis using m(2) k4 assms(2) by (auto simp: eq keeps_base_def)
  qed
qed

subsection \<open>Every sequence of operations\<close>

inductive file_reach :: "LogFlags \<Rightarrow> FileState \<Rightarrow> bool" for fl where
  start: "effects g = [] \<Longrightarrow> cleaner_ok fl (log_cleaner g) \<Longrightarrow>
     file_reach fl (LogFileObject_new sev base short_name now uninit_tm, g)"
| writes: "file_reach fl s \<Longrightarrow> Write fl env force ts message s = Some s' \<Longrightarrow> file_reach fl s'"
| basename: "file_reach fl s \<Longrightarrow> file_reach fl (SetBasename b s)"
| extension: "file_reach fl s \<Longrightarrow> file_reach fl (SetExtension e s)"
| symlink: "file_reach fl s \<Longrightarrow> file_reach fl (SetSymlinkBasename l s)"
| flush: "file_reach fl s \<Longrightarrow> file_reach fl (FlushUnlocked fl env s)"
| delete: "file_reach fl s \<Longrightarrow> file_reach fl (LogFileObject_delete s)"

lemma close_file_cleaner: "log_cleaner (snd (close_file s)) = log_cleaner (snd s)"
  using keeps_base_close[of s] by (simp add: keeps_base_def)

lemma close_renamed_cleaner: "log_cleaner (snd (close_renamed s)) = log_cleaner (snd s)"
  using close_file_cleaner[of s] by (cases s) (auto simp: close_renamed_def split: prod.splits)

lemma SetBasename_cleaner: "log_cleaner (snd (SetBasename b s)) = log_cleaner (snd s)"
  using close_renamed_cleaner[of "(fst s\<lparr>base_filename_selected := True\<rparr>, snd s)"]
  by (cases s) (auto simp: SetBasename_def Let_def split: prod.splits)

lemma SetExtension_cleaner: "log_cleaner (snd (SetExtension b s)) = log_cleaner (snd s)"
  using close_renamed_cleaner[of s] by (cases s) (auto simp: SetExtension_def Let_def split: prod.splits)

lemma file_reach_ok: "file_reach fl s \<Longrightarrow> consistent s \<and> cleaner_ok fl (log_cleaner (snd s))"
proof (induction rule: file_reach.induct)
  case (start g sev base short_name now uninit_tm)
  then show ?case by (simp add: consistent_iff LogFileObject_new_def)
next
  case (writes s env force ts message s')
  then show ?case using Write_ok[of s fl env force ts message] by auto
next
  case (basename s b)
  then show ?case by (simp add: consistent_SetBasename SetBasename_cleaner)
next
  case (extension s e)
  then show ?case by (simp add: consistent_SetExtension SetExtension_cleaner)
next
  case (symlink s l)
  then show ?case using consistent_SetSymlinkBasename[of s l] by (cases s) (simp add: SetSymlinkBasename_def)
next
  case (flush s env)
  then show ?case by (simp add: consistent_FlushUnlocked FlushUnlocked_fields)
next
  case (delete s)
  then show ?case by (simp add: LogFileObject_delete_def consistent_close close_file_cleaner)
qed

text \<open>C10. Whatever sequence of writes, renamings, extension changes and flushes a log file object
  goes through, whatever the system answers, and also when files cannot be created, locked or
  opened: a file is only opened when no other is open, the open file is the one that is written,
  flushed and advised on, and every file is closed at most once; so no handle leaks and no closed
  or null file is used.\<close>

theorem handles_in_order:
  assumes "file_reach fl s"
  shows "run_effects None (effects (snd s)) = Some (log_file (fst s))"
  using file_reach_ok[OF assms] by (simp add: consistent_def)

definition demo_globals :: LogGlobals where
  "demo_globals = \<lparr>stop_writing = False, rolling_file_number = 10, log_cleaner = LogCleaner_new,
     cached_hostname = [], application_fingerprint = [], utils = ustart 77, effects = []\<rparr>"

lemma demo_reach: "file_reach default_flags (LogFileObject_new 0 (Some ''/tmp/a.'') ''a'' 0 demo_tm, demo_globals)"
  by (rule file_reach.start) (simp_all add: demo_globals_def cleaner_ok_def LogCleaner_new_def)

theorem handles_in_order_witness:
  "run_effects None (effects (snd (SetBasename ''b''
     (LogFileObject_new 0 (Some ''/tmp/a.'') ''a'' 0 demo_tm, demo_globals)))) \<noteq> None"
  using handles_in_order[OF file_reach.basename[OF demo_reach]] by simp

text \<open>In every reachable state \<open>Write\<close> returns: it never writes through a null file, and the
  assertions and the arithmetic of the cleaner hold, whatever the system answers.\<close>

theorem Write_returns:
  assumes "file_reach fl s"
  shows "\<exists>s'. Write fl env force ts message s = Some s' \<and> file_reach fl s'"
  using Write_ok[of s fl env force ts message] file_reach_ok[OF assms] file_reach.writes[OF assms] by blast

theorem Write_returns_witness:
  "\<exists>s'. Write default_flags demo_env True 0 ''hello''
     (LogFileObject_new 0 (Some ''/tmp/a.'') ''a'' 0 demo_tm, demo_globals) = Some s'"
  using Write_returns[OF demo_reach] by blast

subsection \<open>Rolling over by size\<close>

text \<open>The size test: the length in megabytes against the limit.\<close>

definition size_limit :: "LogFlags \<Rightarrow> nat" where
  "size_limit fl = unat (MaxLogSize (FLAGS_max_log_size fl)) * 2 ^ 20"

lemma full_iff:
  "ucast (MaxLogSize (FLAGS_max_log_size fl)) \<le> drop_bit 20 (n :: 64 word) \<longleftrightarrow> size_limit fl \<le> unat n"
proof -
  have "unat (ucast (MaxLogSize (FLAGS_max_log_size fl)) :: 64 word) = unat (MaxLogSize (FLAGS_max_log_size fl))"
    by (simp add: unsigned_ucast_eq take_bit_nat_eq_self_iff less_le_trans[OF unsigned_less])
  moreover have "unat (drop_bit 20 n) = unat n div 2 ^ 20"
    by (simp add: drop_bit_eq_div unat_div_distrib)
  ultimately show ?thesis
    by (simp add: word_le_nat_alt size_limit_def less_eq_div_iff_mult_less_eq)
qed

lemma write_message_grows:
  "write_message fl env message s = Some (go, s') \<Longrightarrow> prefix (effects (snd s)) (effects (snd s'))"
  by (cases s) (auto simp: write_message_def fwrite_def emit_def split: if_splits option.splits)

lemma flush_if_due_grows:
  "flush_if_due fl env force s = Some s' \<Longrightarrow>
   \<exists>es. effects (snd s') = effects (snd s) @ es \<and>
     list_all (\<lambda>e. case e of EFlush _ \<Rightarrow> True | EFadvise _ _ _ \<Rightarrow> True | EUnlink _ \<Rightarrow> True | _ \<Rightarrow> False) es"
  by (cases s) (auto simp: flush_if_due_def drop_memory_def FlushUnlocked_def Run_def emits_def list_all_iff
      Let_def split: if_splits option.splits prod.splits)

lemma Write_grows:
  assumes "Write fl env force ts message s = Some s'" and "consistent s"
    and "CheckNeedRollLogFiles fl env ts s = (roll, s1)"
    and "\<not> (base_filename_selected (fst s) \<and> base_filename (fst s) = [])"
  shows "prefix (effects (snd (if roll then roll_over s1 else s1))) (effects (snd s'))"
proof -
  let ?s2 = "if roll then roll_over s1 else s1"
  let ?s3 = "reopen_newest fl env ?s2"
  have "consistent s1" using CheckNeedRoll_fields[OF assms(3)] assms(2) by (simp add: consistent_def)
  then have "consistent ?s2"
    using consistent_close[of s1] by (auto simp: roll_over_def consistent_iff split: prod.splits)
  then have c3: "consistent ?s3" by (rule consistent_reopen_newest)
  obtain ok s4 where m: "(if log_file (fst ?s3) = None then make_file fl env ts ?s3 else Some (True, ?s3)) = Some (ok, s4)"
    "keeps_base ?s3 s4"
    using make_file_ok[OF c3, of fl env ts] by (cases "log_file (fst ?s3) = None") (auto simp: keeps_base_refl)
  have p4: "prefix (effects (snd ?s2)) (effects (snd s4))"
    using keeps_base_reopen[of ?s2 fl env] m(2) by (auto simp: keeps_base_def intro: prefix_order.trans)
  have eq: "Write fl env force ts message s = (if \<not> ok then Some s4 else
      (case write_message fl env message s4 of
         None \<Rightarrow> None
       | Some (False, s5) \<Rightarrow> Some s5
       | Some (True, s5) \<Rightarrow> flush_if_due fl env force s5))"
    using assms(4) unfolding Write_def assms(3) Let_def prod.case m(1) by auto
  have "prefix (effects (snd s4)) (effects (snd s'))"
  proof (cases ok)
    case True
    then obtain go s5 where w: "write_message fl env message s4 = Some (go, s5)"
      using assms(1) eq by (cases "write_message fl env message s4") auto
    have "prefix (effects (snd s5)) (effects (snd s'))"
      using assms(1) eq True w flush_if_due_grows[of fl env force s5 s'] by (cases go) auto
    then show ?thesis using write_message_grows[OF w] prefix_order.trans by blast
  qed (use assms(1) eq in simp)
  then show ?thesis using p4 prefix_order.trans by blast
qed

lemma roll_over_effects:
  "log_file (fst s) = Some p \<Longrightarrow> effects (snd (roll_over s)) = effects (snd s) @ [EClose p]"
  by (cases s) (auto simp: roll_over_def close_file_def)

text \<open>A file with room: the message is written at once.\<close>

lemma Write_room:
  assumes "log_file f = Some p" and "FLAGS_log_rolling_policy fl \<noteq> ''day''" and "FLAGS_log_rolling_policy fl \<noteq> ''hour''"
    and "\<not> (base_filename_selected f \<and> base_filename f = [])" and "unat (file_length f) < size_limit fl"
    and "env_pid env = g_main_thread_pid (utils g)" and "\<not> stop_writing g"
  shows "Write fl env force ts message (f, g) =
     (if FLAGS_stop_logging_if_full_disk fl \<and> env_enospc env
      then Some (f, (emit (EWrite p message) g)\<lparr>stop_writing := True\<rparr>)
      else flush_if_due fl env force (count_bytes message f, emit (EWrite p message) g))"
proof -
  have roll: "CheckNeedRollLogFiles fl env ts (f, g) = (False, (f, g))"
    using assms by (simp add: CheckNeedRollLogFiles_def full_iff not_le PidHasChanged_def)
  have re: "reopen_newest fl env (f, g) = (f, g)"
    using assms(1) by (simp add: reopen_newest_def)
  show ?thesis using assms(1,4,7) by (auto simp: Write_def roll re write_message_def fwrite_def)
qed

lemma Write_by_size_cases:
  assumes "file_reach fl (f, g)" and "log_file f = Some p"
    and "FLAGS_log_rolling_policy fl \<noteq> ''day''" and "FLAGS_log_rolling_policy fl \<noteq> ''hour''"
    and "\<not> (base_filename_selected f \<and> base_filename f = [])"
    and "Write fl env force ts message (f, g) = Some s'"
  shows "size_limit fl \<le> unat (file_length f) \<Longrightarrow> \<exists>es. effects (snd s') = effects g @ EClose p # es"
    and "unat (file_length f) < size_limit fl \<Longrightarrow> env_pid env = g_main_thread_pid (utils g) \<Longrightarrow> \<not> stop_writing g \<Longrightarrow>
      \<exists>es. effects (snd s') = effects g @ EWrite p message # es \<and>
        list_all (\<lambda>e. case e of EFlush _ \<Rightarrow> True | EFadvise _ _ _ \<Rightarrow> True | EUnlink _ \<Rightarrow> True | _ \<Rightarrow> False) es"
proof -
  have cons: "consistent (f, g)" using file_reach_ok[OF assms(1)] by simp
  show "\<exists>es. effects (snd s') = effects g @ EClose p # es" if "size_limit fl \<le> unat (file_length f)"
  proof -
    have "CheckNeedRollLogFiles fl env ts (f, g) = (True, (f, g))"
      using that assms(3,4) by (simp add: CheckNeedRollLogFiles_def full_iff)
    from Write_grows[OF assms(6) cons this] assms(5) show ?thesis
      by (auto simp: roll_over_effects assms(2) prefix_def)
  qed
  assume a: "unat (file_length f) < size_limit fl" "env_pid env = g_main_thread_pid (utils g)" "\<not> stop_writing g"
  note Write_room[OF assms(2-5) a, of force ts message]
  then show "\<exists>es. effects (snd s') = effects g @ EWrite p message # es \<and>
      list_all (\<lambda>e. case e of EFlush _ \<Rightarrow> True | EFadvise _ _ _ \<Rightarrow> True | EUnlink _ \<Rightarrow> True | _ \<Rightarrow> False) es"
    using assms(6) flush_if_due_grows[of fl env force "(count_bytes message f, emit (EWrite p message) g)" s']
    by (auto split: if_splits)
qed

text \<open>C16. With rolling by size, a message that comes when the file has reached the configured size
  makes the file be closed before anything else happens; as long as the size is not reached and
  the process is the same, the message is appended to the open file at once, and afterwards the
  file is at most flushed and advised on, and overdue logs are unlinked.\<close>

theorem Write_by_size:
  assumes "file_reach fl (f, g)" and "log_file f = Some p"
    and "FLAGS_log_rolling_policy fl \<noteq> ''day''" and "FLAGS_log_rolling_policy fl \<noteq> ''hour''"
    and "\<not> (base_filename_selected f \<and> base_filename f = [])"
    and "Write fl env force ts message (f, g) = Some s'"
  shows "(size_limit fl \<le> unat (file_length f) \<longrightarrow> (\<exists>es. effects (snd s') = effects g @ EClose p # es)) \<and>
    (unat (file_length f) < size_limit fl \<and> env_pid env = g_main_thread_pid (utils g) \<and> \<not> stop_writing g \<longrightarrow>
      (\<exists>es. effects (snd s') = effects g @ EWrite p message # es \<and>
        list_all (\<lambda>e. case e of EFlush _ \<Rightarrow> True | EFadvise _ _ _ \<Rightarrow> True | EUnlink _ \<Rightarrow> True | _ \<Rightarrow> False) es))"
  using Write_by_size_cases[OF assms] by blast

definition demo_flags :: LogFlags where
  "demo_flags = default_flags\<lparr>FLAGS_log_file_header := False\<rparr>"

definition demo_state :: FileState where
  "demo_state = (LogFileObject_new 0 (Some ''/tmp/a.'') [] 0 demo_tm, demo_globals)"

definition demo_open :: "FileState option" where
  "demo_open = Write demo_flags demo_env False 0 ''hi'' demo_state"

lemma demo_open_effects:
  "map_option (\<lambda>(f, g). (log_file f, base_filename f, unat (file_length f), stop_writing g,
     g_main_thread_pid (utils g), effects g)) demo_open =
   Some (Some ''/tmp/a.20240131-010203.77'', ''/tmp/a.'', 2, False, 77,
     [EOpen ''/tmp/a.20240131-010203.77'' True, EWrite ''/tmp/a.20240131-010203.77'' ''hi'',
      EFlush ''/tmp/a.20240131-010203.77''])"
  by code_simp

lemma demo_state_reach: "file_reach demo_flags demo_state"
  unfolding demo_state_def
  by (rule file_reach.start) (simp_all add: demo_globals_def cleaner_ok_def LogCleaner_new_def)

theorem Write_by_size_witness:
  "\<exists>f g s' es. Write demo_flags demo_env False 0 ''hi'' demo_state = Some (f, g) \<and>
     Write demo_flags demo_env True 0 ''ho'' (f, g) = Some s' \<and>
     effects (snd s') = effects g @ EWrite ''/tmp/a.20240131-010203.77'' ''ho'' # es"
proof -
  obtain f g where s: "Write demo_flags demo_env False 0 ''hi'' demo_state = Some (f, g)"
    "log_file f = Some ''/tmp/a.20240131-010203.77''" "base_filename f = ''/tmp/a.''" "\<not> stop_writing g"
    "unat (file_length f) = 2" "g_main_thread_pid (utils g) = 77"
    using demo_open_effects unfolding demo_open_def by (auto simp: map_option_case split: option.splits)
  note r = file_reach.writes[OF demo_state_reach s(1)]
  obtain s' where w: "Write demo_flags demo_env True 0 ''ho'' (f, g) = Some s'"
    using Write_ok[of "(f, g)" demo_flags demo_env True 0 "''ho''"] file_reach_ok[OF r] by blast
  have "FLAGS_log_rolling_policy demo_flags \<noteq> ''day''" "FLAGS_log_rolling_policy demo_flags \<noteq> ''hour''"
    "\<not> (base_filename_selected f \<and> base_filename f = [])" "env_pid demo_env = 77"
    by (simp_all add: demo_flags_def default_flags_def s(3) demo_env_def)
  moreover have "2 < size_limit demo_flags"
    by (simp add: size_limit_def demo_flags_def default_flags_def MaxLogSize_def)
  ultimately obtain es where "effects (snd s') = effects g @ EWrite ''/tmp/a.20240131-010203.77'' ''ho'' # es"
    using Write_by_size[OF r s(2) _ _ _ w] s(4-6) by auto
  then show ?thesis using s(1) w by blast
qed

end
