(* ===== verification/Log_Names.thy ===== *)
theory Log_Names
  imports Log_File_Spec
begin

section \<open>Logging: the names and the number of log files\<close>

subsection \<open>The oldest files go\<close>

lemma trim_files_eq:
  "trim_files num xs = (let k = (if num = 0 then 0 else length xs + 1 - num)
     in (map (EUnlink \<circ> ft_name) (take k xs), drop k xs))"
proof (induction num xs rule: trim_files.induct)
  case (2 num x xs)
  then show ?case by (auto simp: Let_def Suc_diff_le)
qed (simp add: Let_def)

text \<open>The entries of a directory that belong to the log: their paths and times.\<close>

definition history_of :: "LogEnv \<Rightarrow> string \<Rightarrow> string \<Rightarrow> (bool \<times> string) list \<Rightarrow> Filetime set" where
  "history_of env dir start ents =
     {\<lparr>ft_name = dir @ ''/'' @ name, ft_time = mtime\<rparr> | name mtime st_size.
        (False, name) \<in> set ents \<and> prefix start name \<and> env_stat env (dir @ ''/'' @ name) = Some (mtime, st_size)}"

lemma history_loop_ok:
  assumes "\<forall>name. (False, name) \<in> set ents \<and> prefix start name \<longrightarrow> env_stat env (dir @ ''/'' @ name) \<noteq> None"
    and "sorted (map ft_time fs)"
  shows "\<exists>fs'. history_loop env dir start ents fs = (fs', None) \<and> sorted (map ft_time fs') \<and>
    set fs' = set fs \<union> history_of env dir start ents"
  using assms
proof (induction ents arbitrary: fs)
  case Nil
  then show ?case by (simp add: history_of_def)
next
  case (Cons ent ents)
  obtain skip filename where ent: "ent = (skip, filename)" by (cases ent)
  have stats: "\<forall>name. (False, name) \<in> set ents \<and> prefix start name \<longrightarrow> env_stat env (dir @ ''/'' @ name) \<noteq> None"
    using Cons.prems(1) by auto
  show ?case
  proof (cases "skip \<or> \<not> prefix start filename")
    case True
    then have "history_of env dir start (ent # ents) = history_of env dir start ents"
      by (auto simp: history_of_def ent)
    moreover have "history_loop env dir start (ent # ents) fs = history_loop env dir start ents fs"
      using True by (auto simp: ent)
    ultimately show ?thesis using Cons.IH[OF stats Cons.prems(2)] by simp
  next
    case False
    then have "env_stat env (dir @ ''/'' @ filename) \<noteq> None"
      using Cons.prems(1)[rule_format, of filename] by (simp add: ent)
    then obtain mtime st_size where st: "env_stat env (dir @ ''/'' @ filename) = Some (mtime, st_size)"
      by (metis not_None_eq surj_pair)
    let ?x = "\<lparr>ft_name = dir @ ''/'' @ filename, ft_time = mtime\<rparr>"
    have "history_of env dir start (ent # ents) = insert ?x (history_of env dir start ents)"
      using False st by (auto simp: history_of_def ent)
    moreover have "history_loop env dir start (ent # ents) fs = history_loop env dir start ents (insert_ft ?x fs)"
      using False st by (simp add: ent Let_def)
    ultimately show ?thesis
      using Cons.IH[OF stats sorted_insert_ft[OF Cons.prems(2)]] by (simp add: set_insert_ft)
  qed
qed

text \<open>C37. The check of the number of files looks at the files of the first logging directory whose
  names start with the link name and the severity; it unlinks the oldest of them and keeps, in
  order of time, fewer than the configured maximum, no more than necessary being removed.\<close>

theorem CheckHistory_keeps_newest:
  assumes "env_log_dirs env = dir # dirs" and "env_readdir env dir = Some ents"
    and "start = symlink_basename f @ ''.'' @ LogSeverityNames ! severity f"
    and "\<forall>name. (False, name) \<in> set ents \<and> prefix start name \<longrightarrow> env_stat env (dir @ ''/'' @ name) \<noteq> None"
    and "0 < FLAGS_max_logfile_num fl"
  shows "\<exists>old kept f' g'. CheckHistoryFileNum fl env (f, g) = (f', g') \<and> file_list f' = kept \<and>
    effects g' = effects g @ map (EUnlink \<circ> ft_name) old \<and>
    set (old @ kept) = history_of env dir start ents \<and>
    (\<forall>x\<in>set old. \<forall>y\<in>set kept. ft_time x \<le> ft_time y) \<and> sorted (map ft_time kept) \<and>
    length kept < FLAGS_max_logfile_num fl \<and> (old \<noteq> [] \<longrightarrow> Suc (length kept) = FLAGS_max_logfile_num fl)"
proof -
  let ?n = "FLAGS_max_logfile_num fl"
  obtain fs where fs: "history_loop env dir start ents [] = (fs, None)" "sorted (map ft_time fs)"
    "set fs = history_of env dir start ents"
    using history_loop_ok[OF assms(4), of "[]"] by auto
  let ?k = "length fs + 1 - ?n"
  let ?f' = "f\<lparr>file_list := drop ?k fs\<rparr>" and ?g' = "emits (map (EUnlink \<circ> ft_name) (take ?k fs)) g"
  have eq: "CheckHistoryFileNum fl env (f, g) = (?f', ?g')"
    using fs(1) assms by (simp add: CheckHistoryFileNum_def trim_history_def trim_files_eq Let_def)
  have sorted: "sorted (map ft_time (take ?k fs) @ map ft_time (drop ?k fs))"
    using fs(2) by (metis append_take_drop_id map_append)
  have "\<forall>x\<in>set (take ?k fs). \<forall>y\<in>set (drop ?k fs). ft_time x \<le> ft_time y" "sorted (map ft_time (drop ?k fs))"
    using sorted by (auto simp: sorted_append)
  moreover have "set (take ?k fs @ drop ?k fs) = history_of env dir start ents" using fs(3) by simp
  moreover have "length (drop ?k fs) < ?n" using assms(5) by simp
  moreover have "take ?k fs \<noteq> [] \<longrightarrow> Suc (length (drop ?k fs)) = ?n" using assms(5) by auto
  ultimately show ?thesis
    using eq by (intro exI[of _ "take ?k fs"] exI[of _ "drop ?k fs"] exI[of _ ?f'] exI[of _ ?g']) simp
qed

definition history_env :: LogEnv where
  "history_env = demo_env\<lparr>env_readdir := (\<lambda>d. Some [(False, ''a.INFO.2''), (True, ''a.INFO''), (False, ''a.INFO.1'')]),
     env_stat := (\<lambda>p. if p = ''/tmp//a.INFO.2'' then Some (9, 1) else Some (5, 1))\<rparr>"

lemma demo_history:
  "map_prod file_list effects (CheckHistoryFileNum (demo_flags\<lparr>FLAGS_max_logfile_num := 2\<rparr>) history_env
     (LogFileObject_new 0 None ''a'' 0 demo_tm, demo_globals)) =
   ([\<lparr>ft_name = ''/tmp//a.INFO.2'', ft_time = 9\<rparr>], [EUnlink ''/tmp//a.INFO.1''])"
  by code_simp

theorem CheckHistory_keeps_newest_witness:
  "\<exists>f' g'. CheckHistoryFileNum (demo_flags\<lparr>FLAGS_max_logfile_num := 2\<rparr>) history_env
       (LogFileObject_new 0 None ''a'' 0 demo_tm, demo_globals) = (f', g') \<and>
     file_list f' = [\<lparr>ft_name = ''/tmp//a.INFO.2'', ft_time = 9\<rparr>] \<and>
     effects g' = [EUnlink ''/tmp//a.INFO.1''] \<and>
     ft_name ` history_of history_env ''/tmp/'' ''a.INFO''
       [(False, ''a.INFO.2''), (True, ''a.INFO''), (False, ''a.INFO.1'')] = {''/tmp//a.INFO.1'', ''/tmp//a.INFO.2''}"
proof -
  let ?ents = "[(False, ''a.INFO.2''), (True, ''a.INFO''), (False, ''a.INFO.1'')]"
  have env: "env_log_dirs history_env = ''/tmp/'' # []"
    "env_readdir history_env ''/tmp/'' = Some ?ents"
    "''a.INFO'' = symlink_basename (LogFileObject_new 0 None ''a'' 0 demo_tm) @ ''.'' @
      LogSeverityNames ! severity (LogFileObject_new 0 None ''a'' 0 demo_tm)"
    "\<forall>p. env_stat history_env p \<noteq> None"
    by (simp_all add: history_env_def demo_env_def LogFileObject_new_def LogSeverityNames_def)
  have g: "effects demo_globals = []" by (simp add: demo_globals_def)
  from CheckHistory_keeps_newest[OF env(1-3), where fl = "demo_flags\<lparr>FLAGS_max_logfile_num := 2\<rparr>" and g = demo_globals]
    env(4) g
  obtain old kept f' g' where r: "CheckHistoryFileNum (demo_flags\<lparr>FLAGS_max_logfile_num := 2\<rparr>) history_env
       (LogFileObject_new 0 None ''a'' 0 demo_tm, demo_globals) = (f', g')" "file_list f' = kept"
    "effects g' = map (EUnlink \<circ> ft_name) old" "set (old @ kept) = history_of history_env ''/tmp/'' ''a.INFO'' ?ents"
    by (auto simp del: set_append)
  have d: "kept = [\<lparr>ft_name = ''/tmp//a.INFO.2'', ft_time = 9\<rparr>]"
    "map (EUnlink \<circ> ft_name) old = [EUnlink ''/tmp//a.INFO.1'']"
    using demo_history r(1-3) by simp_all
  then have "ft_name ` set old = {''/tmp//a.INFO.1''}" by (auto simp: map_eq_Cons_conv)
  then have "ft_name ` set (old @ kept) = {''/tmp//a.INFO.1'', ''/tmp//a.INFO.2''}" using d(1) by auto
  then show ?thesis unfolding r(4) using r d by (intro exI[of _ f'] exI[of _ g']) simp
qed

text \<open>
  The default names do not start with the link name and the severity, so that without a chosen
  base name the check finds none of the program's own files.
\<close>

lemma default_name_not_in_history:
  "\<not> prefix ''a.INFO'' (stripped_filename demo_env
     (LogFileObject_new 0 None ''a'' 0 demo_tm, demo_globals\<lparr>utils := (ustart 77)\<lparr>g_program_invocation_short_name := ''a''\<rparr>\<rparr>))"
  by code_simp

subsection \<open>The name for a file that may exist\<close>

definition is_full :: "LogFlags \<Rightarrow> LogEnv \<Rightarrow> string \<Rightarrow> bool" where
  "is_full fl env p = (case env_stat env p of None \<Rightarrow> False
     | Some (mtime, st_size) \<Rightarrow> uint (MaxLogSize (FLAGS_max_log_size fl)) \<le> megabytes st_size)"

definition numbered :: "string \<Rightarrow> nat \<Rightarrow> string" where
  "numbered origin i = origin @ seqnrstr i"

lemma numbered_next: "replace_filename origin (path_filename origin @ seqnrstr i) = numbered origin i"
  by (simp add: numbered_def replace_filename_append)

lemma fst_map_insert: "fst ` set (map_insert e m) = insert (fst e) (fst ` set m)"
  by (auto simp: map_insert_def)

lemma set_map_insert: "set (map_insert e m) \<subseteq> insert e (set m)"
  by (auto simp: map_insert_def)

lemma min_element_least:
  "m \<noteq> [] \<Longrightarrow> \<exists>t. (t, min_element m) \<in> set m \<and> (\<forall>u\<in>fst ` set m. t \<le> u)"
proof (induction m rule: min_element.induct)
  case (3 e d m)
  then obtain t where t: "(t, min_element (e # d # m)) \<in> set ((if fst d < fst e then d else e) # m)"
    "\<forall>u\<in>fst ` set ((if fst d < fst e then d else e) # m). t \<le> u" by auto
  then show ?case by (intro exI[of _ t]) (auto split: if_splits)
qed auto

definition times_of :: "LogEnv \<Rightarrow> (int \<times> string) set \<Rightarrow> bool" where
  "times_of env m = (\<forall>(t, p)\<in>m. \<exists>st_size. env_stat env p = Some (t, st_size))"

lemma suitable_loop_result:
  "case suitable_loop fl env origin n i m of
     Inr q \<Rightarrow> \<exists>j<n. q = numbered origin (i + j) \<and> \<not> is_full fl env q \<and>
       (\<forall>k<j. is_full fl env (numbered origin (i + k)))
   | Inl m' \<Rightarrow> (\<forall>k<n. is_full fl env (numbered origin (i + k))) \<and>
       fst ` set m' = fst ` set m \<union> {t. \<exists>k<n. \<exists>b. env_stat env (numbered origin (i + k)) = Some (t, b)} \<and>
       set m' \<subseteq> set m \<union> {(t, p). \<exists>k<n. \<exists>b. p = numbered origin (i + k) \<and> env_stat env p = Some (t, b)}"
proof (induction n arbitrary: i m)
  case (Suc n)
  show ?case
  proof (cases "is_full fl env (numbered origin i)")
    case False
    then show ?thesis
      by (auto simp: Let_def numbered_next is_full_def split: option.splits intro!: exI[of _ 0])
  next
    case True
    then obtain t b where st: "env_stat env (numbered origin i) = Some (t, b)"
      "\<not> megabytes b < uint (MaxLogSize (FLAGS_max_log_size fl))"
      by (auto simp: is_full_def split: option.splits)
    let ?m = "map_insert (t, numbered origin i) m"
    have eq: "suitable_loop fl env origin (Suc n) i m = suitable_loop fl env origin n (Suc i) ?m"
      using st by (simp add: Let_def numbered_next)
    have less: "(\<forall>k<Suc n. P k) \<longleftrightarrow> P 0 \<and> (\<forall>k<n. P (Suc k))" "(\<exists>k<Suc n. P k) \<longleftrightarrow> P 0 \<or> (\<exists>k<n. P (Suc k))" for P
      using All_less_Suc2[of n P] Ex_less_Suc2[of n P] by auto
    show ?thesis
    proof (cases "suitable_loop fl env origin n (Suc i) ?m")
      case (Inr q)
      then obtain j where j: "j < n" "q = numbered origin (Suc i + j)" "\<not> is_full fl env q"
        "\<forall>k<j. is_full fl env (numbered origin (Suc i + k))" using Suc[of "Suc i" ?m] by auto
      then have "\<forall>k<Suc j. is_full fl env (numbered origin (i + k))"
        using True by (simp add: All_less_Suc2)
      then show ?thesis unfolding eq Inr using j by (auto intro!: exI[of _ "Suc j"])
    next
      case (Inl m')
      then have ih: "\<forall>k<n. is_full fl env (numbered origin (Suc i + k))"
        "fst ` set m' = fst ` set ?m \<union> {t. \<exists>k<n. \<exists>b. env_stat env (numbered origin (Suc i + k)) = Some (t, b)}"
        "set m' \<subseteq> set ?m \<union> {(t, p). \<exists>k<n. \<exists>b. p = numbered origin (Suc i + k) \<and> env_stat env p = Some (t, b)}"
        using Suc[of "Suc i" ?m] by auto
      have "\<forall>k<Suc n. is_full fl env (numbered origin (i + k))" using ih(1) True by (simp add: All_less_Suc2)
      moreover have "fst ` set m' = fst ` set m \<union> {t. \<exists>k<Suc n. \<exists>b. env_stat env (numbered origin (i + k)) = Some (t, b)}"
        unfolding ih(2) fst_map_insert less(2) using st by auto
      moreover have "set m' \<subseteq> set m \<union> {(t, p). \<exists>k<Suc n. \<exists>b. p = numbered origin (i + k) \<and> env_stat env p = Some (t, b)}"
        unfolding less(2) using ih(3) set_map_insert[of "(t, numbered origin i)" m] st by auto
      ultimately show ?thesis unfolding eq Inl by simp
    qed
  qed
qed auto

text \<open>When the file a name belongs to exists and is larger than the limit and the number of files
  to roll over is out of range, so that ten are used, the name chosen is the first of the ten
  numbered names whose file does not exist or is below the limit; when all ten are full, a file
  as old as the oldest of the eleven is removed and its name is used again.\<close>

theorem GetSuitableFileName_choice:
  assumes "env_stat env origin = Some (mtime, st_size)"
    and "uint (MaxLogSize (FLAGS_max_log_size fl)) < megabytes st_size"
    and "rolling_file_number g < 0 \<or> 100 < rolling_file_number g"
  shows "\<exists>q g'. GetSuitableFileName fl env origin g = (q, g') \<and> rolling_file_number g' = 10 \<and>
    ((\<exists>j<10. q = numbered origin j \<and> \<not> is_full fl env q \<and> (\<forall>k<j. is_full fl env (numbered origin k)) \<and>
        effects g' = effects g) \<or>
     ((\<forall>k<10. is_full fl env (numbered origin k)) \<and> effects g' = effects g @ [ERemove q] \<and>
      q \<in> insert origin (numbered origin ` {0..<10}) \<and>
      (\<exists>t b. env_stat env q = Some (t, b) \<and>
        (\<forall>p\<in>insert origin (numbered origin ` {0..<10}). \<forall>t' b'. env_stat env p = Some (t', b') \<longrightarrow> t \<le> t'))))"
proof -
  let ?loop = "suitable_loop fl env origin 10 0 [(mtime, origin)]"
  let ?g1 = "g\<lparr>rolling_file_number := 10\<rparr>"
  have eq: "GetSuitableFileName fl env origin g =
     (case ?loop of Inr q \<Rightarrow> (q, ?g1) | Inl m \<Rightarrow> (min_element m, emit (ERemove (min_element m)) ?g1))"
    using assms by (auto simp: GetSuitableFileName_def max_logfile_count_def Let_def split: sum.split)
  note loop = suitable_loop_result[where fl = fl and env = env and origin = origin and n = 10 and i = 0 and
    m = "[(mtime, origin)]", unfolded add_0]
  show ?thesis
  proof (cases ?loop)
    case (Inr q)
    then show ?thesis using loop by (auto simp: eq)
  next
    case (Inl m)
    then have m: "\<forall>k<10. is_full fl env (numbered origin k)"
      "fst ` set m = {mtime} \<union> {t. \<exists>k<10. \<exists>b. env_stat env (numbered origin k) = Some (t, b)}"
      "set m \<subseteq> {(mtime, origin)} \<union> {(t, p). \<exists>k<10. \<exists>b. p = numbered origin k \<and> env_stat env p = Some (t, b)}"
      using loop by simp_all
    then have "m \<noteq> []" by auto
    then obtain t where t: "(t, min_element m) \<in> set m" "\<forall>u\<in>fst ` set m. t \<le> u"
      using min_element_least by blast
    let ?q = "min_element m" and ?ps = "insert origin (numbered origin ` {0..<10})"
    have q: "?q \<in> ?ps" using m(3) t(1) by auto
    obtain b where b: "env_stat env ?q = Some (t, b)" using m(3) assms(1) t(1) by auto
    have least: "\<forall>p\<in>?ps. \<forall>t' b'. env_stat env p = Some (t', b') \<longrightarrow> t \<le> t'"
    proof (intro ballI allI impI)
      fix p t' b' assume "p \<in> ?ps" "env_stat env p = Some (t', b')"
      then have "t' \<in> fst ` set m" unfolding m(2) using assms(1) by auto
      then show "t \<le> t'" using t(2) by blast
    qed
    have "GetSuitableFileName fl env origin g = (?q, emit (ERemove ?q) ?g1)" by (simp add: eq Inl)
    moreover have "rolling_file_number (emit (ERemove ?q) ?g1) = 10"
      "effects (emit (ERemove ?q) ?g1) = effects g @ [ERemove ?q]" by (simp_all add: emit_def)
    ultimately show ?thesis using m(1) q b least by blast
  qed
qed

theorem GetSuitableFileName_choice_witness:
  "\<exists>q g'. GetSuitableFileName (demo_flags\<lparr>FLAGS_max_log_size := 1\<rparr>) (demo_env\<lparr>env_stat := \<lambda>p. Some (5, 2 ^ 22)\<rparr>) ''l''
     (demo_globals\<lparr>rolling_file_number := - 1\<rparr>) = (q, g') \<and> rolling_file_number g' = 10"
proof -
  have "env_stat (demo_env\<lparr>env_stat := \<lambda>p. Some (5, 2 ^ 22)\<rparr>) ''l'' = Some (5, 2 ^ 22)"
    "uint (MaxLogSize (FLAGS_max_log_size (demo_flags\<lparr>FLAGS_max_log_size := 1\<rparr>))) < megabytes (2 ^ 22)"
    "rolling_file_number (demo_globals\<lparr>rolling_file_number := - 1\<rparr>) < 0 \<or>
     100 < rolling_file_number (demo_globals\<lparr>rolling_file_number := - 1\<rparr>)"
    by (simp_all add: MaxLogSize_def megabytes_def)
  from GetSuitableFileName_choice[OF this] show ?thesis by blast
qed

text \<open>For the default of ten files, and every number from 1 to 100, the count is not set.\<close>

lemma count_not_set: "max_logfile_count env 10 = (uninit_count env, 10)"
  by (simp add: max_logfile_count_def)

subsection \<open>The cleaner knows the names that are made\<close>

text \<open>The stamp of a file name of the size policy has the form that the cleaner looks for.\<close>

lemma dec_str_length: "10 ^ k \<le> n \<Longrightarrow> n < 10 ^ Suc k \<Longrightarrow> length (dec_str n) = Suc k"
proof (induction k arbitrary: n)
  case 0
  then show ?case by (simp add: dec_str.simps[of n])
next
  case (Suc k)
  have "10 ^ k \<le> n div 10" "n div 10 < 10 ^ Suc k"
    using Suc.prems by (simp_all add: less_eq_div_iff_mult_less_eq div_less_iff_less_mult mult.commute)
  then have "length (dec_str (n div 10)) = Suc k" by (rule Suc.IH)
  moreover have "\<not> n < 10" using Suc.prems(1) by (simp add: not_less) (metis le_trans mult_le_mono2 nat_mult_1_right one_le_numeral one_le_power)
  ultimately show ?case by (simp add: dec_str.simps[of n])
qed

lemma pad_digits: "0 \<le> x \<Longrightarrow> list_all is_digit (zero w x)"
  using dec_str_digits[of "nat x"]
  by (auto simp: zero_def pad_left_def int_str_def list_all_iff is_digit_of_char)

lemma zero_digits: "0 \<le> x \<Longrightarrow> x < 10 ^ w \<Longrightarrow> 0 < w \<Longrightarrow> list_all is_digit (zero w x) \<and> length (zero w x) = w"
  by (simp add: pad_digits length_zero)

definition tm_fields_ok :: "Tm \<Rightarrow> bool" where
  "tm_fields_ok tm = (- 900 \<le> tm_year tm \<and> tm_year tm < 8100 \<and> 0 \<le> tm_mon tm \<and> tm_mon tm \<le> 11 \<and>
     1 \<le> tm_mday tm \<and> tm_mday tm \<le> 31 \<and> 0 \<le> tm_hour tm \<and> tm_hour tm \<le> 23 \<and> 0 \<le> tm_min tm \<and>
     tm_min tm \<le> 59 \<and> 0 \<le> tm_sec tm \<and> tm_sec tm \<le> 60)"

lemma year_digits:
  "- 900 \<le> y \<Longrightarrow> y < 8100 \<Longrightarrow> list_all is_digit (int_str (1900 + y)) \<and> length (int_str (1900 + y)) = 4"
  using dec_str_length[of 3 "nat (1900 + y)"] by (auto simp: int_str_def dec_str_digits nat_less_iff le_nat_iff)

lemma date_digits:
  assumes "tm_fields_ok tm"
  shows "list_all is_digit (int_str (1900 + tm_year tm) @ zero 2 (1 + tm_mon tm) @ zero 2 (tm_mday tm))"
    and "length (int_str (1900 + tm_year tm) @ zero 2 (1 + tm_mon tm) @ zero 2 (tm_mday tm)) = 8"
  using assms year_digits[of "tm_year tm"] zero_digits[of "1 + tm_mon tm" 2] zero_digits[of "tm_mday tm" 2]
  by (simp_all add: tm_fields_ok_def)

lemma time_digits:
  assumes "tm_fields_ok tm"
  shows "list_all is_digit (zero 2 (tm_hour tm) @ zero 2 (tm_min tm) @ zero 2 (tm_sec tm))"
    and "length (zero 2 (tm_hour tm) @ zero 2 (tm_min tm) @ zero 2 (tm_sec tm)) = 6"
  using assms zero_digits[of "tm_hour tm" 2] zero_digits[of "tm_min tm" 2] zero_digits[of "tm_sec tm" 2]
  by (simp_all add: tm_fields_ok_def)

lemma time_pid_stamp:
  assumes "tm_fields_ok tm" and "0 \<le> pid" and "FLAGS_log_rolling_policy fl \<noteq> ''day''"
    and "FLAGS_log_rolling_policy fl \<noteq> ''hour''"
  shows "is_stamp (time_pid_text fl tm pid)"
proof -
  let ?d = "int_str (1900 + tm_year tm) @ zero 2 (1 + tm_mon tm) @ zero 2 (tm_mday tm)"
  let ?t = "zero 2 (tm_hour tm) @ zero 2 (tm_min tm) @ zero 2 (tm_sec tm)"
  have "time_pid_text fl tm pid = ?d @ CHR ''-'' # ?t @ CHR ''.'' # int_str pid"
    using assms(3,4) by (simp add: time_pid_text_def)
  moreover have "list_all is_digit (int_str pid)" using assms(2) by (simp add: int_str_def dec_str_digits)
  ultimately show ?thesis
    unfolding is_stamp_def using date_digits[OF assms(1)] time_digits[OF assms(1)]
    by (intro exI[of _ ?d] exI[of _ ?t] exI[of _ "int_str pid"]) simp
qed

lemma accepts_stamp:
  assumes "is_stamp stamp" and "ext = [] \<or> \<not> is_digit (hd ext)"
  shows "IsLogFromCurrentProject (squeeze base @ stamp @ ext) base ext"
proof -
  have loop: "stamp_loop 0 stamp" by (rule is_stamp_stamp_loop[OF assms(1)])
  obtain c s where cs: "stamp = c # s" "is_digit c"
    using assms(1) by (cases stamp) (auto simp: is_stamp_def Cons_eq_append_conv)
  have "take (length ext) (stamp @ ext) \<noteq> ext" if "ext \<noteq> []"
  proof
    assume "take (length ext) (stamp @ ext) = ext"
    then have "hd ext = hd (take (length ext) (stamp @ ext))" by simp
    also have "\<dots> = c" using that cs by (cases ext) auto
    finally show False using assms(2) cs(2) that by simp
  qed
  moreover have "stamp \<noteq> []" using cs(1) by simp
  ultimately show ?thesis
    using loop by (auto simp: IsLogFromCurrentProject_def Let_def clean_loop_squeeze)
qed

lemma no_slash_no_double: "CHR ''/'' \<notin> set s \<Longrightarrow> no_double_slash s"
  by (induction s rule: no_double_slash.induct) auto

lemma parent_part_slash:
  assumes "CHR ''/'' \<in> set p"
  shows "parent_part p \<noteq> [] \<and> last (parent_part p) = CHR ''/''"
proof -
  obtain d b where p: "p = d @ CHR ''/'' # b" "CHR ''/'' \<notin> set b"
    using split_list_last[OF assms] by blast
  then have "parent_part p = d @ [CHR ''/'']"
    by (simp add: parent_part_def after_last_slash_append)
  then show ?thesis by simp
qed

lemma squeeze_id: "no_double_slash base \<Longrightarrow> squeeze base = base"
  using clean_loop_id clean_loop_squeeze by metis

lemma squeeze_no_slash: "CHR ''/'' \<notin> set s \<Longrightarrow> squeeze s = s"
  by (intro squeeze_id no_slash_no_double)

lemma squeeze_dir:
  "no_double_slash dir \<Longrightarrow> last dir = CHR ''/'' \<Longrightarrow> dir \<noteq> [] \<Longrightarrow> CHR ''/'' \<notin> set name \<Longrightarrow>
   squeeze (dir @ CHR ''/'' # name) = dir @ name"
proof (induction dir rule: no_double_slash.induct[case_names more none one])
  case (one c)
  then show ?case using squeeze_no_slash[of name] by (cases name) auto
qed auto

lemma squeeze_file:
  "no_double_slash dir \<Longrightarrow> CHR ''/'' \<notin> set name \<Longrightarrow> squeeze (dir @ name) = dir @ name"
proof (induction dir rule: no_double_slash.induct[case_names more none one])
  case (one c)
  then show ?case using squeeze_no_slash[of name] by (cases name) auto
qed (auto intro: squeeze_no_slash)

text \<open>
  Where the file of a log is: the base name is chosen and is a name or the path of one, or it is made
  of a logging directory, a slash and the default name. \<open>dir\<close> is the directory to scan for it.
\<close>

definition base_in_dir :: "LogEnv \<Rightarrow> bool \<Rightarrow> string \<Rightarrow> string \<Rightarrow> string \<Rightarrow> bool" where
  "base_in_dir env selected base dir name =
     (CHR ''/'' \<notin> set name \<and> dir \<in> set (clean_dirs env selected base) \<and>
      (if \<not> selected then dir \<noteq> [] \<and> last dir = CHR ''/'' \<and> base = dir @ ''/'' @ name
       else if CHR ''/'' \<in> set base then base = dir @ name
       else base = name))"

lemma scanned_path:
  assumes "base_in_dir env selected base dir name" and "no_double_slash dir"
  shows "log_path dir (name @ rest) = squeeze base @ rest"
proof -
  consider "\<not> selected" | "selected" "CHR ''/'' \<in> set base" | "selected" "CHR ''/'' \<notin> set base" by blast
  then show ?thesis
  proof cases
    case 1
    then have d: "dir \<noteq> []" "last dir = CHR ''/''" "CHR ''/'' \<notin> set name" "base = dir @ CHR ''/'' # name"
      using assms(1) unfolding base_in_dir_def if_P[OF 1] append_Cons append_Nil by blast+
    have "squeeze base = dir @ name" unfolding d(4) by (rule squeeze_dir[OF assms(2) d(2,1,3)])
    then show ?thesis using d(1,2) by (simp add: log_path_def)
  next
    case 2
    then have "clean_dirs env selected base = [parent_part base]" by (simp add: clean_dirs_def)
    moreover have "dir \<in> set (clean_dirs env selected base)" "CHR ''/'' \<notin> set name" "base = dir @ name"
      using assms(1) 2 unfolding base_in_dir_def by metis+
    ultimately have b: "base = dir @ name" "dir = parent_part base" "CHR ''/'' \<notin> set name"
      by (metis list.set_cases list.set_intros(1) empty_iff empty_set set_ConsD)+
    have "dir \<noteq> [] \<and> last dir = CHR ''/''" unfolding b(2) by (rule parent_part_slash[OF 2(2)])
    moreover have "squeeze base = dir @ name" unfolding b(1) by (rule squeeze_file[OF assms(2) b(3)])
    ultimately show ?thesis by (simp add: log_path_def)
  next
    case 3
    then have "base = name" "dir = ''.''" "CHR ''/'' \<notin> set name"
      using assms(1) by (simp_all add: base_in_dir_def clean_dirs_def)
    then show ?thesis by (simp add: log_path_def squeeze_no_slash)
  qed
qed

text \<open>C28. When the cleaner scans the directory of a log file that the size policy has named after the
  base name, the time and the process id, with the extension behind it, it takes the file for a log of
  the program, whether the base name was chosen or is the default one (when the directory has no
  repeated slashes and the extension does not start with a digit), so that it goes when it is overdue.
  (The names with a number behind all that, which are used when the file exists and is too large, are
  not recognised, as the lemma below shows.)\<close>

theorem cleaner_recognises_names:
  assumes "tm_fields_ok tm" and "0 \<le> pid" and "FLAGS_log_rolling_policy fl \<noteq> ''day''"
    and "FLAGS_log_rolling_policy fl \<noteq> ''hour''" and "ext = [] \<or> \<not> is_digit (hd ext)"
    and "base_in_dir env selected base dir name" and "no_double_slash dir"
  shows "IsLogFromCurrentProject (log_path dir (name @ time_pid_text fl tm pid @ ext)) base ext"
  unfolding scanned_path[OF assms(6,7)] by (rule accepts_stamp[OF time_pid_stamp[OF assms(1-4)] assms(5)])

text \<open>A default name in \<^verbatim>\<open>/tmp/\<close>; the base name of the log file object has two slashes.\<close>

theorem cleaner_recognises_names_witness:
  "IsLogFromCurrentProject (log_path ''/tmp/'' (''a.log.INFO.'' @ time_pid_text demo_flags demo_tm 77 @ ''.txt''))
     ''/tmp//a.log.INFO.'' ''.txt'' \<and>
   log_path ''/tmp/'' (''a.log.INFO.'' @ time_pid_text demo_flags demo_tm 77 @ ''.txt'') =
     ''/tmp/a.log.INFO.20240131-010203.77.txt''"
proof
  show "IsLogFromCurrentProject (log_path ''/tmp/'' (''a.log.INFO.'' @ time_pid_text demo_flags demo_tm 77 @ ''.txt''))
     ''/tmp//a.log.INFO.'' ''.txt''"
    by (rule cleaner_recognises_names[of _ _ _ _ demo_env False])
      (simp_all add: tm_fields_ok_def demo_tm_def demo_flags_def default_flags_def is_digit_of_char
        base_in_dir_def clean_dirs_def demo_env_def)
qed code_simp

text \<open>
  The numbered names of \<open>GetSuitableFileName\<close> are not recognised, with or without an extension: such
  files are never removed.
\<close>

lemma numbered_name_rejected:
  "numbered ''/tmp/a.20240131-010203.77'' 0 = ''/tmp/a.20240131-010203.77-000''"
  "\<not> IsLogFromCurrentProject ''/tmp/a.20240131-010203.77-000'' ''/tmp/a.'' []"
  "\<not> IsLogFromCurrentProject ''/tmp/a.20240131-010203.77.log-000'' ''/tmp/a.'' ''.log''"
  by code_simp+

text \<open>Nor are the files of a directory that is given with a repeated slash.\<close>

lemma repeated_slash_rejected:
  "\<not> IsLogFromCurrentProject (log_path ''/var//log/'' ''a.20240131-010203.77'') ''/var//log//a.'' []"
  by code_simp

text \<open>The names of the daily and the hourly policy are never recognised: the cleaner wants a dash
  behind the date, and these policies put none there.\<close>

theorem cleaner_misses_other_policies:
  assumes "tm_fields_ok tm" and "no_double_slash base"
    and "FLAGS_log_rolling_policy fl = ''day'' \<or> FLAGS_log_rolling_policy fl = ''hour''"
  shows "\<not> IsLogFromCurrentProject (base @ time_pid_text fl tm pid) base []"
proof -
  let ?d = "int_str (1900 + tm_year tm) @ zero 2 (1 + tm_mon tm) @ zero 2 (tm_mday tm)"
  obtain c r where r: "time_pid_text fl tm pid = ?d @ c # r" "c \<noteq> CHR ''-''"
  proof (cases "FLAGS_log_rolling_policy fl = ''day''")
    case True
    then show ?thesis using that[of "CHR ''.''" "int_str pid"] by (simp add: time_pid_text_def)
  next
    case False
    then have h: "FLAGS_log_rolling_policy fl = ''hour''" using assms(3) by simp
    have z: "list_all is_digit (zero 2 (tm_hour tm)) \<and> length (zero 2 (tm_hour tm)) = 2"
      using assms(1) zero_digits[of "tm_hour tm" 2] by (simp add: tm_fields_ok_def)
    then obtain c1 c2 where "zero 2 (tm_hour tm) = [c1, c2]" by (auto simp: numeral_2_eq_2 length_Suc_conv)
    moreover have "c1 \<noteq> CHR ''-''" using z calculation by (auto simp: is_digit_of_char)
    ultimately show ?thesis using that[of c1 "c2 # ''.'' @ int_str pid"] h by (simp add: time_pid_text_def)
  qed
  have "\<not> stamp_loop 0 (time_pid_text fl tm pid)"
  proof
    assume "stamp_loop 0 (time_pid_text fl tm pid)"
    then have "stamp_char (length ?d) c" unfolding r(1) stamp_loop_append by (simp split: if_splits)
    then show False using r(2) date_digits(2)[OF assms(1)] by (simp add: stamp_char_def)
  qed
  then show ?thesis by (simp add: IsLogFromCurrentProject_def Let_def clean_loop_id[OF assms(2)])
qed

theorem cleaner_misses_other_policies_witness:
  "\<not> IsLogFromCurrentProject (''/tmp/a.'' @
     time_pid_text (demo_flags\<lparr>FLAGS_log_rolling_policy := ''day''\<rparr>) demo_tm 77) ''/tmp/a.'' []"
  by (rule cleaner_misses_other_policies) (simp_all add: tm_fields_ok_def demo_tm_def)

subsection \<open>Retrying\<close>

text \<open>A sequence of messages.\<close>

fun Writes :: "LogFlags \<Rightarrow> LogEnv \<Rightarrow> (bool \<times> int \<times> string) list \<Rightarrow> FileState \<Rightarrow> FileState option" where
  "Writes fl env [] s = Some s"
| "Writes fl env ((force, ts, message) # ms) s =
     (case Write fl env force ts message s of None \<Rightarrow> None | Some s' \<Rightarrow> Writes fl env ms s')"

text \<open>
  No file, nothing that resets the counter: the base name was chosen, rolling is by size, and the
  process stays the same.
\<close>

definition no_file :: "LogFlags \<Rightarrow> LogEnv \<Rightarrow> FileState \<Rightarrow> bool" where
  "no_file fl env = (\<lambda>(f, g). log_file f = None \<and> base_filename_selected f \<and> base_filename f \<noteq> [] \<and>
     FLAGS_log_rolling_policy fl \<noteq> ''day'' \<and> FLAGS_log_rolling_policy fl \<noteq> ''hour'' \<and>
     unat (file_length f) < size_limit fl \<and> env_pid env = g_main_thread_pid (utils g))"

definition waiting :: "LogFlags \<Rightarrow> LogEnv \<Rightarrow> FileState \<Rightarrow> bool" where
  "waiting fl env s = (no_file fl env s \<and> initialized (fst s))"

lemma no_file_no_roll:
  "no_file fl env (f, g) \<Longrightarrow> CheckNeedRollLogFiles fl env ts (f, g) = (False, (f, g))"
  by (simp add: no_file_def CheckNeedRollLogFiles_def full_iff not_le PidHasChanged_def)

lemma waiting_no_roll:
  assumes "waiting fl env (f, g)"
  shows "CheckNeedRollLogFiles fl env ts (f, g) = (False, (f, g))" "reopen_newest fl env (f, g) = (f, g)"
  using assms by (simp_all add: waiting_def no_file_no_roll reopen_newest_def)

lemma Write_skips:
  assumes "waiting fl env (f, g)" and "rollover_attempt f + 1 \<noteq> kRolloverAttemptFrequency"
  shows "Write fl env force ts message (f, g) = Some (f\<lparr>rollover_attempt := rollover_attempt f + 1\<rparr>, g)"
  using assms waiting_no_roll[OF assms(1)]
  by (auto simp: Write_def make_file_def waiting_def no_file_def Let_def)

lemma Writes_skip:
  assumes "waiting fl env (f, g)" and "unat (rollover_attempt f) + length ms < 32"
  shows "Writes fl env ms (f, g) = Some (f\<lparr>rollover_attempt := rollover_attempt f + of_nat (length ms)\<rparr>, g)"
  using assms
proof (induction ms arbitrary: f)
  case (Cons m ms)
  obtain force ts message where m: "m = (force, ts, message)" by (metis surj_pair)
  let ?f = "f\<lparr>rollover_attempt := rollover_attempt f + 1\<rparr>"
  have u: "unat (rollover_attempt f + 1) = unat (rollover_attempt f) + 1"
    using Cons.prems(2) by (subst unat_plus_simple[THEN iffD1]) (auto simp: word_le_nat_alt unat_word_ariths)
  then have "rollover_attempt f + 1 \<noteq> kRolloverAttemptFrequency"
    using Cons.prems(2) by (auto simp: kRolloverAttemptFrequency_def dest!: arg_cong[of _ _ unat])
  then have "Write fl env force ts message (f, g) = Some (?f, g)" by (rule Write_skips[OF Cons.prems(1)])
  moreover have "waiting fl env (?f, g)" using Cons.prems(1) by (simp add: waiting_def no_file_def)
  ultimately show ?case using Cons.IH[of ?f] Cons.prems(2) u by (simp add: m add.assoc)
qed simp

text \<open>
  While no file can be opened an attempt to make one changes nothing that matters for the next one,
  and writes nothing to a log.
\<close>

definition closed :: "LogEnv \<Rightarrow> bool" where
  "closed env = (\<forall>p excl. \<not> env_open env p excl)"

fun writes_log :: "Effect \<Rightarrow> bool" where
  "writes_log (EWrite _ _) = True"
| "writes_log _ = False"

definition unmade :: "FileState \<Rightarrow> FileState \<Rightarrow> bool" where
  "unmade = (\<lambda>(f, g) (f', g'). log_file f' = log_file f \<and> base_filename_selected f' = base_filename_selected f \<and>
     base_filename f' = base_filename f \<and> file_length f' = file_length f \<and>
     rollover_attempt f' = rollover_attempt f \<and> (initialized f \<longrightarrow> initialized f') \<and>
     utils g' = utils g \<and> stop_writing g' = stop_writing g \<and>
     (\<exists>es. effects g' = effects g @ es \<and> list_all (\<lambda>e. \<not> writes_log e) es))"

lemma unmade_refl: "unmade s s"
  by (auto simp: unmade_def)

lemma unmade_trans: "unmade s t \<Longrightarrow> unmade t u \<Longrightarrow> unmade s u"
  by (fastforce simp: unmade_def split: prod.splits)

lemma unmade_trim_history: "unmade s (trim_history fl s)"
proof -
  have "list_all (\<lambda>e. \<not> writes_log e) (map (EUnlink \<circ> ft_name) xs)" for xs
    by (simp add: list_all_iff)
  then show ?thesis
    by (auto simp: unmade_def trim_history_def trim_files_eq emits_def Let_def split: prod.split)
qed

lemma unmade_stderr: "unmade (f, g) (f\<lparr>file_list := fs\<rparr>, emit (EStderr t) g)" "unmade (f, g) (f, emit (EStderr t) g)"
  "unmade (f, g) (f\<lparr>file_list := fs\<rparr>, g)"
  by (simp_all add: unmade_def emit_def)

lemma unmade_CheckHistoryFileNum: "unmade s (CheckHistoryFileNum fl env s)"
proof -
  obtain f g where s: "s = (f, g)" by (cases s)
  have "unmade (f, g) (trim_history fl (f\<lparr>file_list := fs\<rparr>, g))" for fs
    using unmade_trans[OF unmade_stderr(3) unmade_trim_history] .
  then show ?thesis
    by (auto simp: s CheckHistoryFileNum_def unmade_refl unmade_stderr Let_def split: list.splits option.splits prod.split)
qed

lemma closed_open: "closed env \<Longrightarrow> CreateLogfileInternal fl env p excl s = (False, s)"
  by (cases s) (simp add: closed_def CreateLogfileInternal_def)

lemma unmade_CreateLogfile:
  assumes "closed env"
  shows "\<exists>s'. CreateLogfile fl env stamp s = (False, s') \<and> unmade s s' \<and> fst s' = fst s"
proof -
  obtain f g where s: "s = (f, g)" by (cases s)
  let ?name = "base_filename f @ (if FLAGS_timestamp_in_logfile_name fl then stamp else []) @ filename_extension f"
  obtain q g1 where q: "GetSuitableFileName fl env ?name g = (q, g1)" by (metis surj_pair)
  then have "unmade (f, g) (f, g1)"
    by (auto simp: GetSuitableFileName_def unmade_def emit_def Let_def split: option.splits if_splits prod.splits sum.splits)
  then show ?thesis using q by (simp add: s CreateLogfile_def closed_open[OF assms])
qed

lemma unmade_reopen: "closed env \<Longrightarrow> unmade s (reopen_newest fl env s)"
  using unmade_CheckHistoryFileNum[of s fl env]
  by (cases s) (auto simp: reopen_newest_def closed_open unmade_refl Let_def split: prod.splits)

lemma unmade_prepare:
  "unmade s (prepare_file fl env ts s) \<and> initialized (fst (prepare_file fl env ts s))"
proof -
  obtain f g where s: "s = (f, g)" by (cases s)
  have "unmade (f, g) (f', g') \<Longrightarrow> unmade (f, g) (f'\<lparr>initialized := True, tm_time := t\<rparr>, g')"
    "initialized f \<Longrightarrow> unmade (f, g) (f', g') \<Longrightarrow> unmade (f, g) (f'\<lparr>tm_time := t\<rparr>, g') \<and> initialized f'"
    for f' g' t by (simp_all add: unmade_def)
  then show ?thesis
    using unmade_CheckHistoryFileNum[of "(f, g)" fl env] unmade_trim_history[of "(f, g)" fl]
    by (fastforce simp: s prepare_file_def split: prod.splits)
qed

text \<open>The attempt fails with a message on the standard error output, and the counter starts anew.\<close>

lemma failing_attempt:
  assumes "no_file fl env (f, g)" and "closed env" and "rollover_attempt f = 31"
  shows "\<exists>f1 g1 fails. Write fl env force ts message (f, g) = Some (f1, g1) \<and> waiting fl env (f1, g1) \<and>
    rollover_attempt f1 = 0 \<and> stop_writing g1 = stop_writing g \<and> effects g1 = effects g @ fails \<and>
    list_all (\<lambda>e. \<not> writes_log e) fails \<and> EStderr ''Could not create log file'' \<in> set fails"
proof -
  note nf = assms(1)[unfolded no_file_def prod.case]
  obtain fr gr where re: "reopen_newest fl env (f, g) = (fr, gr)" by (metis surj_pair)
  have ur: "unmade (f, g) (fr, gr)" using unmade_reopen[OF assms(2), of "(f, g)" fl] re by simp
  then have r31: "log_file fr = None" "rollover_attempt fr + 1 = kRolloverAttemptFrequency"
    using nf assms(3) by (simp_all add: unmade_def kRolloverAttemptFrequency_def)
  let ?r = "(fr\<lparr>rollover_attempt := 0\<rparr>, gr)"
  obtain fp gp where pr: "prepare_file fl env ts ?r = (fp, gp)" by (metis surj_pair)
  have up: "unmade ?r (fp, gp)" "initialized fp" using unmade_prepare[of ?r fl env ts] pr by simp_all
  let ?stamp = "time_pid_text fl (file_time fl env ts) (g_main_thread_pid (utils gp))"
  obtain gc where cr: "CreateLogfile fl env ?stamp (fp, gp) = (False, fp, gc)" "unmade (fp, gp) (fp, gc)"
    using unmade_CreateLogfile[OF assms(2), of fl ?stamp "(fp, gp)"] by (metis fst_conv surj_pair)
  have sel: "base_filename_selected fp" using ur up(1) nf by (simp add: unmade_def)
  let ?g1 = "emits (create_failed True ?stamp) gc"
  have "make_file fl env ts (fr, gr) = Some (False, (fp, ?g1))"
    using r31(2) pr cr(1) sel by (simp add: make_file_def create_named_def Let_def)
  then have w: "Write fl env force ts message (f, g) = Some (fp, ?g1)"
    using nf no_file_no_roll[OF assms(1)] re r31(1) by (simp add: Write_def Let_def)
  have u: "unmade ?r (fp, gc)" using unmade_trans[OF up(1) cr(2)] .
  obtain es1 es2 where es: "effects gr = effects g @ es1" "list_all (\<lambda>e. \<not> writes_log e) es1"
    "effects gc = effects gr @ es2" "list_all (\<lambda>e. \<not> writes_log e) es2"
    using ur u by (auto simp: unmade_def)
  have "waiting fl env (fp, ?g1)" "rollover_attempt fp = 0" "stop_writing ?g1 = stop_writing g"
    using nf ur u up(2) by (simp_all add: unmade_def waiting_def no_file_def emits_def)
  moreover have "effects ?g1 = effects g @ es1 @ es2 @ create_failed True ?stamp" using es by (simp add: emits_def)
  ultimately show ?thesis
    using w es by (intro exI[of _ fp] exI[of _ ?g1] exI[of _ "es1 @ es2 @ create_failed True ?stamp"])
      (simp add: create_failed_def)
qed

text \<open>When every file can be opened, locked and made a stream, creating one succeeds.\<close>

definition recovered :: "LogEnv \<Rightarrow> bool" where
  "recovered env = (\<forall>p excl. env_open env p excl \<and> env_lock env p \<and> env_fdopen env p)"

lemma CreateLogfile_recovered:
  assumes "recovered env" and "CreateLogfile fl env stamp (f, g) = (ok, s')"
  shows "ok"
  using assms by (auto simp: recovered_def CreateLogfile_def CreateLogfileInternal_def Let_def split: prod.splits if_splits)

lemma CreateLogfile_running:
  "CreateLogfile fl env stamp s = (ok, s') \<Longrightarrow> stop_writing (snd s') = stop_writing (snd s)"
  by (cases s) (auto simp: CreateLogfile_def CreateLogfileInternal_def GetSuitableFileName_def emit_def emits_def
      Let_def split: prod.splits if_splits option.splits sum.splits)

lemma write_header_running:
  "write_header fl env tm s = Some s' \<Longrightarrow> stop_writing (snd s') = stop_writing (snd s)"
  by (cases s) (auto simp: write_header_def fwrite_def emit_def Let_def split: if_splits option.splits)

lemma prepare_file_running: "initialized f \<Longrightarrow> stop_writing (snd (prepare_file fl env ts (f, g))) = stop_writing g"
  by (auto simp: prepare_file_def trim_history_def emits_def split: prod.splits)

lemma make_file_recovered:
  assumes "consistent (f, g)" and "log_file f = None" and "base_filename_selected f" and "initialized f"
    and "rollover_attempt f + 1 = kRolloverAttemptFrequency" and "recovered env"
  shows "\<exists>s'. make_file fl env ts (f, g) = Some (True, s') \<and> consistent s' \<and> log_file (fst s') \<noteq> None \<and>
    stop_writing (snd s') = stop_writing g"
proof -
  let ?f2 = "f\<lparr>rollover_attempt := 0\<rparr>"
  let ?s2 = "prepare_file fl env ts (?f2, g)"
  let ?stamp = "time_pid_text fl (file_time fl env ts) (g_main_thread_pid (utils (snd ?s2)))"
  have c2: "consistent (?f2, g)" using assms(1) by (simp add: consistent_iff)
  note p = prepare_file_ok[OF c2, of fl env ts]
  have sel: "base_filename_selected (fst ?s2)" using p assms(3) by (simp add: keeps_base_def)
  obtain ok f3 g3 where cr: "CreateLogfile fl env ?stamp ?s2 = (ok, f3, g3)" by (metis surj_pair)
  then have ok: ok using CreateLogfile_recovered[OF assms(6)] by (metis surj_pair)
  have c3: "consistent (f3, g3)" "log_file f3 \<noteq> None"
    using consistent_CreateLogfile[of "fst ?s2" "snd ?s2"] cr p assms(2) ok by simp_all
  have run3: "stop_writing g3 = stop_writing g"
    using CreateLogfile_running[OF cr] prepare_file_running[of ?f2] assms(4) by simp
  obtain s4 where w: "write_header fl env (file_time fl env ts) (f3, g3) = Some s4" "consistent s4"
    "log_file (fst s4) = log_file f3"
    using write_header_file[of "(f3, g3)" fl env "file_time fl env ts"] c3 by auto
  have "make_file fl env ts (f, g) = Some (True, s4)"
    using assms(5) sel cr ok w(1) by (simp add: make_file_def create_named_def Let_def)
  then show ?thesis using w c3 run3 write_header_running[OF w(1)] by simp
qed

text \<open>C29. An attempt to make a log file that fails, while no file can be opened, loses its message with a
  complaint on the standard error output. Then exactly the next 31 messages are lost, with no effect at
  all and even if the files can be opened again; the message after them makes the next attempt, and
  when the file can be made by then, that message is written to it (if a disk that was full has not
  stopped the writing). Here the base name was chosen, rolling is by size, and the process stays the
  same.\<close>

theorem retry_after_31:
  assumes "no_file fl env (f, g)" and "rollover_attempt f = 31" and "closed env" and "file_reach fl (f, g)"
    and "\<not> stop_writing g" and "length ms = 31" and "env_pid env2 = env_pid env"
    and "recovered env3" and "env_pid env3 = env_pid env"
  shows "\<exists>f1 g1 fails f2 s3 p new.
    Write fl env force1 ts1 message1 (f, g) = Some (f1, g1) \<and> effects g1 = effects g @ fails \<and>
    list_all (\<lambda>e. \<not> writes_log e) fails \<and> EStderr ''Could not create log file'' \<in> set fails \<and>
    Writes fl env2 ms (f1, g1) = Some (f2, g1) \<and>
    Write fl env3 force3 ts3 message3 (f2, g1) = Some s3 \<and> effects (snd s3) = effects g1 @ new \<and>
    EWrite p message3 \<in> set new"
proof -
  obtain f1 g1 fails where w1: "Write fl env force1 ts1 message1 (f, g) = Some (f1, g1)"
    "waiting fl env (f1, g1)" "rollover_attempt f1 = 0" "stop_writing g1 = stop_writing g"
    "effects g1 = effects g @ fails" "list_all (\<lambda>e. \<not> writes_log e) fails"
    "EStderr ''Could not create log file'' \<in> set fails"
    using failing_attempt[OF assms(1,3,2)] by blast
  let ?f = "f1\<lparr>rollover_attempt := 31\<rparr>"
  have wait: "waiting fl env2 (f1, g1)" "waiting fl env3 (?f, g1)"
    using w1(2) assms(7,9) by (simp_all add: waiting_def no_file_def)
  have w2: "Writes fl env2 ms (f1, g1) = Some (?f, g1)"
    using Writes_skip[OF wait(1), of ms] assms(6) w1(3) by simp
  note f = wait(2)[unfolded waiting_def no_file_def prod.case]
  have ok: "consistent (?f, g1)" "cleaner_ok fl (log_cleaner g1)"
    using file_reach_ok[OF file_reach.writes[OF assms(4) w1(1)]] by (simp_all add: consistent_iff)
  obtain s4 where s4: "make_file fl env3 ts3 (?f, g1) = Some (True, s4)" "consistent s4" "log_file (fst s4) \<noteq> None"
    "\<not> stop_writing (snd s4)"
    using make_file_recovered[OF ok(1) _ _ _ _ assms(8), of fl ts3] f assms(5) w1(4)
    by (auto simp: kRolloverAttemptFrequency_def)
  obtain f4 g4 p where f4: "s4 = (f4, g4)" "log_file f4 = Some p" using s4(3) by (cases s4) auto
  obtain e1 where e1: "effects g4 = effects g1 @ e1"
    using make_file_ok[OF ok(1), of fl env3 ts3] s4(1) f4(1) f by (auto simp: keeps_base_def prefix_def)
  obtain s' where s': "Write fl env3 force3 ts3 message3 (?f, g1) = Some s'"
    using Write_ok[OF ok(1), of fl env3 force3 ts3 message3] ok(2) by auto
  have "(case write_message fl env3 message3 (f4, g4) of None \<Rightarrow> None | Some (False, s5) \<Rightarrow> Some s5
      | Some (True, s5) \<Rightarrow> flush_if_due fl env3 force3 s5) = Some s'"
    using s' f s4(1) f4(1) waiting_no_roll[OF wait(2)] by (simp add: Write_def split: if_splits)
  then obtain e2 where "effects (snd s') = effects g4 @ EWrite p message3 # e2"
    using s4(4) f4 flush_if_due_grows[of fl env3 force3 "(count_bytes message3 f4, emit (EWrite p message3) g4)" s']
    by (auto simp: write_message_def fwrite_def emit_def split: if_splits)
  then have "effects (snd s') = effects g1 @ e1 @ EWrite p message3 # e2" using e1 by simp
  then show ?thesis using w1 w2 s' by (intro exI[of _ f1] exI[of _ g1] exI[of _ fails] exI[of _ ?f] exI[of _ s']
      exI[of _ p] exI[of _ "e1 @ EWrite p message3 # e2"]) simp
qed

text \<open>The first message of a program that cannot open its log file at first.\<close>

definition broken_env :: LogEnv where
  "broken_env = demo_env\<lparr>env_open := \<lambda>_ _. False\<rparr>"

theorem retry_after_31_witness:
  "\<exists>s1 s2 s3 p new. Write demo_flags broken_env False 0 ''lost'' demo_state = Some s1 \<and>
     Writes demo_flags demo_env (replicate 31 (True, 0, ''lost'')) s1 = Some s2 \<and>
     effects (snd s2) = effects (snd s1) \<and>
     Write demo_flags demo_env False 0 ''hi'' s2 = Some s3 \<and> effects (snd s3) = effects (snd s2) @ new \<and>
     EWrite p ''hi'' \<in> set new"
proof -
  obtain f g where s: "demo_state = (f, g)" by (metis surj_pair)
  have "0 < size_limit demo_flags"
    by (simp add: size_limit_def demo_flags_def default_flags_def MaxLogSize_def)
  then have none: "no_file demo_flags broken_env (f, g)" "rollover_attempt f = 31" "\<not> stop_writing g"
    unfolding s[symmetric] using s
    by (auto simp: demo_state_def no_file_def demo_flags_def default_flags_def broken_env_def demo_env_def
        LogFileObject_new_def demo_globals_def ustart_def kRolloverAttemptFrequency_def)
  have "closed broken_env" "recovered demo_env" "env_pid demo_env = env_pid broken_env"
    by (simp_all add: closed_def recovered_def broken_env_def demo_env_def)
  moreover have "file_reach demo_flags (f, g)" using demo_state_reach s by simp
  moreover have "length (replicate 31 (True, 0 :: int, ''lost'')) = 31" by simp
  ultimately show ?thesis
    unfolding s using retry_after_31[OF none(1,2) _ _ none(3)] by (metis snd_conv)
qed

end
