(* ===== verification/Log_Pread.thy ===== *)
theory Log_Pread
  imports Log_Dirs
begin

section \<open>Logging: reading and writing at an offset\<close>

text \<open>
  The replacements of \<open>pread\<close> and \<open>pwrite\<close> in \<^verbatim>\<open>src/logging.cc\<close> for systems without them. An open
  file has a position; \<open>lseek\<close>, \<open>read\<close> and \<open>write\<close> are modelled as documented, and the flag
  says whether the transfer fails.
\<close>

record Descriptor =
  fd_offset :: int
  fd_contents :: string

datatype Whence = SEEK_SET | SEEK_CUR

definition lseek :: "Descriptor \<Rightarrow> int \<Rightarrow> Whence \<Rightarrow> int \<times> Descriptor" where
  "lseek fd offset whence =
     (let target = (case whence of SEEK_SET \<Rightarrow> offset | SEEK_CUR \<Rightarrow> fd_offset fd + offset)
      in if target < 0 then (- 1, fd) else (target, fd\<lparr>fd_offset := target\<rparr>))"

definition fd_read :: "bool \<Rightarrow> Descriptor \<Rightarrow> nat \<Rightarrow> string option \<times> Descriptor" where
  "fd_read fails fd count =
     (if fails then (None, fd)
      else let data = take count (drop (nat (fd_offset fd)) (fd_contents fd))
        in (Some data, fd\<lparr>fd_offset := fd_offset fd + int (length data)\<rparr>))"

definition fd_write :: "bool \<Rightarrow> Descriptor \<Rightarrow> string \<Rightarrow> nat option \<times> Descriptor" where
  "fd_write fails fd data =
     (if fails then (None, fd)
      else (Some (length data),
        fd\<lparr>fd_contents := pwrite_at (fd_contents fd) (nat (fd_offset fd)) data,
           fd_offset := fd_offset fd + int (length data)\<rparr>))"

text \<open>The replacements; \<open>None\<close> stands for the result -1.\<close>

definition pread_fallback :: "bool \<Rightarrow> Descriptor \<Rightarrow> nat \<Rightarrow> int \<Rightarrow> string option \<times> Descriptor" where
  "pread_fallback fails fd count offset =
     (let (orig_offset, fd1) = lseek fd 0 SEEK_CUR
      in if orig_offset = - 1 then (None, fd1)
         else let (r, fd2) = lseek fd1 offset SEEK_CUR
           in if r = - 1 then (None, fd2)
              else let (len, fd3) = fd_read fails fd2 count
                in if len = None then (None, fd3)
                   else let (r2, fd4) = lseek fd3 orig_offset SEEK_SET
                     in if r2 = - 1 then (None, fd4) else (len, fd4))"

definition pwrite_fallback :: "bool \<Rightarrow> Descriptor \<Rightarrow> string \<Rightarrow> int \<Rightarrow> nat option \<times> Descriptor" where
  "pwrite_fallback fails fd data offset =
     (let (orig_offset, fd1) = lseek fd 0 SEEK_CUR
      in if orig_offset = - 1 then (None, fd1)
         else let (r, fd2) = lseek fd1 offset SEEK_CUR
           in if r = - 1 then (None, fd2)
              else let (len, fd3) = fd_write fails fd2 data
                in if len = None then (None, fd3)
                   else let (r2, fd4) = lseek fd3 orig_offset SEEK_SET
                     in if r2 = - 1 then (None, fd4) else (len, fd4))"

text \<open>
  The replacements seek relative to the position of the file, so they work at the position plus the
  offset; the position is put back when the transfer succeeds, and left moved when it fails.
\<close>

lemma pread_fallback_shifted:
  assumes "0 \<le> fd_offset fd" and "0 \<le> fd_offset fd + offset"
  shows "pread_fallback False fd count offset =
    (Some (take count (drop (nat (fd_offset fd + offset)) (fd_contents fd))), fd)"
  using assms by (simp add: pread_fallback_def lseek_def fd_read_def Let_def)

lemma pwrite_fallback_shifted:
  assumes "0 \<le> fd_offset fd" and "0 \<le> fd_offset fd + offset"
  shows "pwrite_fallback False fd data offset =
    (Some (length data), fd\<lparr>fd_contents := pwrite_at (fd_contents fd) (nat (fd_offset fd + offset)) data\<rparr>)"
  using assms by (simp add: pwrite_fallback_def lseek_def fd_write_def Let_def)

lemma failed_read_moves:
  "0 \<le> fd_offset fd \<Longrightarrow> 0 < offset \<Longrightarrow>
   pread_fallback True fd count offset = (None, fd\<lparr>fd_offset := fd_offset fd + offset\<rparr>)"
  by (simp add: pread_fallback_def lseek_def fd_read_def Let_def)

text \<open>
  At position zero, where \<open>TruncateLogFile\<close> uses them, they agree with the calls they replace.
\<close>

lemma fallback_at_start:
  assumes "fd_offset fd = 0"
  shows "pread_fallback False fd (min kCopyBlockSize (Suc n)) (int k) = (Some (pread_block (fd_contents fd) k n), fd)"
    and "pwrite_fallback False fd data (int k) = (Some (length data), fd\<lparr>fd_contents := pwrite_at (fd_contents fd) k data\<rparr>)"
  using assms pread_fallback_shifted[of fd "int k"] pwrite_fallback_shifted[of fd "int k"]
  by (simp_all add: pread_block_def)

end
