(* ===== verification/Log_Dest.thy ===== *)
theory Log_Dest
  imports Log_File_Spec "HOL-Library.Monad_Syntax"
begin

section \<open>Logging: destinations and sinks\<close>

text \<open>
  The class \<^verbatim>\<open>LogDestination\<close> of \<^verbatim>\<open>src/logging.cc\<close>: for each severity a log file object and the logger
  in use (the file object itself or a logger of the user), the registered sinks, and the copies to
  the standard streams and to mail. Loggers and sinks of the user are known by numbers; what is
  sent to them, and everything else that leaves the program, is recorded in \<open>events\<close>; what a file
  object does to the file system is recorded in \<open>file_effects\<close> of its destination.

  \<open>None\<close> as a result stands for a failed assertion or check, or undefined behaviour.
\<close>

definition NUM_SEVERITIES :: nat where
  "NUM_SEVERITIES = 4"

datatype Logger = OwnFile | UserLogger nat

record LogDestination =
  fileobject :: LogFileObject
  logger :: Logger
  file_effects :: "Effect list"

datatype Event =
    ToOutput Output string
  | LoggerWrite nat Logger bool int string
  | LoggerFlush nat Logger
  | UserDelete nat
  | SinkSend nat nat string string int string
  | SinkWait nat
  | Syslog nat string
  | UnlockedTwice

record MsgFlags =
  file_flags :: LogFlags
  color_flags :: ColorFlags
  FLAGS_logtostderr :: bool
  FLAGS_logtostdout :: bool
  FLAGS_alsologtostderr :: bool
  FLAGS_alsologtoemail :: string
  FLAGS_log_prefix :: bool
  FLAGS_minloglevel :: int
  FLAGS_logbuflevel :: int
  FLAGS_logemaillevel :: int
  FLAGS_log_backtrace_at :: string

text \<open>
  The state of the library. \<open>log_mutex\<close> is the mutex's state as the thread that runs sees it;
  \<open>outvecs\<close> and \<open>strings\<close> are the vectors and strings of the user that messages are stored in;
  \<open>shared_data\<close> is what the static data of the second and later fatal messages keeps: the text, the
  position of its stream and the counter.
\<close>

record LogState =
  flags :: MsgFlags
  log_destinations :: "nat \<Rightarrow> LogDestination option"
  globals :: LogGlobals
  sinks :: "nat list option"
  email_logging_severity :: int
  addresses :: string
  num_messages :: "nat \<Rightarrow> int"
  already_warned :: bool
  openlog_called :: bool
  exit_on_dfatal :: bool
  fatal_msg_exclusive :: bool
  thread_data_available :: bool
  shared_data :: "string \<times> nat \<times> nat"
  fatal_message :: string
  fatal_time :: int
  log_mutex :: bool
  custom_prefix_callback :: "(nat \<Rightarrow> string \<Rightarrow> int \<Rightarrow> int \<Rightarrow> LogMessageTime \<Rightarrow> string) option"
  errno :: int
  outvecs :: "nat \<Rightarrow> string list"
  strings :: "nat \<Rightarrow> string"
  events :: "Event list"

record MsgEnv =
  file_env :: LogEnv
  env_tid :: int
  env_stack :: string
  env_stack_depth :: nat
  byte_before :: char
  uninit_tm :: Tm

definition event :: "Event \<Rightarrow> LogState \<Rightarrow> LogState" where
  "event e st = st\<lparr>events := events st @ [e]\<rparr>"

definition output_event :: "(Output \<times> string) option \<Rightarrow> LogState \<Rightarrow> LogState option" where
  "output_event w st = (case w of None \<Rightarrow> None | Some (out, t) \<Rightarrow> Some (event (ToOutput out t) st))"

subsection \<open>Destinations\<close>

definition LogDestination_new :: "MsgEnv \<Rightarrow> nat \<Rightarrow> LogState \<Rightarrow> LogDestination" where
  "LogDestination_new env sev st =
     \<lparr>fileobject = LogFileObject_new sev None (ProgramInvocationShortName (utils (globals st)))
        (env_now (file_env env)) (uninit_tm env), logger = OwnFile, file_effects = []\<rparr>"

definition log_destination :: "MsgEnv \<Rightarrow> nat \<Rightarrow> LogState \<Rightarrow> (LogDestination \<times> LogState) option" where
  "log_destination env sev st =
     (if NUM_SEVERITIES \<le> sev then None
      else case log_destinations st sev of
          Some d \<Rightarrow> Some (d, st)
        | None \<Rightarrow>
            let d = LogDestination_new env sev st
            in Some (d, st\<lparr>log_destinations := (log_destinations st)(sev := Some d)\<rparr>))"

definition set_destination :: "nat \<Rightarrow> LogDestination \<Rightarrow> LogState \<Rightarrow> LogState" where
  "set_destination sev d st = st\<lparr>log_destinations := (log_destinations st)(sev := Some d)\<rparr>"

text \<open>An operation on the file object of a destination.\<close>

definition put_file :: "nat \<Rightarrow> LogDestination \<Rightarrow> FileState \<Rightarrow> LogState \<Rightarrow> LogState" where
  "put_file sev d s st =
     (let (f, g) = s
      in set_destination sev (d\<lparr>fileobject := f, file_effects := effects g\<rparr>)
           (st\<lparr>globals := g\<lparr>effects := []\<rparr>\<rparr>))"

definition get_file :: "LogDestination \<Rightarrow> LogState \<Rightarrow> FileState" where
  "get_file d st = (fileobject d, (globals st)\<lparr>effects := file_effects d\<rparr>)"

text \<open>The virtual calls of the interface \<open>Logger\<close>.\<close>

definition logger_write :: "MsgEnv \<Rightarrow> bool \<Rightarrow> int \<Rightarrow> string \<Rightarrow> nat \<Rightarrow> LogDestination \<Rightarrow> LogState \<Rightarrow>
    LogState option" where
  "logger_write env force_flush ts message sev d st =
     (let st1 = event (LoggerWrite sev (logger d) force_flush ts message) st
      in case logger d of
           UserLogger n \<Rightarrow> Some st1
         | OwnFile \<Rightarrow> map_option (\<lambda>s. put_file sev d s st1)
             (Write (file_flags (flags st)) (file_env env) force_flush ts message (get_file d st)))"

definition logger_flush :: "MsgEnv \<Rightarrow> nat \<Rightarrow> LogDestination \<Rightarrow> LogState \<Rightarrow> LogState" where
  "logger_flush env sev d st =
     (let st1 = event (LoggerFlush sev (logger d)) st
      in case logger d of
           UserLogger n \<Rightarrow> st1
         | OwnFile \<Rightarrow> put_file sev d (FlushUnlocked (file_flags (flags st)) (file_env env) (get_file d st)) st1)"

definition SetLoggerImpl :: "nat \<Rightarrow> LogDestination \<Rightarrow> Logger \<Rightarrow> LogState \<Rightarrow> LogState" where
  "SetLoggerImpl sev d l st =
     (if logger d = l then st
      else let st1 = (case logger d of UserLogger n \<Rightarrow> event (UserDelete n) st | OwnFile \<Rightarrow> st)
        in set_destination sev (d\<lparr>logger := l\<rparr>) st1)"

definition GetLogger :: "MsgEnv \<Rightarrow> nat \<Rightarrow> LogState \<Rightarrow> (Logger \<times> LogState) option" where
  "GetLogger env sev st = map_option (\<lambda>(d, st1). (logger d, st1)) (log_destination env sev st)"

definition SetLogger :: "MsgEnv \<Rightarrow> nat \<Rightarrow> Logger \<Rightarrow> LogState \<Rightarrow> LogState option" where
  "SetLogger env sev l st = map_option (\<lambda>(d, st1). SetLoggerImpl sev d l st1) (log_destination env sev st)"

text \<open>Flushing from a severity upwards: \<open>n\<close> severities are left.\<close>

fun flush_unsafe_loop :: "MsgEnv \<Rightarrow> nat \<Rightarrow> nat \<Rightarrow> LogState \<Rightarrow> LogState" where
  "flush_unsafe_loop env 0 i st = st"
| "flush_unsafe_loop env (Suc n) i st =
     flush_unsafe_loop env n (Suc i)
       (case log_destinations st i of
          None \<Rightarrow> st
        | Some d \<Rightarrow> put_file i d (FlushUnlocked (file_flags (flags st)) (file_env env) (get_file d st)) st)"

definition FlushLogFilesUnsafe :: "MsgEnv \<Rightarrow> nat \<Rightarrow> LogState \<Rightarrow> LogState" where
  "FlushLogFilesUnsafe env min_severity st =
     flush_unsafe_loop env (NUM_SEVERITIES - min_severity) min_severity st"

fun flush_loop :: "MsgEnv \<Rightarrow> nat \<Rightarrow> nat \<Rightarrow> LogState \<Rightarrow> LogState option" where
  "flush_loop env 0 i st = Some st"
| "flush_loop env (Suc n) i st =
     do { (d, st1) \<leftarrow> log_destination env i st; flush_loop env n (Suc i) (logger_flush env i d st1) }"

definition FlushLogFiles :: "MsgEnv \<Rightarrow> nat \<Rightarrow> LogState \<Rightarrow> LogState option" where
  "FlushLogFiles env min_severity st = flush_loop env (NUM_SEVERITIES - min_severity) min_severity st"

definition on_file :: "MsgEnv \<Rightarrow> nat \<Rightarrow> (FileState \<Rightarrow> FileState) \<Rightarrow> LogState \<Rightarrow> LogState option" where
  "on_file env sev op st =
     do { (d, st1) \<leftarrow> log_destination env sev st; Some (put_file sev d (op (get_file d st1)) st1) }"

definition SetLogDestination :: "MsgEnv \<Rightarrow> nat \<Rightarrow> string \<Rightarrow> LogState \<Rightarrow> LogState option" where
  "SetLogDestination env sev base = on_file env sev (SetBasename base)"

definition SetLogSymlink :: "MsgEnv \<Rightarrow> nat \<Rightarrow> string \<Rightarrow> LogState \<Rightarrow> LogState option" where
  "SetLogSymlink env sev name = on_file env sev (SetSymlinkBasename name)"

fun extension_loop :: "MsgEnv \<Rightarrow> string \<Rightarrow> nat \<Rightarrow> nat \<Rightarrow> LogState \<Rightarrow> LogState option" where
  "extension_loop env ext 0 i st = Some st"
| "extension_loop env ext (Suc n) i st =
     do { st1 \<leftarrow> on_file env i (SetExtension ext) st; extension_loop env ext n (Suc i) st1 }"

definition SetLogFilenameExtension :: "MsgEnv \<Rightarrow> string \<Rightarrow> LogState \<Rightarrow> LogState option" where
  "SetLogFilenameExtension env ext st = extension_loop env ext NUM_SEVERITIES 0 st"

definition SetStderrLogging :: "int \<Rightarrow> LogState \<Rightarrow> LogState option" where
  "SetStderrLogging min_severity st =
     (if 0 \<le> min_severity \<and> min_severity < int NUM_SEVERITIES
      then Some (st\<lparr>flags := (flags st)\<lparr>color_flags := (color_flags (flags st))\<lparr>stderrthreshold := min_severity\<rparr>\<rparr>\<rparr>)
      else None)"

fun no_files_loop :: "MsgEnv \<Rightarrow> nat \<Rightarrow> nat \<Rightarrow> LogState \<Rightarrow> LogState option" where
  "no_files_loop env 0 i st = Some st"
| "no_files_loop env (Suc n) i st =
     do { st1 \<leftarrow> SetLogDestination env i [] st; no_files_loop env n (Suc i) st1 }"

definition LogToStderr :: "MsgEnv \<Rightarrow> LogState \<Rightarrow> LogState option" where
  "LogToStderr env st = do { st1 \<leftarrow> SetStderrLogging 0 st; no_files_loop env NUM_SEVERITIES 0 st1 }"

definition SetEmailLogging :: "int \<Rightarrow> string \<Rightarrow> LogState \<Rightarrow> LogState option" where
  "SetEmailLogging min_severity addrs st =
     (if 0 \<le> min_severity \<and> min_severity < int NUM_SEVERITIES
      then Some (st\<lparr>email_logging_severity := min_severity, addresses := addrs\<rparr>) else None)"

fun delete_loop :: "nat \<Rightarrow> nat \<Rightarrow> LogState \<Rightarrow> LogState" where
  "delete_loop 0 i st = st"
| "delete_loop (Suc n) i st =
     delete_loop n (Suc i)
       (case log_destinations st i of
          None \<Rightarrow> st
        | Some d \<Rightarrow>
            let st1 = SetLoggerImpl i d OwnFile st;
                st2 = put_file i d (LogFileObject_delete (get_file d st1)) st1
            in st2\<lparr>log_destinations := (log_destinations st2)(i := None)\<rparr>)"

definition DeleteLogDestinations :: "LogState \<Rightarrow> LogState" where
  "DeleteLogDestinations st = (delete_loop NUM_SEVERITIES 0 st)\<lparr>sinks := None\<rparr>"

subsection \<open>Sinks\<close>

definition AddLogSink :: "nat \<Rightarrow> LogState \<Rightarrow> LogState" where
  "AddLogSink destination st =
     st\<lparr>sinks := Some ((case sinks st of None \<Rightarrow> [] | Some l \<Rightarrow> l) @ [destination])\<rparr>"

definition RemoveLogSink :: "nat \<Rightarrow> LogState \<Rightarrow> LogState" where
  "RemoveLogSink destination st =
     (case sinks st of None \<Rightarrow> st | Some l \<Rightarrow> st\<lparr>sinks := Some (removeAll destination l)\<rparr>)"

definition sink_list :: "LogState \<Rightarrow> nat list" where
  "sink_list st = (case sinks st of None \<Rightarrow> [] | Some l \<Rightarrow> l)"

text \<open>The loops run over the indices downwards.\<close>

fun sinks_down :: "(nat \<Rightarrow> LogState \<Rightarrow> LogState) \<Rightarrow> nat list \<Rightarrow> nat \<Rightarrow> LogState \<Rightarrow> LogState" where
  "sinks_down call l 0 st = st"
| "sinks_down call l (Suc i) st = sinks_down call l i (call (l ! i) st)"

definition LogToSinks :: "nat \<Rightarrow> string \<Rightarrow> string \<Rightarrow> int \<Rightarrow> string \<Rightarrow> LogState \<Rightarrow> LogState" where
  "LogToSinks sev full base line message st =
     sinks_down (\<lambda>k. event (SinkSend k sev full base line message)) (sink_list st) (length (sink_list st)) st"

definition WaitForSinks :: "nat option \<Rightarrow> LogState \<Rightarrow> LogState" where
  "WaitForSinks own_sink st =
     (let st1 = sinks_down (\<lambda>k. event (SinkWait k)) (sink_list st) (length (sink_list st)) st
      in case own_sink of None \<Rightarrow> st1 | Some k \<Rightarrow> event (SinkWait k) st1)"

subsection \<open>Where a message goes\<close>

definition WriteToStderr :: "string \<Rightarrow> LogState \<Rightarrow> LogState" where
  "WriteToStderr message = event (ToOutput Stderr message)"

definition MaybeLogToStderr :: "nat \<Rightarrow> string \<Rightarrow> LogState \<Rightarrow> LogState option" where
  "MaybeLogToStderr sev message st =
     (if stderrthreshold (color_flags (flags st)) \<le> int sev \<or> FLAGS_alsologtostderr (flags st)
      then output_event (ColoredWriteToStderr (color_flags (flags st)) sev message) st
      else Some st)"

text \<open>Sending mail is disabled: what is left is a line on standard error.\<close>

definition SendEmailInternal :: "LogState \<Rightarrow> LogState" where
  "SendEmailInternal = event (ToOutput Stderr ''Sending emails is disabled (#11930).'')"

definition MaybeLogToEmail :: "MsgEnv \<Rightarrow> nat \<Rightarrow> LogState \<Rightarrow> LogState" where
  "MaybeLogToEmail env sev st =
     (if email_logging_severity st \<le> int sev \<or> FLAGS_logemaillevel (flags st) \<le> int sev
      then SendEmailInternal (st\<lparr>globals := (globals st)\<lparr>cached_hostname :=
             hostname (env_uname (file_env env)) (cached_hostname (globals st))\<rparr>\<rparr>)
      else st)"

definition MaybeLogToLogfile :: "MsgEnv \<Rightarrow> int \<Rightarrow> string \<Rightarrow> nat \<Rightarrow> LogState \<Rightarrow> LogState option" where
  "MaybeLogToLogfile env ts message sev st =
     (let should_flush = FLAGS_logbuflevel (flags st) < int sev
      in do { (d, st1) \<leftarrow> log_destination env sev st; logger_write env should_flush ts message sev d st1 })"

text \<open>From the severity down to 0.\<close>

fun logfiles_down :: "(nat \<Rightarrow> 's \<Rightarrow> 's option) \<Rightarrow> nat \<Rightarrow> 's \<Rightarrow> 's option" where
  "logfiles_down log 0 st = log 0 st"
| "logfiles_down log (Suc i) st = do { st1 \<leftarrow> log (Suc i) st; logfiles_down log i st1 }"

definition LogToAllLogfiles :: "MsgEnv \<Rightarrow> nat \<Rightarrow> int \<Rightarrow> string \<Rightarrow> LogState \<Rightarrow> LogState option" where
  "LogToAllLogfiles env sev ts message st =
     (if FLAGS_logtostdout (flags st) then
        output_event (ColoredWriteToStdout (color_flags (flags st)) sev message) st
      else if FLAGS_logtostderr (flags st) then
        output_event (ColoredWriteToStderr (color_flags (flags st)) sev message) st
      else logfiles_down (MaybeLogToLogfile env ts message) sev st)"

definition ReprintFatalMessage :: "MsgEnv \<Rightarrow> LogState \<Rightarrow> LogState option" where
  "ReprintFatalMessage env st =
     (let m = fatal_message st
      in if m = [] then Some st
         else LogToAllLogfiles env 2 (fatal_time st) m
                (if \<not> FLAGS_logtostderr (flags st) then WriteToStderr m st else st))"

subsection \<open>Destinations keep their files in order\<close>

definition log_ok :: "LogState \<Rightarrow> bool" where
  "log_ok st = ((\<forall>sev d. log_destinations st sev = Some d \<longrightarrow> consistent (get_file d st)) \<and>
     cleaner_ok (file_flags (flags st)) (log_cleaner (globals st)))"

lemma consistent_get_file:
  "consistent (get_file d st) \<longleftrightarrow> run_effects None (file_effects d) = Some (log_file (fileobject d))"
  by (simp add: get_file_def consistent_iff)

lemma log_ok_event [simp]: "log_ok (event e st) = log_ok st"
  by (simp add: log_ok_def event_def consistent_get_file)

lemma event_fields [simp]:
  "events (event e st) = events st @ [e]" "flags (event e st) = flags st"
  "log_destinations (event e st) = log_destinations st" "globals (event e st) = globals st"
  "sinks (event e st) = sinks st" "log_mutex (event e st) = log_mutex st"
  "exit_on_dfatal (event e st) = exit_on_dfatal st" "fatal_message (event e st) = fatal_message st"
  by (simp_all add: event_def)

text \<open>The logger a severity has, or will get when it is first used.\<close>

definition logger_at :: "LogState \<Rightarrow> nat \<Rightarrow> Logger" where
  "logger_at st i = (case log_destinations st i of None \<Rightarrow> OwnFile | Some d \<Rightarrow> logger d)"

lemma log_destination_ok:
  assumes "log_ok st" and "sev < NUM_SEVERITIES"
  shows "\<exists>d st1. log_destination env sev st = Some (d, st1) \<and> log_ok st1 \<and> log_destinations st1 sev = Some d \<and>
    logger d = logger_at st sev \<and> events st1 = events st \<and> flags st1 = flags st \<and> sinks st1 = sinks st \<and>
    globals st1 = globals st \<and> log_mutex st1 = log_mutex st \<and> exit_on_dfatal st1 = exit_on_dfatal st \<and>
    logger_at st1 = logger_at st"
proof (cases "log_destinations st sev")
  case (Some d)
  then show ?thesis using assms by (auto simp: log_destination_def logger_at_def)
next
  case None
  then show ?thesis using assms
    by (auto simp: log_destination_def LogDestination_new_def LogFileObject_new_def Let_def log_ok_def
        consistent_get_file logger_at_def fun_eq_iff)
qed

lemma put_file_ok:
  assumes "log_ok st" and "consistent s" and "cleaner_ok (file_flags (flags st)) (log_cleaner (snd s))"
  shows "log_ok (put_file sev d s st)"
  using assms by (cases s) (auto simp: log_ok_def put_file_def set_destination_def consistent_get_file consistent_iff)

lemma put_file_fields [simp]:
  "events (put_file sev d s st) = events st" "flags (put_file sev d s st) = flags st"
  "sinks (put_file sev d s st) = sinks st" "log_mutex (put_file sev d s st) = log_mutex st"
  "exit_on_dfatal (put_file sev d s st) = exit_on_dfatal st" "fatal_message (put_file sev d s st) = fatal_message st"
  by (cases s; simp add: put_file_def set_destination_def)+

lemma logger_at_put_file: "logger d = logger_at st sev \<Longrightarrow> logger_at (put_file sev d s st) = logger_at st"
  by (cases s) (auto simp: put_file_def set_destination_def logger_at_def fun_eq_iff split: option.splits)

text \<open>The call of a logger: recorded, and safe for the file objects.\<close>

lemma logger_write_ok:
  assumes "log_ok st" and "log_destinations st sev = Some d"
  shows "\<exists>st'. logger_write env force ts message sev d st = Some st' \<and> log_ok st' \<and>
    events st' = events st @ [LoggerWrite sev (logger d) force ts message] \<and> flags st' = flags st \<and>
    sinks st' = sinks st \<and> log_mutex st' = log_mutex st \<and> exit_on_dfatal st' = exit_on_dfatal st \<and>
    logger_at st' = logger_at st \<and> fatal_message st' = fatal_message st"
proof (cases "logger d")
  case (UserLogger n)
  then show ?thesis using assms by (simp add: logger_write_def Let_def logger_at_def fun_eq_iff)
next
  case OwnFile
  have c: "consistent (get_file d st)" "cleaner_ok (file_flags (flags st)) (log_cleaner (snd (get_file d st)))"
    using assms by (auto simp: log_ok_def get_file_def)
  obtain s' where s': "Write (file_flags (flags st)) (file_env env) force ts message (get_file d st) = Some s'"
    "consistent s'" "cleaner_ok (file_flags (flags st)) (log_cleaner (snd s'))"
    using Write_ok[OF c, of "file_env env" force ts message] by blast
  let ?e = "LoggerWrite sev (logger d) force ts message"
  have "logger_at (put_file sev d s' (event ?e st)) = logger_at (event ?e st)"
    by (rule logger_at_put_file) (simp add: logger_at_def assms(2))
  also have "\<dots> = logger_at st" by (simp add: logger_at_def fun_eq_iff)
  finally show ?thesis using OwnFile s' assms put_file_ok[of "event ?e st" s' sev d]
    by (simp add: logger_write_def Let_def)
qed

subsection \<open>The interface of the loggers\<close>

text \<open>
  What the distribution of a message over the log files relies on: a call for a severity is
  made in a good state, returns in a good state, and is recorded with that severity.
\<close>

locale severity_log =
  fixes log :: "nat \<Rightarrow> 's \<Rightarrow> 's option" and good :: "'s \<Rightarrow> bool" and seen :: "'s \<Rightarrow> 'e list"
    and entry :: "nat \<Rightarrow> 'e"
  assumes log_good: "i < NUM_SEVERITIES \<Longrightarrow> good s \<Longrightarrow> \<exists>s'. log i s = Some s' \<and> good s' \<and> seen s' = seen s @ [entry i]"
begin

lemma logfiles_down_good:
  "sev < NUM_SEVERITIES \<Longrightarrow> good s \<Longrightarrow>
   \<exists>s'. logfiles_down log sev s = Some s' \<and> good s' \<and> seen s' = seen s @ map entry (rev [0..<Suc sev])"
proof (induction sev arbitrary: s)
  case 0
  then show ?case using log_good[of 0 s] by simp
next
  case (Suc sev)
  obtain s1 where s1: "log (Suc sev) s = Some s1" "good s1" "seen s1 = seen s @ [entry (Suc sev)]"
    using log_good[OF Suc.prems] by blast
  obtain s2 where "logfiles_down log sev s1 = Some s2" "good s2" "seen s2 = seen s1 @ map entry (rev [0..<Suc sev])"
    using Suc.IH[OF _ s1(2)] Suc.prems(1) by auto
  then show ?case using s1 by simp
qed

end

text \<open>Good states of the model, seen from a state in which a message starts to be logged.\<close>

definition logging_from :: "LogState \<Rightarrow> LogState \<Rightarrow> bool" where
  "logging_from st0 st = (log_ok st \<and> logger_at st = logger_at st0 \<and> flags st = flags st0 \<and> sinks st = sinks st0 \<and>
     log_mutex st = log_mutex st0 \<and> exit_on_dfatal st = exit_on_dfatal st0)"

interpretation files: severity_log "MaybeLogToLogfile env ts message" "logging_from st0" events
    "\<lambda>i. LoggerWrite i (logger_at st0 i) (FLAGS_logbuflevel (flags st0) < int i) ts message"
  for env ts message st0
proof
  fix i st
  assume i: "i < NUM_SEVERITIES" and good: "logging_from st0 st"
  then have ok: "log_ok st" by (simp add: logging_from_def)
  obtain d st1 where d: "log_destination env i st = Some (d, st1)" "log_ok st1" "log_destinations st1 i = Some d"
    "logger d = logger_at st i" "events st1 = events st" "flags st1 = flags st" "sinks st1 = sinks st"
    "log_mutex st1 = log_mutex st" "exit_on_dfatal st1 = exit_on_dfatal st" "logger_at st1 = logger_at st"
    using log_destination_ok[OF ok i, of env] by blast
  obtain st2 where w: "logger_write env (FLAGS_logbuflevel (flags st) < int i) ts message i d st1 = Some st2"
    "log_ok st2" "events st2 = events st1 @ [LoggerWrite i (logger d) (FLAGS_logbuflevel (flags st) < int i) ts message]"
    "flags st2 = flags st1" "sinks st2 = sinks st1" "log_mutex st2 = log_mutex st1"
    "exit_on_dfatal st2 = exit_on_dfatal st1" "logger_at st2 = logger_at st1"
    using logger_write_ok[OF d(2,3)] by blast
  show "\<exists>st'. MaybeLogToLogfile env ts message i st = Some st' \<and> logging_from st0 st' \<and>
      events st' = events st @ [LoggerWrite i (logger_at st0 i) (FLAGS_logbuflevel (flags st0) < int i) ts message]"
    using good d w by (simp add: MaybeLogToLogfile_def Let_def logging_from_def)
qed

text \<open>Unless everything goes to standard output or standard error, a message is handed to the
  loggers of its severity and of all lower ones, each exactly once and in descending order, with
  the request to flush for the severities above the buffering level; nothing else happens to the
  rest of the library, and the files stay in order.\<close>

theorem LogToAllLogfiles_routes:
  assumes "log_ok st" and "sev < NUM_SEVERITIES" and "\<not> FLAGS_logtostdout (flags st)" and "\<not> FLAGS_logtostderr (flags st)"
  shows "\<exists>st'. LogToAllLogfiles env sev ts message st = Some st' \<and> log_ok st' \<and>
    events st' = events st @ map (\<lambda>i. LoggerWrite i (logger_at st i) (FLAGS_logbuflevel (flags st) < int i) ts message)
      (rev [0..<Suc sev]) \<and>
    flags st' = flags st \<and> sinks st' = sinks st \<and> logger_at st' = logger_at st"
proof -
  have "logging_from st st" using assms(1) by (simp add: logging_from_def)
  from files.logfiles_down_good[OF assms(2) this, of env ts message] assms(3,4) show ?thesis
    by (auto simp: LogToAllLogfiles_def logging_from_def)
qed

subsection \<open>The start of a program\<close>

definition default_msg_flags :: MsgFlags where
  "default_msg_flags =
     \<lparr>file_flags = default_flags,
      color_flags = \<lparr>terminal_supports_color = False, FLAGS_colorlogtostderr = False,
        FLAGS_colorlogtostdout = False, stderrthreshold = 2\<rparr>,
      FLAGS_logtostderr = False, FLAGS_logtostdout = False, FLAGS_alsologtostderr = False,
      FLAGS_alsologtoemail = [], FLAGS_log_prefix = True, FLAGS_minloglevel = 0, FLAGS_logbuflevel = 0,
      FLAGS_logemaillevel = 999, FLAGS_log_backtrace_at = []\<rparr>"

definition log_start :: "MsgFlags \<Rightarrow> int \<Rightarrow> LogState" where
  "log_start fl pid =
     \<lparr>flags = fl, log_destinations = (\<lambda>_. None),
      globals = \<lparr>stop_writing = False, rolling_file_number = 10, log_cleaner = LogCleaner_new,
        cached_hostname = [], application_fingerprint = [], utils = ustart pid, effects = []\<rparr>,
      sinks = None, email_logging_severity = 99999, addresses = [], num_messages = (\<lambda>_. 0),
      already_warned = False, openlog_called = False, exit_on_dfatal = True, fatal_msg_exclusive = True,
      thread_data_available = True, shared_data = (replicate 30001 NUL, 0, 0),
      fatal_message = [], fatal_time = 0, log_mutex = False, custom_prefix_callback = None, errno = 0,
      outvecs = (\<lambda>_. []), strings = (\<lambda>_. []), events = []\<rparr>"

lemma log_ok_start: "log_ok (log_start fl pid)"
  by (simp add: log_ok_def log_start_def cleaner_ok_def LogCleaner_new_def)

definition demo_msg_env :: MsgEnv where
  "demo_msg_env = \<lparr>file_env = demo_env, env_tid = 77, env_stack = [], env_stack_depth = 0, byte_before = NUL,
     uninit_tm = demo_tm\<rparr>"

theorem LogToAllLogfiles_routes_witness:
  "\<exists>st'. LogToAllLogfiles demo_msg_env 1 0 ''m'' (log_start default_msg_flags 77) = Some st' \<and>
     events st' = [LoggerWrite 1 OwnFile True 0 ''m'', LoggerWrite 0 OwnFile False 0 ''m'']"
proof -
  have "\<not> FLAGS_logtostdout (flags (log_start default_msg_flags 77))"
    "\<not> FLAGS_logtostderr (flags (log_start default_msg_flags 77))"
    by (simp_all add: log_start_def default_msg_flags_def)
  from LogToAllLogfiles_routes[OF log_ok_start _ this, of 1 demo_msg_env 0 "''m''"]
  show ?thesis by (auto simp: NUM_SEVERITIES_def log_start_def default_msg_flags_def logger_at_def)
qed

subsection \<open>Sinks\<close>

lemma sinks_down_events:
  assumes "\<And>k st. call k st = event (f k) st" and "n \<le> length l"
  shows "sinks_down call l n st = st\<lparr>events := events st @ map f (rev (take n l))\<rparr>"
  using assms(2)
proof (induction n arbitrary: st)
  case (Suc n)
  then have "rev (take (Suc n) l) = l ! n # rev (take n l)" by (simp add: take_Suc_conv_app_nth)
  then show ?case using Suc by (simp add: assms(1) event_def)
qed simp

lemma LogToSinks_eq:
  "LogToSinks sev full base line message st =
   st\<lparr>events := events st @ map (\<lambda>k. SinkSend k sev full base line message) (rev (sink_list st))\<rparr>"
  unfolding LogToSinks_def by (subst sinks_down_events) simp_all

lemma WaitForSinks_eq:
  "WaitForSinks own st = st\<lparr>events := events st @ map SinkWait (rev (sink_list st)) @
     (case own of None \<Rightarrow> [] | Some k \<Rightarrow> [SinkWait k])\<rparr>"
  unfolding WaitForSinks_def by (subst sinks_down_events) (auto simp: event_def Let_def split: option.split)

lemma RemoveLogSink_gone: "k \<notin> set (sink_list (RemoveLogSink k st))"
  by (auto simp: RemoveLogSink_def sink_list_def split: option.splits)

lemma AddLogSink_last: "sink_list (AddLogSink k st) = sink_list st @ [k]"
  by (simp add: AddLogSink_def sink_list_def)

end
