(* ===== verification/Log_Message.thy ===== *)
theory Log_Message
  imports Log_Dest
begin

section \<open>Logging: messages\<close>

text \<open>
  The class \<^verbatim>\<open>LogMessage\<close> of \<^verbatim>\<open>src/logging.cc\<close> and the stream it is written through
  (\<^verbatim>\<open>LogStreamBuf\<close> in \<^verbatim>\<open>src/glog/logging.h.in\<close>): the prefix, the truncation of long messages, flushing
  to the log files, the standard streams, sinks, strings and the system log, and fatal messages.
\<close>

definition kMaxLogMessageLen :: nat where
  "kMaxLogMessageLen = 30000"

datatype SendMethod = SendToLog | SendToSink | SendToSinkAndLog | SaveOrSendToLog | WriteToStringAndLog
  | SendToSyslogAndLog

text \<open>The union of \<open>sink_\<close>, \<open>outvec_\<close> and \<open>message_\<close>; \<open>NoTarget\<close> is the null pointer.\<close>

datatype Target = NoTarget | SinkTarget nat | OutvecTarget nat | StringTarget nat

text \<open>Where the data of a message is: \<open>thread_msg_data\<close>, the heap, or one of the two static objects.\<close>

datatype Storage = ThreadData | HeapData | ExclusiveData | SharedData

record LogMessageData =
  storage :: Storage
  preserved_errno :: int
  message_text :: string
  pcount :: nat
  msg_severity :: nat
  msg_line :: int
  send_method :: SendMethod
  target :: Target
  num_prefix_chars :: nat
  num_chars_to_log :: nat
  num_chars_to_syslog :: nat
  msg_basename :: string
  fullname :: string
  has_been_flushed :: bool
  first_fatal :: bool
  logmsgtime :: LogMessageTime
  msg_ctr :: nat

subsection \<open>The stream\<close>

text \<open>
  \<^verbatim>\<open>setp(buf, buf + len - 2)\<close> and \<open>overflow\<close>: characters that do not fit are dropped without an error.
\<close>

definition stream_put :: "string \<Rightarrow> LogMessageData \<Rightarrow> LogMessageData" where
  "stream_put s d =
     (let t = take (kMaxLogMessageLen - 2 - pcount d) s
      in d\<lparr>message_text := take (pcount d) (message_text d) @ t @ drop (pcount d + length t) (message_text d),
           pcount := pcount d + length t\<rparr>)"

subsection \<open>Making a message\<close>

text \<open>The prefix: the standard one or the one of the user's callback.\<close>

definition prefix_text :: "MsgEnv \<Rightarrow> LogState \<Rightarrow> LogMessageData \<Rightarrow> string" where
  "prefix_text env st d =
     (case custom_prefix_callback st of
        None \<Rightarrow> line_prefix (FLAGS_log_year_in_prefix (file_flags (flags st))) (LogSeverityNames ! msg_severity d)
          (msg_basename d) (msg_line d) (logmsgtime d) (env_tid env mod 2 ^ 32)
      | Some callback \<Rightarrow> callback (msg_severity d) (msg_basename d) (msg_line d) (env_tid env) (logmsgtime d) @ '' '')"

definition backtrace_text :: "MsgEnv \<Rightarrow> LogState \<Rightarrow> LogMessageData \<Rightarrow> string" where
  "backtrace_text env st d =
     (if FLAGS_log_backtrace_at (flags st) \<noteq> [] \<and>
         FLAGS_log_backtrace_at (flags st) = take 127 (msg_basename d @ '':'' @ int_str (msg_line d))
      then '' (stacktrace:'' @ [CHR 0x0A] @ env_stack env @ '') '' else [])"

definition message_time :: "MsgEnv \<Rightarrow> LogState \<Rightarrow> LogMessageTime" where
  "message_time env st =
     (let e = file_env env; ts = env_now e div 1000000
      in LogMessageTime_new (FLAGS_log_utc_time (file_flags (flags st))) (env_localtime e) (env_gmtime e)
           (env_mktime e) ts (env_now e mod 1000000))"

text \<open>
  Where the data comes from. \<open>buf\<close> is what the memory holds already; the data on the heap, in the
  thread and the static data of the first fatal message starts with an empty stream, the shared data
  of later fatal messages goes on where the message before it ended.
\<close>

definition allocate :: "string \<Rightarrow> nat \<Rightarrow> LogState \<Rightarrow> Storage \<times> (string \<times> nat \<times> nat) \<times> LogState" where
  "allocate buf sev st =
     (if sev \<noteq> 3 \<or> \<not> exit_on_dfatal st then
        (if thread_data_available st then (ThreadData, (buf, 0, 0), st\<lparr>thread_data_available := False\<rparr>)
         else (HeapData, (buf, 0, 0), st))
      else if fatal_msg_exclusive st then (ExclusiveData, (buf, 0, 0), st\<lparr>fatal_msg_exclusive := False\<rparr>)
      else (SharedData, shared_data st, st))"

definition Init :: "MsgEnv \<Rightarrow> string \<Rightarrow> string \<Rightarrow> int \<Rightarrow> nat \<Rightarrow> SendMethod \<Rightarrow> LogState \<Rightarrow>
    LogMessageData \<times> LogState" where
  "Init env buf fname line sev method st =
     (let (sto, (txt, pos, ctr), st1) = allocate buf sev st;
          d = \<lparr>storage = sto, preserved_errno = errno st, message_text = txt, pcount = pos, msg_severity = sev,
               msg_line = line, send_method = method, target = NoTarget, num_prefix_chars = 0,
               num_chars_to_log = 0, num_chars_to_syslog = 0, msg_basename = const_basename fname,
               fullname = fname, has_been_flushed = False, first_fatal = (sto = ExclusiveData),
               logmsgtime = message_time env st, msg_ctr = ctr\<rparr>;
          d1 = (if FLAGS_log_prefix (flags st) \<and> line \<noteq> - 1 then stream_put (prefix_text env st d) d else d);
          d2 = d1\<lparr>num_prefix_chars := pcount d1\<rparr>
      in (stream_put (backtrace_text env st d2) d2, st1))"

text \<open>The constructors. A message for a sink, a vector or a string keeps the pointer, which may be null.\<close>

definition LogMessage_method :: "MsgEnv \<Rightarrow> string \<Rightarrow> string \<Rightarrow> int \<Rightarrow> nat \<Rightarrow> nat \<Rightarrow> SendMethod \<Rightarrow> LogState \<Rightarrow>
    LogMessageData \<times> LogState" where
  "LogMessage_method env buf fname line sev ctr method st =
     (let (d, st1) = Init env buf fname line sev method st in (d\<lparr>msg_ctr := ctr\<rparr>, st1))"

definition LogMessage_severity :: "MsgEnv \<Rightarrow> string \<Rightarrow> string \<Rightarrow> int \<Rightarrow> nat \<Rightarrow> LogState \<Rightarrow>
    LogMessageData \<times> LogState" where
  "LogMessage_severity env buf fname line sev st = Init env buf fname line sev SendToLog st"

definition LogMessage_info :: "MsgEnv \<Rightarrow> string \<Rightarrow> string \<Rightarrow> int \<Rightarrow> LogState \<Rightarrow> LogMessageData \<times> LogState" where
  "LogMessage_info env buf fname line st = Init env buf fname line 0 SendToLog st"

definition LogMessage_sink :: "MsgEnv \<Rightarrow> string \<Rightarrow> string \<Rightarrow> int \<Rightarrow> nat \<Rightarrow> nat option \<Rightarrow> bool \<Rightarrow> LogState \<Rightarrow>
    LogMessageData \<times> LogState" where
  "LogMessage_sink env buf fname line sev sink also_send_to_log st =
     (let (d, st1) = Init env buf fname line sev (if also_send_to_log then SendToSinkAndLog else SendToSink) st
      in (d\<lparr>target := (case sink of None \<Rightarrow> NoTarget | Some k \<Rightarrow> SinkTarget k)\<rparr>, st1))"

definition LogMessage_outvec :: "MsgEnv \<Rightarrow> string \<Rightarrow> string \<Rightarrow> int \<Rightarrow> nat \<Rightarrow> nat option \<Rightarrow> LogState \<Rightarrow>
    LogMessageData \<times> LogState" where
  "LogMessage_outvec env buf fname line sev outvec st =
     (let (d, st1) = Init env buf fname line sev SaveOrSendToLog st
      in (d\<lparr>target := (case outvec of None \<Rightarrow> NoTarget | Some v \<Rightarrow> OutvecTarget v)\<rparr>, st1))"

definition LogMessage_string :: "MsgEnv \<Rightarrow> string \<Rightarrow> string \<Rightarrow> int \<Rightarrow> nat \<Rightarrow> nat option \<Rightarrow> LogState \<Rightarrow>
    LogMessageData \<times> LogState" where
  "LogMessage_string env buf fname line sev message st =
     (let (d, st1) = Init env buf fname line sev WriteToStringAndLog st
      in (d\<lparr>target := (case message of None \<Rightarrow> NoTarget | Some v \<Rightarrow> StringTarget v)\<rparr>, st1))"

text \<open>The message of a failed check.\<close>

definition check_failed :: "string \<Rightarrow> LogMessageData \<Rightarrow> LogMessageData" where
  "check_failed result d = stream_put ('' '') (stream_put result (stream_put ''Check failed: '' d))"

definition LogMessage_check :: "MsgEnv \<Rightarrow> string \<Rightarrow> string \<Rightarrow> int \<Rightarrow> string \<Rightarrow> LogState \<Rightarrow>
    LogMessageData \<times> LogState" where
  "LogMessage_check env buf fname line result st =
     (let (d, st1) = Init env buf fname line 3 SendToLog st in (check_failed result d, st1))"

text \<open>\<^verbatim>\<open>COUNTER\<close> written to the stream of a message.\<close>

definition put_counter :: "LogMessageData \<Rightarrow> LogMessageData" where
  "put_counter d = stream_put (int_str (int (msg_ctr d))) d"

definition ErrnoLogMessage_end :: "(int \<Rightarrow> string) \<Rightarrow> LogMessageData \<Rightarrow> LogMessageData" where
  "ErrnoLogMessage_end StrErr d =
     stream_put ('': '' @ StrErr (preserved_errno d) @ '' ['' @ int_str (preserved_errno d) @ '']'') d"

subsection \<open>Sending\<close>

text \<open>The text without prefix and final newline; \<open>None\<close> when the length wraps around.\<close>

definition message_body :: "LogMessageData \<Rightarrow> string option" where
  "message_body d = (if num_prefix_chars d + 1 \<le> num_chars_to_log d
     then Some (take (num_chars_to_log d - num_prefix_chars d - 1) (drop (num_prefix_chars d) (message_text d)))
     else None)"

definition logged_text :: "LogMessageData \<Rightarrow> string" where
  "logged_text d = take (num_chars_to_log d) (message_text d)"

definition before_init_warning :: string where
  "before_init_warning = ''WARNING: Logging before InitGoogleLogging() is written to STDERR'' @ [CHR 0x0A]"

definition stack_trace_line :: string where
  "stack_trace_line = ''*** Check failure stack trace: ***'' @ [CHR 0x0A]"

definition RecordCrashReason :: "MsgEnv \<Rightarrow> LogMessageData \<Rightarrow> CrashReason" where
  "RecordCrashReason env d =
     \<lparr>cr_filename = fullname d, cr_line_number = msg_line d,
      cr_message = c_str (drop (num_prefix_chars d) (message_text d)), cr_depth = env_stack_depth env\<rparr>"

text \<open>
  \<open>Unlock\<close> of a mutex that is not held is recorded as the event \<open>UnlockedTwice\<close>. With read-write locks of
  the thread library and with critical sections it is undefined from there on, and without threads an
  assertion fails (\<^verbatim>\<open>Mutex.unlocked_by_hand\<close>, \<^verbatim>\<open>Mutex.NoThreads_Unlock\<close>). The state behind the
  event is exact for one configuration only: without threads and with assertions turned off, where the
  methods of \<^verbatim>\<open>Mutex\<close> do nothing. A state without the event is exact for all of them.
\<close>

definition unlock_log_mutex :: "LogState \<Rightarrow> LogState" where
  "unlock_log_mutex st = (if log_mutex st then st\<lparr>log_mutex := False\<rparr> else event UnlockedTwice st)"

definition own_sink :: "LogMessageData \<Rightarrow> nat option" where
  "own_sink d = (case (send_method d, target d) of
     (SendToSink, SinkTarget k) \<Rightarrow> Some k | (SendToSinkAndLog, SinkTarget k) \<Rightarrow> Some k | _ \<Rightarrow> None)"

text \<open>The empty write that flushes every destination there is.\<close>

fun write_all :: "MsgEnv \<Rightarrow> nat \<Rightarrow> nat \<Rightarrow> LogState \<Rightarrow> LogState option" where
  "write_all env 0 i st = Some st"
| "write_all env (Suc n) i st =
     (case log_destinations st i of
        None \<Rightarrow> write_all env n (Suc i) st
      | Some d \<Rightarrow> do { st1 \<leftarrow> logger_write env True 0 [] i d st; write_all env n (Suc i) st1 })"

definition fatal_part :: "MsgEnv \<Rightarrow> LogMessageData \<Rightarrow> LogState \<Rightarrow> LogState option" where
  "fatal_part env d st =
     (let st1 = (if first_fatal d then
            st\<lparr>globals := (globals st)\<lparr>utils := SetCrashReason (RecordCrashReason env d) (utils (globals st))\<rparr>,
               fatal_message := c_str (take (min (num_chars_to_log d) 255) (message_text d)),
               fatal_time := timestamp (logmsgtime d)\<rparr>
          else st)
      in do { st2 \<leftarrow> (if \<not> FLAGS_logtostderr (flags st1) \<and> \<not> FLAGS_logtostdout (flags st1)
                      then write_all env NUM_SEVERITIES 0 st1 else Some st1);
              Some (event (ToOutput Stderr stack_trace_line) (WaitForSinks (own_sink d) (unlock_log_mutex st2))) })"

definition send_to_log :: "MsgEnv \<Rightarrow> LogMessageData \<Rightarrow> LogState \<Rightarrow> LogState option" where
  "send_to_log env d st =
     (let inited = IsGoogleLoggingInitialized (utils (globals st));
          st1 = (if \<not> already_warned st \<and> \<not> inited
            then (WriteToStderr before_init_warning st)\<lparr>already_warned := True\<rparr> else st);
          fl = flags st1; sev = msg_severity d
      in do { b \<leftarrow> message_body d;
              st2 \<leftarrow> (if FLAGS_logtostderr fl \<or> FLAGS_logtostdout fl \<or> \<not> inited then
                  output_event (if FLAGS_logtostdout fl then ColoredWriteToStdout (color_flags fl) sev (logged_text d)
                    else ColoredWriteToStderr (color_flags fl) sev (logged_text d)) st1
                else
                  do { sta \<leftarrow> LogToAllLogfiles env sev (timestamp (logmsgtime d)) (logged_text d) st1;
                       stb \<leftarrow> MaybeLogToStderr sev (logged_text d) sta;
                       Some (MaybeLogToEmail env sev stb) });
              let st3 = LogToSinks sev (fullname d) (msg_basename d) (msg_line d) b st2
              in if sev = 3 \<and> exit_on_dfatal st3 then fatal_part env d st3 else Some st3 })"

definition send_to_sink :: "LogMessageData \<Rightarrow> LogState \<Rightarrow> LogState option" where
  "send_to_sink d st =
     (case target d of
        SinkTarget k \<Rightarrow> do { b \<leftarrow> message_body d;
          Some (event (SinkSend k (msg_severity d) (fullname d) (msg_basename d) (msg_line d) b) st) }
      | _ \<Rightarrow> Some st)"

definition save_or_send :: "MsgEnv \<Rightarrow> LogMessageData \<Rightarrow> LogState \<Rightarrow> LogState option" where
  "save_or_send env d st =
     (case target d of
        OutvecTarget v \<Rightarrow> do { b \<leftarrow> message_body d; Some (st\<lparr>outvecs := (outvecs st)(v := outvecs st v @ [b])\<rparr>) }
      | _ \<Rightarrow> send_to_log env d st)"

definition write_to_string :: "MsgEnv \<Rightarrow> LogMessageData \<Rightarrow> LogState \<Rightarrow> LogState option" where
  "write_to_string env d st =
     (case target d of
        StringTarget v \<Rightarrow> do { b \<leftarrow> message_body d; send_to_log env d (st\<lparr>strings := (strings st)(v := b)\<rparr>) }
      | _ \<Rightarrow> send_to_log env d st)"

definition syslog_level :: "nat \<Rightarrow> nat" where
  "syslog_level sev = [6, 4, 3, 0] ! sev"

definition send_to_syslog :: "MsgEnv \<Rightarrow> LogMessageData \<Rightarrow> LogState \<Rightarrow> LogState option" where
  "send_to_syslog env d st =
     send_to_log env d
       (event (Syslog (syslog_level (msg_severity d))
          (c_str (take (num_chars_to_syslog d) (drop (num_prefix_chars d) (message_text d)))))
          (st\<lparr>openlog_called := True\<rparr>))"

definition send :: "MsgEnv \<Rightarrow> LogMessageData \<Rightarrow> LogState \<Rightarrow> LogState option" where
  "send env d st =
     (case send_method d of
        SendToLog \<Rightarrow> send_to_log env d st
      | SendToSink \<Rightarrow> send_to_sink d st
      | SendToSinkAndLog \<Rightarrow> do { st1 \<leftarrow> send_to_sink d st; send_to_log env d st1 }
      | SaveOrSendToLog \<Rightarrow> save_or_send env d st
      | WriteToStringAndLog \<Rightarrow> write_to_string env d st
      | SendToSyslogAndLog \<Rightarrow> send_to_syslog env d st)"

subsection \<open>Flushing\<close>

text \<open>The message as it is sent: a newline is added unless there is one, and a terminator.\<close>

definition ends_in_newline :: "MsgEnv \<Rightarrow> LogMessageData \<Rightarrow> bool" where
  "ends_in_newline env d =
     ((if pcount d = 0 then byte_before env else message_text d ! (pcount d - 1)) = CHR 0x0A)"

definition finish_text :: "MsgEnv \<Rightarrow> LogMessageData \<Rightarrow> LogMessageData" where
  "finish_text env d =
     (let n = pcount d;
          d1 = d\<lparr>num_chars_to_log := n, num_chars_to_syslog := n - num_prefix_chars d\<rparr>;
          d2 = (if \<not> ends_in_newline env d
            then d1\<lparr>message_text := (message_text d1)[n := CHR 0x0A], num_chars_to_log := n + 1\<rparr> else d1)
      in d2\<lparr>message_text := (message_text d2)[num_chars_to_log d2 := NUL]\<rparr>)"

definition restore_text :: "MsgEnv \<Rightarrow> LogMessageData \<Rightarrow> LogMessageData \<Rightarrow> LogMessageData" where
  "restore_text env d0 d =
     (if \<not> ends_in_newline env d0
      then d\<lparr>num_chars_to_log := num_chars_to_log d - 1,
             message_text := (message_text d)[num_chars_to_log d - 1 := message_text d0 ! pcount d0]\<rparr>
      else d)"

text \<open>\<open>None\<close> also stands for waiting for ever on a mutex that the thread holds.\<close>

definition Flush :: "MsgEnv \<Rightarrow> LogMessageData \<Rightarrow> LogState \<Rightarrow> (LogMessageData \<times> LogState) option" where
  "Flush env d st =
     (if has_been_flushed d \<or> int (msg_severity d) < FLAGS_minloglevel (flags st) then Some (d, st)
      else if log_mutex st then None
      else let d1 = finish_text env d
        in do { st1 \<leftarrow> send env d1 (st\<lparr>log_mutex := True\<rparr>);
                let st2 = unlock_log_mutex (st1\<lparr>num_messages := (num_messages st1)(msg_severity d := num_messages st1 (msg_severity d) + 1)\<rparr>);
                    st3 = WaitForSinks (own_sink d) st2;
                    st4 = (if preserved_errno d \<noteq> 0 then st3\<lparr>errno := preserved_errno d\<rparr> else st3)
                in Some ((restore_text env d d1)\<lparr>has_been_flushed := True\<rparr>, st4) })"

text \<open>
  The end of a message: it is flushed and its data given back. The handler around the two is for exceptions
  that sinks throw, which are added in \<^verbatim>\<open>Log_Exceptions\<close>.
\<close>

definition release :: "LogMessageData \<Rightarrow> LogState \<Rightarrow> LogState" where
  "release d st =
     (case storage d of
        ThreadData \<Rightarrow> st\<lparr>thread_data_available := True\<rparr>
      | SharedData \<Rightarrow> st\<lparr>shared_data := (message_text d, pcount d, msg_ctr d)\<rparr>
      | _ \<Rightarrow> st)"

text \<open>
  The end of a message, when no sink throws as it is waited for; \<open>LogMessage_end_x\<close> of \<open>Log_Exceptions\<close> has the
  exceptions and what is done about them.
\<close>

definition LogMessage_end :: "MsgEnv \<Rightarrow> LogMessageData \<Rightarrow> LogState \<Rightarrow> (LogMessageData \<times> LogState) option" where
  "LogMessage_end env d st = do { (d1, st1) \<leftarrow> Flush env d st; Some (d1, release d1 st1) }"

text \<open>The life of a message that a constructor has made: it is written to and ends.\<close>

definition log_message :: "MsgEnv \<Rightarrow> string \<Rightarrow> LogMessageData \<times> LogState \<Rightarrow> (LogMessageData \<times> LogState) option" where
  "log_message env msg m = (let (d, st) = m in LogMessage_end env (stream_put msg d) st)"

text \<open>
  The end of a fatal message: the failure functions that are called. They leave by an exception or
  end the process; in the first case the end of the base class still runs.
\<close>

definition LogMessageFatal_end :: "MsgEnv \<Rightarrow> LogMessageData \<Rightarrow> LogState \<Rightarrow>
    (LogMessageData \<times> LogState \<times> fail_func list) option" where
  "LogMessageFatal_end env d st =
     do { (d1, st1) \<leftarrow> Flush env d st; (d2, st2) \<leftarrow> LogMessage_end env d1 st1;
          Some (d2, st2, LogMessage_Fail (utils (globals st1))) }"

subsection \<open>The interface of the library\<close>

definition SetApplicationFingerprint :: "string \<Rightarrow> LogState \<Rightarrow> LogState" where
  "SetApplicationFingerprint fingerprint st =
     st\<lparr>globals := (globals st)\<lparr>application_fingerprint := fingerprint\<rparr>\<rparr>"

definition EnableLogCleaner :: "nat \<Rightarrow> LogState \<Rightarrow> LogState" where
  "EnableLogCleaner days st = st\<lparr>globals := (globals st)\<lparr>log_cleaner := Enable days (log_cleaner (globals st))\<rparr>\<rparr>"

definition DisableLogCleaner :: "LogState \<Rightarrow> LogState" where
  "DisableLogCleaner st = st\<lparr>globals := (globals st)\<lparr>log_cleaner := Disable (log_cleaner (globals st))\<rparr>\<rparr>"

definition GetExitOnDFatal :: "LogState \<Rightarrow> bool" where
  "GetExitOnDFatal st = exit_on_dfatal st"

definition SetExitOnDFatal :: "bool \<Rightarrow> LogState \<Rightarrow> LogState" where
  "SetExitOnDFatal val st = st\<lparr>exit_on_dfatal := val\<rparr>"

definition LogMessage_num_messages :: "nat \<Rightarrow> LogState \<Rightarrow> int" where
  "LogMessage_num_messages sev st = num_messages st sev"

definition InitGoogleLogging :: "string \<Rightarrow> LogState \<Rightarrow> LogState option" where
  "InitGoogleLogging argv0 st =
     (case InitGoogleLoggingUtilities argv0 (utils (globals st)) of
        Inl _ \<Rightarrow> None | Inr u \<Rightarrow> Some (st\<lparr>globals := (globals st)\<lparr>utils := u\<rparr>\<rparr>))"

definition InitGoogleLogging_callback ::
    "string \<Rightarrow> (nat \<Rightarrow> string \<Rightarrow> int \<Rightarrow> int \<Rightarrow> LogMessageTime \<Rightarrow> string) option \<Rightarrow> LogState \<Rightarrow> LogState option" where
  "InitGoogleLogging_callback argv0 prefix_callback st =
     InitGoogleLogging argv0 (st\<lparr>custom_prefix_callback := prefix_callback\<rparr>)"

definition ShutdownGoogleLogging :: "LogState \<Rightarrow> LogState option" where
  "ShutdownGoogleLogging st =
     (case ShutdownGoogleLoggingUtilities (utils (globals st)) of
        Inl _ \<Rightarrow> None | Inr u \<Rightarrow> Some (DeleteLogDestinations (st\<lparr>globals := (globals st)\<lparr>utils := u\<rparr>\<rparr>)))"

end
