(* ===== verification/Log_Message_Spec.thy ===== *)
theory Log_Message_Spec
  imports Log_Message
begin

section \<open>Logging: properties of messages\<close>

text \<open>
  What a message holds after it was written to, what is sent and to whom, that flushing leaves the
  message as it was, and what a fatal message does.
\<close>

subsection \<open>The text of a message\<close>

definition data_ok :: "LogMessageData \<Rightarrow> bool" where
  "data_ok d = (length (message_text d) = kMaxLogMessageLen + 1 \<and> pcount d \<le> kMaxLogMessageLen - 2 \<and>
     num_prefix_chars d \<le> pcount d)"

definition msg_text :: "LogMessageData \<Rightarrow> string" where
  "msg_text d = take (pcount d) (message_text d)"

lemma take_block: "length xs = n \<Longrightarrow> take (n + length t) (xs @ t @ ys) = xs @ t"
  by auto

lemma stream_put_text:
  assumes "data_ok d"
  shows "msg_text (stream_put s d) = msg_text d @ take (kMaxLogMessageLen - 2 - pcount d) s"
    and "data_ok (stream_put s d)" and "pcount d \<le> pcount (stream_put s d)"
proof -
  let ?t = "take (kMaxLogMessageLen - 2 - pcount d) s"
  have len: "pcount d + length ?t \<le> kMaxLogMessageLen - 2" "length (take (pcount d) (message_text d)) = pcount d"
    using assms by (auto simp: data_ok_def)
  have "take (pcount d + length ?t) (take (pcount d) (message_text d) @ ?t @ drop (pcount d + length ?t) (message_text d)) =
      take (pcount d) (message_text d) @ ?t"
    by (rule take_block[OF len(2)])
  then show "msg_text (stream_put s d) = msg_text d @ ?t"
    by (simp add: msg_text_def stream_put_def Let_def del: length_take)
  show "data_ok (stream_put s d)"
    using assms len by (auto simp: data_ok_def stream_put_def Let_def kMaxLogMessageLen_def)
  show "pcount d \<le> pcount (stream_put s d)" by (simp add: stream_put_def Let_def)
qed

lemma stream_put_fields [simp]:
  "num_prefix_chars (stream_put s d) = num_prefix_chars d" "msg_severity (stream_put s d) = msg_severity d"
  "send_method (stream_put s d) = send_method d" "target (stream_put s d) = target d"
  "has_been_flushed (stream_put s d) = has_been_flushed d" "first_fatal (stream_put s d) = first_fatal d"
  "fullname (stream_put s d) = fullname d" "msg_basename (stream_put s d) = msg_basename d"
  "msg_line (stream_put s d) = msg_line d" "preserved_errno (stream_put s d) = preserved_errno d"
  "logmsgtime (stream_put s d) = logmsgtime d" "storage (stream_put s d) = storage d"
  "msg_ctr (stream_put s d) = msg_ctr d"
  by (simp_all add: stream_put_def Let_def)

lemma length_msg_text: "data_ok d \<Longrightarrow> length (msg_text d) = pcount d"
  by (simp add: data_ok_def msg_text_def kMaxLogMessageLen_def)

subsection \<open>The text that is sent\<close>

lemma ends_in_newline_iff:
  "data_ok d \<Longrightarrow> 0 < pcount d \<Longrightarrow> ends_in_newline env d \<longleftrightarrow> last (msg_text d) = CHR 0x0A"
proof -
  assume ok: "data_ok d" "0 < pcount d"
  then have "msg_text d \<noteq> []" "length (msg_text d) = pcount d"
    by (auto simp: msg_text_def data_ok_def kMaxLogMessageLen_def)
  then have "last (msg_text d) = message_text d ! (pcount d - 1)"
    using ok(2) by (simp add: last_conv_nth msg_text_def del: length_take)
  then show ?thesis using ok(2) by (simp add: ends_in_newline_def)
qed

definition with_newline :: "MsgEnv \<Rightarrow> LogMessageData \<Rightarrow> string" where
  "with_newline env d = (if ends_in_newline env d then msg_text d else msg_text d @ [CHR 0x0A])"

lemma finish_text_logged:
  assumes "data_ok d"
  shows "logged_text (finish_text env d) = with_newline env d"
    and "num_chars_to_log (finish_text env d) = length (with_newline env d)"
    and "num_prefix_chars (finish_text env d) = num_prefix_chars d"
proof -
  have n: "pcount d < length (message_text d)" "Suc (pcount d) \<le> length (message_text d)"
    using assms by (auto simp: data_ok_def kMaxLogMessageLen_def)
  then have "take (Suc (pcount d)) ((message_text d)[pcount d := CHR 0x0A]) = msg_text d @ [CHR 0x0A]"
    by (simp add: msg_text_def take_Suc_conv_app_nth)
  then show "logged_text (finish_text env d) = with_newline env d"
    by (simp add: logged_text_def finish_text_def with_newline_def Let_def msg_text_def)
  show "num_chars_to_log (finish_text env d) = length (with_newline env d)"
    using length_msg_text[OF assms] by (simp add: finish_text_def with_newline_def Let_def)
  show "num_prefix_chars (finish_text env d) = num_prefix_chars d"
    by (simp add: finish_text_def Let_def)
qed

lemma finish_text_fields [simp]:
  "msg_severity (finish_text env d) = msg_severity d" "send_method (finish_text env d) = send_method d"
  "target (finish_text env d) = target d" "first_fatal (finish_text env d) = first_fatal d"
  "fullname (finish_text env d) = fullname d" "msg_basename (finish_text env d) = msg_basename d"
  "msg_line (finish_text env d) = msg_line d" "logmsgtime (finish_text env d) = logmsgtime d"
  "storage (finish_text env d) = storage d" "msg_ctr (finish_text env d) = msg_ctr d"
  "pcount (finish_text env d) = pcount d" "preserved_errno (finish_text env d) = preserved_errno d"
  by (simp_all add: finish_text_def Let_def)

text \<open>What the sinks get: the text behind the prefix, without its final newline.\<close>

definition sent_body :: "MsgEnv \<Rightarrow> LogMessageData \<Rightarrow> string" where
  "sent_body env d = butlast (drop (num_prefix_chars d) (with_newline env d))"

definition sendable :: "MsgEnv \<Rightarrow> LogMessageData \<Rightarrow> bool" where
  "sendable env d = (data_ok d \<and> (ends_in_newline env d \<longrightarrow> num_prefix_chars d < pcount d))"

lemma finish_text_body:
  assumes "sendable env d"
  shows "message_body (finish_text env d) = Some (sent_body env d)"
proof -
  let ?w = "with_newline env d" and ?d = "finish_text env d"
  have ok: "data_ok d" using assms by (simp add: sendable_def)
  note f = finish_text_logged[OF ok, of env]
  have le: "num_prefix_chars d + 1 \<le> length ?w"
    using assms length_msg_text[OF ok] by (auto simp: sendable_def with_newline_def data_ok_def)
  have "take (length ?w - num_prefix_chars d - 1) (drop (num_prefix_chars d) (message_text ?d)) =
      drop (num_prefix_chars d) (take (length ?w - 1) (message_text ?d))"
    by (simp add: drop_take)
  also have "take (length ?w - 1) (message_text ?d) = butlast ?w"
    using f(1) unfolding logged_text_def f(2) by (metis butlast_take diff_le_self take_all_iff butlast_conv_take length_take min_def take_take)
  also have "drop (num_prefix_chars d) (butlast ?w) = sent_body env d"
    using le by (simp add: sent_body_def butlast_drop)
  finally show ?thesis using le f(2,3) by (simp add: message_body_def)
qed

subsection \<open>Making a message\<close>

text \<open>The standard prefix of a message.\<close>

definition standard_prefix :: "MsgEnv \<Rightarrow> LogState \<Rightarrow> string \<Rightarrow> int \<Rightarrow> nat \<Rightarrow> string" where
  "standard_prefix env st fname line sev =
     line_prefix (FLAGS_log_year_in_prefix (file_flags (flags st))) (LogSeverityNames ! sev)
       (const_basename fname) line (message_time env st) (env_tid env mod 2 ^ 32)"

lemma last_standard_prefix: "standard_prefix env st fname line sev \<noteq> [] \<and> last (standard_prefix env st fname line sev) = CHR '' ''"
  by (simp add: standard_prefix_def line_prefix_def)

text \<open>The shared data of later fatal messages, and the text it holds from the message before.\<close>

definition shared_ok :: "LogState \<Rightarrow> bool" where
  "shared_ok st = (length (fst (shared_data st)) = kMaxLogMessageLen + 1 \<and>
     fst (snd (shared_data st)) \<le> kMaxLogMessageLen - 2)"

definition shared_text :: "LogState \<Rightarrow> string" where
  "shared_text st = take (fst (snd (shared_data st))) (fst (shared_data st))"

definition uses_shared :: "nat \<Rightarrow> LogState \<Rightarrow> bool" where
  "uses_shared sev st = (sev = 3 \<and> exit_on_dfatal st \<and> \<not> fatal_msg_exclusive st)"

lemma allocate_ok:
  assumes "allocate buf sev st = (sto, (txt0, pos, ctr), st1)" and "length buf = kMaxLogMessageLen + 1"
    and "uses_shared sev st \<longrightarrow> shared_ok st"
  shows "length txt0 = kMaxLogMessageLen + 1" and "pos \<le> kMaxLogMessageLen - 2"
    and "take pos txt0 = (if uses_shared sev st then shared_text st else [])"
    and "sto = SharedData \<longleftrightarrow> uses_shared sev st"
    and "sto = ExclusiveData \<longleftrightarrow> sev = 3 \<and> exit_on_dfatal st \<and> fatal_msg_exclusive st"
    and "st1 = st\<lparr>thread_data_available := thread_data_available st1, fatal_msg_exclusive := fatal_msg_exclusive st1\<rparr>"
  using assms by (auto simp: allocate_def uses_shared_def shared_ok_def shared_text_def split: if_splits)

lemma take_long:
  assumes "p \<le> n" and "n \<le> length xs"
  shows "take n (take p xs @ ys) = take p xs @ take (n - p) ys"
  using assms by (auto simp: min_def)

text \<open>A new message is in order, and its prefix is the whole text (a backtrace apart).\<close>

lemma Init_ok:
  assumes "length buf = kMaxLogMessageLen + 1" and "Init env buf fname line sev method st = (d, st1)"
    and "FLAGS_log_backtrace_at (flags st) = []" and "uses_shared sev st \<longrightarrow> shared_ok st"
  shows "data_ok d \<and> pcount d = num_prefix_chars d \<and> msg_severity d = sev \<and> send_method d = method \<and>
    target d = NoTarget \<and> fullname d = fname \<and> msg_basename d = const_basename fname \<and> msg_line d = line \<and>
    \<not> has_been_flushed d \<and> preserved_errno d = errno st \<and> logmsgtime d = message_time env st \<and>
    st1 = st\<lparr>thread_data_available := thread_data_available st1, fatal_msg_exclusive := fatal_msg_exclusive st1\<rparr> \<and>
    (first_fatal d \<longleftrightarrow> sev = 3 \<and> exit_on_dfatal st \<and> fatal_msg_exclusive st) \<and>
    (storage d = SharedData \<longleftrightarrow> uses_shared sev st)"
    and "custom_prefix_callback st = None \<Longrightarrow> FLAGS_log_prefix (flags st) \<Longrightarrow> line \<noteq> - 1 \<Longrightarrow>
      msg_text d = take (kMaxLogMessageLen - 2)
        ((if uses_shared sev st then shared_text st else []) @ standard_prefix env st fname line sev)"
proof -
  obtain sto txt0 pos ctr st1' where al: "allocate buf sev st = (sto, (txt0, pos, ctr), st1')"
    by (metis surj_pair)
  note alo = allocate_ok[OF al assms(1,4)]
  let ?d = "\<lparr>storage = sto, preserved_errno = errno st, message_text = txt0, pcount = pos, msg_severity = sev,
     msg_line = line, send_method = method, target = NoTarget, num_prefix_chars = 0, num_chars_to_log = 0,
     num_chars_to_syslog = 0, msg_basename = const_basename fname, fullname = fname,
     has_been_flushed = False, first_fatal = (sto = ExclusiveData), logmsgtime = message_time env st, msg_ctr = ctr\<rparr>"
  let ?d1 = "if FLAGS_log_prefix (flags st) \<and> line \<noteq> - 1 then stream_put (prefix_text env st ?d) ?d else ?d"
  have ok: "data_ok ?d" using alo(1,2) by (simp add: data_ok_def)
  then have ok1: "data_ok ?d1" using stream_put_text(2) by simp
  then have ok2: "data_ok (?d1\<lparr>num_prefix_chars := pcount ?d1\<rparr>)" by (simp add: data_ok_def)
  have none: "stream_put [] e = e" for e by (simp add: stream_put_def)
  have bt: "backtrace_text env st e = []" for e using assms(3) by (simp add: backtrace_text_def)
  have eq: "d = ?d1\<lparr>num_prefix_chars := pcount ?d1\<rparr>" "st1 = st1'"
    using assms(2) unfolding Init_def al Let_def prod.case bt none by simp_all
  show "data_ok d \<and> pcount d = num_prefix_chars d \<and> msg_severity d = sev \<and> send_method d = method \<and>
    target d = NoTarget \<and> fullname d = fname \<and> msg_basename d = const_basename fname \<and> msg_line d = line \<and>
    \<not> has_been_flushed d \<and> preserved_errno d = errno st \<and> logmsgtime d = message_time env st \<and>
    st1 = st\<lparr>thread_data_available := thread_data_available st1, fatal_msg_exclusive := fatal_msg_exclusive st1\<rparr> \<and>
    (first_fatal d \<longleftrightarrow> sev = 3 \<and> exit_on_dfatal st \<and> fatal_msg_exclusive st) \<and>
    (storage d = SharedData \<longleftrightarrow> uses_shared sev st)"
    using ok2 alo(4,5,6) unfolding eq by simp
  assume pre: "custom_prefix_callback st = None" "FLAGS_log_prefix (flags st)" "line \<noteq> - 1"
  have p: "prefix_text env st ?d = standard_prefix env st fname line sev"
    using pre(1) by (simp add: prefix_text_def standard_prefix_def)
  have "msg_text d = msg_text (stream_put (prefix_text env st ?d) ?d)"
    using pre(2,3) unfolding eq by (simp add: msg_text_def)
  also have "\<dots> = take pos txt0 @ take (kMaxLogMessageLen - 2 - pos) (standard_prefix env st fname line sev)"
    using stream_put_text(1)[OF ok] unfolding p by (simp add: msg_text_def)
  finally show "msg_text d = take (kMaxLogMessageLen - 2)
      ((if uses_shared sev st then shared_text st else []) @ standard_prefix env st fname line sev)"
    using take_long[OF alo(2), of txt0] alo(1,2) unfolding alo(3)[symmetric] by (simp add: kMaxLogMessageLen_def)
qed

subsection \<open>Sending to the logs\<close>

text \<open>Neither an event at a sink nor the unlocking of a mutex that is not held.\<close>

definition no_sink_event :: "Event \<Rightarrow> bool" where
  "no_sink_event e = (case e of SinkSend _ _ _ _ _ _ \<Rightarrow> False | SinkWait _ \<Rightarrow> False | UnlockedTwice \<Rightarrow> False | _ \<Rightarrow> True)"

lemma no_sink_event_unlock: "list_all no_sink_event es \<Longrightarrow> UnlockedTwice \<notin> set es"
  by (auto simp: list_all_iff no_sink_event_def)

lemma log_ok_events [simp]: "log_ok (st\<lparr>events := es\<rparr>) = log_ok st"
  by (simp add: log_ok_def consistent_get_file)

text \<open>A state after part of the sending: some events that are not for sinks were added.\<close>

definition sent_from :: "LogState \<Rightarrow> LogState \<Rightarrow> bool" where
  "sent_from st0 st = (log_ok st \<and> flags st = flags st0 \<and> sinks st = sinks st0 \<and> log_mutex st = log_mutex st0 \<and>
     exit_on_dfatal st = exit_on_dfatal st0 \<and>
     (\<exists>es. events st = events st0 @ es \<and> list_all no_sink_event es))"

lemma sent_from_refl: "log_ok st \<Longrightarrow> sent_from st st"
  by (simp add: sent_from_def)

lemma sent_from_event: "sent_from st0 st \<Longrightarrow> no_sink_event e \<Longrightarrow> sent_from st0 (event e st)"
  by (auto simp: sent_from_def)

lemma sent_from_output:
  assumes "sent_from st0 st" and "w = ColoredWriteToStderrOrStdout cf out sev m" and "sev < 4"
  shows "\<exists>st'. output_event w st = Some st' \<and> sent_from st0 st'"
proof -
  obtain t where "w = Some (out, t)" using ColoredWrite_some[OF assms(3), of cf out m] assms(2) by auto
  then show ?thesis using sent_from_event[OF assms(1), of "ToOutput out t"]
    by (simp add: output_event_def no_sink_event_def)
qed

lemma sent_from_Stdout:
  "sent_from st0 st \<Longrightarrow> sev < 4 \<Longrightarrow>
   \<exists>st'. output_event (ColoredWriteToStdout cf sev m) st = Some st' \<and> sent_from st0 st'"
  unfolding ColoredWriteToStdout_def Let_def by (rule sent_from_output[OF _ refl])

lemma sent_from_Stderr:
  "sent_from st0 st \<Longrightarrow> sev < 4 \<Longrightarrow>
   \<exists>st'. output_event (ColoredWriteToStderr cf sev m) st = Some st' \<and> sent_from st0 st'"
  unfolding ColoredWriteToStderr_def by (rule sent_from_output[OF _ refl])

lemma no_sink_event_LoggerWrite: "no_sink_event (LoggerWrite i l f ts m)" "no_sink_event (ToOutput out t)"
  by (simp_all add: no_sink_event_def)

text \<open>The messages that go to the loggers when the log files are in use, and what only goes to the streams.\<close>

definition file_writes :: "LogState \<Rightarrow> nat \<Rightarrow> int \<Rightarrow> string \<Rightarrow> Event list" where
  "file_writes st sev ts m =
     map (\<lambda>i. LoggerWrite i (logger_at st i) (FLAGS_logbuflevel (flags st) < int i) ts m) (rev [0..<Suc sev])"

definition to_files :: "LogState \<Rightarrow> bool" where
  "to_files st = (IsGoogleLoggingInitialized (utils (globals st)) \<and> \<not> FLAGS_logtostderr (flags st) \<and>
     \<not> FLAGS_logtostdout (flags st))"

definition is_output :: "Event \<Rightarrow> bool" where
  "is_output e = (case e of ToOutput _ _ \<Rightarrow> True | _ \<Rightarrow> False)"

lemma output_event_only: "output_event w st = Some st' \<Longrightarrow> \<exists>es. events st' = events st @ es \<and> list_all is_output es"
  by (auto simp: output_event_def is_output_def split: option.splits)

lemma MaybeLogToStderr_only:
  "MaybeLogToStderr sev m st = Some st' \<Longrightarrow> \<exists>es. events st' = events st @ es \<and> list_all is_output es"
  by (auto simp: MaybeLogToStderr_def dest: output_event_only split: if_splits)

lemma MaybeLogToEmail_only: "\<exists>es. events (MaybeLogToEmail env sev st) = events st @ es \<and> list_all is_output es"
  by (simp add: MaybeLogToEmail_def SendEmailInternal_def is_output_def)

lemma sent_from_logfiles:
  assumes "sent_from st0 st" and "sev < 4"
  shows "\<exists>st'. LogToAllLogfiles env sev ts m st = Some st' \<and> sent_from st0 st' \<and>
    (\<not> FLAGS_logtostdout (flags st) \<and> \<not> FLAGS_logtostderr (flags st) \<longrightarrow> events st' = events st @ file_writes st sev ts m)"
proof -
  consider "FLAGS_logtostdout (flags st)" | "\<not> FLAGS_logtostdout (flags st)" "FLAGS_logtostderr (flags st)"
    | "\<not> FLAGS_logtostdout (flags st)" "\<not> FLAGS_logtostderr (flags st)" by blast
  then show ?thesis
  proof cases
    case 1
    then show ?thesis using sent_from_Stdout[OF assms] by (simp add: LogToAllLogfiles_def)
  next
    case 2
    then show ?thesis using sent_from_Stderr[OF assms] by (simp add: LogToAllLogfiles_def)
  next
    case 3
    have "logging_from st st" using assms(1) by (simp add: logging_from_def sent_from_def)
    from files.logfiles_down_good[of sev st st env ts m, OF _ this] assms(2)
    obtain st' where st': "logfiles_down (MaybeLogToLogfile env ts m) sev st = Some st'" "logging_from st st'"
      "events st' = events st @ map (\<lambda>i. LoggerWrite i (logger_at st i) (FLAGS_logbuflevel (flags st) < int i) ts m)
         (rev [0..<Suc sev])" by (auto simp: NUM_SEVERITIES_def)
    have "sent_from st0 st'"
      using assms(1) st'(2,3) by (auto simp: sent_from_def logging_from_def list_all_iff no_sink_event_LoggerWrite)
    then show ?thesis using 3 st' by (simp add: LogToAllLogfiles_def file_writes_def)
  qed
qed

lemma sent_from_MaybeLogToStderr:
  "sent_from st0 st \<Longrightarrow> sev < 4 \<Longrightarrow> \<exists>st'. MaybeLogToStderr sev m st = Some st' \<and> sent_from st0 st'"
  using sent_from_Stderr by (auto simp: MaybeLogToStderr_def)

lemma sent_from_MaybeLogToEmail: "sent_from st0 st \<Longrightarrow> sent_from st0 (MaybeLogToEmail env sev st)"
proof -
  assume "sent_from st0 st"
  then have "sent_from st0 (st\<lparr>globals := (globals st)\<lparr>cached_hostname := h\<rparr>\<rparr>)" for h
    unfolding sent_from_def log_ok_def consistent_get_file by auto
  then show ?thesis using \<open>sent_from st0 st\<close>
    by (simp add: MaybeLogToEmail_def SendEmailInternal_def sent_from_event no_sink_event_LoggerWrite)
qed

text \<open>The first part of the sending: everything but the sinks and what a fatal message does.\<close>

definition send_front :: "MsgEnv \<Rightarrow> LogMessageData \<Rightarrow> LogState \<Rightarrow> (string \<times> LogState) option" where
  "send_front env d st =
     (let inited = IsGoogleLoggingInitialized (utils (globals st));
          st1 = (if \<not> already_warned st \<and> \<not> inited
            then (WriteToStderr before_init_warning st)\<lparr>already_warned := True\<rparr> else st);
          fl = flags st1; sev = msg_severity d
      in do { b \<leftarrow> message_body d;
              st2 \<leftarrow> (if FLAGS_logtostderr fl \<or> FLAGS_logtostdout fl \<or> \<not> inited then
                  output_event (if FLAGS_logtostdout fl then ColoredWriteToStdout (color_flags fl) sev (logged_text d)
                    else ColoredWriteToStderr (color_flags fl) sev (logged_text d)) st1
                else
                  do { sta \<leftarrow> LogToAllLogfiles env sev (timestamp (logmsgtime d)) (logged_text d) st1;
                       stb \<leftarrow> MaybeLogToStderr sev (logged_text d) sta;
                       Some (MaybeLogToEmail env sev stb) });
              Some (b, st2) })"

lemma send_to_log_front:
  "send_to_log env d st = do { (b, st2) \<leftarrow> send_front env d st;
     let st3 = LogToSinks (msg_severity d) (fullname d) (msg_basename d) (msg_line d) b st2
     in if msg_severity d = 3 \<and> exit_on_dfatal st3 then fatal_part env d st3 else Some st3 }"
  unfolding send_to_log_def send_front_def Let_def by (simp only: bind_assoc bind.bind_lunit prod.case)


lemma send_front_start:
  assumes "log_ok st" and "msg_severity d < 4" and "message_body d = Some b"
  shows "\<exists>st2. sent_from st st2 \<and>
    (to_files st \<longrightarrow> (\<exists>es. events st2 = events st @ file_writes st (msg_severity d) (timestamp (logmsgtime d)) (logged_text d) @ es \<and>
       list_all is_output es)) \<and>
    send_front env d st = Some (b, st2)"
proof -
  let ?sev = "msg_severity d"
  let ?inited = "IsGoogleLoggingInitialized (utils (globals st))"
  let ?st1 = "if \<not> already_warned st \<and> \<not> ?inited
    then (WriteToStderr before_init_warning st)\<lparr>already_warned := True\<rparr> else st"
  have "sent_from st ((WriteToStderr before_init_warning st)\<lparr>already_warned := True\<rparr>)"
    using assms(1) sent_from_event[OF sent_from_refl, of st "ToOutput Stderr before_init_warning"]
    by (simp add: WriteToStderr_def sent_from_def log_ok_def consistent_get_file no_sink_event_LoggerWrite)
  then have s1: "sent_from st ?st1" using sent_from_refl[OF assms(1)] by simp
  obtain sta where a: "LogToAllLogfiles env ?sev (timestamp (logmsgtime d)) (logged_text d) ?st1 = Some sta" "sent_from st sta"
    "\<not> FLAGS_logtostdout (flags ?st1) \<and> \<not> FLAGS_logtostderr (flags ?st1) \<longrightarrow>
       events sta = events ?st1 @ file_writes ?st1 ?sev (timestamp (logmsgtime d)) (logged_text d)"
    using sent_from_logfiles[OF s1 assms(2)] by blast
  obtain stb where b: "MaybeLogToStderr ?sev (logged_text d) sta = Some stb" "sent_from st stb"
    using sent_from_MaybeLogToStderr[OF a(2) assms(2)] by blast
  obtain stc where c: "output_event (ColoredWriteToStdout (color_flags (flags ?st1)) ?sev (logged_text d)) ?st1 = Some stc" "sent_from st stc"
    using sent_from_Stdout[OF s1 assms(2)] by blast
  obtain ste where e: "output_event (ColoredWriteToStderr (color_flags (flags ?st1)) ?sev (logged_text d)) ?st1 = Some ste" "sent_from st ste"
    using sent_from_Stderr[OF s1 assms(2)] by blast
  let ?st2 = "if FLAGS_logtostdout (flags ?st1) then stc
    else if FLAGS_logtostderr (flags ?st1) \<or> \<not> ?inited then ste else MaybeLogToEmail env ?sev stb"
  have s2: "sent_from st ?st2" using b(2) c(2) e(2) sent_from_MaybeLogToEmail by simp
  have eq: "send_front env d st = Some (b, ?st2)"
    unfolding send_front_def Let_def assms(3) using a(1) b(1) c(1) e(1)
    by (cases "FLAGS_logtostdout (flags ?st1)"; cases "FLAGS_logtostderr (flags ?st1) \<or> \<not> ?inited")
      (simp_all only: bind.bind_lunit if_True if_False simp_thms)
  have "\<exists>es. events ?st2 = events st @ file_writes st ?sev (timestamp (logmsgtime d)) (logged_text d) @ es \<and> list_all is_output es"
    if "to_files st"
  proof -
    have "?st1 = st" "?st2 = MaybeLogToEmail env ?sev stb" using that by (auto simp: to_files_def)
    then show ?thesis
      using a(3) that MaybeLogToStderr_only[OF b(1)] MaybeLogToEmail_only[of env ?sev stb]
      by (auto simp: to_files_def)
  qed
  with s2 eq show ?thesis by blast
qed

lemma send_to_log_start:
  assumes "log_ok st" and "msg_severity d < 4" and "message_body d = Some b"
  shows "\<exists>st2. sent_from st st2 \<and>
    (to_files st \<longrightarrow> (\<exists>es. events st2 = events st @ file_writes st (msg_severity d) (timestamp (logmsgtime d)) (logged_text d) @ es \<and>
       list_all is_output es)) \<and>
    send_to_log env d st =
    (let st3 = LogToSinks (msg_severity d) (fullname d) (msg_basename d) (msg_line d) b st2
     in if msg_severity d = 3 \<and> exit_on_dfatal st3 then fatal_part env d st3 else Some st3)"
  using send_front_start[OF assms, of env] by (auto simp: send_to_log_front)

text \<open>The sending of a message that is not fatal: everything else first, then the sinks, last to first.\<close>

lemma send_to_log_ok:
  assumes "log_ok st" and "msg_severity d < 4" and "\<not> (msg_severity d = 3 \<and> exit_on_dfatal st)" and "message_body d = Some b"
  shows "\<exists>st' es. send_to_log env d st = Some st' \<and> log_ok st' \<and> log_mutex st' = log_mutex st \<and> sinks st' = sinks st \<and>
    flags st' = flags st \<and> list_all no_sink_event es \<and>
    (to_files st \<longrightarrow> (\<exists>es2. es = file_writes st (msg_severity d) (timestamp (logmsgtime d)) (logged_text d) @ es2 \<and>
       list_all is_output es2)) \<and>
    events st' = events st @ es @ map (\<lambda>k. SinkSend k (msg_severity d) (fullname d) (msg_basename d) (msg_line d) b)
      (rev (sink_list st))"
proof -
  let ?sev = "msg_severity d"
  obtain st2 where s2: "sent_from st st2" and w: "to_files st \<longrightarrow>
      (\<exists>es. events st2 = events st @ file_writes st ?sev (timestamp (logmsgtime d)) (logged_text d) @ es \<and>
         list_all is_output es)"
    and eq: "send_to_log env d st =
     (let st3 = LogToSinks ?sev (fullname d) (msg_basename d) (msg_line d) b st2
      in if ?sev = 3 \<and> exit_on_dfatal st3 then fatal_part env d st3 else Some st3)"
    using send_to_log_start[OF assms(1,2,4)] by blast
  have "sink_list st2 = sink_list st" "exit_on_dfatal st2 = exit_on_dfatal st"
    using s2 unfolding sent_from_def sink_list_def by simp_all
  moreover obtain es where "events st2 = events st @ es" "list_all no_sink_event es"
    using s2 unfolding sent_from_def by blast
  ultimately show ?thesis
    using s2 w assms(3) by (intro exI[of _ "LogToSinks ?sev (fullname d) (msg_basename d) (msg_line d) b st2"] exI[of _ es])
      (auto simp: eq LogToSinks_eq Let_def sent_from_def)
qed

subsection \<open>Flushing\<close>

lemma release_fields [simp]:
  "log_ok (release d st) = log_ok st" "log_mutex (release d st) = log_mutex st" "events (release d st) = events st"
  "fatal_message (release d st) = fatal_message st"
  by (simp_all add: release_def log_ok_def consistent_get_file split: Storage.split)

lemma log_ok_fields [simp]:
  "log_ok (st\<lparr>log_mutex := b\<rparr>) = log_ok st" "log_ok (st\<lparr>num_messages := n\<rparr>) = log_ok st"
  "log_ok (st\<lparr>errno := e\<rparr>) = log_ok st"
  by (simp_all add: log_ok_def consistent_get_file)

lemma to_files_fields [simp]:
  "to_files (st\<lparr>log_mutex := b\<rparr>) = to_files st" "file_writes (st\<lparr>log_mutex := b\<rparr>) = file_writes st"
  by (simp_all add: to_files_def file_writes_def logger_at_def fun_eq_iff)

lemma sink_list_fields [simp]:
  "sink_list (st\<lparr>log_mutex := b\<rparr>) = sink_list st" "sink_list (st\<lparr>num_messages := n\<rparr>) = sink_list st"
  by (simp_all add: sink_list_def)

lemma restore_text_same:
  assumes "data_ok d"
  shows "msg_text (restore_text env d (finish_text env d)) = msg_text d"
    and "pcount (restore_text env d (finish_text env d)) = pcount d"
proof -
  have "take (pcount d) (xs[pcount d := x, Suc (pcount d) := y]) = take (pcount d) xs" for xs x y
    by simp
  then show "msg_text (restore_text env d (finish_text env d)) = msg_text d"
    by (simp add: msg_text_def restore_text_def finish_text_def Let_def)
  show "pcount (restore_text env d (finish_text env d)) = pcount d"
    by (simp add: restore_text_def finish_text_def Let_def)
qed

lemma Flush_sends:
  assumes "log_ok st" and "\<not> log_mutex st" and "msg_severity d < 4"
    and "\<not> (msg_severity d = 3 \<and> exit_on_dfatal st)" and "\<not> has_been_flushed d"
    and "FLAGS_minloglevel (flags st) \<le> int (msg_severity d)" and "sendable env d" and "send_method d = SendToLog"
  shows "\<exists>d' st' es. Flush env d st = Some (d', st') \<and> log_ok st' \<and> \<not> log_mutex st' \<and> flags st' = flags st \<and>
    sinks st' = sinks st \<and> msg_text d' = msg_text d \<and> has_been_flushed d' \<and> list_all no_sink_event es \<and>
    (to_files st \<longrightarrow> (\<exists>es2. es = file_writes st (msg_severity d) (timestamp (logmsgtime d)) (with_newline env d) @ es2 \<and>
       list_all is_output es2)) \<and>
    events st' = events st @ es @
      map (\<lambda>k. SinkSend k (msg_severity d) (fullname d) (msg_basename d) (msg_line d) (sent_body env d)) (rev (sink_list st)) @
      map SinkWait (rev (sink_list st))"
proof -
  let ?d1 = "finish_text env d"
  have own: "own_sink d = None" using assms(8) by (simp add: own_sink_def split: Target.split)
  have pre: "log_ok (st\<lparr>log_mutex := True\<rparr>)" "msg_severity ?d1 < 4"
    "\<not> (msg_severity ?d1 = 3 \<and> exit_on_dfatal (st\<lparr>log_mutex := True\<rparr>))" "message_body ?d1 = Some (sent_body env d)"
    using assms finish_text_body[OF assms(7)] by simp_all
  obtain st1 es where s1: "send_to_log env ?d1 (st\<lparr>log_mutex := True\<rparr>) = Some st1" "log_ok st1" "log_mutex st1"
    "sinks st1 = sinks st" "flags st1 = flags st" "list_all no_sink_event es"
    "(to_files st \<longrightarrow> (\<exists>es2. es = file_writes st (msg_severity d) (timestamp (logmsgtime d)) (with_newline env d) @ es2 \<and>
       list_all is_output es2))"
    "events st1 = events st @ es @
      map (\<lambda>k. SinkSend k (msg_severity d) (fullname d) (msg_basename d) (msg_line d) (sent_body env d)) (rev (sink_list st))"
    using send_to_log_ok[OF pre, of env] finish_text_logged(1)[of d env] assms(7) by (auto simp: sendable_def)
  let ?st2 = "(st1\<lparr>num_messages := (num_messages st1)(msg_severity d := num_messages st1 (msg_severity d) + 1)\<rparr>)\<lparr>log_mutex := False\<rparr>"
  let ?st3 = "WaitForSinks None ?st2"
  let ?st4 = "if preserved_errno d \<noteq> 0 then ?st3\<lparr>errno := preserved_errno d\<rparr> else ?st3"
  let ?d' = "(restore_text env d ?d1)\<lparr>has_been_flushed := True\<rparr>"
  have eq: "Flush env d st = Some (?d', ?st4)"
    using assms(2,5,6,8) s1(1,3) by (simp add: Flush_def send_def Let_def own unlock_log_mutex_def)
  have "sink_list st1 = sink_list st" using s1(4) by (simp add: sink_list_def)
  moreover have "msg_text ?d' = msg_text d"
    using restore_text_same(1) assms(7) by (simp add: sendable_def msg_text_def)
  ultimately show ?thesis using s1 by (intro exI[of _ ?d'] exI[of _ ?st4] exI[of _ es])
    (simp add: eq WaitForSinks_eq)
qed

definition strip_newline :: "string \<Rightarrow> string" where
  "strip_newline s = (if s \<noteq> [] \<and> last s = CHR 0x0A then butlast s else s)"

definition add_newline :: "string \<Rightarrow> string" where
  "add_newline s = (if s \<noteq> [] \<and> last s = CHR 0x0A then s else s @ [CHR 0x0A])"

text \<open>A message that a constructor has made and that was written to, with the standard prefix.\<close>

lemma made_message:
  assumes "Init env buf fname line sev how st = (d0, st1)" and "\<not> uses_shared sev st"
    and "length buf = kMaxLogMessageLen + 1"
    and "FLAGS_log_backtrace_at (flags st) = []" and "custom_prefix_callback st = None"
    and "FLAGS_log_prefix (flags st)" and "line \<noteq> - 1"
    and "length (standard_prefix env st fname line sev) \<le> kMaxLogMessageLen - 2"
    and "d = stream_put msg d0"
  shows "sendable env d" and "data_ok d"
    and "sent_body env d = strip_newline (take (kMaxLogMessageLen - 2 - length (standard_prefix env st fname line sev)) msg)"
    and "with_newline env d = add_newline (take (kMaxLogMessageLen - 2) (standard_prefix env st fname line sev @ msg))"
    and "msg_severity d = sev \<and> send_method d = how \<and> \<not> has_been_flushed d \<and> fullname d = fname \<and>
      msg_basename d = const_basename fname \<and> msg_line d = line \<and> logmsgtime d = message_time env st"
    and "st1 = st\<lparr>thread_data_available := thread_data_available st1, fatal_msg_exclusive := fatal_msg_exclusive st1\<rparr>"
proof -
  let ?p = "standard_prefix env st fname line sev"
  let ?t = "take (kMaxLogMessageLen - 2 - length ?p) msg"
  have sh: "uses_shared sev st \<longrightarrow> shared_ok st" using assms(2) by simp
  note ok = Init_ok(1)[OF assms(3,1,4) sh]
  then have d0: "data_ok d0" by simp
  have t0: "msg_text d0 = ?p" using Init_ok(2)[OF assms(3,1,4) sh assms(5-7)] assms(2,8) by simp
  have len0: "pcount d0 = length ?p" using length_msg_text[OF d0] t0 by simp
  show d: "data_ok d" using stream_put_text[OF d0, of msg] assms(9) by simp
  have t1: "msg_text d = ?p @ ?t" using stream_put_text[OF d0, of msg] t0 len0 assms(9) by simp
  have pc: "pcount d = length (?p @ ?t)" using length_msg_text[OF d] t1 by simp
  have pfx: "num_prefix_chars d = length ?p" using ok len0 assms(9) by simp
  have ends: "ends_in_newline env d \<longleftrightarrow> ?t \<noteq> [] \<and> last ?t = CHR 0x0A"
    using ends_in_newline_iff[OF d] last_standard_prefix[of env st fname line sev] pc t1
    by (cases "?t = []") auto
  show "sendable env d" using d ends pc pfx by (auto simp: sendable_def)
  show "sent_body env d = strip_newline ?t"
    using ends t1 pfx by (auto simp: sent_body_def with_newline_def strip_newline_def butlast_append)
  show "with_newline env d = add_newline (take (kMaxLogMessageLen - 2) (?p @ msg))"
    using t1 ends_in_newline_iff[OF d, of env] pc assms(8) last_standard_prefix[of env st fname line sev]
    by (simp add: with_newline_def add_newline_def)
  show "msg_severity d = sev \<and> send_method d = how \<and> \<not> has_been_flushed d \<and> fullname d = fname \<and>
      msg_basename d = const_basename fname \<and> msg_line d = line \<and> logmsgtime d = message_time env st"
    "st1 = st\<lparr>thread_data_available := thread_data_available st1, fatal_msg_exclusive := fatal_msg_exclusive st1\<rparr>"
    using ok assms(9) by simp_all
qed

text \<open>What the allocation of a message leaves alone.\<close>

lemma allocation_fields:
  assumes "st1 = st\<lparr>thread_data_available := a, fatal_msg_exclusive := b\<rparr>"
  shows "log_ok st1 = log_ok st" "sink_list st1 = sink_list st" "log_mutex st1 = log_mutex st" "flags st1 = flags st"
    "exit_on_dfatal st1 = exit_on_dfatal st" "events st1 = events st" "to_files st1 = to_files st"
    "file_writes st1 = file_writes st" "log_destinations st1 = log_destinations st" "globals st1 = globals st"
  by (simp_all add: assms log_ok_def consistent_get_file sink_list_def to_files_def file_writes_def logger_at_def fun_eq_iff)

lemma log_message_sinks:
  assumes "log_ok st" and "\<not> log_mutex st" and "sev < 4" and "\<not> (sev = 3 \<and> exit_on_dfatal st)"
    and "FLAGS_minloglevel (flags st) \<le> int sev" and "length buf = kMaxLogMessageLen + 1"
    and "FLAGS_log_backtrace_at (flags st) = []" and "custom_prefix_callback st = None"
    and "FLAGS_log_prefix (flags st)" and "line \<noteq> - 1"
    and "length (standard_prefix env st fname line sev) \<le> kMaxLogMessageLen - 2"
  shows "\<exists>d st' es. log_message env msg (LogMessage_severity env buf fname line sev st) = Some (d, st') \<and> log_ok st' \<and>
    \<not> log_mutex st' \<and> list_all no_sink_event es \<and> has_been_flushed d \<and>
    events st' = events st @ es @
      map (\<lambda>k. SinkSend k sev fname (const_basename fname) line
        (strip_newline (take (kMaxLogMessageLen - 2 - length (standard_prefix env st fname line sev)) msg)))
        (rev (sink_list st)) @
      map SinkWait (rev (sink_list st)) \<and>
    (to_files st \<longrightarrow> (\<exists>es2. es = file_writes st sev (timestamp (message_time env st))
       (add_newline (take (kMaxLogMessageLen - 2) (standard_prefix env st fname line sev @ msg))) @ es2 \<and>
       list_all is_output es2))"
proof -
  let ?p = "standard_prefix env st fname line sev"
  obtain d0 st1 where init: "Init env buf fname line sev SendToLog st = (d0, st1)" by (metis surj_pair)
  let ?d = "stream_put msg d0"
  have "\<not> uses_shared sev st" using assms(4) by (auto simp: uses_shared_def)
  note made = made_message[OF init this assms(6-11) refl]
  note keep = allocation_fields[OF made(6)]
  have pre: "log_ok st1" "\<not> log_mutex st1" "msg_severity ?d < 4" "\<not> (msg_severity ?d = 3 \<and> exit_on_dfatal st1)"
    "\<not> has_been_flushed ?d" "FLAGS_minloglevel (flags st1) \<le> int (msg_severity ?d)" "send_method ?d = SendToLog"
    using keep assms(1-5) made(5) by auto
  obtain d' st' es where "Flush env ?d st1 = Some (d', st')" "log_ok st'" "\<not> log_mutex st'" "has_been_flushed d'"
    "list_all no_sink_event es" "events st' = events st @ es @
      map (\<lambda>k. SinkSend k sev fname (const_basename fname) line
        (strip_newline (take (kMaxLogMessageLen - 2 - length ?p) msg))) (rev (sink_list st)) @
      map SinkWait (rev (sink_list st))"
    "to_files st \<longrightarrow> (\<exists>es2. es = file_writes st sev (timestamp (message_time env st))
       (add_newline (take (kMaxLogMessageLen - 2) (?p @ msg))) @ es2 \<and> list_all is_output es2)"
    using Flush_sends[OF pre(1-6) made(1) pre(7)] keep made(3-5) by auto
  then show ?thesis
    by (intro exI[of _ d'] exI[of _ "release d' st'"] exI[of _ es])
      (simp add: log_message_def LogMessage_severity_def init LogMessage_end_def)
qed

text \<open>C2. A message that is not fatal and not below the minimum level is logged without failing, and
  reaches every registered sink exactly once, from the last registered to the first, as the
  user's text without the prefix and without its final newline, cut to what fits the buffer
  behind the prefix; all of them are sent to before any is waited for, each is waited for once,
  everything else happens before, and afterwards the logging mutex is free again.\<close>

theorem message_reaches_sinks:
  assumes "log_ok st" and "\<not> log_mutex st" and "sev < 4" and "\<not> (sev = 3 \<and> exit_on_dfatal st)"
    and "FLAGS_minloglevel (flags st) \<le> int sev" and "length buf = kMaxLogMessageLen + 1"
    and "FLAGS_log_backtrace_at (flags st) = []" and "custom_prefix_callback st = None"
    and "FLAGS_log_prefix (flags st)" and "line \<noteq> - 1"
    and "length (standard_prefix env st fname line sev) \<le> kMaxLogMessageLen - 2"
  shows "\<exists>d st' es. log_message env msg (LogMessage_severity env buf fname line sev st) = Some (d, st') \<and> log_ok st' \<and>
    \<not> log_mutex st' \<and> list_all no_sink_event es \<and> has_been_flushed d \<and>
    events st' = events st @ es @
      map (\<lambda>k. SinkSend k sev fname (const_basename fname) line
        (strip_newline (take (kMaxLogMessageLen - 2 - length (standard_prefix env st fname line sev)) msg)))
        (rev (sink_list st)) @
      map SinkWait (rev (sink_list st))"
  using log_message_sinks[OF assms, of msg] by blast

definition demo_log :: LogState where
  "demo_log = AddLogSink 7 (AddLogSink 5 (log_start default_msg_flags 77))"

lemma demo_log_ok: "log_ok demo_log"
  using log_ok_start[of default_msg_flags 77]
  by (simp add: demo_log_def AddLogSink_def log_ok_def consistent_get_file)

lemma demo_log_fields:
  "\<not> log_mutex demo_log" "exit_on_dfatal demo_log" "sink_list demo_log = [5, 7]" "events demo_log = []"
  "flags demo_log = default_msg_flags" "custom_prefix_callback demo_log = None" "fatal_msg_exclusive demo_log"
  by (simp_all add: demo_log_def AddLogSink_def log_start_def sink_list_def)

lemma demo_prefix_length: "length (standard_prefix demo_msg_env demo_log ''a.cc'' 7 sev) \<le> 100" if "sev \<in> {0, 1, 3}"
proof -
  have "list_all (\<lambda>sev. length (standard_prefix demo_msg_env demo_log ''a.cc'' 7 sev) \<le> 100) [0, 1, 3]"
    unfolding standard_prefix_def message_time_def demo_log_fields by code_simp
  then show ?thesis using that by auto
qed

theorem message_reaches_sinks_witness:
  "\<exists>d st' es s1 s2.
     log_message demo_msg_env ''hi'' (LogMessage_severity demo_msg_env (replicate 30001 NUL) ''a.cc'' 7 1 demo_log) =
     Some (d, st') \<and> events st' = es @ [SinkSend 7 1 ''a.cc'' s1 7 s2, SinkSend 5 1 ''a.cc'' s1 7 s2, SinkWait 7, SinkWait 5]"
proof -
  have "FLAGS_minloglevel (flags demo_log) \<le> int 1" "FLAGS_log_backtrace_at (flags demo_log) = []"
    "FLAGS_log_prefix (flags demo_log)" "\<not> (1 = (3::nat) \<and> exit_on_dfatal demo_log)" "(7 :: int) \<noteq> - 1"
    "(1 :: nat) < 4" "length (replicate 30001 NUL) = kMaxLogMessageLen + 1"
    by (simp_all add: demo_log_fields default_msg_flags_def kMaxLogMessageLen_def)
  moreover have "length (standard_prefix demo_msg_env demo_log ''a.cc'' 7 1) \<le> kMaxLogMessageLen - 2"
    using demo_prefix_length[of 1] by (simp add: kMaxLogMessageLen_def)
  ultimately show ?thesis
    using message_reaches_sinks[OF demo_log_ok demo_log_fields(1), of 1 "replicate 30001 NUL" 7 demo_msg_env "''a.cc''" "''hi''"]
    by (fastforce simp: demo_log_fields)
qed

definition is_logger_write :: "Event \<Rightarrow> bool" where
  "is_logger_write e = (case e of LoggerWrite _ _ _ _ _ \<Rightarrow> True | _ \<Rightarrow> False)"

lemma not_logger_write:
  "list_all is_output es \<Longrightarrow> filter is_logger_write es = []"
  "filter is_logger_write (map (\<lambda>k. SinkSend k sev full base line m) ks) = []"
  "filter is_logger_write (map SinkWait ks) = []"
  by (auto simp: is_logger_write_def is_output_def list_all_iff filter_empty_conv split: Event.splits)

text \<open>C9. When the library is initialised and the log files are in use, a message that is not fatal is
  handed, before anything else, to the loggers of its severity and of all lower severities, each
  exactly once and in descending order: the prefix and the text of the user, cut to what fits the
  buffer, and with a newline at the end exactly when there was none.\<close>

theorem message_reaches_files:
  assumes "log_ok st" and "\<not> log_mutex st" and "sev < 4" and "\<not> (sev = 3 \<and> exit_on_dfatal st)"
    and "FLAGS_minloglevel (flags st) \<le> int sev" and "length buf = kMaxLogMessageLen + 1"
    and "FLAGS_log_backtrace_at (flags st) = []" and "custom_prefix_callback st = None"
    and "FLAGS_log_prefix (flags st)" and "line \<noteq> - 1"
    and "length (standard_prefix env st fname line sev) \<le> kMaxLogMessageLen - 2" and "to_files st"
  shows "\<exists>d st' es. log_message env msg (LogMessage_severity env buf fname line sev st) = Some (d, st') \<and>
    filter is_logger_write es = [] \<and>
    events st' = events st @
      map (\<lambda>i. LoggerWrite i (logger_at st i) (FLAGS_logbuflevel (flags st) < int i) (timestamp (message_time env st))
        (add_newline (take (kMaxLogMessageLen - 2) (standard_prefix env st fname line sev @ msg))))
        (rev [0..<Suc sev]) @ es"
  using log_message_sinks[OF assms(1-11), of msg] assms(12) not_logger_write
  by (fastforce simp: file_writes_def)

definition demo_init :: LogState where
  "demo_init = (case InitGoogleLogging ''/bin/prog'' demo_log of Some st \<Rightarrow> st | None \<Rightarrow> demo_log)"

lemma demo_init_eq:
  "\<exists>u. demo_init = demo_log\<lparr>globals := (globals demo_log)\<lparr>utils := u\<rparr>\<rparr> \<and> IsGoogleLoggingInitialized u"
proof -
  have "\<not> IsGoogleLoggingInitialized (utils (globals demo_log))" "after_last_slash ''/bin/prog'' = ''prog''"
    by (simp_all add: demo_log_def AddLogSink_def log_start_def ustart_def IsGoogleLoggingInitialized_def)
      (code_simp)
  then show ?thesis
    by (simp add: demo_init_def InitGoogleLogging_def InitGoogleLoggingUtilities_def Let_def
        InstallFailureFunction_def IsGoogleLoggingInitialized_def)
      (rule exI, rule conjI, rule refl, simp)
qed

lemma demo_init_fields:
  "log_ok demo_init" "\<not> log_mutex demo_init" "to_files demo_init" "flags demo_init = default_msg_flags"
  "custom_prefix_callback demo_init = None" "events demo_init = []" "logger_at demo_init = (\<lambda>i. OwnFile)"
proof -
  obtain u where u: "demo_init = demo_log\<lparr>globals := (globals demo_log)\<lparr>utils := u\<rparr>\<rparr>" "IsGoogleLoggingInitialized u"
    using demo_init_eq by blast
  show "log_ok demo_init" using demo_log_ok by (simp add: u(1) log_ok_def consistent_get_file)
  show "\<not> log_mutex demo_init" "flags demo_init = default_msg_flags" "custom_prefix_callback demo_init = None"
    "events demo_init = []" by (simp_all add: u(1) demo_log_fields)
  show "to_files demo_init" by (simp add: u to_files_def demo_log_fields default_msg_flags_def)
  show "logger_at demo_init = (\<lambda>i. OwnFile)"
    by (simp add: u(1) logger_at_def fun_eq_iff demo_log_def AddLogSink_def log_start_def)
qed

theorem message_reaches_files_witness:
  "\<exists>d st' es ts m.
     log_message demo_msg_env ''hi'' (LogMessage_severity demo_msg_env (replicate 30001 NUL) ''a.cc'' 7 1 demo_init) =
     Some (d, st') \<and> events st' = LoggerWrite 1 OwnFile True ts m # LoggerWrite 0 OwnFile False ts m # es"
proof -
  have pre: "(1 :: nat) < 4" "\<not> (1 = (3::nat) \<and> exit_on_dfatal demo_init)" "FLAGS_minloglevel (flags demo_init) \<le> int 1"
    "length (replicate 30001 NUL) = kMaxLogMessageLen + 1" "FLAGS_log_backtrace_at (flags demo_init) = []"
    "FLAGS_log_prefix (flags demo_init)" "(7 :: int) \<noteq> - 1"
    by (simp_all add: demo_init_fields default_msg_flags_def kMaxLogMessageLen_def)
  have same: "standard_prefix demo_msg_env demo_init = standard_prefix demo_msg_env demo_log"
    by (simp add: standard_prefix_def message_time_def fun_eq_iff demo_init_fields demo_log_fields)
  have len: "length (standard_prefix demo_msg_env demo_init ''a.cc'' 7 1) \<le> kMaxLogMessageLen - 2"
    using demo_prefix_length[of 1] by (simp add: same kMaxLogMessageLen_def)
  show ?thesis
    using message_reaches_files[OF demo_init_fields(1,2) pre(1-5) demo_init_fields(5) pre(6,7) len demo_init_fields(3), of "''hi''"]
    by (force simp: demo_init_fields default_msg_flags_def)
qed

text \<open>A message is sent at most once: after it was flushed it holds the same text as before, without
  the newline that was added for sending, and flushing it again does nothing, in any state; a
  message below the minimum level is not sent at all.\<close>

theorem Flush_once:
  assumes "data_ok d" and "Flush env d st = Some (d', st')"
  shows "msg_text d' = msg_text d \<and> pcount d' = pcount d \<and>
    (has_been_flushed d' \<longrightarrow> Flush env2 d' st2 = Some (d', st2)) \<and>
    (int (msg_severity d) < FLAGS_minloglevel (flags st) \<longrightarrow> d' = d \<and> st' = st)"
proof (cases "has_been_flushed d \<or> int (msg_severity d) < FLAGS_minloglevel (flags st)")
  case True
  then show ?thesis using assms(2) by (auto simp: Flush_def)
next
  case False
  then obtain st1 where "d' = (restore_text env d (finish_text env d))\<lparr>has_been_flushed := True\<rparr>"
    using assms(2) by (auto simp: Flush_def Let_def bind_eq_Some_conv split: if_splits)
  then show ?thesis using restore_text_same[OF assms(1)] False
    by (simp add: Flush_def msg_text_def)
qed

definition demo_data :: LogMessageData where
  "demo_data = \<lparr>storage = HeapData, preserved_errno = 0, message_text = replicate 30001 NUL, pcount = 0, msg_severity = 0, msg_line = 7,
     send_method = SendToSink, target = NoTarget, num_prefix_chars = 0, num_chars_to_log = 0,
     num_chars_to_syslog = 0, msg_basename = ''a.cc'', fullname = ''a.cc'', has_been_flushed = False,
     first_fatal = False, logmsgtime = message_time demo_msg_env demo_log, msg_ctr = 0\<rparr>"

theorem Flush_once_witness:
  "\<exists>d' st'. Flush demo_msg_env (stream_put ''hi'' demo_data) demo_log = Some (d', st') \<and>
     Flush demo_msg_env d' demo_log = Some (d', demo_log)"
proof -
  have ok: "data_ok (stream_put ''hi'' demo_data)"
    by (rule stream_put_text(2)) (simp add: data_ok_def demo_data_def kMaxLogMessageLen_def)
  have "\<exists>st'. Flush demo_msg_env (stream_put ''hi'' demo_data) demo_log =
    Some ((restore_text demo_msg_env (stream_put ''hi'' demo_data) (finish_text demo_msg_env (stream_put ''hi'' demo_data)))
      \<lparr>has_been_flushed := True\<rparr>, st')"
    using demo_log_fields by (simp add: Flush_def send_def send_to_sink_def Let_def demo_data_def default_msg_flags_def)
  then obtain st' where f: "Flush demo_msg_env (stream_put ''hi'' demo_data) demo_log =
    Some ((restore_text demo_msg_env (stream_put ''hi'' demo_data) (finish_text demo_msg_env (stream_put ''hi'' demo_data)))
      \<lparr>has_been_flushed := True\<rparr>, st')" by blast
  from Flush_once[OF ok f, of demo_msg_env demo_log] f show ?thesis by auto
qed

end
