(* ===== verification/Log_Fatal.thy ===== *)
theory Log_Fatal
  imports Log_Message_Spec
begin

section \<open>Logging: fatal messages and the data of messages\<close>

text \<open>
  What a fatal message does to the library when the program goes on afterwards (the failure functions
  of this library throw), and where the data of messages is kept.
\<close>

subsection \<open>Fatal messages\<close>

lemma write_all_ok:
  "log_ok st \<Longrightarrow> \<exists>st' es. write_all env n i st = Some st' \<and> log_ok st' \<and> log_mutex st' = log_mutex st \<and>
     fatal_message st' = fatal_message st \<and> flags st' = flags st \<and> sinks st' = sinks st \<and> events st' = events st @ es"
proof (induction n arbitrary: i st)
  case (Suc n)
  show ?case
  proof (cases "log_destinations st i")
    case None
    then show ?thesis using Suc by simp
  next
    case (Some d)
    obtain st1 es where st1: "logger_write env True 0 [] i d st = Some st1" "log_ok st1" "log_mutex st1 = log_mutex st"
      "fatal_message st1 = fatal_message st" "flags st1 = flags st" "sinks st1 = sinks st" "events st1 = events st @ es"
      using logger_write_ok[OF Suc.prems Some, of env True 0 "[]"] by blast
    then show ?thesis using Suc.IH[OF st1(2), of "Suc i"] Some by auto
  qed
qed simp

lemma WaitForSinks_fields [simp]:
  "log_mutex (WaitForSinks own st) = log_mutex st" "fatal_message (WaitForSinks own st) = fatal_message st"
  "log_ok (WaitForSinks own st) = log_ok st"
  by (simp_all add: WaitForSinks_eq)

lemma fatal_part_ok:
  assumes "log_ok st" and "log_mutex st"
  shows "\<exists>st' es. fatal_part env d st = Some st' \<and> \<not> log_mutex st' \<and> log_ok st' \<and> events st' = events st @ es \<and>
    (first_fatal d \<longrightarrow> fatal_message st' = c_str (take (min (num_chars_to_log d) 255) (message_text d)))"
proof -
  let ?st1 = "if first_fatal d then
      st\<lparr>globals := (globals st)\<lparr>utils := SetCrashReason (RecordCrashReason env d) (utils (globals st))\<rparr>,
         fatal_message := c_str (take (min (num_chars_to_log d) 255) (message_text d)),
         fatal_time := timestamp (logmsgtime d)\<rparr>
    else st"
  have ok1: "log_ok ?st1" using assms(1) by (simp add: log_ok_def consistent_get_file)
  obtain st2 es where "(if \<not> FLAGS_logtostderr (flags ?st1) \<and> \<not> FLAGS_logtostdout (flags ?st1)
      then write_all env NUM_SEVERITIES 0 ?st1 else Some ?st1) = Some st2" "log_ok st2"
    "log_mutex st2 = log_mutex ?st1" "fatal_message st2 = fatal_message ?st1" "events st2 = events ?st1 @ es"
    using write_all_ok[OF ok1, of env NUM_SEVERITIES 0] ok1
    by (cases "\<not> FLAGS_logtostderr (flags ?st1) \<and> \<not> FLAGS_logtostdout (flags ?st1)") auto
  then show ?thesis
    using assms(2) unfolding fatal_part_def Let_def
    by (auto simp: unlock_log_mutex_def WaitForSinks_eq split: option.split)
qed

lemma restore_text_fields [simp]:
  "storage (restore_text env d e) = storage e" "length (message_text (restore_text env d e)) = length (message_text e)"
  "length (message_text (finish_text env d)) = length (message_text d)"
  by (simp_all add: restore_text_def finish_text_def Let_def)

text \<open>Flushing a fatal message.\<close>

lemma Flush_fatal:
  assumes "log_ok st" and "\<not> log_mutex st" and "exit_on_dfatal st" and "FLAGS_minloglevel (flags st) \<le> 3"
    and "msg_severity d = 3" and "send_method d = SendToLog" and "\<not> has_been_flushed d" and "sendable env d"
  shows "\<exists>d' st' es. Flush env d st = Some (d', st') \<and> log_ok st' \<and> \<not> log_mutex st' \<and>
    events st' = events st @ es \<and> UnlockedTwice \<in> set es \<and>
    (to_files st \<longrightarrow> set (file_writes st 3 (timestamp (logmsgtime d)) (with_newline env d)) \<subseteq> set es) \<and>
    (first_fatal d \<longrightarrow> fatal_message st' = c_str (take 255 (with_newline env d))) \<and>
    msg_text d' = msg_text d \<and> pcount d' = pcount d \<and> storage d' = storage d \<and> has_been_flushed d' \<and>
    length (message_text d') = length (message_text d)"
proof -
  let ?d1 = "finish_text env d" and ?stl = "st\<lparr>log_mutex := True\<rparr>"
  have d: "data_ok d" using assms(8) by (simp add: sendable_def)
  have own: "own_sink d = None" using assms(6) by (simp add: own_sink_def split: Target.split)
  obtain st2 es where st2: "sent_from ?stl st2" "events st2 = events st @ es"
      "to_files st \<longrightarrow> set (file_writes st 3 (timestamp (logmsgtime d)) (with_newline env d)) \<subseteq> set es"
      "send_to_log env ?d1 ?stl =
        (let st3 = LogToSinks 3 (fullname d) (msg_basename d) (msg_line d) (sent_body env d) st2
         in if exit_on_dfatal st3 then fatal_part env ?d1 st3 else Some st3)"
    using send_to_log_start[of ?stl ?d1 "sent_body env d" env] finish_text_body[OF assms(8)] assms(1,5)
      finish_text_logged(1)[OF d, of env]
    by (fastforce simp: sent_from_def)
  let ?st3 = "LogToSinks 3 (fullname d) (msg_basename d) (msg_line d) (sent_body env d) st2"
  have st3: "log_ok ?st3" "log_mutex ?st3" "exit_on_dfatal ?st3"
    using st2(1) assms(3) by (simp_all add: LogToSinks_eq sent_from_def)
  obtain st4 es4 where st4: "fatal_part env ?d1 ?st3 = Some st4" "\<not> log_mutex st4" "log_ok st4"
    "events st4 = events ?st3 @ es4"
    "first_fatal ?d1 \<longrightarrow> fatal_message st4 = c_str (take (min (num_chars_to_log ?d1) 255) (message_text ?d1))"
    using fatal_part_ok[OF st3(1,2), of env ?d1] by blast
  have kept: "first_fatal d \<longrightarrow> fatal_message st4 = c_str (take 255 (with_newline env d))"
    unfolding finish_text_logged(1)[OF d, symmetric] using st4(5) by (simp add: logged_text_def min.commute)
  have "send_to_log env ?d1 ?stl = Some st4" using st2(4) st3(3) st4(1) by (simp add: Let_def)
  then have flush: "Flush env d st = Some ((restore_text env d ?d1)\<lparr>has_been_flushed := True\<rparr>,
      let st5 = WaitForSinks None (event UnlockedTwice
        (st4\<lparr>num_messages := (num_messages st4)(3 := num_messages st4 3 + 1)\<rparr>))
      in if preserved_errno d \<noteq> 0 then st5\<lparr>errno := preserved_errno d\<rparr> else st5)"
    using assms(2,4-7) st4(2) by (simp add: Flush_def send_def Let_def own unlock_log_mutex_def)
  show ?thesis
    unfolding flush using st2(2,3) st4 kept restore_text_same[OF d, of env]
    by (auto simp: Let_def WaitForSinks_eq LogToSinks_eq msg_text_def event_def)
qed

text \<open>C35. The first fatal message is logged without failing, and its first 255 characters, with the
  prefix and the newline, are kept for the later report; but the logging mutex is unlocked twice:
  once when the message is sent, so that signal handlers can log, and once more at the end of
  \<open>Flush\<close>, when this thread does not hold it any more.\<close>

theorem fatal_unlocks_twice:
  assumes "log_ok st" and "\<not> log_mutex st" and "exit_on_dfatal st" and "fatal_msg_exclusive st"
    and "FLAGS_minloglevel (flags st) \<le> 3" and "length buf = kMaxLogMessageLen + 1"
    and "FLAGS_log_backtrace_at (flags st) = []" and "LogMessage_severity env buf fname line 3 st = (d0, st0)"
    and "d = stream_put msg d0" and "sendable env d"
  shows "\<exists>d' st'. log_message env msg (LogMessage_severity env buf fname line 3 st) = Some (d', st') \<and>
    UnlockedTwice \<in> set (events st') \<and> fatal_message st' = c_str (take 255 (with_newline env d))"
proof -
  have "uses_shared 3 st \<longrightarrow> shared_ok st" using assms(4) by (simp add: uses_shared_def)
  note ok = Init_ok(1)[OF assms(6) assms(8)[unfolded LogMessage_severity_def] assms(7) this]
  have same: "st0 = st\<lparr>thread_data_available := thread_data_available st0, fatal_msg_exclusive := fatal_msg_exclusive st0\<rparr>"
    using ok by simp
  have "log_ok st0 = log_ok st" "log_mutex st0 = log_mutex st" "flags st0 = flags st" "exit_on_dfatal st0 = exit_on_dfatal st"
    by (subst same, simp add: log_ok_def consistent_get_file)+
  then have pre: "log_ok st0" "\<not> log_mutex st0" "exit_on_dfatal st0" "FLAGS_minloglevel (flags st0) \<le> 3"
    "msg_severity d = 3" "send_method d = SendToLog" "\<not> has_been_flushed d" "first_fatal d"
    using assms ok by simp_all
  obtain d' st' es where "Flush env d st0 = Some (d', st')" "UnlockedTwice \<in> set es" "events st' = events st0 @ es"
    "fatal_message st' = c_str (take 255 (with_newline env d))"
    using Flush_fatal[OF pre(1-7) assms(10)] pre(8) by blast
  then show ?thesis using assms(9) by (simp add: log_message_def assms(8) LogMessage_end_def)
qed

theorem fatal_unlocks_twice_witness:
  "\<exists>d' st'. log_message demo_msg_env ''hi'' (LogMessage_severity demo_msg_env (replicate 30001 NUL) ''a.cc'' 7 3 demo_log) = Some (d', st') \<and>
     UnlockedTwice \<in> set (events st')"
proof -
  obtain d0 st0 where init: "LogMessage_severity demo_msg_env (replicate 30001 NUL) ''a.cc'' 7 3 demo_log = (d0, st0)"
    by (metis surj_pair)
  have pre: "FLAGS_minloglevel (flags demo_log) \<le> 3" "length (replicate 30001 NUL) = kMaxLogMessageLen + 1"
    "FLAGS_log_backtrace_at (flags demo_log) = []"
    by (simp_all add: demo_log_fields default_msg_flags_def kMaxLogMessageLen_def)
  have sh: "uses_shared 3 demo_log \<longrightarrow> shared_ok demo_log" by (simp add: uses_shared_def demo_log_fields)
  note ok = Init_ok[OF pre(2) init[unfolded LogMessage_severity_def] pre(3) sh]
  have d0: "data_ok d0" "num_prefix_chars d0 = pcount d0" using ok(1) by simp_all
  have prefix: "msg_text d0 = standard_prefix demo_msg_env demo_log ''a.cc'' 7 3"
    using ok(2) demo_prefix_length[of 3]
    by (simp add: uses_shared_def demo_log_fields default_msg_flags_def kMaxLogMessageLen_def)
  then have small: "pcount d0 \<le> 100" using length_msg_text[OF d0(1)] demo_prefix_length[of 3] by simp
  let ?d = "stream_put ''hi'' d0"
  have d: "data_ok ?d" "msg_text ?d = msg_text d0 @ ''hi''"
    using stream_put_text[OF d0(1), of "''hi''"] small by (simp_all add: kMaxLogMessageLen_def)
  then have "pcount ?d = pcount d0 + 2" using length_msg_text[OF d(1)] length_msg_text[OF d0(1)] by simp
  then have "sendable demo_msg_env ?d" using d d0(2) ends_in_newline_iff[OF d(1)] by (simp add: sendable_def)
  from fatal_unlocks_twice[OF demo_log_ok demo_log_fields(1,2,7) pre init refl this] show ?thesis by blast
qed

subsection \<open>Later fatal messages\<close>

text \<open>
  The data of the second and all later fatal messages is one static object whose stream is never
  emptied. The second fatal message starts with an empty text, since the first one used data of its own; from the
  third one on the text of the fatal message before is still there: the log files get both texts, with both
  prefixes, on one line, and the next fatal message will get all of this again. These states lie behind the double
  unlock of the first fatal message, so they are those of a build without threads and assertions.
\<close>

theorem later_fatals_accumulate:
  assumes "log_ok st" and "\<not> log_mutex st" and "exit_on_dfatal st" and "\<not> fatal_msg_exclusive st" and "shared_ok st"
    and "FLAGS_minloglevel (flags st) \<le> 3" and "length buf = kMaxLogMessageLen + 1"
    and "FLAGS_log_backtrace_at (flags st) = []" and "custom_prefix_callback st = None"
    and "FLAGS_log_prefix (flags st)" and "line \<noteq> - 1" and "to_files st"
    and "text' = shared_text st @ standard_prefix env st fname line 3 @ msg"
    and "length text' \<le> kMaxLogMessageLen - 2"
  shows "\<exists>d st'. log_message env msg (LogMessage_severity env buf fname line 3 st) = Some (d, st') \<and>
    shared_text st' = text' \<and> shared_ok st' \<and> log_ok st' \<and> \<not> log_mutex st' \<and>
    (\<forall>i\<le>3. LoggerWrite i (logger_at st i) (FLAGS_logbuflevel (flags st) < int i) (timestamp (message_time env st))
       (add_newline text') \<in> set (events st'))"
proof -
  let ?p = "standard_prefix env st fname line 3"
  have sh: "uses_shared 3 st" "uses_shared 3 st \<longrightarrow> shared_ok st"
    using assms(3-5) by (simp_all add: uses_shared_def)
  obtain d0 st0 where init: "LogMessage_severity env buf fname line 3 st = (d0, st0)" by (metis surj_pair)
  note ok = Init_ok[OF assms(7) init[unfolded LogMessage_severity_def] assms(8) sh(2)]
  have d0: "data_ok d0" "num_prefix_chars d0 = pcount d0" "storage d0 = SharedData" using ok(1) sh(1) by simp_all
  have t0: "msg_text d0 = shared_text st @ ?p" using ok(2)[OF assms(9-11)] sh(1) assms(13,14) by simp
  have len0: "pcount d0 = length (shared_text st @ ?p)" using length_msg_text[OF d0(1)] t0 by simp
  let ?d = "stream_put msg d0"
  have d: "data_ok ?d" "msg_text ?d = text'"
    using stream_put_text[OF d0(1), of msg] t0 len0 assms(13,14) by simp_all
  have pc: "pcount ?d = length text'" using length_msg_text[OF d(1)] d(2) by simp
  have last: "?p \<noteq> []" "last ?p = CHR '' ''" using last_standard_prefix[of env st fname line 3] by auto
  have ends: "ends_in_newline env ?d \<longleftrightarrow> last text' = CHR 0x0A"
    using ends_in_newline_iff[OF d(1), of env] pc d(2) last(1) assms(13) by simp
  have sendable: "sendable env ?d"
    using d(1) ends pc len0 d0(2) last assms(13) by (cases "msg = []") (auto simp: sendable_def)
  have written: "with_newline env ?d = add_newline text'"
    using ends d(2) last(1) assms(13) by (simp add: with_newline_def add_newline_def)
  have same: "st0 = st\<lparr>thread_data_available := thread_data_available st0, fatal_msg_exclusive := fatal_msg_exclusive st0\<rparr>"
    using ok(1) by simp
  have keep: "log_ok st0 = log_ok st" "log_mutex st0 = log_mutex st" "flags st0 = flags st"
    "exit_on_dfatal st0 = exit_on_dfatal st" "to_files st0 = to_files st" "file_writes st0 = file_writes st"
    by (subst same, simp add: log_ok_def consistent_get_file to_files_def file_writes_def logger_at_def fun_eq_iff)+
  have pre: "log_ok st0" "\<not> log_mutex st0" "exit_on_dfatal st0" "FLAGS_minloglevel (flags st0) \<le> 3"
    "msg_severity ?d = 3" "send_method ?d = SendToLog" "\<not> has_been_flushed ?d"
    using assms(1-6) keep ok(1) by simp_all
  obtain d' st' es where f: "Flush env ?d st0 = Some (d', st')" "log_ok st'" "\<not> log_mutex st'" "events st' = events st0 @ es"
    "set (file_writes st 3 (timestamp (message_time env st)) (add_newline text')) \<subseteq> set es"
    "msg_text d' = text'" "pcount d' = pcount ?d" "storage d' = SharedData"
    "length (message_text d') = length (message_text ?d)"
    using Flush_fatal[OF pre sendable] keep assms(12) ok(1) written d(2) d0(3) by auto
  have "shared_text (release d' st') = text'" "shared_ok (release d' st')"
    using f(6-9) d(1) by (simp_all add: release_def shared_text_def shared_ok_def msg_text_def data_ok_def)
  moreover have "\<forall>i\<le>3. LoggerWrite i (logger_at st i) (FLAGS_logbuflevel (flags st) < int i)
      (timestamp (message_time env st)) (add_newline text') \<in> set (events st')"
    using f(4,5) by (auto simp: file_writes_def image_subset_iff)
  moreover have "log_message env msg (LogMessage_severity env buf fname line 3 st) = Some (d', release d' st')"
    using f(1) by (simp add: log_message_def init LogMessage_end_def)
  ultimately show ?thesis using f(2,3) by auto
qed

definition demo_fatal :: LogState where
  "demo_fatal = demo_init\<lparr>fatal_msg_exclusive := False, exit_on_dfatal := True, shared_data := (''one'' @ replicate 29998 NUL, 3, 0)\<rparr>"

theorem later_fatals_accumulate_witness:
  "\<exists>d st' p. log_message demo_msg_env ''two'' (LogMessage_severity demo_msg_env (replicate 30001 NUL) ''a.cc'' 7 3 demo_fatal) =
     Some (d, st') \<and> shared_text st' = ''one'' @ p @ ''two''"
proof -
  have f: "log_ok demo_fatal" "\<not> log_mutex demo_fatal" "exit_on_dfatal demo_fatal" "\<not> fatal_msg_exclusive demo_fatal"
    "shared_ok demo_fatal" "FLAGS_minloglevel (flags demo_fatal) \<le> 3" "length (replicate 30001 NUL) = kMaxLogMessageLen + 1"
    "FLAGS_log_backtrace_at (flags demo_fatal) = []" "custom_prefix_callback demo_fatal = None"
    "FLAGS_log_prefix (flags demo_fatal)" "(7 :: int) \<noteq> - 1" "to_files demo_fatal" "flags demo_fatal = default_msg_flags"
    "shared_text demo_fatal = ''one''"
    using demo_init_fields
    by (simp_all add: demo_fatal_def log_ok_def consistent_get_file to_files_def default_msg_flags_def
        kMaxLogMessageLen_def shared_ok_def shared_text_def)
  have same: "standard_prefix demo_msg_env demo_fatal = standard_prefix demo_msg_env demo_log"
    by (simp add: standard_prefix_def message_time_def fun_eq_iff f demo_log_fields)
  have "length (shared_text demo_fatal @ standard_prefix demo_msg_env demo_fatal ''a.cc'' 7 3 @ ''two'') \<le> kMaxLogMessageLen - 2"
    using demo_prefix_length[of 3] by (simp add: same kMaxLogMessageLen_def f)
  from later_fatals_accumulate[OF f(1-12) refl this] show ?thesis by (auto simp: f)
qed

subsection \<open>The failure function of the library\<close>

text \<open>
  \<^verbatim>\<open>__internal_logging_fail\<close>, when the signals it raises are handled or ignored: it throws at its
  first call, and writes to an invalid address at every later one. The number of attempts before is
  a static variable.
\<close>

datatype FailStep = DebugBreak | RaiseTrap | RaiseAbort | FailLine string | ThrowException | InvalidWrite

definition internal_logging_fail_steps :: "bool \<Rightarrow> int \<Rightarrow> FailStep list \<times> int" where
  "internal_logging_fail_steps IsDebuggerPresent attempts =
     ((if IsDebuggerPresent then [DebugBreak] else []) @
      [RaiseTrap, FailLine ''Abort on Fatal Failure (logging_fail)...'', RaiseAbort] @
      (if attempts = 0 then [FailLine ''Throwing C++ exception (abort)'', ThrowException]
       else [FailLine ''Triggering SEH exception (abort)'', InvalidWrite]),
      attempts + 1)"

lemma second_failure_crashes:
  "last (fst (internal_logging_fail_steps dbg 0)) = ThrowException \<and>
   last (fst (internal_logging_fail_steps dbg (snd (internal_logging_fail_steps dbg 0)))) = InvalidWrite"
  by (simp add: internal_logging_fail_steps_def)

end
