(* ===== verification/Log_Macros.thy ===== *)
theory Log_Macros
  imports Log_Fatal
begin

section \<open>Logging: the macros\<close>

text \<open>
  The macros of \<^verbatim>\<open>src/glog/logging.h.in\<close> that decide whether a message is made: \<^verbatim>\<open>LOG_IF\<close>,
  \<^verbatim>\<open>LOG_EVERY_N\<close>, \<^verbatim>\<open>LOG_IF_EVERY_N\<close>, \<^verbatim>\<open>LOG_FIRST_N\<close>, \<^verbatim>\<open>LOG_EVERY_T\<close> and the checks. Each use of a macro
  has static variables of its own, the \<open>Site\<close>; the counters are atomic unsigned words. The limit is
  compared with them as an unsigned word.
\<close>

subsection \<open>Counting\<close>

record Site =
  LOG_OCCURRENCES :: "32 word"
  LOG_OCCURRENCES_MOD_N :: "32 word"

definition Site_new :: Site where
  "Site_new = \<lparr>LOG_OCCURRENCES = 0, LOG_OCCURRENCES_MOD_N = 0\<rparr>"

text \<open>The decision, and the variables behind it.\<close>

definition every_n :: "32 word \<Rightarrow> Site \<Rightarrow> bool \<times> Site" where
  "every_n n s =
     (let s1 = s\<lparr>LOG_OCCURRENCES := LOG_OCCURRENCES s + 1\<rparr>;
          s2 = s1\<lparr>LOG_OCCURRENCES_MOD_N := LOG_OCCURRENCES_MOD_N s1 + 1\<rparr>;
          s3 = (if n < LOG_OCCURRENCES_MOD_N s2
            then s2\<lparr>LOG_OCCURRENCES_MOD_N := LOG_OCCURRENCES_MOD_N s2 - n\<rparr> else s2)
      in (LOG_OCCURRENCES_MOD_N s3 = 1, s3))"

text \<open>With a condition; \<open>None\<close> is the division by zero.\<close>

definition if_every_n :: "bool \<Rightarrow> 32 word \<Rightarrow> Site \<Rightarrow> (bool \<times> Site) option" where
  "if_every_n condition n s =
     (let s1 = s\<lparr>LOG_OCCURRENCES := LOG_OCCURRENCES s + 1\<rparr>
      in if \<not> condition then Some (False, s1)
         else if n = 0 then None
         else let s2 = s1\<lparr>LOG_OCCURRENCES_MOD_N := (LOG_OCCURRENCES_MOD_N s1 + 1) mod n\<rparr>
              in Some (LOG_OCCURRENCES_MOD_N s2 = 1 mod n, s2))"

definition first_n :: "32 word \<Rightarrow> Site \<Rightarrow> bool \<times> Site" where
  "first_n n s =
     (let s1 = (if LOG_OCCURRENCES s \<le> n then s\<lparr>LOG_OCCURRENCES := LOG_OCCURRENCES s + 1\<rparr> else s)
      in (LOG_OCCURRENCES s1 \<le> n, s1))"

text \<open>The period and the times in nanoseconds; the static variable starts as zero.\<close>

definition every_t :: "int \<Rightarrow> int \<Rightarrow> int \<Rightarrow> bool \<times> int" where
  "every_t LOG_TIME_PERIOD LOG_CURRENT_TIME LOG_PREVIOUS_TIME =
     (let LOG_TIME_DELTA = LOG_CURRENT_TIME - LOG_PREVIOUS_TIME
      in (LOG_TIME_PERIOD < LOG_TIME_DELTA,
          if LOG_TIME_PERIOD < LOG_TIME_DELTA then LOG_CURRENT_TIME else LOG_PREVIOUS_TIME))"

subsection \<open>The messages of the macros\<close>

definition LOG_IF :: "MsgEnv \<Rightarrow> string \<Rightarrow> string \<Rightarrow> int \<Rightarrow> nat \<Rightarrow> bool \<Rightarrow> string \<Rightarrow> LogState \<Rightarrow> LogState option" where
  "LOG_IF env buf fname line sev condition msg st =
     (if \<not> condition then Some st
      else map_option snd (log_message env msg (LogMessage_severity env buf fname line sev st)))"

text \<open>\<open>what_to_do\<close> is \<open>SendToLog\<close> or \<open>SendToSyslogAndLog\<close>.\<close>

definition LOG_EVERY_N :: "MsgEnv \<Rightarrow> string \<Rightarrow> string \<Rightarrow> int \<Rightarrow> nat \<Rightarrow> 32 word \<Rightarrow> SendMethod \<Rightarrow> string \<Rightarrow>
    Site \<times> LogState \<Rightarrow> (Site \<times> LogState) option" where
  "LOG_EVERY_N env buf fname line sev n what_to_do msg = (\<lambda>(s, st).
     let (go, s1) = every_n n s
     in if go then map_option (\<lambda>(d, st1). (s1, st1))
            (log_message env msg (LogMessage_method env buf fname line sev (unat (LOG_OCCURRENCES s1)) what_to_do st))
        else Some (s1, st))"

definition LOG_IF_EVERY_N :: "MsgEnv \<Rightarrow> string \<Rightarrow> string \<Rightarrow> int \<Rightarrow> nat \<Rightarrow> bool \<Rightarrow> 32 word \<Rightarrow> SendMethod \<Rightarrow> string \<Rightarrow>
    Site \<times> LogState \<Rightarrow> (Site \<times> LogState) option" where
  "LOG_IF_EVERY_N env buf fname line sev condition n what_to_do msg = (\<lambda>(s, st).
     do { (go, s1) \<leftarrow> if_every_n condition n s;
          if go then map_option (\<lambda>(d, st1). (s1, st1))
            (log_message env msg (LogMessage_method env buf fname line sev (unat (LOG_OCCURRENCES s1)) what_to_do st))
          else Some (s1, st) })"

definition LOG_FIRST_N :: "MsgEnv \<Rightarrow> string \<Rightarrow> string \<Rightarrow> int \<Rightarrow> nat \<Rightarrow> 32 word \<Rightarrow> SendMethod \<Rightarrow> string \<Rightarrow>
    Site \<times> LogState \<Rightarrow> (Site \<times> LogState) option" where
  "LOG_FIRST_N env buf fname line sev n what_to_do msg = (\<lambda>(s, st).
     let (go, s1) = first_n n s
     in if go then map_option (\<lambda>(d, st1). (s1, st1))
            (log_message env msg (LogMessage_method env buf fname line sev (unat (LOG_OCCURRENCES s1)) what_to_do st))
        else Some (s1, st))"

text \<open>
  The end of a message by its class: the body of each destructor with the failure functions called so far, then
  the one of the base class. \<^verbatim>\<open>~ErrnoLogMessage\<close> adds the error to the text, \<^verbatim>\<open>~LogMessageFatal\<close> flushes and calls
  \<^verbatim>\<open>Fail\<close>, \<^verbatim>\<open>~LogMessage\<close> flushes and gives the data back.
\<close>

datatype MessageClass = PlainMessage | ErrnoMessage | FatalMessage

definition base_destructor :: "MsgEnv \<Rightarrow> LogMessageData \<times> LogState \<times> fail_func list \<Rightarrow>
    (LogMessageData \<times> LogState \<times> fail_func list) option" where
  "base_destructor env = (\<lambda>(d, st, fails). map_option (\<lambda>(d, st). (d, st, fails)) (LogMessage_end env d st))"

definition destructor :: "MsgEnv \<Rightarrow> (int \<Rightarrow> string) \<Rightarrow> MessageClass \<Rightarrow> LogMessageData \<times> LogState \<times> fail_func list \<Rightarrow>
    (LogMessageData \<times> LogState \<times> fail_func list) option" where
  "destructor env StrErr cls = (\<lambda>(d, st, fails).
     case cls of
       PlainMessage \<Rightarrow> base_destructor env (d, st, fails)
     | ErrnoMessage \<Rightarrow> base_destructor env (ErrnoLogMessage_end StrErr d, st, fails)
     | FatalMessage \<Rightarrow> do { (d1, st1) \<leftarrow> Flush env d st;
         base_destructor env (d1, st1, fails @ LogMessage_Fail (utils (globals st1))) })"

text \<open>A message of a class that is written to and ends: the state, and the failure functions that are called.\<close>

definition finish_message :: "MsgEnv \<Rightarrow> (int \<Rightarrow> string) \<Rightarrow> MessageClass \<Rightarrow> string \<Rightarrow> LogMessageData \<times> LogState \<Rightarrow>
    (LogState \<times> fail_func list) option" where
  "finish_message env StrErr cls msg = (\<lambda>(d, st).
     map_option (\<lambda>(d, st1, fails). (st1, fails)) (destructor env StrErr cls (stream_put msg d, st, [])))"

definition PLOG :: "MsgEnv \<Rightarrow> (int \<Rightarrow> string) \<Rightarrow> string \<Rightarrow> string \<Rightarrow> int \<Rightarrow> nat \<Rightarrow> nat \<Rightarrow> string \<Rightarrow> LogState \<Rightarrow>
    (LogState \<times> fail_func list) option" where
  "PLOG env StrErr buf fname line sev ctr msg st =
     finish_message env StrErr ErrnoMessage msg (LogMessage_method env buf fname line sev ctr SendToLog st)"

definition PLOG_EVERY_N :: "MsgEnv \<Rightarrow> (int \<Rightarrow> string) \<Rightarrow> string \<Rightarrow> string \<Rightarrow> int \<Rightarrow> nat \<Rightarrow> 32 word \<Rightarrow> string \<Rightarrow>
    Site \<times> LogState \<Rightarrow> (Site \<times> LogState) option" where
  "PLOG_EVERY_N env StrErr buf fname line sev n msg = (\<lambda>(s, st).
     let (go, s1) = every_n n s
     in if go then map_option (\<lambda>(st1, fails). (s1, st1))
            (PLOG env StrErr buf fname line sev (unat (LOG_OCCURRENCES s1)) msg st)
        else Some (s1, st))"

subsection \<open>Checks\<close>

text \<open>
  The result of a check is the state and the failure functions that are called. \<^verbatim>\<open>CHECK\<close> and the comparisons make a
  \<open>LogMessageFatal\<close>; \<^verbatim>\<open>PCHECK\<close> and \<^verbatim>\<open>CHECK_ERR\<close> make an \<open>ErrnoLogMessage\<close> of severity \<open>FATAL\<close>. The text of the error
  plays no part in a \<open>LogMessageFatal\<close>.
\<close>

definition CHECK_OP :: "MsgEnv \<Rightarrow> string \<Rightarrow> string \<Rightarrow> int \<Rightarrow> string \<Rightarrow> bool \<Rightarrow> string \<Rightarrow> string \<Rightarrow> string \<Rightarrow> LogState \<Rightarrow>
    (LogState \<times> fail_func list) option" where
  "CHECK_OP env buf fname line exprtext holds v1 v2 msg st =
     (if holds then Some (st, [])
      else finish_message env (\<lambda>e. []) FatalMessage msg
        (LogMessage_check env buf fname line (MakeCheckOpString exprtext v1 v2) st))"

definition CHECK :: "MsgEnv \<Rightarrow> string \<Rightarrow> string \<Rightarrow> int \<Rightarrow> string \<Rightarrow> bool \<Rightarrow> string \<Rightarrow> LogState \<Rightarrow>
    (LogState \<times> fail_func list) option" where
  "CHECK env buf fname line cond_text condition msg st =
     (if condition then Some (st, [])
      else finish_message env (\<lambda>e. []) FatalMessage (''Check failed: '' @ cond_text @ '' '' @ msg)
        (LogMessage_severity env buf fname line 3 st))"

definition PCHECK :: "MsgEnv \<Rightarrow> (int \<Rightarrow> string) \<Rightarrow> string \<Rightarrow> string \<Rightarrow> int \<Rightarrow> string \<Rightarrow> bool \<Rightarrow> string \<Rightarrow> LogState \<Rightarrow>
    (LogState \<times> fail_func list) option" where
  "PCHECK env StrErr buf fname line cond_text condition msg st =
     (if condition then Some (st, [])
      else PLOG env StrErr buf fname line 3 0 (''Check failed: '' @ cond_text @ '' '' @ msg) st)"

definition CHECK_ERR :: "MsgEnv \<Rightarrow> (int \<Rightarrow> string) \<Rightarrow> string \<Rightarrow> string \<Rightarrow> int \<Rightarrow> string \<Rightarrow> int \<Rightarrow> string \<Rightarrow> LogState \<Rightarrow>
    (LogState \<times> fail_func list) option" where
  "CHECK_ERR env StrErr buf fname line invocation_text invocation msg st =
     (if invocation \<noteq> - 1 then Some (st, []) else PLOG env StrErr buf fname line 3 0 (invocation_text @ msg) st)"

text \<open>The end of a \<open>LogMessageFatal\<close> is the one of \<open>Log_Message\<close>.\<close>

lemma finish_fatal:
  "finish_message env StrErr FatalMessage msg (d, st) =
     map_option (\<lambda>(d, st2, fails). (st2, fails)) (LogMessageFatal_end env (stream_put msg d) st)"
proof (cases "Flush env (stream_put msg d) st")
  case (Some r)
  then show ?thesis
    by (cases r; cases "LogMessage_end env (fst r) (snd r)")
      (auto simp: finish_message_def destructor_def base_destructor_def LogMessageFatal_end_def)
qed (simp add: finish_message_def destructor_def LogMessageFatal_end_def)

subsection \<open>When the counting macros log\<close>

text \<open>The decisions of \<open>k\<close> calls one after the other, each with the value of \<^verbatim>\<open>COUNTER\<close>.\<close>

fun calls :: "(Site \<Rightarrow> bool \<times> Site) \<Rightarrow> nat \<Rightarrow> Site \<Rightarrow> (bool \<times> 32 word) list" where
  "calls f 0 s = []"
| "calls f (Suc k) s = (let (go, s1) = f s in (go, LOG_OCCURRENCES s1) # calls f k s1)"

lemma unat_below: "unat (w :: 32 word) < 2 ^ 32"
  using unsigned_less[of w] by simp

lemma unat_plus_1: "unat w < 2 ^ 32 - 1 \<Longrightarrow> unat (w + 1 :: 32 word) = unat w + 1"
  by (subst unat_add_lem[THEN iffD1]) simp_all

text \<open>The small counter before the call with number \<open>i\<close>.\<close>

definition mod_counter :: "nat \<Rightarrow> nat \<Rightarrow> nat" where
  "mod_counter n i = (if i = 0 then 0 else (i - 1) mod n + 1)"

lemma mod_counter_next:
  "0 < n \<Longrightarrow> (if n < mod_counter n i + 1 then mod_counter n i + 1 - n else mod_counter n i + 1) = mod_counter n (Suc i)"
  "0 < n \<Longrightarrow> mod_counter n i \<le> n" "0 < n \<Longrightarrow> mod_counter n (Suc i) = 1 \<longleftrightarrow> i mod n = 0"
proof -
  assume n: "0 < n"
  define m where "m = (i - 1) mod n"
  have less: "m < n" using n by (simp add: m_def)
  have counter: "mod_counter n i = (if i = 0 then 0 else m + 1)" by (simp add: mod_counter_def m_def)
  show "mod_counter n i \<le> n" using less by (simp add: counter)
  have "i mod n = (if Suc m = n then 0 else Suc m)" if "i \<noteq> 0"
    using mod_Suc[of "i - 1" n] that by (simp add: m_def)
  then show "(if n < mod_counter n i + 1 then mod_counter n i + 1 - n else mod_counter n i + 1) = mod_counter n (Suc i)"
    using less n unfolding counter by (auto simp: mod_counter_def)
  show "mod_counter n (Suc i) = 1 \<longleftrightarrow> i mod n = 0" by (simp add: mod_counter_def)
qed

lemma unat_1_iff: "(w :: 32 word) = 1 \<longleftrightarrow> unat w = 1"
  by (simp add: word_unat_eq_iff)

lemma every_n_step:
  assumes "0 < unat n" and "unat n < 2 ^ 32 - 1" and "unat (LOG_OCCURRENCES_MOD_N s) = mod_counter (unat n) i"
  shows "every_n n s = (i mod unat n = 0, snd (every_n n s))"
    and "unat (LOG_OCCURRENCES_MOD_N (snd (every_n n s))) = mod_counter (unat n) (Suc i)"
    and "LOG_OCCURRENCES (snd (every_n n s)) = LOG_OCCURRENCES s + 1"
proof -
  let ?m = "LOG_OCCURRENCES_MOD_N s + 1"
  have m: "unat ?m = mod_counter (unat n) i + 1"
    using unat_plus_1[of "LOG_OCCURRENCES_MOD_N s"] mod_counter_next(2)[OF assms(1), of i] assms by simp
  let ?s = "if n < ?m then ?m - n else ?m"
  have s: "unat ?s = mod_counter (unat n) (Suc i)"
    using m unat_sub_if'[of ?m n] unfolding mod_counter_next(1)[OF assms(1), symmetric]
    by (auto simp: word_less_nat_alt)
  have one: "?s = 1 \<longleftrightarrow> i mod unat n = 0"
    unfolding unat_1_iff s by (rule mod_counter_next(3)[OF assms(1)])
  show "every_n n s = (i mod unat n = 0, snd (every_n n s))"
    using one by (auto simp: every_n_def Let_def prod_eq_iff)
  show "unat (LOG_OCCURRENCES_MOD_N (snd (every_n n s))) = mod_counter (unat n) (Suc i)"
    using s by (auto simp: every_n_def Let_def)
  show "LOG_OCCURRENCES (snd (every_n n s)) = LOG_OCCURRENCES s + 1"
    by (simp add: every_n_def Let_def)
qed

lemma calls_every_n:
  assumes "0 < unat n" and "unat n < 2 ^ 32 - 1"
  shows "unat (LOG_OCCURRENCES_MOD_N s) = mod_counter (unat n) i \<Longrightarrow> LOG_OCCURRENCES s = of_nat i \<Longrightarrow>
    calls (every_n n) k s = map (\<lambda>j. (j mod unat n = 0, of_nat (Suc j))) [i..<i + k]"
proof (induction k arbitrary: s i)
  case (Suc k)
  note step = every_n_step[OF assms Suc.prems(1)]
  have "calls (every_n n) (Suc k) s =
      (i mod unat n = 0, LOG_OCCURRENCES s + 1) # calls (every_n n) k (snd (every_n n s))"
    using step(1,3) by (simp add: case_prod_unfold) (metis fst_conv)
  moreover have "calls (every_n n) k (snd (every_n n s)) =
      map (\<lambda>j. (j mod unat n = 0, of_nat (Suc j))) [Suc i..<Suc i + k]"
    by (rule Suc.IH[OF step(2)]) (simp add: step(3) Suc.prems(2) add.commute)
  ultimately show ?case using Suc.prems(2) by (simp add: upt_rec[of i] add.commute)
qed simp

text \<open>C33. Calls of \<^verbatim>\<open>LOG_EVERY_N\<close> log exactly at the first call and at every \<open>n\<close>th call after it, for any
  number of calls, also when the counter of calls has wrapped around, which \<^verbatim>\<open>COUNTER\<close> shows. (The
  limit is neither zero nor the largest unsigned number.)\<close>

theorem every_n_period:
  assumes "0 < n" and "n < - 1"
  shows "calls (every_n n) k Site_new = map (\<lambda>i. (i mod unat n = 0, of_nat (Suc i))) [0..<k]"
proof -
  have "unat n < unat (- 1 :: 32 word)" using assms(2) by (simp only: word_less_nat_alt)
  moreover have "unat (- 1 :: 32 word) = 2 ^ 32 - 1"
    by (simp add: unsigned_minus_1_eq_mask mask_eq_exp_minus_1)
  ultimately have "unat n < 2 ^ 32 - 1" by simp
  moreover have "0 < unat n" using assms(1) by (simp add: unat_gt_0)
  ultimately show ?thesis
    using calls_every_n[of n Site_new 0 k] by (simp add: Site_new_def mod_counter_def)
qed

theorem every_n_period_witness:
  "map fst (calls (every_n 3) 7 Site_new) = [True, False, False, True, False, False, True]"
  by (subst every_n_period) (simp_all add: upt_rec)

text \<open>A limit of zero logs the first call only, for the next four thousand million calls.\<close>

lemma every_0: "every_n 0 s = (LOG_OCCURRENCES_MOD_N s + 1 = 1,
    s\<lparr>LOG_OCCURRENCES := LOG_OCCURRENCES s + 1, LOG_OCCURRENCES_MOD_N := LOG_OCCURRENCES_MOD_N s + 1\<rparr>)"
  by (simp add: every_n_def Let_def)

text \<open>\<^verbatim>\<open>LOG_FIRST_N\<close> logs exactly the first \<open>n\<close> calls, and its counter stops behind them.\<close>

lemma calls_first_n:
  assumes "unat n < 2 ^ 32 - 1"
  shows "unat (LOG_OCCURRENCES s) = min i (unat n + 1) \<Longrightarrow>
    map fst (calls (first_n n) k s) = map (\<lambda>j. j < unat n) [i..<i + k]"
proof (induction k arbitrary: s i)
  case (Suc k)
  let ?s = "snd (first_n n s)"
  have after: "unat (LOG_OCCURRENCES ?s) = min (Suc i) (unat n + 1)"
    using Suc.prems assms unat_plus_1[of "LOG_OCCURRENCES s"]
    by (auto simp: first_n_def Let_def word_le_nat_alt)
  then have "fst (first_n n s) \<longleftrightarrow> i < unat n"
    by (auto simp: first_n_def Let_def word_le_nat_alt)
  then have "map fst (calls (first_n n) (Suc k) s) = (i < unat n) # map fst (calls (first_n n) k ?s)"
    by (simp add: case_prod_unfold Let_def)
  then show ?case using Suc.IH[OF after] by (simp add: upt_rec[of i])
qed simp

lemma first_n_calls:
  "unat n < 2 ^ 32 - 1 \<Longrightarrow> map fst (calls (first_n n) k Site_new) = map (\<lambda>i. i < unat n) [0..<k]"
  using calls_first_n[of n Site_new 0 k] by (simp add: Site_new_def)

text \<open>
  With a condition: \<open>j\<close> counts the calls at which the condition held. The calls that are logged are
  the first one of these and every \<open>n\<close>th after it.
\<close>

fun picks :: "nat \<Rightarrow> nat \<Rightarrow> bool list \<Rightarrow> bool list" where
  "picks n j [] = []"
| "picks n j (c # cs) = (c \<and> j mod n = 0) # picks n (if c then Suc j else j) cs"

fun if_calls :: "32 word \<Rightarrow> bool list \<Rightarrow> Site \<Rightarrow> bool list option" where
  "if_calls n [] s = Some []"
| "if_calls n (c # cs) s =
     do { (go, s1) \<leftarrow> if_every_n c n s; rest \<leftarrow> if_calls n cs s1; Some (go # rest) }"

lemma Suc_mod_1_iff: "0 < n \<Longrightarrow> Suc j mod n = 1 mod n \<longleftrightarrow> j mod n = 0"
  by (cases "n = 1") (auto simp: mod_Suc)

lemma if_calls_picks:
  assumes "0 < unat n"
  shows "unat (LOG_OCCURRENCES_MOD_N s) = j mod unat n \<Longrightarrow> if_calls n cs s = Some (picks (unat n) j cs)"
proof (induction cs arbitrary: s j)
  case (Cons c cs)
  have n0: "n \<noteq> 0" using assms by auto
  have "unat (LOG_OCCURRENCES_MOD_N s) < unat n" using assms Cons.prems by simp
  then have less: "unat (LOG_OCCURRENCES_MOD_N s) < 2 ^ 32 - 1"
    using unat_below[of n] by simp
  let ?m = "(LOG_OCCURRENCES_MOD_N s + 1) mod n"
  have m: "unat ?m = Suc j mod unat n"
    using unat_plus_1[OF less] Cons.prems by (simp add: unat_mod mod_simps)
  have "?m = 1 mod n \<longleftrightarrow> unat ?m = 1 mod unat n" unfolding word_unat_eq_iff unat_mod by simp
  also have "\<dots> \<longleftrightarrow> j mod unat n = 0" unfolding m by (rule Suc_mod_1_iff[OF assms])
  finally have go: "?m = 1 mod n \<longleftrightarrow> j mod unat n = 0" .
  obtain s1 where step: "if_every_n c n s = Some (c \<and> j mod unat n = 0, s1)"
    and s1: "unat (LOG_OCCURRENCES_MOD_N s1) = (if c then Suc j else j) mod unat n"
    using go m n0 Cons.prems by (cases c) (simp_all add: if_every_n_def Let_def)
  show ?case using Cons.IH[OF s1] by (simp add: step)
qed simp

text \<open>
  Two calls of \<^verbatim>\<open>LOG_EVERY_N\<close> at the same time. The counter is atomic, but counting, wrapping and
  testing are three steps, so that both calls can count before one of them wraps the counter.
\<close>

datatype every_n_pc = AtCount | AtWrap | AtTest | Decided bool

fun every_n_atomic :: "32 word \<Rightarrow> 32 word \<times> every_n_pc \<Rightarrow> 32 word \<times> every_n_pc" where
  "every_n_atomic n (m, AtCount) = (m + 1, if n < m + 1 then AtWrap else AtTest)"
| "every_n_atomic n (m, AtWrap) = (m - n, AtTest)"
| "every_n_atomic n (m, AtTest) = (m, Decided (m = 1))"
| "every_n_atomic n (m, Decided b) = (m, Decided b)"

text \<open>Run alone, the steps are \<open>every_n\<close>.\<close>

lemma every_n_alone:
  "\<exists>k. (every_n_atomic n ^^ k) (LOG_OCCURRENCES_MOD_N s, AtCount) =
     (LOG_OCCURRENCES_MOD_N (snd (every_n n s)), Decided (fst (every_n n s)))"
proof (cases "n < LOG_OCCURRENCES_MOD_N s + 1")
  case True
  then show ?thesis by (intro exI[of _ 3]) (simp add: eval_nat_numeral every_n_def Let_def)
next
  case False
  then show ?thesis by (intro exI[of _ 2]) (simp add: eval_nat_numeral every_n_def Let_def)
qed

text \<open>The schedule names the thread that does the next step.\<close>

fun every_n_threads :: "32 word \<Rightarrow> bool list \<Rightarrow> 32 word \<Rightarrow> every_n_pc \<times> every_n_pc \<Rightarrow> 32 word \<times> every_n_pc \<times> every_n_pc" where
  "every_n_threads n [] m (p, q) = (m, p, q)"
| "every_n_threads n (first # sched) m (p, q) =
     (if first then (let (m', p') = every_n_atomic n (m, p) in every_n_threads n sched m' (p', q))
      else (let (m', q') = every_n_atomic n (m, q) in every_n_threads n sched m' (p, q')))"

text \<open>With the limit 2, one of two calls one after the other is logged; here neither of them is.\<close>

lemma every_n_race:
  "every_n_threads 2 [True, False, True, False, True, False] 2 (AtCount, AtCount) = (0, Decided False, Decided False)"
  "every_n_threads 2 [True, True, True, False, False] 2 (AtCount, AtCount) = (2, Decided True, Decided False)"
  by simp_all

text \<open>\<^verbatim>\<open>LOG_EVERY_T\<close>: the times at which calls log.\<close>

fun t_logged :: "int \<Rightarrow> int list \<Rightarrow> int \<Rightarrow> int list" where
  "t_logged period [] previous = []"
| "t_logged period (t # ts) previous =
     (let (go, previous') = every_t period t previous
      in (if go then t # t_logged period ts previous' else t_logged period ts previous'))"

lemma t_logged_Cons:
  "t_logged period (t # ts) previous =
     (if period < t - previous then t # t_logged period ts t else t_logged period ts previous)"
  by (simp add: every_t_def)

declare t_logged.simps(2) [simp del] t_logged_Cons [simp]

lemma t_logged_spaced:
  "0 \<le> period \<Longrightarrow> sorted_wrt (\<lambda>a b. period < b - a) (previous # t_logged period ts previous)"
proof (induction ts arbitrary: previous)
  case (Cons t ts)
  have "sorted_wrt (\<lambda>a b. period < b - a) (t # t_logged period ts t)"
    "sorted_wrt (\<lambda>a b. period < b - a) (previous # t_logged period ts previous)"
    using Cons by blast+
  then show ?case using Cons.prems by fastforce
qed simp

lemma t_logged_recent:
  "0 \<le> period \<Longrightarrow> t \<in> set ts \<Longrightarrow> \<exists>t0\<in>set (previous # t_logged period ts previous). t - t0 \<le> period"
proof (induction ts arbitrary: previous)
  case (Cons u ts)
  show ?case
  proof (cases "t = u")
    case True
    then show ?thesis using Cons.prems by auto
  next
    case False
    then have "t \<in> set ts" using Cons.prems by simp
    from Cons.IH[OF Cons.prems(1) this, of u] Cons.IH[OF Cons.prems(1) this, of previous]
    show ?thesis by auto
  qed
qed simp

subsection \<open>Failed checks\<close>

text \<open>Writing twice is writing both texts at once.\<close>

lemma splice_twice:
  assumes "p \<le> length m"
  shows "take (p + length a) (take p m @ a @ drop (p + length a) m) = take p m @ a"
    and "drop (p + length a + k) (take p m @ a @ drop (p + length a) m) = drop (p + length a + k) m"
  using assms by (simp_all add: add.commute)

lemma stream_put_append:
  assumes "data_ok d"
  shows "stream_put b (stream_put a d) = stream_put (a @ b) d"
proof -
  let ?m = "message_text d" and ?p = "pcount d"
  define ta where "ta = take (kMaxLogMessageLen - 2 - ?p) a"
  define tb where "tb = take (kMaxLogMessageLen - 2 - (?p + length ta)) b"
  have p: "?p \<le> length ?m" using assms by (simp add: data_ok_def kMaxLogMessageLen_def)
  have "kMaxLogMessageLen - 2 - (?p + length ta) = kMaxLogMessageLen - 2 - ?p - length a"
    by (simp add: ta_def min_def)
  then have both: "take (kMaxLogMessageLen - 2 - ?p) (a @ b) = ta @ tb" by (simp add: ta_def tb_def)
  have a: "stream_put a d = d\<lparr>message_text := take ?p ?m @ ta @ drop (?p + length ta) ?m, pcount := ?p + length ta\<rparr>"
    by (simp only: stream_put_def Let_def ta_def)
  then have sel: "pcount (stream_put a d) = ?p + length ta"
    "message_text (stream_put a d) = take ?p ?m @ ta @ drop (?p + length ta) ?m" by simp_all
  have "stream_put b (stream_put a d) = (stream_put a d)
      \<lparr>message_text := (take ?p ?m @ ta) @ tb @ drop (?p + length ta + length tb) ?m, pcount := ?p + length ta + length tb\<rparr>"
    by (simp only: stream_put_def[of b] Let_def sel tb_def[symmetric] splice_twice[OF p])
  also have "\<dots> = d
      \<lparr>message_text := (take ?p ?m @ ta) @ tb @ drop (?p + length ta + length tb) ?m, pcount := ?p + length ta + length tb\<rparr>"
    by (simp add: a)
  also have "\<dots> = stream_put (a @ b) d"
    unfolding stream_put_def[of "a @ b"] Let_def both by (simp add: add.assoc)
  finally show ?thesis .
qed

text \<open>
  A fatal message at its start: its text is a prefix \<open>p\<close>, and the library is as it was before.
\<close>

definition fresh_fatal :: "MsgEnv \<Rightarrow> LogState \<Rightarrow> string \<Rightarrow> LogMessageData \<Rightarrow> LogState \<Rightarrow> bool" where
  "fresh_fatal env st p d st0 = (data_ok d \<and> msg_text d = p \<and> num_prefix_chars d = pcount d \<and> msg_severity d = 3 \<and>
     send_method d = SendToLog \<and> \<not> has_been_flushed d \<and> logmsgtime d = message_time env st \<and> p \<noteq> [] \<and> last p = CHR '' '' \<and>
     st0 = st\<lparr>thread_data_available := thread_data_available st0, fatal_msg_exclusive := fatal_msg_exclusive st0\<rparr>)"

definition ready_for_fatal :: "MsgEnv \<Rightarrow> string \<Rightarrow> string \<Rightarrow> int \<Rightarrow> string \<Rightarrow> LogState \<Rightarrow> bool" where
  "ready_for_fatal env buf fname line t st = (log_ok st \<and> \<not> log_mutex st \<and> exit_on_dfatal st \<and> fatal_msg_exclusive st \<and>
     to_files st \<and> FLAGS_minloglevel (flags st) \<le> 3 \<and> FLAGS_log_backtrace_at (flags st) = [] \<and>
     custom_prefix_callback st = None \<and> FLAGS_log_prefix (flags st) \<and> line \<noteq> - 1 \<and>
     length buf = kMaxLogMessageLen + 1 \<and>
     length (standard_prefix env st fname line 3 @ t) \<le> kMaxLogMessageLen - 2)"

lemma fresh_severity:
  assumes "ready_for_fatal env buf fname line t st" and "Init env buf fname line 3 SendToLog st = (d, st0)"
  shows "fresh_fatal env st (standard_prefix env st fname line 3) d st0"
proof -
  have sh: "\<not> uses_shared 3 st" using assms(1) by (simp add: uses_shared_def ready_for_fatal_def)
  have pre: "length buf = kMaxLogMessageLen + 1" "FLAGS_log_backtrace_at (flags st) = []" "custom_prefix_callback st = None"
    "FLAGS_log_prefix (flags st)" "line \<noteq> - 1" "length (standard_prefix env st fname line 3) \<le> kMaxLogMessageLen - 2"
    using assms(1) by (simp_all add: ready_for_fatal_def)
  note ok = Init_ok[OF pre(1) assms(2) pre(2)]
  show ?thesis
    using ok(1) ok(2)[OF _ pre(3-5)] sh pre(6) last_standard_prefix[of env st fname line 3] by (simp add: fresh_fatal_def)
qed

lemma fresh_fatal_logged:
  assumes "ready_for_fatal env buf fname line t st" and "fresh_fatal env st (standard_prefix env st fname line 3) d st0"
  shows "\<exists>d' st'. Flush env (stream_put t d) st0 = Some (d', st') \<and> has_been_flushed d' \<and> UnlockedTwice \<in> set (events st') \<and>
    (\<forall>i\<le>3. LoggerWrite i (logger_at st i) (FLAGS_logbuflevel (flags st) < int i) (timestamp (message_time env st))
       (add_newline (standard_prefix env st fname line 3 @ t)) \<in> set (events st'))"
proof -
  let ?p = "standard_prefix env st fname line 3" and ?d = "stream_put t d"
  note f = assms(2)[unfolded fresh_fatal_def] and r = assms(1)[unfolded ready_for_fatal_def]
  have len: "pcount d = length ?p" using f length_msg_text[of d] by simp
  have room: "length t \<le> kMaxLogMessageLen - 2 - pcount d" 
  proof -
    have "length ?p + length t \<le> kMaxLogMessageLen - 2" using r by simp
    then show ?thesis using len by linarith
  qed
  have text': "msg_text ?d = ?p @ t" "data_ok ?d" using stream_put_text[of d t] f room by simp_all
  have pc: "pcount ?d = length (?p @ t)" using length_msg_text[OF text'(2)] text'(1) by simp
  have ends: "ends_in_newline env ?d \<longleftrightarrow> last (?p @ t) = CHR 0x0A"
    using ends_in_newline_iff[OF text'(2), of env] pc text'(1) f by simp
  have sendable: "sendable env ?d"
    using text'(2) ends pc len f by (cases "t = []") (auto simp: sendable_def)
  have written: "with_newline env ?d = add_newline (?p @ t)"
    using ends text'(1) f by (simp add: with_newline_def add_newline_def)
  have same: "st0 = st\<lparr>thread_data_available := thread_data_available st0, fatal_msg_exclusive := fatal_msg_exclusive st0\<rparr>"
    using f by simp
  have keep: "log_ok st0 = log_ok st" "log_mutex st0 = log_mutex st" "flags st0 = flags st"
    "exit_on_dfatal st0 = exit_on_dfatal st" "to_files st0 = to_files st" "file_writes st0 = file_writes st"
    by (subst same, simp add: log_ok_def consistent_get_file to_files_def file_writes_def logger_at_def fun_eq_iff)+
  have pre: "log_ok st0" "\<not> log_mutex st0" "exit_on_dfatal st0" "FLAGS_minloglevel (flags st0) \<le> 3"
    "msg_severity ?d = 3" "send_method ?d = SendToLog" "\<not> has_been_flushed ?d"
    using r keep f by simp_all
  obtain d' st' es where fl: "Flush env ?d st0 = Some (d', st')" "events st' = events st0 @ es" "has_been_flushed d'" "UnlockedTwice \<in> set es"
    "set (file_writes st 3 (timestamp (message_time env st)) (add_newline (?p @ t))) \<subseteq> set es"
    using Flush_fatal[OF pre sendable] keep r f written by auto
  then show ?thesis by (auto simp: file_writes_def image_subset_iff)
qed

lemma flushed_end:
  "has_been_flushed d \<Longrightarrow> LogMessage_end env d st = Some (d, release d st)"
  by (simp add: LogMessage_end_def Flush_def)

definition check_text :: "string \<Rightarrow> string \<Rightarrow> string \<Rightarrow> string \<Rightarrow> string" where
  "check_text exprtext v1 v2 msg = ''Check failed: '' @ exprtext @ '' ('' @ v1 @ '' vs. '' @ v2 @ '') '' @ msg"

lemma check_failed_put:
  assumes "data_ok d"
  shows "stream_put msg (check_failed (MakeCheckOpString e v1 v2) d) = stream_put (check_text e v1 v2 msg) d"
proof -
  have app: "stream_put b (stream_put a d) = stream_put (a @ b) d" for a b
    by (rule stream_put_append[OF assms])
  show ?thesis by (simp add: check_failed_def app check_text_def check_op_text)
qed

lemma LogMessage_Fail_some: "LogMessage_Fail u \<noteq> []"
  by (simp add: LogMessage_Fail_def split: fail_func.split)

text \<open>C19. A \<^verbatim>\<open>CHECK_EQ\<close> or other comparison that holds does nothing at all. One that fails as the first
  fatal message writes the prefix and \<open>Check failed: a == b (1 vs. 2) message\<close> to the loggers
  of all four severities, and then calls the failure functions.\<close>

theorem failed_check_logged:
  assumes "ready_for_fatal env buf fname line (check_text e v1 v2 msg) st"
  shows "CHECK_OP env buf fname line e True v1 v2 msg st = Some (st, []) \<and>
    (\<exists>st' fails. CHECK_OP env buf fname line e False v1 v2 msg st = Some (st', fails) \<and> fails \<noteq> [] \<and>
      (\<forall>i\<le>3. LoggerWrite i (logger_at st i) (FLAGS_logbuflevel (flags st) < int i) (timestamp (message_time env st))
         (add_newline (standard_prefix env st fname line 3 @ check_text e v1 v2 msg)) \<in> set (events st')))"
proof
  show "CHECK_OP env buf fname line e True v1 v2 msg st = Some (st, [])" by (simp add: CHECK_OP_def)
  obtain d st0 where init: "Init env buf fname line 3 SendToLog st = (d, st0)" by (metis surj_pair)
  note fresh = fresh_severity[OF assms init]
  then have ok: "data_ok d" by (simp add: fresh_fatal_def)
  obtain d' st' where fl: "Flush env (stream_put (check_text e v1 v2 msg) d) st0 = Some (d', st')" "has_been_flushed d'"
    "\<forall>i\<le>3. LoggerWrite i (logger_at st i) (FLAGS_logbuflevel (flags st) < int i) (timestamp (message_time env st))
       (add_newline (standard_prefix env st fname line 3 @ check_text e v1 v2 msg)) \<in> set (events st')"
    using fresh_fatal_logged[OF assms fresh] by blast
  have "CHECK_OP env buf fname line e False v1 v2 msg st =
      Some (release d' st', LogMessage_Fail (utils (globals st')))"
    using fl by (simp add: CHECK_OP_def LogMessage_check_def init finish_fatal check_failed_put[OF ok] LogMessageFatal_end_def flushed_end)
  then show "\<exists>st' fails. CHECK_OP env buf fname line e False v1 v2 msg st = Some (st', fails) \<and> fails \<noteq> [] \<and>
      (\<forall>i\<le>3. LoggerWrite i (logger_at st i) (FLAGS_logbuflevel (flags st) < int i) (timestamp (message_time env st))
         (add_newline (standard_prefix env st fname line 3 @ check_text e v1 v2 msg)) \<in> set (events st'))"
    using fl(3) LogMessage_Fail_some by auto
qed

lemma demo_ready: "length t \<le> 100 \<Longrightarrow> ready_for_fatal demo_msg_env (replicate 30001 NUL) ''a.cc'' 7 t demo_ready_log"
  if "demo_ready_log = demo_init\<lparr>exit_on_dfatal := True, fatal_msg_exclusive := True\<rparr>"
proof -
  assume t: "length t \<le> 100"
  have same: "standard_prefix demo_msg_env demo_ready_log = standard_prefix demo_msg_env demo_log"
    using that by (simp add: standard_prefix_def message_time_def fun_eq_iff demo_init_fields demo_log_fields)
  then have "length (standard_prefix demo_msg_env demo_ready_log ''a.cc'' 7 3 @ t) \<le> 200"
    using demo_prefix_length[of 3] t by simp
  then show ?thesis
    using demo_init_fields that
    by (simp add: ready_for_fatal_def default_msg_flags_def kMaxLogMessageLen_def log_ok_def consistent_get_file to_files_def)
qed

theorem failed_check_logged_witness:
  "\<exists>st' fails. CHECK_OP demo_msg_env (replicate 30001 NUL) ''a.cc'' 7 ''a == b'' False ''1'' ''2'' ''oops''
     (demo_init\<lparr>exit_on_dfatal := True, fatal_msg_exclusive := True\<rparr>) = Some (st', fails) \<and> fails \<noteq> []"
proof -
  have "length (check_text ''a == b'' ''1'' ''2'' ''oops'') \<le> 100" by (simp add: check_text_def)
  from failed_check_logged[OF demo_ready[OF refl this]] show ?thesis by blast
qed

text \<open>A failed \<^verbatim>\<open>CHECK\<close> ends in the failure functions.\<close>

lemma ready_for_shorter:
  "ready_for_fatal env buf fname line t st \<Longrightarrow> length u \<le> length t \<Longrightarrow> ready_for_fatal env buf fname line u st"
  by (simp add: ready_for_fatal_def)

lemma failed_check_fails:
  assumes "ready_for_fatal env buf fname line (''Check failed: '' @ c @ '' '' @ msg) st"
  shows "\<exists>st' fails. CHECK env buf fname line c False msg st = Some (st', fails) \<and> fails \<noteq> []"
proof -
  obtain d st0 where init: "Init env buf fname line 3 SendToLog st = (d, st0)" by (metis surj_pair)
  obtain d' st' where fl: "Flush env (stream_put (''Check failed: '' @ c @ '' '' @ msg) d) st0 = Some (d', st')" "has_been_flushed d'"
    using fresh_fatal_logged[OF assms fresh_severity[OF assms init]] by blast
  have "CHECK env buf fname line c False msg st = Some (release d' st', LogMessage_Fail (utils (globals st')))"
    using fl by (simp add: CHECK_def LogMessage_severity_def init finish_fatal LogMessageFatal_end_def flushed_end)
  then show ?thesis using LogMessage_Fail_some by blast
qed

text \<open>C36. \<^verbatim>\<open>PCHECK\<close> does not end the program where \<^verbatim>\<open>CHECK\<close> does: in a state ready for a first fatal message, a failed
  \<^verbatim>\<open>CHECK\<close> ends in the failure functions, a failed \<^verbatim>\<open>PCHECK\<close> at the same place writes its message, with the text and
  the number of the error behind it, to the loggers of all severities and then calls no failure function, since its
  message is an \<open>ErrnoLogMessage\<close>. The severity still makes it unlock the logging mutex twice, so that behind this
  point the behaviour is defined only in a build without threads and assertions.\<close>

theorem failed_pcheck_continues:
  assumes "ready_for_fatal env buf fname line
      (''Check failed: '' @ c @ '' '' @ msg @ '': '' @ StrErr (errno st) @ '' ['' @ int_str (errno st) @ '']'') st"
  shows "(\<exists>st' fails. CHECK env buf fname line c False msg st = Some (st', fails) \<and> fails \<noteq> []) \<and>
    (\<exists>st'. PCHECK env StrErr buf fname line c False msg st = Some (st', []) \<and> UnlockedTwice \<in> set (events st') \<and>
      (\<forall>i\<le>3. LoggerWrite i (logger_at st i) (FLAGS_logbuflevel (flags st) < int i) (timestamp (message_time env st))
         (add_newline (standard_prefix env st fname line 3 @ ''Check failed: '' @ c @ '' '' @ msg @ '': '' @
            StrErr (errno st) @ '' ['' @ int_str (errno st) @ '']'')) \<in> set (events st')))"
proof
  show "\<exists>st' fails. CHECK env buf fname line c False msg st = Some (st', fails) \<and> fails \<noteq> []"
    by (rule failed_check_fails[OF ready_for_shorter[OF assms]]) simp
next
  let ?t = "''Check failed: '' @ c @ '' '' @ msg @ '': '' @ StrErr (errno st) @ '' ['' @ int_str (errno st) @ '']''"
  obtain d st0 where init: "Init env buf fname line 3 SendToLog st = (d, st0)" by (metis surj_pair)
  let ?d = "d\<lparr>msg_ctr := 0\<rparr>"
  have fresh: "fresh_fatal env st (standard_prefix env st fname line 3) ?d st0"
    using fresh_severity[OF assms init] by (simp add: fresh_fatal_def data_ok_def msg_text_def)
  then have ok: "data_ok ?d" by (simp add: fresh_fatal_def)
  have err: "preserved_errno d = errno st"
    using init by (simp add: Init_def Let_def case_prod_unfold) (auto)
  obtain d' st' where fl: "Flush env (stream_put ?t ?d) st0 = Some (d', st')" "UnlockedTwice \<in> set (events st')"
    "\<forall>i\<le>3. LoggerWrite i (logger_at st i) (FLAGS_logbuflevel (flags st) < int i) (timestamp (message_time env st))
       (add_newline (standard_prefix env st fname line 3 @ ?t)) \<in> set (events st')"
    using fresh_fatal_logged[OF assms fresh] by blast
  have "ErrnoLogMessage_end StrErr (stream_put (''Check failed: '' @ c @ '' '' @ msg) ?d) = stream_put ?t ?d"
    using err by (simp add: ErrnoLogMessage_end_def stream_put_append[OF ok])
  then have "PCHECK env StrErr buf fname line c False msg st = Some (release d' st', [])"
    using fl(1) by (simp add: PCHECK_def PLOG_def LogMessage_method_def init finish_message_def destructor_def
        base_destructor_def LogMessage_end_def)
  then show "\<exists>st'. PCHECK env StrErr buf fname line c False msg st = Some (st', []) \<and> UnlockedTwice \<in> set (events st') \<and>
      (\<forall>i\<le>3. LoggerWrite i (logger_at st i) (FLAGS_logbuflevel (flags st) < int i) (timestamp (message_time env st))
         (add_newline (standard_prefix env st fname line 3 @ ?t)) \<in> set (events st'))"
    using fl(2,3) by simp
qed

theorem failed_pcheck_continues_witness:
  "(\<exists>st' fails. CHECK demo_msg_env (replicate 30001 NUL) ''a.cc'' 7 ''ok'' False []
      (demo_init\<lparr>exit_on_dfatal := True, fatal_msg_exclusive := True\<rparr>) = Some (st', fails) \<and> fails \<noteq> []) \<and>
   (\<exists>st'. PCHECK demo_msg_env (\<lambda>e. ''Success'') (replicate 30001 NUL) ''a.cc'' 7 ''ok'' False []
      (demo_init\<lparr>exit_on_dfatal := True, fatal_msg_exclusive := True\<rparr>) = Some (st', []) \<and> UnlockedTwice \<in> set (events st'))"
proof -
  let ?st = "demo_init\<lparr>exit_on_dfatal := True, fatal_msg_exclusive := True\<rparr>"
  obtain u where u: "demo_init = demo_log\<lparr>globals := (globals demo_log)\<lparr>utils := u\<rparr>\<rparr>" using demo_init_eq by blast
  have "errno ?st = errno demo_log" by (simp add: u)
  also have "\<dots> = 0" by (simp add: demo_log_def AddLogSink_def log_start_def)
  finally have e: "errno ?st = 0" .
  have "length (''Check failed: '' @ ''ok'' @ '' '' @ [] @ '': '' @ ''Success'' @ '' ['' @ int_str (errno ?st) @ '']'') \<le> 100"
    unfolding e by code_simp
  from failed_pcheck_continues[OF demo_ready[OF refl this]] show ?thesis by blast
qed

end
