(* ===== verification/Log_Delivery.thy ===== *)
theory Log_Delivery
  imports Log_Macros
begin

section \<open>Logging: from a message to the files\<close>

text \<open>
  The composition of messages, destinations and log files: what a message adds to the files of the
  severities it is logged to, written out as what is done to the file system.
\<close>

subsection \<open>Files that are open\<close>

text \<open>What was done to the file system by the file object of a severity.\<close>

definition effects_at :: "LogState \<Rightarrow> nat \<Rightarrow> Effect list" where
  "effects_at st i = (case log_destinations st i of None \<Rightarrow> [] | Some d \<Rightarrow> file_effects d)"

text \<open>The log of a severity is open and not full.\<close>

definition open_at :: "LogState \<Rightarrow> nat \<Rightarrow> string \<Rightarrow> bool" where
  "open_at st i p = (case log_destinations st i of
     None \<Rightarrow> False
   | Some d \<Rightarrow> logger d = OwnFile \<and> log_file (fileobject d) = Some p \<and>
       \<not> (base_filename_selected (fileobject d) \<and> base_filename (fileobject d) = []) \<and>
       unat (file_length (fileobject d)) < size_limit (file_flags (flags st)))"

text \<open>The process is the one that opened the files, the disk is not full, and files are rolled over by size.\<close>

definition can_write :: "MsgEnv \<Rightarrow> LogState \<Rightarrow> bool" where
  "can_write env st = (env_pid (file_env env) = g_main_thread_pid (utils (globals st)) \<and> \<not> stop_writing (globals st) \<and>
     \<not> (FLAGS_stop_logging_if_full_disk (file_flags (flags st)) \<and> env_enospc (file_env env)) \<and>
     FLAGS_log_rolling_policy (file_flags (flags st)) \<noteq> ''day'' \<and> FLAGS_log_rolling_policy (file_flags (flags st)) \<noteq> ''hour'')"

text \<open>What may follow a write: the file is flushed and advised on, and overdue logs are unlinked.\<close>

definition after_write :: "Effect \<Rightarrow> bool" where
  "after_write e = (case e of EFlush _ \<Rightarrow> True | EFadvise _ _ _ \<Rightarrow> True | EUnlink _ \<Rightarrow> True | _ \<Rightarrow> False)"

definition appended :: "string \<Rightarrow> string \<Rightarrow> Effect list \<Rightarrow> Effect list \<Rightarrow> bool" where
  "appended p m es0 es1 = (\<exists>es. es1 = es0 @ EWrite p m # es \<and> list_all after_write es)"

lemma flush_if_due_globals:
  "flush_if_due fl env force s = Some s' \<Longrightarrow>
   utils (snd s') = utils (snd s) \<and> stop_writing (snd s') = stop_writing (snd s)"
  by (cases s) (auto simp: flush_if_due_def drop_memory_def FlushUnlocked_def emits_def emit_def
      Let_def split: if_splits option.splits prod.splits)

subsection \<open>One severity\<close>

text \<open>The logging of one severity, in a state in which its file is open.\<close>

lemma MaybeLogToLogfile_appends:
  assumes "MaybeLogToLogfile env ts m i st = Some st'" and "open_at st i p" and "can_write env st" and "i < NUM_SEVERITIES"
  shows "appended p m (effects_at st i) (effects_at st' i) \<and> flags st' = flags st \<and> can_write env st' \<and>
    (\<forall>j. j \<noteq> i \<longrightarrow> log_destinations st' j = log_destinations st j)"
proof -
  obtain d where d: "log_destinations st i = Some d" "logger d = OwnFile" "log_file (fileobject d) = Some p"
    "\<not> (base_filename_selected (fileobject d) \<and> base_filename (fileobject d) = [])"
    "unat (file_length (fileobject d)) < size_limit (file_flags (flags st))"
    using assms(2) by (auto simp: open_at_def split: option.splits)
  let ?fl = "file_flags (flags st)" and ?e = "file_env env" and ?force = "FLAGS_logbuflevel (flags st) < int i"
  let ?f = "fileobject d" and ?g = "(globals st)\<lparr>effects := file_effects d\<rparr>"
  let ?st1 = "event (LoggerWrite i OwnFile ?force ts m) st"
  have pre: "FLAGS_log_rolling_policy ?fl \<noteq> ''day''" "FLAGS_log_rolling_policy ?fl \<noteq> ''hour''"
    "env_pid ?e = g_main_thread_pid (utils ?g)" "\<not> stop_writing ?g" "\<not> (FLAGS_stop_logging_if_full_disk ?fl \<and> env_enospc ?e)"
    using assms(3) by (simp_all add: can_write_def)
  have w: "Write ?fl ?e ?force ts m (?f, ?g) =
      flush_if_due ?fl ?e ?force (count_bytes m ?f, emit (EWrite p m) ?g)"
    unfolding Write_room[OF d(3) pre(1,2) d(4,5) pre(3,4)] using pre(5) by auto
  obtain f' g' where s': "flush_if_due ?fl ?e ?force (count_bytes m ?f, emit (EWrite p m) ?g) = Some (f', g')"
    and st': "st' = put_file i d (f', g') ?st1"
    using assms(1,4) d(1,2) w
    by (auto simp: MaybeLogToLogfile_def log_destination_def logger_write_def get_file_def Let_def)
  obtain es where es: "effects g' = effects (emit (EWrite p m) ?g) @ es" "list_all after_write es"
    using flush_if_due_grows[OF s'] unfolding after_write_def by auto
  have g': "utils g' = utils (globals st)" "stop_writing g' = stop_writing (globals st)"
    using flush_if_due_globals[OF s'] by (simp_all add: emit_def)
  show ?thesis
    using es g' assms(3) d(1)
    by (auto simp: st' put_file_def set_destination_def effects_at_def appended_def can_write_def emit_def)
qed

lemma open_at_other:
  "log_destinations st' j = log_destinations st j \<Longrightarrow> flags st' = flags st \<Longrightarrow>
   open_at st' j p = open_at st j p \<and> effects_at st' j = effects_at st j"
  by (auto simp: open_at_def effects_at_def split: option.splits)

lemma logfiles_down_appends:
  assumes "logfiles_down (MaybeLogToLogfile env ts m) sev st = Some st'" and "sev < NUM_SEVERITIES"
    and "\<forall>i\<le> sev. open_at st i (p i)" and "can_write env st"
  shows "(\<forall>i\<le> sev. appended (p i) m (effects_at st i) (effects_at st' i)) \<and>
    (\<forall>i. sev < i \<longrightarrow> effects_at st' i = effects_at st i)"
  using assms
proof (induction sev arbitrary: st)
  case 0
  then show ?case using MaybeLogToLogfile_appends[of env ts m 0 st st' "p 0"] by (auto simp: effects_at_def)
next
  case (Suc sev)
  obtain st1 where st1: "MaybeLogToLogfile env ts m (Suc sev) st = Some st1"
    "logfiles_down (MaybeLogToLogfile env ts m) sev st1 = Some st'"
    using Suc.prems(1) by (auto simp: bind_eq_Some_conv)
  note a = MaybeLogToLogfile_appends[OF st1(1) _ Suc.prems(4,2), of "p (Suc sev)"]
  have same: "open_at st1 j q = open_at st j q \<and> effects_at st1 j = effects_at st j" if "j \<noteq> Suc sev" for j q
    using open_at_other[of st1 j st q] a Suc.prems(3) that by auto
  have "(\<forall>i\<le> sev. appended (p i) m (effects_at st1 i) (effects_at st' i)) \<and>
      (\<forall>i. sev < i \<longrightarrow> effects_at st' i = effects_at st1 i)"
    using Suc.IH[OF st1(2)] Suc.prems(2,3) same a by auto
  then show ?case using a Suc.prems(3) same by (auto simp: le_Suc_eq)
qed

subsection \<open>The message\<close>

lemma destinations_fields [simp]:
  "log_destinations (LogToSinks sev full base line b st) = log_destinations st"
  "log_destinations (WaitForSinks own st) = log_destinations st"
  "log_destinations (unlock_log_mutex st) = log_destinations st"
  "log_destinations (release d st) = log_destinations st"
  "log_destinations (MaybeLogToEmail env sev st) = log_destinations st"
  by (simp_all add: LogToSinks_eq WaitForSinks_eq unlock_log_mutex_def release_def MaybeLogToEmail_def
      SendEmailInternal_def split: Storage.split)

lemma destinations_output:
  "output_event w st = Some st' \<Longrightarrow> log_destinations st' = log_destinations st"
  "MaybeLogToStderr sev m st = Some st' \<Longrightarrow> log_destinations st' = log_destinations st"
  by (auto simp: MaybeLogToStderr_def output_event_def split: option.splits if_splits)

text \<open>Once a message has gone to the log files, nothing touches them any more.\<close>

lemma send_to_log_destinations:
  assumes "send_to_log env d st = Some st'" and "to_files st" and "msg_severity d < 4"
    and "\<not> (msg_severity d = 3 \<and> exit_on_dfatal st)" and "log_ok st"
  shows "\<exists>sta. logfiles_down (MaybeLogToLogfile env (timestamp (logmsgtime d)) (logged_text d)) (msg_severity d) st = Some sta \<and>
    log_destinations st' = log_destinations sta"
proof -
  have files: "IsGoogleLoggingInitialized (utils (globals st))" "\<not> FLAGS_logtostderr (flags st)" "\<not> FLAGS_logtostdout (flags st)"
    using assms(2) by (simp_all add: to_files_def)
  obtain b sta stb where s: "message_body d = Some b"
    "LogToAllLogfiles env (msg_severity d) (timestamp (logmsgtime d)) (logged_text d) st = Some sta"
    "MaybeLogToStderr (msg_severity d) (logged_text d) sta = Some stb"
    using assms(1) files by (auto simp: send_to_log_def Let_def bind_eq_Some_conv)
  have down: "logfiles_down (MaybeLogToLogfile env (timestamp (logmsgtime d)) (logged_text d)) (msg_severity d) st = Some sta"
    using s(2) files by (simp add: LogToAllLogfiles_def)
  obtain stx where stx: "send_to_log env d st =
      (let st3 = LogToSinks (msg_severity d) (fullname d) (msg_basename d) (msg_line d) b stx
       in if msg_severity d = 3 \<and> exit_on_dfatal st3 then fatal_part env d st3 else Some st3)"
    "sent_from st stx" using send_to_log_start[OF assms(5,3) s(1)] by blast
  let ?st2 = "MaybeLogToEmail env (msg_severity d) stb"
  have "send_to_log env d st =
      (let st3 = LogToSinks (msg_severity d) (fullname d) (msg_basename d) (msg_line d) b ?st2
       in if msg_severity d = 3 \<and> exit_on_dfatal st3 then fatal_part env d st3 else Some st3)"
    using s files by (simp add: send_to_log_def Let_def)
  moreover have "exit_on_dfatal ?st2 = exit_on_dfatal st"
  proof -
    have start: "logging_from st st" "msg_severity d < NUM_SEVERITIES"
      using assms(3,5) by (simp_all add: logging_from_def NUM_SEVERITIES_def)
    have "exit_on_dfatal sta = exit_on_dfatal st"
      using files.logfiles_down_good[OF start(2,1), of env "timestamp (logmsgtime d)" "logged_text d"] down
      by (auto simp: logging_from_def)
    then show ?thesis using s(3)
      by (auto simp: MaybeLogToEmail_def SendEmailInternal_def MaybeLogToStderr_def output_event_def split: if_splits option.splits)
  qed
  ultimately have "st' = LogToSinks (msg_severity d) (fullname d) (msg_basename d) (msg_line d) b ?st2"
    using assms(1,4) by (auto simp: Let_def LogToSinks_eq)
  then show ?thesis using down destinations_output(2)[OF s(3)] by simp
qed

lemma Flush_destinations:
  assumes "Flush env d st = Some (d', st')" and "to_files st" and "msg_severity d < 4" and "log_ok st" and "\<not> log_mutex st"
    and "\<not> (msg_severity d = 3 \<and> exit_on_dfatal st)" and "\<not> has_been_flushed d" and "send_method d = SendToLog"
    and "FLAGS_minloglevel (flags st) \<le> int (msg_severity d)" and "data_ok d"
  shows "\<exists>sta. logfiles_down (MaybeLogToLogfile env (timestamp (logmsgtime d)) (with_newline env d)) (msg_severity d)
      (st\<lparr>log_mutex := True\<rparr>) = Some sta \<and> log_destinations st' = log_destinations sta"
proof -
  let ?d1 = "finish_text env d" and ?st0 = "st\<lparr>log_mutex := True\<rparr>"
  have go: "\<not> (has_been_flushed d \<or> int (msg_severity d) < FLAGS_minloglevel (flags st))" using assms(7,9) by simp
  obtain st1 where st1: "send_to_log env ?d1 ?st0 = Some st1"
    using assms(1,5,8) go by (cases "send_to_log env ?d1 ?st0") (simp_all add: Flush_def send_def Let_def)
  have dest: "log_destinations st' = log_destinations st1"
    using assms(1,5,8) go st1 by (auto simp: Flush_def send_def Let_def)
  show ?thesis
    using send_to_log_destinations[OF st1] assms(2-4,6) dest finish_text_logged(1)[OF assms(10), of env] by simp
qed

text \<open>C1. From the message to the file system: while the logs of its severity and of all lower ones are
  open, a message that is not fatal is written to the files of exactly these severities, as one
  write each of the prefix and the text of the user, cut to what fits the buffer and with one
  newline at the end; behind it a file is at most flushed and advised on, and overdue logs are
  unlinked. The files of higher severities are not touched.\<close>

theorem message_in_files:
  assumes "log_ok st" and "\<not> log_mutex st" and "sev < 4" and "\<not> (sev = 3 \<and> exit_on_dfatal st)"
    and "FLAGS_minloglevel (flags st) \<le> int sev" and "length buf = kMaxLogMessageLen + 1"
    and "FLAGS_log_backtrace_at (flags st) = []" and "custom_prefix_callback st = None"
    and "FLAGS_log_prefix (flags st)" and "line \<noteq> - 1"
    and "length (standard_prefix env st fname line sev) \<le> kMaxLogMessageLen - 2" and "to_files st"
    and "\<forall>i\<le> sev. open_at st i (p i)" and "can_write env st"
  shows "\<exists>d st'. log_message env msg (LogMessage_severity env buf fname line sev st) = Some (d, st') \<and>
    (\<forall>i\<le> sev. appended (p i)
       (add_newline (take (kMaxLogMessageLen - 2) (standard_prefix env st fname line sev @ msg)))
       (effects_at st i) (effects_at st' i)) \<and>
    (\<forall>i. sev < i \<longrightarrow> effects_at st' i = effects_at st i)"
proof -
  let ?t = "add_newline (take (kMaxLogMessageLen - 2) (standard_prefix env st fname line sev @ msg))"
  obtain d0 st1 where init: "Init env buf fname line sev SendToLog st = (d0, st1)" by (metis surj_pair)
  let ?d = "stream_put msg d0" and ?st2 = "st1\<lparr>log_mutex := True\<rparr>"
  have "\<not> uses_shared sev st" using assms(4) by (auto simp: uses_shared_def)
  note made = made_message[OF init this assms(6-11) refl]
  note keep = allocation_fields[OF made(6)]
  obtain d st' where log: "log_message env msg (LogMessage_severity env buf fname line sev st) = Some (d, st')"
    using log_message_sinks[OF assms(1-11), of msg] by blast
  obtain st3 where flush: "Flush env ?d st1 = Some (d, st3)" "st' = release d st3"
    using log by (auto simp: log_message_def LogMessage_severity_def init LogMessage_end_def bind_eq_Some_conv)
  have pre: "to_files st1" "msg_severity ?d < 4" "log_ok st1" "\<not> log_mutex st1" "\<not> (msg_severity ?d = 3 \<and> exit_on_dfatal st1)"
    "\<not> has_been_flushed ?d" "send_method ?d = SendToLog" "FLAGS_minloglevel (flags st1) \<le> int (msg_severity ?d)"
    using keep assms(1-5,12) made(5) by auto
  obtain sta where sta: "logfiles_down (MaybeLogToLogfile env (timestamp (message_time env st)) ?t) sev ?st2 = Some sta"
    "log_destinations st3 = log_destinations sta"
    using Flush_destinations[OF flush(1) pre made(2)] made(4,5) by auto
  have same: "log_destinations ?st2 = log_destinations st" "flags ?st2 = flags st" "globals ?st2 = globals st"
    using keep by simp_all
  then have "open_at ?st2 = open_at st" "effects_at ?st2 = effects_at st" "can_write env ?st2 = can_write env st"
    using open_at_other[of ?st2 _ st] by (simp_all add: can_write_def fun_eq_iff)
  moreover have "sev < NUM_SEVERITIES" using assms(3) by (simp add: NUM_SEVERITIES_def)
  ultimately have "(\<forall>i\<le> sev. appended (p i) ?t (effects_at st i) (effects_at sta i)) \<and>
      (\<forall>i. sev < i \<longrightarrow> effects_at sta i = effects_at st i)"
    using logfiles_down_appends[OF sta(1), of p] assms(13,14) by simp
  moreover have "effects_at st' = effects_at sta"
    using sta(2) flush(2) by (simp add: effects_at_def fun_eq_iff)
  ultimately show ?thesis using log by simp
qed

text \<open>The library while the log of the lowest severity is open.\<close>

definition demo_running :: LogState where
  "demo_running = (case demo_open of
     None \<Rightarrow> demo_init
   | Some (f, g) \<Rightarrow> set_destination 0 \<lparr>fileobject = f, logger = OwnFile, file_effects = effects g\<rparr> demo_init)"

lemma demo_init_utils: "g_main_thread_pid (utils (globals demo_init)) = 77" "\<not> stop_writing (globals demo_init)"
  by (simp_all add: demo_init_def InitGoogleLogging_def InitGoogleLoggingUtilities_def demo_log_def AddLogSink_def
      log_start_def ustart_def Let_def IsGoogleLoggingInitialized_def InstallFailureFunction_def split: sum.split)

lemma demo_running_eq:
  "\<exists>f g. demo_running = set_destination 0 \<lparr>fileobject = f, logger = OwnFile, file_effects = effects g\<rparr> demo_init \<and>
     consistent (f, g) \<and> log_file f = Some ''/tmp/a.20240131-010203.77'' \<and> base_filename f = ''/tmp/a.'' \<and>
     unat (file_length f) = 2"
proof -
  obtain f g where s: "Write demo_flags demo_env False 0 ''hi'' demo_state = Some (f, g)" "demo_open = Some (f, g)"
    "log_file f = Some ''/tmp/a.20240131-010203.77''" "base_filename f = ''/tmp/a.''" "unat (file_length f) = 2"
    using demo_open_effects unfolding demo_open_def by (auto simp: map_option_case split: option.splits)
  have "consistent (f, g)" using file_reach_ok[OF file_reach.writes[OF demo_state_reach s(1)]] by simp
  then show ?thesis unfolding demo_running_def s(2) option.case prod.case using s(3-5) by blast
qed

lemma demo_running_fields:
  "log_ok demo_running" "\<not> log_mutex demo_running" "to_files demo_running" "flags demo_running = default_msg_flags"
  "custom_prefix_callback demo_running = None" "open_at demo_running 0 ''/tmp/a.20240131-010203.77''"
  "globals demo_running = globals demo_init"
proof -
  obtain f g where e: "demo_running = set_destination 0 \<lparr>fileobject = f, logger = OwnFile, file_effects = effects g\<rparr> demo_init"
    "consistent (f, g)" "log_file f = Some ''/tmp/a.20240131-010203.77''" "base_filename f = ''/tmp/a.''"
    "unat (file_length f) = 2" using demo_running_eq by blast
  show "log_ok demo_running"
    using demo_init_fields(1) e(2) by (auto simp: e(1) log_ok_def consistent_get_file consistent_iff set_destination_def)
  show "\<not> log_mutex demo_running" "to_files demo_running" "flags demo_running = default_msg_flags"
    "custom_prefix_callback demo_running = None" "globals demo_running = globals demo_init"
    using demo_init_fields by (simp_all add: e(1) set_destination_def to_files_def)
  have "2 < size_limit default_flags" by (simp add: size_limit_def default_flags_def MaxLogSize_def)
  then show "open_at demo_running 0 ''/tmp/a.20240131-010203.77''"
    using e(3-5) demo_init_fields(4) by (simp add: e(1) open_at_def set_destination_def default_msg_flags_def)
qed

theorem message_in_files_witness:
  "\<exists>d st' m es.
     log_message demo_msg_env ''hi'' (LogMessage_severity demo_msg_env (replicate 30001 NUL) ''a.cc'' 7 0 demo_running) =
     Some (d, st') \<and>
     effects_at st' 0 = effects_at demo_running 0 @ EWrite ''/tmp/a.20240131-010203.77'' m # es \<and> list_all after_write es"
proof -
  have pre: "(0 :: nat) < 4" "\<not> (0 = (3::nat) \<and> exit_on_dfatal demo_running)" "FLAGS_minloglevel (flags demo_running) \<le> int 0"
    "length (replicate 30001 NUL) = kMaxLogMessageLen + 1" "FLAGS_log_backtrace_at (flags demo_running) = []"
    "FLAGS_log_prefix (flags demo_running)" "(7 :: int) \<noteq> - 1"
    by (simp_all add: demo_running_fields default_msg_flags_def kMaxLogMessageLen_def)
  have same: "standard_prefix demo_msg_env demo_running = standard_prefix demo_msg_env demo_log"
    by (simp add: standard_prefix_def message_time_def fun_eq_iff demo_running_fields demo_log_fields)
  have len: "length (standard_prefix demo_msg_env demo_running ''a.cc'' 7 0) \<le> kMaxLogMessageLen - 2"
    using demo_prefix_length[of 0] by (simp add: same kMaxLogMessageLen_def)
  have can: "can_write demo_msg_env demo_running"
    using demo_init_utils by (simp add: can_write_def demo_running_fields default_msg_flags_def default_flags_def
        demo_msg_env_def demo_env_def)
  have opens: "\<forall>i\<le> 0. open_at demo_running i ''/tmp/a.20240131-010203.77''" using demo_running_fields(6) by simp
  show ?thesis
    using message_in_files[OF demo_running_fields(1,2) pre(1-5) demo_running_fields(5) pre(6,7) len demo_running_fields(3) opens can, of "''hi''"]
    unfolding appended_def by blast
qed

end
