(* ===== verification/Log_Globals.thy ===== *)
theory Log_Globals
  imports Log_File_Spec
begin

section \<open>Logging: what writing a log file leaves alone\<close>

text \<open>
  A part of the globals that the writing of a log file does not change, whatever happens to the
  files: rolling over, a new file and its header, flushing, the cleaning of old logs.
\<close>

locale untouched_globals =
  fixes view :: "LogGlobals \<Rightarrow> 'v"
  assumes view_laws: "\<And>g a. view (g\<lparr>effects := a\<rparr>) = view g" "\<And>g a. view (g\<lparr>rolling_file_number := a\<rparr>) = view g"
    "\<And>g a. view (g\<lparr>cached_hostname := a\<rparr>) = view g" "\<And>g a. view (g\<lparr>log_cleaner := a\<rparr>) = view g"
    "\<And>g a. view (g\<lparr>stop_writing := a\<rparr>) = view g"
    "\<And>g a. view (g\<lparr>utils := snd (PidHasChanged a (utils g))\<rparr>) = view g"
begin

lemma view_emit [simp]: "view (emit e g) = view g" "view (emits es g) = view g"
  by (simp_all add: emit_def emits_def view_laws)

lemma view_close_file [simp]: "view (snd (close_file s)) = view (snd s)" "view (snd (roll_over s)) = view (snd s)"
  by (auto simp: close_file_def roll_over_def split: prod.splits option.splits)

lemma view_roll_check: "CheckNeedRollLogFiles fl env ts s = (roll, s') \<Longrightarrow> view (snd s') = view (snd s)"
proof -
  have "view (g\<lparr>utils := u\<rparr>) = view g" if "PidHasChanged pid (utils g) = (b, u)" for pid b u g
    using view_laws(6)[of pid g] that by simp
  then show "CheckNeedRollLogFiles fl env ts s = (roll, s') \<Longrightarrow> view (snd s') = view (snd s)"
    by (auto simp: CheckNeedRollLogFiles_def Let_def split: prod.splits if_splits)
qed

lemma view_trim [simp]: "view (snd (trim_history fl s)) = view (snd s)"
  by (auto simp: trim_history_def split: prod.splits)

lemma view_history [simp]: "view (snd (CheckHistoryFileNum fl env s)) = view (snd s)"
  by (auto simp: CheckHistoryFileNum_def Let_def split: prod.splits list.splits option.splits)

lemma view_pairs:
  "trim_history fl s = (f', g') \<Longrightarrow> view g' = view (snd s)"
  "CheckHistoryFileNum fl env s = (f', g') \<Longrightarrow> view g' = view (snd s)"
  using view_trim[of fl s] view_history[of fl env s] by simp_all

lemma view_create:
  "CreateLogfileInternal fl env name excl s = (ok, f', g') \<Longrightarrow> view g' = view (snd s)"
  "GetSuitableFileName fl env name g = (name', g') \<Longrightarrow> view g' = view g"
  by (auto simp: CreateLogfileInternal_def GetSuitableFileName_def Let_def view_laws
      split: prod.splits option.splits sum.splits if_splits)

lemma view_CreateLogfile: "CreateLogfile fl env stamp s = (ok, f', g') \<Longrightarrow> view g' = view (snd s)"
  by (auto simp: CreateLogfile_def Let_def dest!: view_create split: prod.splits if_splits)

lemma view_reopen [simp]: "view (snd (reopen_newest fl env s)) = view (snd s)"
  by (auto simp: reopen_newest_def Let_def dest!: view_create(1) view_pairs(2) split: prod.splits)

lemma view_try_dirs: "try_dirs fl env name stamp dirs s = (ok, f', g') \<Longrightarrow> view g' = view (snd s)"
proof (induction dirs arbitrary: s)
  case (Cons dir dirs)
  then show ?case by (fastforce simp: Let_def dest!: view_CreateLogfile split: prod.splits if_splits)
qed simp

lemma view_prepare [simp]: "view (snd (prepare_file fl env ts s)) = view (snd s)"
  by (auto simp: prepare_file_def Let_def dest!: view_pairs split: prod.splits)

lemma view_create_named: "create_named fl env stamp s = (ok, f', g') \<Longrightarrow> view g' = view (snd s)"
  by (auto simp: create_named_def dest!: view_CreateLogfile view_try_dirs split: if_splits)

lemma view_write_header: "write_header fl env tm s = Some s' \<Longrightarrow> view (snd s') = view (snd s)"
  by (auto simp: write_header_def fwrite_def Let_def view_laws split: if_splits option.splits prod.splits)

lemma view_make_file: "make_file fl env ts s = Some (ok, s') \<Longrightarrow> view (snd s') = view (snd s)"
  by (cases s) (auto simp: make_file_def Let_def dest!: view_create_named view_write_header split: if_splits prod.splits)

lemma view_write_message: "write_message fl env m s = Some (go, s') \<Longrightarrow> view (snd s') = view (snd s)"
  by (auto simp: write_message_def fwrite_def view_laws split: if_splits option.splits prod.splits)

lemma view_flush_if_due: "flush_if_due fl env force s = Some s' \<Longrightarrow> view (snd s') = view (snd s)"
  by (cases s) (auto simp: flush_if_due_def drop_memory_def FlushUnlocked_def Let_def view_laws
      split: if_splits option.splits prod.splits)

lemma view_close_renamed [simp]: "view (snd (close_renamed s)) = view (snd s)"
  by (cases s) (simp add: close_renamed_def Let_def case_prod_unfold)

lemma view_settings [simp]:
  "view (snd (SetBasename b s)) = view (snd s)" "view (snd (SetExtension e s)) = view (snd s)"
  "view (snd (SetSymlinkBasename l s)) = view (snd s)" "view (snd (FlushUnlocked fl env s)) = view (snd s)"
proof -
  show "view (snd (SetBasename b s)) = view (snd s)"
    by (cases s) (simp add: SetBasename_def Let_def case_prod_unfold)
  show "view (snd (SetExtension e s)) = view (snd s)"
    by (cases s) (simp add: SetExtension_def Let_def case_prod_unfold)
  show "view (snd (SetSymlinkBasename l s)) = view (snd s)" by (cases s) (simp add: SetSymlinkBasename_def)
  show "view (snd (FlushUnlocked fl env s)) = view (snd s)"
    by (cases s) (auto simp: FlushUnlocked_def Let_def split: option.splits)
qed

lemma view_Write:
  assumes "Write fl env force ts m s = Some s'"
  shows "view (snd s') = view (snd s)"
proof (cases "base_filename_selected (fst s) \<and> base_filename (fst s) = []")
  case True
  then show ?thesis using assms by (simp add: Write_def)
next
  case False
  obtain roll s1 where r: "CheckNeedRollLogFiles fl env ts s = (roll, s1)" by (metis surj_pair)
  let ?s3 = "reopen_newest fl env (if roll then roll_over s1 else s1)"
  have s3: "view (snd ?s3) = view (snd s)" using view_roll_check[OF r] by simp
  obtain ok s4 where m: "(if log_file (fst ?s3) = None then make_file fl env ts ?s3 else Some (True, ?s3)) = Some (ok, s4)"
    using assms False unfolding Write_def r Let_def prod.case by (auto split: option.splits)
  then have s4: "view (snd s4) = view (snd s)" using view_make_file s3 by (metis Pair_inject option.inject)
  have "(if \<not> ok then Some s4 else
      (case write_message fl env m s4 of
         None \<Rightarrow> None
       | Some (False, s5) \<Rightarrow> Some s5
       | Some (True, s5) \<Rightarrow> flush_if_due fl env force s5)) = Some s'"
    using assms False unfolding Write_def r Let_def prod.case m by (auto split: bool.splits)
  then show ?thesis using s4
    by (auto dest!: view_write_message view_flush_if_due split: if_splits option.splits bool.splits)
qed

end

text \<open>The name of the program, by which the library knows that it is initialised, and the fingerprint.\<close>

definition program_names :: "LogGlobals \<Rightarrow> string \<times> string" where
  "program_names g = (g_program_invocation_short_name (utils g), application_fingerprint g)"

interpretation names: untouched_globals program_names
  by unfold_locales (simp_all add: program_names_def PidHasChanged_def)

lemma program_names_initialised: "IsGoogleLoggingInitialized (utils g) = (fst (program_names g) \<noteq> [])"
  by (simp add: program_names_def IsGoogleLoggingInitialized_def)

end
