(* ===== verification/Log_Frame.thy ===== *)
theory Log_Frame
  imports Log_Message_Spec
begin

section \<open>Logging: what sending leaves alone\<close>

text \<open>
  Sending a message changes the recorded events, the destinations, the globals, some counters and
  the strings and vectors of the user. A part of the state that does not look at these is the same
  afterwards, whatever the message is and wherever it goes; the locale states this once for every
  such part.
\<close>

locale untouched =
  fixes view :: "LogState \<Rightarrow> 'v"
  assumes view_laws:
    "\<And>st a. view (st\<lparr>events := a\<rparr>) = view st" "\<And>st a. view (st\<lparr>log_destinations := a\<rparr>) = view st"
    "\<And>st a. view (st\<lparr>globals := a\<rparr>) = view st" "\<And>st a. view (st\<lparr>already_warned := a\<rparr>) = view st"
    "\<And>st a. view (st\<lparr>openlog_called := a\<rparr>) = view st" "\<And>st a. view (st\<lparr>num_messages := a\<rparr>) = view st"
    "\<And>st a. view (st\<lparr>log_mutex := a\<rparr>) = view st" "\<And>st a. view (st\<lparr>errno := a\<rparr>) = view st"
    "\<And>st a. view (st\<lparr>fatal_message := a\<rparr>) = view st" "\<And>st a. view (st\<lparr>fatal_time := a\<rparr>) = view st"
    "\<And>st a. view (st\<lparr>outvecs := a\<rparr>) = view st" "\<And>st a. view (st\<lparr>strings := a\<rparr>) = view st"
begin

lemma view_updates:
  "view (event e st) = view st" "view (put_file sev d s st) = view st" "view (set_destination sev d st) = view st"
  "view (LogToSinks sv full base line m st) = view st" "view (WaitForSinks own st) = view st"
  "view (unlock_log_mutex st) = view st" "view (MaybeLogToEmail env sev st) = view st"
  "view (WriteToStderr m st) = view st"
  by (simp_all add: view_laws event_def put_file_def set_destination_def LogToSinks_eq WaitForSinks_eq
      unlock_log_mutex_def MaybeLogToEmail_def SendEmailInternal_def WriteToStderr_def case_prod_unfold)

lemmas view_rules = view_laws view_updates

lemma view_output_event: "output_event w st = Some st' \<Longrightarrow> view st' = view st"
  by (auto simp: output_event_def view_rules split: option.splits)

lemma view_log_destination: "log_destination env sev st = Some (d, st') \<Longrightarrow> view st' = view st"
  by (auto simp: log_destination_def view_laws Let_def split: if_splits option.splits)

lemma view_logger_write: "logger_write env force ts m sev d st = Some st' \<Longrightarrow> view st' = view st"
  by (auto simp: logger_write_def Let_def view_rules split: Logger.splits)

lemma view_MaybeLogToLogfile: "MaybeLogToLogfile env ts m sev st = Some st' \<Longrightarrow> view st' = view st"
  using view_log_destination view_logger_write
  by (fastforce simp: MaybeLogToLogfile_def Let_def bind_eq_Some_conv)

lemma view_logfiles_down: "logfiles_down (MaybeLogToLogfile env ts m) sev st = Some st' \<Longrightarrow> view st' = view st"
  by (induction sev arbitrary: st) (auto simp: bind_eq_Some_conv dest!: view_MaybeLogToLogfile)

lemma view_LogToAllLogfiles: "LogToAllLogfiles env sev ts m st = Some st' \<Longrightarrow> view st' = view st"
  by (auto simp: LogToAllLogfiles_def dest: view_output_event view_logfiles_down split: if_splits)

lemma view_MaybeLogToStderr: "MaybeLogToStderr sev m st = Some st' \<Longrightarrow> view st' = view st"
  by (auto simp: MaybeLogToStderr_def dest: view_output_event split: if_splits)

lemma view_write_all: "write_all env n i st = Some st' \<Longrightarrow> view st' = view st"
proof (induction n arbitrary: i st)
  case (Suc n)
  show ?case
  proof (cases "log_destinations st i")
    case None
    then show ?thesis using Suc by simp
next
    case (Some d)
    then obtain st1 where "logger_write env True 0 [] i d st = Some st1" "write_all env n (Suc i) st1 = Some st'"
      using Suc.prems by (auto simp: bind_eq_Some_conv)
    then show ?thesis using Suc.IH view_logger_write by metis
  qed
qed simp

lemma view_fatal_part: "fatal_part env d st = Some st' \<Longrightarrow> view st' = view st"
  unfolding fatal_part_def Let_def
  by (auto simp: bind_eq_Some_conv view_rules dest!: view_write_all split: if_splits)

lemma view_send_front:
  assumes "send_front env d st = Some (b, st')"
  shows "view st' = view st"
proof -
  let ?st1 = "if \<not> already_warned st \<and> \<not> IsGoogleLoggingInitialized (utils (globals st))
    then (WriteToStderr before_init_warning st)\<lparr>already_warned := True\<rparr> else st"
  have st1: "view ?st1 = view st" by (simp add: view_rules)
  let ?sev = "msg_severity d" and ?fl = "flags ?st1"
  let ?std = "FLAGS_logtostderr ?fl \<or> FLAGS_logtostdout ?fl \<or> \<not> IsGoogleLoggingInitialized (utils (globals st))"
  from assms have first: "(if ?std then
        output_event (if FLAGS_logtostdout ?fl then ColoredWriteToStdout (color_flags ?fl) ?sev (logged_text d)
          else ColoredWriteToStderr (color_flags ?fl) ?sev (logged_text d)) ?st1
      else do { sta \<leftarrow> LogToAllLogfiles env ?sev (timestamp (logmsgtime d)) (logged_text d) ?st1;
                stb \<leftarrow> MaybeLogToStderr ?sev (logged_text d) sta; Some (MaybeLogToEmail env ?sev stb) }) = Some st'"
    unfolding send_front_def Let_def bind_eq_Some_conv by blast
  have "view st' = view ?st1"
  proof (cases ?std)
    case True
    then show ?thesis using first view_output_event by (simp only: if_True)
next
    case False
    then obtain sta stb where "LogToAllLogfiles env ?sev (timestamp (logmsgtime d)) (logged_text d) ?st1 = Some sta"
      "MaybeLogToStderr ?sev (logged_text d) sta = Some stb" "st' = MaybeLogToEmail env ?sev stb"
      using first unfolding if_not_P[OF False] bind_eq_Some_conv by blast
    then show ?thesis using view_LogToAllLogfiles view_MaybeLogToStderr by (metis view_updates(7))
  qed
  then show ?thesis using st1 by simp
qed

lemma view_send_to_log: "send_to_log env d st = Some st' \<Longrightarrow> view st' = view st"
  by (auto simp: send_to_log_front Let_def bind_eq_Some_conv view_rules split: if_splits
      dest!: view_send_front view_fatal_part)

lemma view_send: "send env d st = Some st' \<Longrightarrow> view st' = view st"
  by (auto simp: send_def send_to_sink_def save_or_send_def write_to_string_def send_to_syslog_def bind_eq_Some_conv
      view_rules dest!: view_send_to_log split: SendMethod.splits Target.splits)

lemma view_Flush:
  assumes "Flush env d st = Some (d', st')"
  shows "view st' = view st"
proof (cases "has_been_flushed d \<or> int (msg_severity d) < FLAGS_minloglevel (flags st)")
  case True
  then show ?thesis using assms by (simp add: Flush_def)
next
  case False
  have free: "\<not> log_mutex st" using assms False by (cases "log_mutex st") (simp_all add: Flush_def)
  obtain st1 where send: "send env (finish_text env d) (st\<lparr>log_mutex := True\<rparr>) = Some st1"
    and st': "st' = (let st3 = WaitForSinks (own_sink d) (unlock_log_mutex
        (st1\<lparr>num_messages := (num_messages st1)(msg_severity d := num_messages st1 (msg_severity d) + 1)\<rparr>))
      in if preserved_errno d \<noteq> 0 then st3\<lparr>errno := preserved_errno d\<rparr> else st3)"
    using assms unfolding Flush_def Let_def if_not_P[OF False] if_not_P[OF free] bind_eq_Some_conv by blast
  have "view st' = view st1" unfolding st' by (simp add: Let_def view_rules)
  then show ?thesis using view_send[OF send] by (simp add: view_rules)
qed

end

text \<open>
  The part of the state that only other operations change: flags, sinks, mail, the prefix callback,
  and where the data of messages is kept.
\<close>

definition held :: "LogState \<Rightarrow> MsgFlags \<times> nat list option \<times> int \<times> string \<times> bool \<times>
    (nat \<Rightarrow> string \<Rightarrow> int \<Rightarrow> int \<Rightarrow> LogMessageTime \<Rightarrow> string) option \<times> (string \<times> nat \<times> nat) \<times> bool \<times> bool" where
  "held st = (flags st, sinks st, email_logging_severity st, addresses st, exit_on_dfatal st,
     custom_prefix_callback st, shared_data st, thread_data_available st, fatal_msg_exclusive st)"

interpretation held: untouched held
  by unfold_locales (simp_all add: held_def)

text \<open>What flushing does to the message itself.\<close>

lemma Flush_message:
  assumes "Flush env d st = Some (d', st')"
  shows "storage d' = storage d \<and> pcount d' = pcount d \<and> num_prefix_chars d' = num_prefix_chars d \<and>
    length (message_text d') = length (message_text d) \<and> msg_severity d' = msg_severity d"
proof -
  have "d' = d \<or> d' = (restore_text env d (finish_text env d))\<lparr>has_been_flushed := True\<rparr>"
    using assms by (auto simp: Flush_def Let_def bind_eq_Some_conv split: if_splits)
  then show ?thesis by (auto simp: restore_text_def finish_text_def Let_def)
qed

end
