(* ===== verification/Log_Storage.thy ===== *)
theory Log_Storage
  imports Log_Frame
begin

section \<open>Logging: the storage of messages\<close>

text \<open>
  Several messages can be alive at once: an expression that is written to a message can log itself,
  and a message can be kept. This theory shows that the data of the thread and the data of the
  first fatal message (\<open>allocate\<close> and \<open>release\<close> of \<^verbatim>\<open>Log_Message\<close>) is never used by two living
  messages of a thread.
\<close>

definition pool :: "LogState \<Rightarrow> bool \<times> bool" where
  "pool st = (thread_data_available st, fatal_msg_exclusive st)"

interpretation pool: untouched pool
  by unfold_locales (simp_all add: pool_def)

subsection \<open>The messages that are alive\<close>

text \<open>
  The living messages of a thread and the state of the library. A message is made by any of the
  constructors, which all run \<open>Init\<close> on a buffer of the same size; it is written to and flushed; and any of
  them may end, since a message can also be kept in a variable.
\<close>

inductive living :: "LogMessageData list \<Rightarrow> LogState \<Rightarrow> bool" where
  nothing: "thread_data_available st \<Longrightarrow> fatal_msg_exclusive st \<Longrightarrow> shared_ok st \<Longrightarrow> living [] st"
| made: "living ms st \<Longrightarrow> length buf = kMaxLogMessageLen + 1 \<Longrightarrow> Init env buf fname line sev method st = (d, st') \<Longrightarrow> living (d # ms) st'"
| written: "living (ms @ d # ms') st \<Longrightarrow> living (ms @ stream_put s d # ms') st"
| targeted: "living (ms @ d # ms') st \<Longrightarrow> living (ms @ d\<lparr>target := t, msg_ctr := c\<rparr> # ms') st"
| flushed: "living (ms @ d # ms') st \<Longrightarrow> Flush env d st = Some (d', st') \<Longrightarrow> living (ms @ d' # ms') st'"
| ended: "living (ms @ d # ms') st \<Longrightarrow> LogMessage_end env d st = Some (d', st') \<Longrightarrow> living (ms @ ms') st'"

definition users :: "Storage \<Rightarrow> LogMessageData list \<Rightarrow> nat" where
  "users k ms = length (filter (\<lambda>d. storage d = k) ms)"

lemma users_simps [simp]:
  "users k [] = 0" "users k (d # ms) = (if storage d = k then 1 else 0) + users k ms"
  "users k (ms @ ms') = users k ms + users k ms'"
  by (simp_all add: users_def)

definition storage_ok :: "LogMessageData list \<Rightarrow> LogState \<Rightarrow> bool" where
  "storage_ok ms st = (users ThreadData ms = (if thread_data_available st then 0 else 1) \<and>
     users ExclusiveData ms \<le> (if fatal_msg_exclusive st then 0 else 1))"

lemma storage_Init:
  assumes "Init env buf fname line sev method st = (d, st')"
  shows "(storage d, thread_data_available st', fatal_msg_exclusive st') =
    (if sev \<noteq> 3 \<or> \<not> exit_on_dfatal st then
       if thread_data_available st then (ThreadData, False, fatal_msg_exclusive st)
       else (HeapData, thread_data_available st, fatal_msg_exclusive st)
     else if fatal_msg_exclusive st then (ExclusiveData, thread_data_available st, False)
     else (SharedData, thread_data_available st, fatal_msg_exclusive st))"
  using assms by (auto simp: Init_def allocate_def Let_def case_prod_unfold split: if_splits)

lemma storage_ok_ended:
  assumes "storage_ok (ms @ d # ms') st" and "LogMessage_end env d st = Some (d', st')"
  shows "storage_ok (ms @ ms') st'"
proof -
  obtain st1 where st1: "Flush env d st = Some (d', st1)" "st' = release d' st1"
    using assms(2) by (auto simp: LogMessage_end_def bind_eq_Some_conv)
  then have "thread_data_available st1 = thread_data_available st" "fatal_msg_exclusive st1 = fatal_msg_exclusive st"
    "storage d' = storage d"
    using pool.view_Flush[OF st1(1)] Flush_message[OF st1(1)] by (simp_all add: pool_def)
  then show ?thesis using assms(1) st1(2)
    by (auto simp: storage_ok_def release_def split: Storage.splits if_splits)
qed

lemma living_storage_ok: "living ms st \<Longrightarrow> storage_ok ms st"
proof (induction rule: living.induct)
  case (made ms st buf env fname line sev how d st')
  then show ?case using storage_Init[OF made.hyps(3)] by (auto simp: storage_ok_def split: if_splits)
next
  case (flushed ms d ms' st env d' st')
  then have "thread_data_available st' = thread_data_available st" "fatal_msg_exclusive st' = fatal_msg_exclusive st"
    "storage d' = storage d"
    using pool.view_Flush[OF flushed.hyps(2)] Flush_message[OF flushed.hyps(2)] by (simp_all add: pool_def)
  then show ?case using flushed.IH by (simp add: storage_ok_def)
next
  case (ended ms d ms' st env d' st')
  then show ?case using storage_ok_ended by blast
qed (auto simp: storage_ok_def)

text \<open>C31. When no sink throws: whatever messages a thread has made, written to and ended, and in whatever order
  they end, at most one of the living ones uses the data of the thread, exactly when that data is marked as
  taken, and at most one ever uses the data of the first fatal message.\<close>

theorem storage_exclusive:
  assumes "living ms st"
  shows "length (filter (\<lambda>d. storage d = ThreadData) ms) = (if thread_data_available st then 0 else 1) \<and>
    length (filter (\<lambda>d. storage d = ExclusiveData) ms) \<le> 1"
  using living_storage_ok[OF assms] by (auto simp: storage_ok_def users_def split: if_splits)

theorem storage_exclusive_witness:
  "\<exists>d1 d2 st. living [d2, d1] st \<and> storage d1 = ThreadData \<and> storage d2 = HeapData \<and>
     length (filter (\<lambda>d. storage d = ThreadData) [d2, d1]) = 1"
proof -
  let ?buf = "replicate (kMaxLogMessageLen + 1) NUL"
  have l0: "living [] demo_log"
    by (rule living.nothing) (simp_all add: demo_log_def AddLogSink_def log_start_def shared_ok_def kMaxLogMessageLen_def)
  obtain d1 st1 where i1: "Init demo_msg_env ?buf ''a.cc'' 7 0 SendToLog demo_log = (d1, st1)" by (metis surj_pair)
  obtain d2 st2 where i2: "Init demo_msg_env ?buf ''a.cc'' 8 0 SendToLog st1 = (d2, st2)" by (metis surj_pair)
  have l: "living [d2, d1] st2" by (rule living.made[OF living.made[OF l0 _ i1] _ i2]) simp_all
  have s: "storage d1 = ThreadData" "storage d2 = HeapData" "\<not> thread_data_available st2"
    using storage_Init[OF i1] storage_Init[OF i2]
    by (auto simp: demo_log_def AddLogSink_def log_start_def split: if_splits)
  have "length (filter (\<lambda>d. storage d = ThreadData) [d2, d1]) = 1" using storage_exclusive[OF l] s by simp
  then show ?thesis using l s by blast
qed

text \<open>But later fatal messages share one object, also when they are alive at the same time.\<close>

lemma fatals_share_storage:
  assumes "exit_on_dfatal st" and "\<not> fatal_msg_exclusive st"
    and "Init env buf fname line 3 method st = (d1, st1)" and "Init env buf' fname' line' 3 method' st1 = (d2, st2)"
  shows "storage d1 = SharedData \<and> storage d2 = SharedData"
proof -
  have "exit_on_dfatal st1" "\<not> fatal_msg_exclusive st1"
    using assms(1-3) by (auto simp: Init_def allocate_def Let_def case_prod_unfold)
  then show ?thesis using assms storage_Init[OF assms(3)] storage_Init[OF assms(4)] by simp
qed

subsection \<open>The buffers\<close>

lemma Init_data_ok:
  assumes "length buf = kMaxLogMessageLen + 1" and "Init env buf fname line sev method st = (d, st1)" and "shared_ok st"
  shows "data_ok d \<and> shared_data st1 = shared_data st"
proof -
  obtain sto txt0 pos ctr st1' where al: "allocate buf sev st = (sto, (txt0, pos, ctr), st1')" by (metis surj_pair)
  note alo = allocate_ok[OF al assms(1) impI[OF assms(3)]]
  let ?d = "\<lparr>storage = sto, preserved_errno = errno st, message_text = txt0, pcount = pos, msg_severity = sev,
     msg_line = line, send_method = method, target = NoTarget, num_prefix_chars = 0, num_chars_to_log = 0,
     num_chars_to_syslog = 0, msg_basename = const_basename fname, fullname = fname,
     has_been_flushed = False, first_fatal = (sto = ExclusiveData), logmsgtime = message_time env st, msg_ctr = ctr\<rparr>"
  let ?d1 = "if FLAGS_log_prefix (flags st) \<and> line \<noteq> - 1 then stream_put (prefix_text env st ?d) ?d else ?d"
  let ?d2 = "?d1\<lparr>num_prefix_chars := pcount ?d1\<rparr>"
  have "data_ok ?d" using alo(1,2) by (simp add: data_ok_def)
  then have "data_ok ?d1" using stream_put_text(2) by simp
  then have "data_ok ?d2" by (simp add: data_ok_def)
  then have "data_ok (stream_put (backtrace_text env st ?d2) ?d2)" by (rule stream_put_text(2))
  moreover have "d = stream_put (backtrace_text env st ?d2) ?d2" "st1 = st1'"
    using assms(2) unfolding Init_def al Let_def prod.case by simp_all
  moreover have "shared_data st1' = shared_data st" by (subst alo(6)) simp
  ultimately show ?thesis by simp
qed

lemma Flush_data_ok:
  assumes "data_ok d" and "Flush env d st = Some (d', st')"
  shows "data_ok d' \<and> shared_data st' = shared_data st"
  using Flush_message[OF assms(2)] held.view_Flush[OF assms(2)] assms(1) by (simp add: data_ok_def held_def)

lemma living_data_ok: "living ms st \<Longrightarrow> shared_ok st \<and> (\<forall>d\<in>set ms. data_ok d)"
proof (induction rule: living.induct)
  case (made ms st buf env fname line sev how d st')
  then show ?case using Init_data_ok[OF made.hyps(2,3)] by (simp add: shared_ok_def)
next
  case (written ms d ms' st s)
  then show ?case using stream_put_text(2)[of d s] by auto
next
  case (flushed ms d ms' st env d' st')
  then show ?case using Flush_data_ok[OF _ flushed.hyps(2)] by (auto simp: shared_ok_def)
next
  case (ended ms d ms' st env d' st')
  then obtain st1 where st1: "Flush env d st = Some (d', st1)" "st' = release d' st1"
    by (auto simp: LogMessage_end_def bind_eq_Some_conv)
  then have "data_ok d'" "shared_data st1 = shared_data st" using Flush_data_ok[of d] ended.IH by auto
  then have "shared_ok st'"
    using ended.IH by (cases "storage d'") (simp_all add: st1(2) release_def shared_ok_def data_ok_def)
  then show ?case using ended.IH by auto
qed (auto simp: data_ok_def)

text \<open>C8. The buffers of messages are never left. Whatever messages are made, written to, flushed and ended in
  whatever order, each keeps a buffer of its size with its prefix in front and room for the two
  bytes that flushing adds: the newline and the terminator, which ends exactly the text that is
  logged, are stored inside.\<close>

theorem message_buffers:
  assumes "living ms st" and "d \<in> set ms"
  shows "length (message_text d) = kMaxLogMessageLen + 1 \<and> num_prefix_chars d \<le> pcount d \<and>
    pcount d + 1 < length (message_text d) \<and>
    num_chars_to_log (finish_text env d) < length (message_text (finish_text env d)) \<and>
    message_text (finish_text env d) ! num_chars_to_log (finish_text env d) = NUL \<and>
    num_chars_to_log (finish_text env d) \<in> {pcount d, pcount d + 1}"
proof -
  have ok: "data_ok d" using living_data_ok[OF assms(1)] assms(2) by blast
  then have "pcount d + 1 < length (message_text d)" by (simp add: data_ok_def kMaxLogMessageLen_def)
  then show ?thesis using ok by (auto simp: data_ok_def finish_text_def Let_def)
qed

theorem message_buffers_witness:
  "\<exists>d st. living [d] st \<and> length (message_text d) = 30001 \<and> pcount d + 1 < 30001"
proof -
  let ?buf = "replicate (kMaxLogMessageLen + 1) NUL"
  have l0: "living [] demo_log"
    by (rule living.nothing) (simp_all add: demo_log_def AddLogSink_def log_start_def shared_ok_def kMaxLogMessageLen_def)
  obtain d st1 where i: "Init demo_msg_env ?buf ''a.cc'' 7 0 SendToLog demo_log = (d, st1)" by (metis surj_pair)
  have l: "living [d] st1" by (rule living.made[OF l0 _ i]) simp
  show ?thesis using message_buffers[OF l, of d demo_msg_env] l
    by (intro exI[of _ d] exI[of _ st1]) (simp add: kMaxLogMessageLen_def)
qed

end
