(* ===== verification/Log_Library.thy ===== *)
theory Log_Library
  imports Log_Delivery Log_Storage
begin

section \<open>Logging: the library as a whole\<close>

text \<open>
  The calls a program makes on the library, in any order: messages of every kind that are not fatal, sinks, loggers,
  destinations, flushing, flags, initialisation and shutdown. Every call returns, and after it the log files
  are in order, the logging mutex is free and the data of the thread can be used again. (A fatal message unlocks
  the mutex twice: \<open>Log_Fatal\<close>.)
\<close>

subsection \<open>Calls\<close>

datatype MsgKind =
    ToLog
  | ToSink "nat option" bool
  | ToVector "nat option"
  | ToString "nat option"
  | Counted nat SendMethod

fun make_message :: "MsgEnv \<Rightarrow> string \<Rightarrow> string \<Rightarrow> int \<Rightarrow> nat \<Rightarrow> MsgKind \<Rightarrow> LogState \<Rightarrow> LogMessageData \<times> LogState" where
  "make_message env buf fname line sev ToLog st = LogMessage_severity env buf fname line sev st"
| "make_message env buf fname line sev (ToSink k also_log) st = LogMessage_sink env buf fname line sev k also_log st"
| "make_message env buf fname line sev (ToVector v) st = LogMessage_outvec env buf fname line sev v st"
| "make_message env buf fname line sev (ToString v) st = LogMessage_string env buf fname line sev v st"
| "make_message env buf fname line sev (Counted ctr how) st = LogMessage_method env buf fname line sev ctr how st"

text \<open>The functions of the interface; the flags are variables the program may assign to.\<close>

datatype Call =
    LogCall string string int nat MsgKind string
  | CallAddLogSink nat
  | CallRemoveLogSink nat
  | CallSetLogDestination nat string
  | CallSetLogSymlink nat string
  | CallSetLogFilenameExtension string
  | CallSetLogger nat Logger
  | CallFlushLogFiles nat
  | CallFlushLogFilesUnsafe nat
  | CallSetStderrLogging int
  | CallLogToStderr
  | CallSetEmailLogging int string
  | CallInit string
  | CallShutdown
  | CallSetExitOnDFatal bool
  | CallReprintFatalMessage
  | CallEnableLogCleaner nat
  | CallDisableLogCleaner
  | CallSetApplicationFingerprint string
  | SetFlags MsgFlags

fun lib_call :: "MsgEnv \<Rightarrow> Call \<Rightarrow> LogState \<Rightarrow> LogState option" where
  "lib_call env (LogCall buf fname line sev kind msg) st =
     map_option snd (log_message env msg (make_message env buf fname line sev kind st))"
| "lib_call env (CallAddLogSink k) st = Some (AddLogSink k st)"
| "lib_call env (CallRemoveLogSink k) st = Some (RemoveLogSink k st)"
| "lib_call env (CallSetLogDestination sev base) st = SetLogDestination env sev base st"
| "lib_call env (CallSetLogSymlink sev name) st = SetLogSymlink env sev name st"
| "lib_call env (CallSetLogFilenameExtension ext) st = SetLogFilenameExtension env ext st"
| "lib_call env (CallSetLogger sev l) st = SetLogger env sev l st"
| "lib_call env (CallFlushLogFiles sev) st = FlushLogFiles env sev st"
| "lib_call env (CallFlushLogFilesUnsafe sev) st = Some (FlushLogFilesUnsafe env sev st)"
| "lib_call env (CallSetStderrLogging sev) st = SetStderrLogging sev st"
| "lib_call env CallLogToStderr st = LogToStderr env st"
| "lib_call env (CallSetEmailLogging sev addrs) st = SetEmailLogging sev addrs st"
| "lib_call env (CallInit argv0) st = InitGoogleLogging argv0 st"
| "lib_call env CallShutdown st = ShutdownGoogleLogging st"
| "lib_call env (CallSetExitOnDFatal b) st = Some (SetExitOnDFatal b st)"
| "lib_call env CallReprintFatalMessage st = ReprintFatalMessage env st"
| "lib_call env (CallEnableLogCleaner days) st = Some (EnableLogCleaner days st)"
| "lib_call env CallDisableLogCleaner st = Some (DisableLogCleaner st)"
| "lib_call env (CallSetApplicationFingerprint f) st = Some (SetApplicationFingerprint f st)"
| "lib_call env (SetFlags fl) st = Some (st\<lparr>flags := fl\<rparr>)"

text \<open>
  What the callers must respect: the severities exist, messages are not fatal (the end of a fatal
  one unlocks the logging mutex twice, see \<^verbatim>\<open>Log_Fatal\<close>), the library is initialised once and shut down
  after that, the interval of the cleaner does not overflow, and a message does not consist of
  nothing but a prefix that ends in a newline.
\<close>

definition body_ok :: "MsgEnv \<Rightarrow> LogMessageData \<Rightarrow> bool" where
  "body_ok env d = (ends_in_newline env d \<longrightarrow> num_prefix_chars d < pcount d)"

fun call_ok :: "MsgEnv \<Rightarrow> Call \<Rightarrow> LogState \<Rightarrow> bool" where
  "call_ok env (LogCall buf fname line sev kind msg) st =
     (sev < NUM_SEVERITIES \<and> length buf = kMaxLogMessageLen + 1 \<and>
      \<not> (sev = 3 \<and> exit_on_dfatal st) \<and>
      body_ok env (stream_put msg (fst (make_message env buf fname line sev kind st))))"
| "call_ok env (CallSetLogDestination sev base) st = (sev < NUM_SEVERITIES)"
| "call_ok env (CallSetLogSymlink sev name) st = (sev < NUM_SEVERITIES)"
| "call_ok env (CallSetLogger sev l) st = (sev < NUM_SEVERITIES)"
| "call_ok env (CallSetStderrLogging sev) st = (0 \<le> sev \<and> sev < int NUM_SEVERITIES)"
| "call_ok env (CallSetEmailLogging sev addrs) st = (0 \<le> sev \<and> sev < int NUM_SEVERITIES)"
| "call_ok env (CallInit argv0) st = (\<not> IsGoogleLoggingInitialized (utils (globals st)))"
| "call_ok env CallShutdown st = IsGoogleLoggingInitialized (utils (globals st))"
| "call_ok env (CallEnableLogCleaner days) st =
     (0 \<le> FLAGS_logcleansecs (file_flags (flags st)) \<and> FLAGS_logcleansecs (file_flags (flags st)) \<le> 2147)"
| "call_ok env (SetFlags fl) st = cleaner_ok (file_flags fl) (log_cleaner (globals st))"
| "call_ok env _ st = True"

inductive lib_reach :: "LogState \<Rightarrow> bool" where
  start: "lib_reach (log_start fl pid)"
| call: "lib_reach st \<Longrightarrow> call_ok env c st \<Longrightarrow> lib_call env c st = Some st' \<Longrightarrow> lib_reach st'"

definition lib_ok :: "LogState \<Rightarrow> bool" where
  "lib_ok st = (log_ok st \<and> \<not> log_mutex st \<and> thread_data_available st \<and> shared_ok st \<and>
     UnlockedTwice \<notin> set (events st))"

subsection \<open>Messages of every kind\<close>

lemma Init_data:
  assumes "length buf = kMaxLogMessageLen + 1" and "shared_ok st" and "Init env buf fname line sev how st = (d, st1)"
  shows "data_ok d \<and> msg_severity d = sev \<and>
    st1 = st\<lparr>thread_data_available := thread_data_available st1, fatal_msg_exclusive := fatal_msg_exclusive st1\<rparr>"
proof -
  obtain sto txt0 pos ctr st1' where al: "allocate buf sev st = (sto, (txt0, pos, ctr), st1')"
    by (metis surj_pair)
  note alo = allocate_ok[OF al assms(1)]
  have put: "data_ok e \<Longrightarrow> data_ok (stream_put s e)" for s e by (rule stream_put_text(2))
  have pre: "data_ok e \<Longrightarrow> data_ok (e\<lparr>num_prefix_chars := pcount e\<rparr>)" for e by (simp add: data_ok_def)
  let ?d = "\<lparr>storage = sto, preserved_errno = errno st, message_text = txt0, pcount = pos, msg_severity = sev,
     msg_line = line, send_method = how, target = NoTarget, num_prefix_chars = 0, num_chars_to_log = 0,
     num_chars_to_syslog = 0, msg_basename = const_basename fname, fullname = fname,
     has_been_flushed = False, first_fatal = (sto = ExclusiveData), logmsgtime = message_time env st, msg_ctr = ctr\<rparr>"
  have "data_ok ?d" using alo(1,2) assms(2) by (simp add: data_ok_def)
  then show ?thesis
    using assms(3) alo(6) assms(2) unfolding Init_def al Let_def prod.case by (auto intro!: put pre)
qed

lemma make_message_data:
  assumes "length buf = kMaxLogMessageLen + 1" and "shared_ok st" and "make_message env buf fname line sev kind st = (d, st1)"
  shows "data_ok d \<and> msg_severity d = sev \<and>
    st1 = st\<lparr>thread_data_available := thread_data_available st1, fatal_msg_exclusive := fatal_msg_exclusive st1\<rparr>"
    and "\<exists>how d0. Init env buf fname line sev how st = (d0, st1) \<and> storage d = storage d0"
proof -
  obtain how d0 where m: "Init env buf fname line sev how st = (d0, st1)" "storage d = storage d0"
    "message_text d = message_text d0" "pcount d = pcount d0" "num_prefix_chars d = num_prefix_chars d0"
    "msg_severity d = msg_severity d0"
    using assms(3)
    by (cases kind) (auto simp: LogMessage_severity_def LogMessage_sink_def LogMessage_outvec_def
        LogMessage_string_def LogMessage_method_def Let_def split: prod.splits if_splits)
  show "data_ok d \<and> msg_severity d = sev \<and>
    st1 = st\<lparr>thread_data_available := thread_data_available st1, fatal_msg_exclusive := fatal_msg_exclusive st1\<rparr>"
    using Init_data[OF assms(1,2) m(1)] m(3-6) by (simp add: data_ok_def)
  show "\<exists>how d0. Init env buf fname line sev how st = (d0, st1) \<and> storage d = storage d0"
    using m by auto
qed

text \<open>Sending by any of the methods returns, with the mutex still held.\<close>

definition unlocked_once :: "LogState \<Rightarrow> bool" where
  "unlocked_once st = (log_ok st \<and> log_mutex st \<and> UnlockedTwice \<notin> set (events st))"

lemma send_to_log_returns:
  assumes "unlocked_once st" and "\<not> (msg_severity d = 3 \<and> exit_on_dfatal st)"
    and "msg_severity d < 4" and "message_body d = Some b"
  shows "\<exists>st'. send_to_log env d st = Some st' \<and> unlocked_once st'"
proof -
  obtain st' es where st': "send_to_log env d st = Some st'" "log_ok st'" "log_mutex st' = log_mutex st"
    "list_all no_sink_event es"
    "events st' = events st @ es @ map (\<lambda>k. SinkSend k (msg_severity d) (fullname d) (msg_basename d) (msg_line d) b)
      (rev (sink_list st))"
    using send_to_log_ok[OF _ assms(3,2,4), of env] assms(1) unfolding unlocked_once_def by blast
  then show ?thesis using assms(1) no_sink_event_unlock[OF st'(4)] by (auto simp: unlocked_once_def)
qed

lemma send_returns:
  assumes "unlocked_once st" and "\<not> (msg_severity d = 3 \<and> exit_on_dfatal st)"
    and "msg_severity d < 4" and "message_body d = Some b"
  shows "\<exists>st'. send env d st = Some st' \<and> unlocked_once st'"
proof -
  have ok: "unlocked_once (st\<lparr>strings := s\<rparr>)" "unlocked_once (st\<lparr>outvecs := v\<rparr>)"
    "unlocked_once (event (Syslog l m) (st\<lparr>openlog_called := o1\<rparr>))" for s v o1 l m
    using assms(1) by (simp_all add: unlocked_once_def log_ok_def consistent_get_file event_def)
  have sink: "\<exists>st1. send_to_sink d st = Some st1 \<and> unlocked_once st1 \<and> exit_on_dfatal st1 = exit_on_dfatal st"
    using assms by (auto simp: send_to_sink_def unlocked_once_def event_def log_ok_def consistent_get_file split: Target.split)
  note go = send_to_log_returns[OF _ _ assms(3,4), of _ env]
  show ?thesis
  proof (cases "send_method d")
    case SendToLog
    then show ?thesis using go assms by (simp add: send_def)
  next
    case SendToSink
    then show ?thesis using sink by (auto simp: send_def)
  next
    case SendToSinkAndLog
    then show ?thesis using sink go assms(2) by (fastforce simp: send_def)
  next
    case SaveOrSendToLog
    then show ?thesis using assms ok go by (auto simp: send_def save_or_send_def split: Target.split)
  next
    case WriteToStringAndLog
    then show ?thesis using assms ok go by (auto simp: send_def write_to_string_def split: Target.split)
  next
    case SendToSyslogAndLog
    then show ?thesis using assms ok go by (simp add: send_def send_to_syslog_def event_def)
  qed
qed

lemma Flush_returns:
  assumes "log_ok st" and "\<not> log_mutex st" and "UnlockedTwice \<notin> set (events st)"
    and "\<not> (msg_severity d = 3 \<and> exit_on_dfatal st)"
    and "msg_severity d < 4" and "data_ok d" and "body_ok env d"
  shows "\<exists>d' st'. Flush env d st = Some (d', st') \<and> log_ok st' \<and> \<not> log_mutex st' \<and> UnlockedTwice \<notin> set (events st')"
proof (cases "has_been_flushed d \<or> int (msg_severity d) < FLAGS_minloglevel (flags st)")
  case True
  then show ?thesis using assms by (simp add: Flush_def)
next
  case False
  have "sendable env d" using assms(6,7) by (simp add: sendable_def body_ok_def)
  then have b: "message_body (finish_text env d) = Some (sent_body env d)" by (rule finish_text_body)
  have "unlocked_once (st\<lparr>log_mutex := True\<rparr>)" using assms(1,3) by (simp add: unlocked_once_def)
  then obtain st1 where st1: "send env (finish_text env d) (st\<lparr>log_mutex := True\<rparr>) = Some st1" "unlocked_once st1"
    using send_returns[of "st\<lparr>log_mutex := True\<rparr>" "finish_text env d" _ env] assms(4,5) b by auto
  let ?st2 = "unlock_log_mutex (st1\<lparr>num_messages := (num_messages st1)(msg_severity d := num_messages st1 (msg_severity d) + 1)\<rparr>)"
  have "log_ok ?st2 \<and> \<not> log_mutex ?st2 \<and> UnlockedTwice \<notin> set (events ?st2)"
    using st1(2) by (simp add: unlock_log_mutex_def unlocked_once_def)
  then show ?thesis using st1(1) False assms(2) by (auto simp: Flush_def Let_def WaitForSinks_eq)
qed

lemma message_returns:
  assumes "lib_ok st" and "call_ok env (LogCall buf fname line sev kind msg) st"
  shows "\<exists>st'. lib_call env (LogCall buf fname line sev kind msg) st = Some st' \<and> lib_ok st'"
proof -
  obtain d0 st1 where m: "make_message env buf fname line sev kind st = (d0, st1)" by (metis surj_pair)
  let ?d = "stream_put msg d0"
  have len: "length buf = kMaxLogMessageLen + 1" and sh: "shared_ok st" and ok: "log_ok st" "\<not> log_mutex st" "thread_data_available st"
    and once: "UnlockedTwice \<notin> set (events st)" "\<not> (sev = 3 \<and> exit_on_dfatal st)"
    using assms by (simp_all add: lib_ok_def)
  note made = make_message_data[OF len sh m]
  have st1: "st1 = st\<lparr>thread_data_available := thread_data_available st1, fatal_msg_exclusive := fatal_msg_exclusive st1\<rparr>"
    using made(1) by simp
  have d: "data_ok ?d" "msg_severity ?d < 4" "body_ok env ?d" "msg_severity ?d = sev"
    using made(1) stream_put_text(2) assms(2) m by (simp_all add: NUM_SEVERITIES_def)
  have st1_fields: "events st1 = events st" "exit_on_dfatal st1 = exit_on_dfatal st" by (subst st1, simp)+
  obtain d' st2 where f: "Flush env ?d st1 = Some (d', st2)" "log_ok st2" "\<not> log_mutex st2"
    "UnlockedTwice \<notin> set (events st2)"
    using Flush_returns[of st1 ?d env] d ok once st1_fields allocation_fields[OF st1] by auto
  have shared1: "shared_data st1 = shared_data st" by (subst st1) simp
  obtain how e where "Init env buf fname line sev how st = (e, st1)" "storage d0 = storage e" using made(2) by blast
  from storage_Init[OF this(1)] this(2)
  have sto: "(if storage d0 = ThreadData then \<not> thread_data_available st1 else thread_data_available st1)"
    using ok(3) by (auto split: if_splits)
  have h: "thread_data_available st2 = thread_data_available st1" "shared_data st2 = shared_data st1"
    using held.view_Flush[OF f(1)] by (simp_all add: held_def)
  note d' = Flush_message[OF f(1)]
  have "thread_data_available (release d' st2) \<and> shared_ok (release d' st2)"
    using sto h d' d(1) sh shared1
    by (cases "storage d0") (auto simp: release_def shared_ok_def data_ok_def)
  then have "lib_ok (release d' st2)" using f(2-4) by (simp add: lib_ok_def)
  then show ?thesis using f(1) by (simp add: log_message_def m LogMessage_end_def)
qed

subsection \<open>Destinations and flushing\<close>

text \<open>The rest of the invariant looks at nothing that the operations on destinations change.\<close>

lemma lib_ok_iff: "lib_ok st \<longleftrightarrow> log_ok st \<and> \<not> log_mutex st \<and> thread_data_available st \<and>
    length (fst (shared_data st)) = kMaxLogMessageLen + 1 \<and> fst (snd (shared_data st)) \<le> kMaxLogMessageLen - 2 \<and>
    UnlockedTwice \<notin> set (events st)"
  by (auto simp: lib_ok_def shared_ok_def)

lemma destination_fields [simp]:
  "thread_data_available (put_file sev d s st) = thread_data_available st"
  "shared_data (put_file sev d s st) = shared_data st" "shared_data (event e st) = shared_data st"
  "thread_data_available (event e st) = thread_data_available st"
  by (cases s; simp add: put_file_def set_destination_def event_def)+

lemma lib_ok_event [simp]: "lib_ok (event e st) \<longleftrightarrow> lib_ok st \<and> e \<noteq> UnlockedTwice"
  by (auto simp: lib_ok_iff event_def log_ok_def consistent_get_file)

lemma put_file_events [simp]: "events (put_file sev d s st) = events st"
  by (cases s) (simp add: put_file_def set_destination_def)

lemma lib_ok_put_file:
  assumes "lib_ok st" and "consistent s" and "log_cleaner (snd s) = log_cleaner (globals st)"
  shows "lib_ok (put_file sev d s st)"
  using assms put_file_ok[of st s sev d] by (simp add: lib_ok_iff log_ok_def)

lemma lib_ok_destination:
  assumes "lib_ok st" and "sev < NUM_SEVERITIES"
  shows "\<exists>d st1. log_destination env sev st = Some (d, st1) \<and> lib_ok st1 \<and> log_destinations st1 sev = Some d"
proof -
  have ok: "log_ok st" using assms(1) by (simp add: lib_ok_def)
  obtain d st1 where d: "log_destination env sev st = Some (d, st1)" "log_ok st1" "log_destinations st1 sev = Some d"
    "log_mutex st1 = log_mutex st" "events st1 = events st"
    using log_destination_ok[OF ok assms(2), of env] by blast
  then show ?thesis using assms(1) held.view_log_destination[OF d(1)] by (simp add: lib_ok_iff held_def)
qed

lemma get_file_ok:
  assumes "lib_ok st" and "log_destinations st sev = Some d"
  shows "consistent (get_file d st)" and "log_cleaner (snd (get_file d st)) = log_cleaner (globals st)"
  using assms by (auto simp: lib_ok_def log_ok_def get_file_def)

text \<open>Operations of a file object that keep the order of its handle and leave the cleaner alone.\<close>

definition file_safe :: "(FileState \<Rightarrow> FileState) \<Rightarrow> bool" where
  "file_safe op = (\<forall>s. consistent s \<longrightarrow> consistent (op s) \<and> log_cleaner (snd (op s)) = log_cleaner (snd s))"

lemma file_safe_ops:
  "file_safe (SetBasename b)" "file_safe (SetExtension e)" "file_safe (SetSymlinkBasename l)"
  "file_safe (FlushUnlocked fl env)" "file_safe LogFileObject_delete"
proof -
  show "file_safe (SetBasename b)" by (simp add: file_safe_def consistent_SetBasename SetBasename_cleaner)
  show "file_safe (SetExtension e)" by (simp add: file_safe_def consistent_SetExtension SetExtension_cleaner)
  show "file_safe (SetSymlinkBasename l)"
    using consistent_SetSymlinkBasename[of _ l] by (auto simp: file_safe_def SetSymlinkBasename_def)
  show "file_safe (FlushUnlocked fl env)" by (simp add: file_safe_def consistent_FlushUnlocked FlushUnlocked_fields)
  show "file_safe LogFileObject_delete"
    by (simp add: file_safe_def LogFileObject_delete_def consistent_close close_file_cleaner)
qed

lemma lib_ok_op_same:
  assumes "lib_ok st" and "log_destinations st sev = Some d" and "file_safe op" and "get_file e st = get_file d st"
  shows "lib_ok (put_file sev e (op (get_file e st)) st)"
  using assms(3)[unfolded file_safe_def, rule_format, OF get_file_ok(1)[OF assms(1,2)]] get_file_ok(2)[OF assms(1,2)]
  unfolding assms(4) by (intro lib_ok_put_file[OF assms(1)]) simp_all

lemmas lib_ok_op = lib_ok_op_same[OF _ _ _ refl]

lemma lib_ok_on_file:
  assumes "lib_ok st" and "sev < NUM_SEVERITIES" and "file_safe op"
  shows "\<exists>st'. on_file env sev op st = Some st' \<and> lib_ok st'"
proof -
  obtain d st1 where "log_destination env sev st = Some (d, st1)" "lib_ok st1" "log_destinations st1 sev = Some d"
    using lib_ok_destination[OF assms(1,2)] by blast
  then show ?thesis using lib_ok_op[OF _ _ assms(3)] by (simp add: on_file_def)
qed

lemma lib_ok_SetLoggerImpl:
  assumes "lib_ok st" and "log_destinations st sev = Some d"
  shows "lib_ok (SetLoggerImpl sev d l st) \<and> (\<exists>d'. log_destinations (SetLoggerImpl sev d l st) sev = Some d' \<and>
    fileobject d' = fileobject d \<and> file_effects d' = file_effects d)"
  using assms
  by (auto simp: SetLoggerImpl_def Let_def lib_ok_iff log_ok_def set_destination_def consistent_get_file
      split: Logger.split)

subsection \<open>The loops over the severities\<close>

text \<open>
  The loops that run from a severity upwards have the same shape; what they need of their bodies is
  that each keeps the invariant and returns.
\<close>

locale severity_loop =
  fixes op :: "nat \<Rightarrow> 's \<Rightarrow> 's option" and loop :: "nat \<Rightarrow> nat \<Rightarrow> 's \<Rightarrow> 's option" and inv :: "'s \<Rightarrow> bool"
  assumes loop_end: "loop 0 i s = Some s"
    and loop_step: "loop (Suc n) i s = Option.bind (op i s) (loop n (Suc i))"
    and op_inv: "inv s \<Longrightarrow> i < NUM_SEVERITIES \<Longrightarrow> \<exists>s'. op i s = Some s' \<and> inv s'"
begin

lemma loop_returns: "inv s \<Longrightarrow> n + i \<le> NUM_SEVERITIES \<Longrightarrow> \<exists>s'. loop n i s = Some s' \<and> inv s'"
proof (induction n arbitrary: i s)
  case 0
  then show ?case by (simp add: loop_end)
next
  case (Suc n)
  obtain s1 where "op i s = Some s1" "inv s1" using op_inv[OF Suc.prems(1), of i] Suc.prems(2) by auto
  then show ?case using Suc.IH[of s1 "Suc i"] Suc.prems(2) by (simp add: loop_step)
qed

end

definition flush_one :: "MsgEnv \<Rightarrow> nat \<Rightarrow> LogState \<Rightarrow> LogState option" where
  "flush_one env i st = map_option (\<lambda>(d, st1). logger_flush env i d st1) (log_destination env i st)"

lemma lib_ok_flush_one:
  assumes "lib_ok st" and "i < NUM_SEVERITIES"
  shows "\<exists>st'. flush_one env i st = Some st' \<and> lib_ok st'"
proof -
  obtain d st1 where d: "log_destination env i st = Some (d, st1)" "lib_ok st1" "log_destinations st1 i = Some d"
    using lib_ok_destination[OF assms] by blast
  let ?st2 = "event (LoggerFlush i (logger d)) st1"
  have "lib_ok ?st2" "log_destinations ?st2 i = Some d" using d(2,3) by simp_all
  then have "lib_ok (put_file i d (FlushUnlocked (file_flags (flags st1)) (file_env env) (get_file d ?st2)) ?st2)"
    by (rule lib_ok_op[OF _ _ file_safe_ops(4)])
  moreover have "get_file d ?st2 = get_file d st1" by (simp add: get_file_def)
  ultimately have "lib_ok (logger_flush env i d st1)"
    using d(2) by (auto simp: logger_flush_def Let_def split: Logger.split)
  then show ?thesis using d(1) by (simp add: flush_one_def)
qed

interpretation flushing: severity_loop "flush_one env" "flush_loop env" lib_ok for env
proof
  show "flush_loop env (Suc n) i s = Option.bind (flush_one env i s) (flush_loop env n (Suc i))" for n i s
    by (auto simp: flush_one_def split: bind_split)
qed (simp_all add: lib_ok_flush_one)

interpretation extensions: severity_loop "\<lambda>i. on_file env i (SetExtension ext)" "extension_loop env ext" lib_ok for env ext
  by unfold_locales (simp_all add: lib_ok_on_file file_safe_ops)

interpretation no_files: severity_loop "\<lambda>i. SetLogDestination env i []" "no_files_loop env" lib_ok for env
  by unfold_locales (simp_all add: SetLogDestination_def lib_ok_on_file file_safe_ops)

lemma lib_ok_flush_unsafe: "lib_ok st \<Longrightarrow> lib_ok (flush_unsafe_loop env n i st)"
proof (induction n arbitrary: i st)
  case (Suc n)
  show ?case
  proof (cases "log_destinations st i")
    case None
    then show ?thesis using Suc by simp
  next
    case (Some d)
    then show ?thesis using Suc.IH[OF lib_ok_op[OF Suc.prems Some file_safe_ops(4)]] by simp
  qed
qed simp

lemma lib_ok_forget: "lib_ok st \<Longrightarrow> lib_ok (st\<lparr>log_destinations := (log_destinations st)(i := None)\<rparr>)"
  by (auto simp: lib_ok_iff log_ok_def consistent_get_file)

lemma lib_ok_delete: "lib_ok st \<Longrightarrow> lib_ok (delete_loop n i st)"
proof (induction n arbitrary: i st)
  case (Suc n)
  show ?case
  proof (cases "log_destinations st i")
    case None
    then show ?thesis using Suc by simp
  next
    case (Some d)
    let ?st1 = "SetLoggerImpl i d OwnFile st"
    obtain d' where d': "lib_ok ?st1" "log_destinations ?st1 i = Some d'" "fileobject d' = fileobject d"
      "file_effects d' = file_effects d"
      using lib_ok_SetLoggerImpl[OF Suc.prems Some, of OwnFile] by blast
    have same: "get_file d ?st1 = get_file d' ?st1" using d'(3,4) by (simp add: get_file_def)
    have "lib_ok (put_file i d (LogFileObject_delete (get_file d ?st1)) ?st1)"
      by (rule lib_ok_op_same[OF d'(1,2) file_safe_ops(5) same])
    then show ?thesis using Suc.IH[OF lib_ok_forget] Some by (simp add: Let_def)
  qed
qed simp

subsection \<open>Every call returns\<close>

lemma lib_ok_globals:
  "lib_ok (st\<lparr>globals := (globals st)\<lparr>utils := u\<rparr>\<rparr>) = lib_ok st"
  "lib_ok (st\<lparr>globals := (globals st)\<lparr>application_fingerprint := f\<rparr>\<rparr>) = lib_ok st"
  "lib_ok (st\<lparr>sinks := ks\<rparr>) = lib_ok st" "lib_ok (st\<lparr>exit_on_dfatal := b\<rparr>) = lib_ok st"
  "lib_ok (st\<lparr>email_logging_severity := e, addresses := a\<rparr>) = lib_ok st"
  "lib_ok (st\<lparr>flags := (flags st)\<lparr>color_flags := cf\<rparr>\<rparr>) = lib_ok st"
  by (simp_all add: lib_ok_iff log_ok_def consistent_get_file)

lemma lib_ok_start: "lib_ok (log_start fl pid)"
  using log_ok_start by (simp add: lib_ok_iff log_start_def kMaxLogMessageLen_def)

lemma lib_ok_LogToAllLogfiles:
  assumes "lib_ok st" and "sev < NUM_SEVERITIES"
  shows "\<exists>st'. LogToAllLogfiles env sev ts m st = Some st' \<and> lib_ok st'"
proof -
  have "log_ok st" "sev < 4" using assms by (simp_all add: lib_ok_def NUM_SEVERITIES_def)
  then obtain st' where st': "LogToAllLogfiles env sev ts m st = Some st'" "sent_from st st'"
    using sent_from_logfiles[OF sent_from_refl] by blast
  then show ?thesis using assms(1) held.view_LogToAllLogfiles[OF st'(1)] no_sink_event_unlock
    by (fastforce simp: lib_ok_iff sent_from_def held_def)
qed

lemma call_returns:
  assumes "lib_ok st" and "call_ok env c st"
  shows "\<exists>st'. lib_call env c st = Some st' \<and> lib_ok st'"
proof (cases c)
  case (LogCall buf fname line sev kind msg)
  then show ?thesis using message_returns assms by blast
next
  case (CallSetLogDestination sev base)
  then show ?thesis using lib_ok_on_file[OF assms(1) _ file_safe_ops(1)] assms(2) by (simp add: SetLogDestination_def)
next
  case (CallSetLogSymlink sev name)
  then show ?thesis using lib_ok_on_file[OF assms(1) _ file_safe_ops(3)] assms(2) by (simp add: SetLogSymlink_def)
next
  case (CallSetLogFilenameExtension ext)
  then show ?thesis using extensions.loop_returns[OF assms(1), of NUM_SEVERITIES 0]
    by (simp add: SetLogFilenameExtension_def)
next
  case (CallSetLogger sev l)
  then obtain d st1 where "log_destination env sev st = Some (d, st1)" "lib_ok st1" "log_destinations st1 sev = Some d"
    using lib_ok_destination[OF assms(1)] assms(2) by fastforce
  then show ?thesis using CallSetLogger lib_ok_SetLoggerImpl by (simp add: SetLogger_def)
next
  case (CallFlushLogFiles sev)
  show ?thesis
  proof (cases "sev \<le> NUM_SEVERITIES")
    case True
    then show ?thesis using flushing.loop_returns[OF assms(1), of "NUM_SEVERITIES - sev" sev] CallFlushLogFiles
      by (simp add: FlushLogFiles_def)
  qed (use assms(1) CallFlushLogFiles in \<open>simp add: FlushLogFiles_def\<close>)
next
  case (CallFlushLogFilesUnsafe sev)
  then show ?thesis using lib_ok_flush_unsafe[OF assms(1)] by (simp add: FlushLogFilesUnsafe_def)
next
  case CallLogToStderr
  have "lib_ok (st\<lparr>flags := (flags st)\<lparr>color_flags := (color_flags (flags st))\<lparr>stderrthreshold := 0\<rparr>\<rparr>\<rparr>)"
    using assms(1) by (simp add: lib_ok_globals)
  from no_files.loop_returns[OF this, of NUM_SEVERITIES 0] show ?thesis
    using CallLogToStderr by (simp add: LogToStderr_def SetStderrLogging_def NUM_SEVERITIES_def)
next
  case CallShutdown
  have "lib_ok (DeleteLogDestinations (st\<lparr>globals := (globals st)\<lparr>utils := u\<rparr>\<rparr>))" for u
    using lib_ok_delete assms(1) by (simp add: DeleteLogDestinations_def lib_ok_globals)
  then show ?thesis using CallShutdown assms(2)
    by (simp add: ShutdownGoogleLogging_def ShutdownGoogleLoggingUtilities_def)
next
  case CallReprintFatalMessage
  have "lib_ok (WriteToStderr (fatal_message st) st)" using assms(1) by (simp add: WriteToStderr_def)
  then show ?thesis using CallReprintFatalMessage assms(1) lib_ok_LogToAllLogfiles
    by (simp add: ReprintFatalMessage_def Let_def NUM_SEVERITIES_def)
next
  case (CallEnableLogCleaner days)
  then show ?thesis using assms
    by (auto simp: EnableLogCleaner_def lib_ok_iff log_ok_def consistent_get_file cleaner_ok_def)
next
  case CallDisableLogCleaner
  then show ?thesis using assms
    by (auto simp: DisableLogCleaner_def lib_ok_iff log_ok_def consistent_get_file cleaner_ok_def Disable_def)
next
  case (SetFlags fl)
  then show ?thesis using assms by (auto simp: lib_ok_iff log_ok_def consistent_get_file)
qed (use assms in \<open>auto simp: AddLogSink_def RemoveLogSink_def SetStderrLogging_def SetEmailLogging_def
    InitGoogleLogging_def InitGoogleLoggingUtilities_def Let_def SetExitOnDFatal_def SetApplicationFingerprint_def
    lib_ok_globals split: option.split\<close>)

lemma lib_reach_ok: "lib_reach st \<Longrightarrow> lib_ok st"
proof (induction rule: lib_reach.induct)
  case (call st env c st')
  then show ?case using call_returns[OF call.IH call.hyps(2)] by auto
qed (rule lib_ok_start)


text \<open>A program whose first call is a warning ''hi''.\<close>

definition demo_call_hi :: Call where
  "demo_call_hi = LogCall (replicate 30001 NUL) ''a.cc'' 7 1 ToLog ''hi''"

lemma demo_call_hi_ok: "call_ok demo_msg_env demo_call_hi (log_start default_msg_flags 77)"
proof -
  let ?st = "log_start default_msg_flags 77"
  obtain d0 st0 where init: "LogMessage_severity demo_msg_env (replicate 30001 NUL) ''a.cc'' 7 1 ?st = (d0, st0)"
    by (metis surj_pair)
  have pre: "length (replicate 30001 NUL) = kMaxLogMessageLen + 1" "FLAGS_log_backtrace_at (flags ?st) = []"
    "custom_prefix_callback ?st = None" "FLAGS_log_prefix (flags ?st)" "uses_shared 1 ?st \<longrightarrow> shared_ok ?st"
    by (simp_all add: log_start_def default_msg_flags_def kMaxLogMessageLen_def uses_shared_def)
  note ok = Init_ok[OF pre(1) init[unfolded LogMessage_severity_def] pre(2,5)]
  have same: "standard_prefix demo_msg_env ?st = standard_prefix demo_msg_env demo_log"
    by (simp add: standard_prefix_def message_time_def fun_eq_iff demo_log_fields) (simp add: log_start_def)
  have "msg_text d0 = standard_prefix demo_msg_env ?st ''a.cc'' 7 1"
    using ok(2)[OF pre(3,4)] demo_prefix_length[of 1] by (simp add: same uses_shared_def kMaxLogMessageLen_def)
  moreover have d0: "data_ok d0" "num_prefix_chars d0 = pcount d0" using ok(1) by simp_all
  ultimately have small: "pcount d0 \<le> 100" using length_msg_text[OF d0(1)] demo_prefix_length[of 1] same by simp
  have d: "data_ok (stream_put ''hi'' d0)" "msg_text (stream_put ''hi'' d0) = msg_text d0 @ ''hi''"
    using stream_put_text[OF d0(1), of "''hi''"] small by (simp_all add: kMaxLogMessageLen_def)
  then have "pcount (stream_put ''hi'' d0) = pcount d0 + 2" using length_msg_text[OF d(1)] length_msg_text[OF d0(1)] by simp
  then show ?thesis
    using d0(2) pre(1) by (simp add: demo_call_hi_def init body_ok_def NUM_SEVERITIES_def del: One_nat_def)
qed


text \<open>C5. In every state that any sequence of the calls above leads to, without fatal messages, the files of all severities are in order:
  each was opened only when no other file of its severity was open, only the open one was written,
  and none was closed twice; the logging mutex is free and was never unlocked when it was not held, and
  the data of the thread can be used by the message made after it.\<close>

theorem library_in_order:
  assumes "lib_reach st"
  shows "(\<forall>sev d. log_destinations st sev = Some d \<longrightarrow>
      run_effects None (file_effects d) = Some (log_file (fileobject d))) \<and>
    \<not> log_mutex st \<and> UnlockedTwice \<notin> set (events st) \<and> thread_data_available st"
  using lib_reach_ok[OF assms] by (simp add: lib_ok_iff log_ok_def consistent_get_file)

theorem library_in_order_witness:
  "\<exists>st d. lib_call demo_msg_env (CallSetLogDestination 0 ''/tmp/a.'') (log_start default_msg_flags 77) = Some st \<and>
     log_destinations st 0 = Some d \<and> run_effects None (file_effects d) = Some (log_file (fileobject d))"
proof -
  let ?c = "CallSetLogDestination 0 ''/tmp/a.''"
  have ok: "call_ok demo_msg_env ?c (log_start default_msg_flags 77)" by (simp add: NUM_SEVERITIES_def)
  obtain st where st: "lib_call demo_msg_env ?c (log_start default_msg_flags 77) = Some st"
    using call_returns[OF lib_ok_start ok] by blast
  note r = lib_reach.call[OF lib_reach.start ok st]
  have "log_destinations st 0 \<noteq> None"
    using st by (auto simp: SetLogDestination_def on_file_def bind_eq_Some_conv put_file_def set_destination_def
        case_prod_unfold Let_def)
  then show ?thesis using library_in_order[OF r] st by auto
qed

end
