(* ===== verification/Locked_Sections.thy ===== *)
theory Locked_Sections
  imports Main "HOL-Library.Monad_Syntax"
begin

section \<open>Threads and sections under a lock\<close>

text \<open>
  Threads that each carry out a list of jobs. A job takes a lock, runs the actions of its section, gives
  the lock back and ends with an action outside of the lock; between any two of these steps other
  threads may run. The locales say what is needed for the sections to behave as if they were run one
  after the other, and for the threads to get on.
\<close>

subsection \<open>Threads\<close>

text \<open>An action that has no result cannot run now: it waits for the lock, or it fails.\<close>

type_synonym 's action = "'s \<Rightarrow> 's option"

fun run_actions :: "'s action list \<Rightarrow> 's action" where
  "run_actions [] s = Some s"
| "run_actions (f # fs) s = Option.bind (f s) (run_actions fs)"

lemma run_actions_append: "run_actions (fs @ gs) s = Option.bind (run_actions fs s) (run_actions gs)"
  by (induction fs arbitrary: s) (auto split: bind_splits)

lemma run_actions_fun: "run_actions [] = Some" "run_actions (f # fs) = (\<lambda>s. Option.bind (f s) (run_actions fs))"
  by (simp_all add: fun_eq_iff)

text \<open>Where a thread is in its current job: before it, in its section with some actions left, or behind it.\<close>

datatype 's stage = Outside | Inside "'s action list" | Waiting

record ('s, 'j) Threads =
  shared :: 's
  stage :: "nat \<Rightarrow> 's stage"
  jobs :: "nat \<Rightarrow> 'j list"

definition inside :: "('s, 'j) Threads \<Rightarrow> nat \<Rightarrow> bool" where
  "inside T t = (case stage T t of Inside fs \<Rightarrow> True | _ \<Rightarrow> False)"

inductive thread_step :: "'s action \<Rightarrow> 's action \<Rightarrow> ('j \<Rightarrow> 's action list) \<Rightarrow> ('j \<Rightarrow> 's action) \<Rightarrow>
    ('s, 'j) Threads \<Rightarrow> ('s, 'j) Threads \<Rightarrow> bool" for lock unlock part rest where
  enter: "stage T t = Outside \<Longrightarrow> jobs T t = j # js \<Longrightarrow> lock (shared T) = Some s' \<Longrightarrow>
     thread_step lock unlock part rest T (T\<lparr>shared := s', stage := (stage T)(t := Inside (part j))\<rparr>)"
| act: "stage T t = Inside (f # fs) \<Longrightarrow> f (shared T) = Some s' \<Longrightarrow>
     thread_step lock unlock part rest T (T\<lparr>shared := s', stage := (stage T)(t := Inside fs)\<rparr>)"
| leave: "stage T t = Inside [] \<Longrightarrow> unlock (shared T) = Some s' \<Longrightarrow>
     thread_step lock unlock part rest T (T\<lparr>shared := s', stage := (stage T)(t := Waiting)\<rparr>)"
| finish: "stage T t = Waiting \<Longrightarrow> jobs T t = j # js \<Longrightarrow> rest j (shared T) = Some s' \<Longrightarrow>
     thread_step lock unlock part rest T (T\<lparr>shared := s', stage := (stage T)(t := Outside), jobs := (jobs T)(t := js)\<rparr>)"

inductive thread_reach :: "'s action \<Rightarrow> 's action \<Rightarrow> ('j \<Rightarrow> 's action list) \<Rightarrow> ('j \<Rightarrow> 's action) \<Rightarrow>
    ('s, 'j) Threads \<Rightarrow> ('s, 'j) Threads \<Rightarrow> bool" for lock unlock part rest T0 where
  start: "thread_reach lock unlock part rest T0 T0"
| step: "thread_reach lock unlock part rest T0 T \<Longrightarrow> thread_step lock unlock part rest T T' \<Longrightarrow>
     thread_reach lock unlock part rest T0 T'"

text \<open>The jobs of a thread in a list of the jobs of all, each with its thread.\<close>

definition jobs_of :: "nat \<Rightarrow> (nat \<times> 'j) list \<Rightarrow> 'j list" where
  "jobs_of t ord = map snd (filter (\<lambda>p. fst p = t) ord)"

lemma jobs_of_simps [simp]:
  "jobs_of t [] = []" "jobs_of t (p # ord) = (if fst p = t then snd p # jobs_of t ord else jobs_of t ord)"
  "jobs_of t (ord @ ord') = jobs_of t ord @ jobs_of t ord'"
  by (simp_all add: jobs_of_def)

text \<open>What is left to do for a thread, a job that is behind its section not counted.\<close>

definition remaining :: "('s, 'j) Threads \<Rightarrow> nat \<Rightarrow> 'j list" where
  "remaining T t = (if stage T t = Waiting then tl (jobs T t) else jobs T t)"

definition begin_threads :: "'s \<Rightarrow> (nat \<Rightarrow> 'j list) \<Rightarrow> ('s, 'j) Threads" where
  "begin_threads s js = \<lparr>shared = s, stage = (\<lambda>_. Outside), jobs = js\<rparr>"

lemma thread_reach_trans:
  assumes "thread_reach lock unlock part rest T T1" and "thread_reach lock unlock part rest T0 T"
  shows "thread_reach lock unlock part rest T0 T1"
  using assms(1) by (induction rule: thread_reach.induct) (auto intro: assms(2) thread_reach.step)

lemma thread_step_reach:
  "thread_step lock unlock part rest T T1 \<Longrightarrow> thread_reach lock unlock part rest T T1"
  by (rule thread_reach.step[OF thread_reach.start])

text \<open>A thread that is not interrupted does its job in one go.\<close>

lemma inside_alone:
  assumes "stage T t = Inside (fs @ gs)" and "run_actions fs (shared T) = Some s'"
  shows "thread_reach lock unlock part rest T (T\<lparr>shared := s', stage := (stage T)(t := Inside gs)\<rparr>)"
  using assms
proof (induction fs arbitrary: T)
  case Nil
  then have "T\<lparr>shared := s', stage := (stage T)(t := Inside gs)\<rparr> = T" by (cases T) auto
  then show ?case using thread_reach.start by metis
next
  case (Cons f fs)
  obtain s1 where s1: "f (shared T) = Some s1" "run_actions fs s1 = Some s'"
    using Cons.prems(2) by (auto simp: bind_eq_Some_conv)
  let ?T1 = "T\<lparr>shared := s1, stage := (stage T)(t := Inside (fs @ gs))\<rparr>"
  have "thread_step lock unlock part rest T ?T1"
    by (rule thread_step.act[where f = f]) (use Cons.prems(1) s1(1) in simp_all)
  then have r: "thread_reach lock unlock part rest T ?T1" by (rule thread_step_reach)
  have "thread_reach lock unlock part rest ?T1 (?T1\<lparr>shared := s', stage := (stage ?T1)(t := Inside gs)\<rparr>)"
    by (rule Cons.IH) (use s1(2) in simp_all)
  also have "?T1\<lparr>shared := s', stage := (stage ?T1)(t := Inside gs)\<rparr> = T\<lparr>shared := s', stage := (stage T)(t := Inside gs)\<rparr>"
    by simp
  finally show ?case by (rule thread_reach_trans[OF _ r])
qed

lemma job_alone:
  assumes "stage T t = Outside" and "jobs T t = j # js" and "run_actions (lock # part j @ [unlock, rest j]) (shared T) = Some s'"
  shows "thread_reach lock unlock part rest T (T\<lparr>shared := s', jobs := (jobs T)(t := js)\<rparr>)"
proof -
  obtain s1 s2 s3 where s: "lock (shared T) = Some s1" "run_actions (part j) s1 = Some s2" "unlock s2 = Some s3" "rest j s3 = Some s'"
    using assms(3) by (auto simp: run_actions_append bind_eq_Some_conv)
  let ?T = "\<lambda>s g. T\<lparr>shared := s, stage := (stage T)(t := g)\<rparr>"
  have r1: "thread_reach lock unlock part rest T (?T s1 (Inside (part j)))"
    by (rule thread_step_reach, rule thread_step.enter) (use assms s in simp_all)
  have "thread_reach lock unlock part rest (?T s1 (Inside (part j)))
      ((?T s1 (Inside (part j)))\<lparr>shared := s2, stage := (stage (?T s1 (Inside (part j))))(t := Inside [])\<rparr>)"
    by (rule inside_alone[where fs = "part j"]) (use s in simp_all)
  then have r2: "thread_reach lock unlock part rest T (?T s2 (Inside []))" using thread_reach_trans[OF _ r1] by simp
  have "thread_step lock unlock part rest (?T s2 (Inside [])) ((?T s2 (Inside []))\<lparr>shared := s3, stage := (stage (?T s2 (Inside [])))(t := Waiting)\<rparr>)"
    by (rule thread_step.leave) (use s in simp_all)
  then have r3: "thread_reach lock unlock part rest T (?T s3 Waiting)" using thread_reach.step[OF r2] by simp
  have "thread_step lock unlock part rest (?T s3 Waiting)
      ((?T s3 Waiting)\<lparr>shared := s', stage := (stage (?T s3 Waiting))(t := Outside), jobs := (jobs (?T s3 Waiting))(t := js)\<rparr>)"
    by (rule thread_step.finish) (use assms s in simp_all)
  moreover have "(stage T)(t := Outside) = stage T" using assms(1) by (simp add: fun_upd_idem)
  ultimately show ?thesis using thread_reach.step[OF r3] by (cases T) simp
qed

subsection \<open>How much is left to do\<close>

text \<open>The steps of a thread until its jobs are done, and those of the threads \<open>us\<close>, which are all that have any.\<close>

definition job_steps :: "('j \<Rightarrow> 's action list) \<Rightarrow> 'j list \<Rightarrow> nat" where
  "job_steps part js = sum_list (map (\<lambda>j. length (part j) + 3) js)"

definition steps_left :: "('j \<Rightarrow> 's action list) \<Rightarrow> ('s, 'j) Threads \<Rightarrow> nat \<Rightarrow> nat" where
  "steps_left part T t = (case stage T t of
     Outside \<Rightarrow> job_steps part (jobs T t)
   | Inside fs \<Rightarrow> length fs + 2 + job_steps part (tl (jobs T t))
   | Waiting \<Rightarrow> 1 + job_steps part (tl (jobs T t)))"

definition all_left :: "('j \<Rightarrow> 's action list) \<Rightarrow> nat set \<Rightarrow> ('s, 'j) Threads \<Rightarrow> nat" where
  "all_left part us T = (\<Sum>t\<in>us. steps_left part T t)"

definition only_threads :: "nat set \<Rightarrow> ('s, 'j) Threads \<Rightarrow> bool" where
  "only_threads us T = (\<forall>t. t \<notin> us \<longrightarrow> stage T t = Outside \<and> jobs T t = [])"

lemma job_steps_simps [simp]:
  "job_steps part [] = 0" "job_steps part (j # js) = length (part j) + 3 + job_steps part js"
  by (simp_all add: job_steps_def)

lemma thread_step_left:
  assumes "thread_step lock unlock part rest T T1"
  shows "\<exists>t. (\<forall>u. u \<noteq> t \<longrightarrow> stage T1 u = stage T u \<and> jobs T1 u = jobs T u) \<and>
    Suc (steps_left part T1 t) = steps_left part T t \<and> \<not> (stage T t = Outside \<and> jobs T t = [])"
  using assms
proof (cases rule: thread_step.cases)
  case (enter t j js s')
  then show ?thesis by (intro exI[of _ t]) (simp add: steps_left_def)
next
  case (act t f fs s')
  then show ?thesis by (intro exI[of _ t]) (simp add: steps_left_def)
next
  case (leave t s')
  then show ?thesis by (intro exI[of _ t]) (simp add: steps_left_def)
next
  case (finish t j js s')
  then show ?thesis by (intro exI[of _ t]) (simp add: steps_left_def)
qed

lemma all_left_step:
  assumes "thread_step lock unlock part rest T T1" and "finite us" and "only_threads us T"
  shows "Suc (all_left part us T1) = all_left part us T \<and> only_threads us T1"
proof -
  obtain t where t: "\<forall>u. u \<noteq> t \<longrightarrow> stage T1 u = stage T u \<and> jobs T1 u = jobs T u"
    "Suc (steps_left part T1 t) = steps_left part T t" "\<not> (stage T t = Outside \<and> jobs T t = [])"
    using thread_step_left[OF assms(1)] by blast
  have us: "t \<in> us" using t(3) assms(3) by (auto simp: only_threads_def)
  have "sum (steps_left part T1) (us - {t}) = sum (steps_left part T) (us - {t})"
    by (rule sum.cong) (use t(1) in \<open>auto simp: steps_left_def split: stage.split\<close>)
  then have "Suc (all_left part us T1) = all_left part us T"
    using t(2) unfolding all_left_def sum.remove[OF assms(2) us] by simp
  moreover have "only_threads us T1" using t(1) us assms(3) by (auto simp: only_threads_def)
  ultimately show ?thesis by blast
qed

text \<open>So the threads cannot make more steps than that.\<close>

lemma steps_bounded:
  assumes "(thread_step lock unlock part rest ^^ n) T T1" and "finite us" and "only_threads us T"
  shows "n + all_left part us T1 = all_left part us T \<and> only_threads us T1"
  using assms(1)
proof (induction n arbitrary: T1)
  case 0
  then show ?case using assms(3) by simp
next
  case (Suc n)
  then obtain T2 where "(thread_step lock unlock part rest ^^ n) T T2" "thread_step lock unlock part rest T2 T1" by auto
  then show ?case using Suc.IH all_left_step[OF _ assms(2)] by fastforce
qed

lemma steps_reach: "(thread_step lock unlock part rest ^^ n) T T1 \<Longrightarrow> thread_reach lock unlock part rest T T1"
proof (induction n arbitrary: T1)
  case 0
  then show ?case by (simp add: thread_reach.start)
next
  case (Suc n)
  then obtain T2 where "(thread_step lock unlock part rest ^^ n) T T2" "thread_step lock unlock part rest T2 T1" by auto
  then show ?case using Suc.IH thread_reach.step by blast
qed

lemma begin_threads_left:
  "all_left part us (begin_threads s js) = (\<Sum>t\<in>us. job_steps part (js t))"
  "only_threads us (begin_threads s js) = (\<forall>t. t \<notin> us \<longrightarrow> js t = [])"
  by (simp_all add: all_left_def steps_left_def only_threads_def begin_threads_def)

subsection \<open>Serialised sections\<close>

text \<open>
  The lock can only be taken when it is free, the actions of a section leave it alone, and neither the
  lock nor what is done outside of it changes the \<open>core\<close> of the state, which is all that the sections
  depend on.
\<close>

locale locked_sections =
  fixes locked :: "'s \<Rightarrow> bool" and core :: "'s \<Rightarrow> 's"
    and lock :: "'s action" and unlock :: "'s action" and part :: "'j \<Rightarrow> 's action list" and rest :: "'j \<Rightarrow> 's action"
  assumes lock_law: "lock s = Some s' \<Longrightarrow> \<not> locked s \<and> locked s' \<and> core s' = core s"
    and unlock_law: "locked s \<Longrightarrow> unlock s = Some s' \<Longrightarrow> \<not> locked s' \<and> core s' = core s"
    and rest_law: "rest j s = Some s' \<Longrightarrow> locked s' = locked s \<and> core s' = core s"
    and part_locked: "f \<in> set (part j) \<Longrightarrow> f s = Some s' \<Longrightarrow> locked s' = locked s"
    and part_core: "f \<in> set (part j) \<Longrightarrow> core s1 = core s2 \<Longrightarrow> f s1 = Some s1' \<Longrightarrow>
      \<exists>s2'. f s2 = Some s2' \<and> core s1' = core s2'"
begin

text \<open>\<open>ord\<close> are the sections that are over, in the order in which they had the lock.\<close>

definition history :: "(nat \<Rightarrow> 'j list) \<Rightarrow> ('s, 'j) Threads \<Rightarrow> (nat \<times> 'j) list \<Rightarrow> bool" where
  "history js T ord = (\<forall>t. js t = jobs_of t ord @ remaining T t \<and> (stage T t \<noteq> Outside \<longrightarrow> jobs T t \<noteq> []))"

lemma history_enter:
  "history js T ord \<Longrightarrow> stage T t = Outside \<Longrightarrow> jobs T t \<noteq> [] \<Longrightarrow>
   history js (T\<lparr>shared := s, stage := (stage T)(t := Inside fs)\<rparr>) ord"
  by (simp add: history_def remaining_def)

lemma history_act:
  "history js T ord \<Longrightarrow> stage T t = Inside fs \<Longrightarrow> history js (T\<lparr>shared := s, stage := (stage T)(t := Inside gs)\<rparr>) ord"
  by (simp add: history_def remaining_def)

lemma history_leave:
  assumes "history js T ord" and "stage T t = Inside fs"
  shows "history js (T\<lparr>shared := s, stage := (stage T)(t := Waiting)\<rparr>) (ord @ [(t, hd (jobs T t))])"
proof -
  have "jobs T t = hd (jobs T t) # tl (jobs T t)" using assms by (simp add: history_def)
  then show ?thesis using assms by (simp add: history_def remaining_def)
qed

lemma history_finish:
  "history js T ord \<Longrightarrow> stage T t = Waiting \<Longrightarrow> jobs T t = k # ks \<Longrightarrow>
   history js (T\<lparr>shared := s, stage := (stage T)(t := Outside), jobs := (jobs T)(t := ks)\<rparr>) ord"
  by (simp add: history_def remaining_def)

definition ran :: "'s \<Rightarrow> 's \<Rightarrow> (nat \<times> 'j) list \<Rightarrow> 's action list \<Rightarrow> bool" where
  "ran s0 s ord ds = (\<exists>s'. run_actions (concat (map (part \<circ> snd) ord) @ ds) s0 = Some s' \<and> core s = core s')"

definition serial :: "'s \<Rightarrow> (nat \<Rightarrow> 'j list) \<Rightarrow> ('s, 'j) Threads \<Rightarrow> (nat \<times> 'j) list \<Rightarrow> bool" where
  "serial s0 js T ord = (history js T ord \<and>
     (if locked (shared T) then
        \<exists>u ds rs. stage T u = Inside rs \<and> (\<forall>t. t \<noteq> u \<longrightarrow> \<not> inside T t) \<and> part (hd (jobs T u)) = ds @ rs \<and>
          ran s0 (shared T) ord ds
      else (\<forall>t. \<not> inside T t) \<and> ran s0 (shared T) ord []))"

lemma ran_core: "core s = core s' \<Longrightarrow> ran s0 s ord ds = ran s0 s' ord ds"
  by (simp add: ran_def)

lemma ran_act:
  assumes "ran s0 s ord ds" and "f \<in> set (part j)" and "f s = Some s'"
  shows "ran s0 s' ord (ds @ [f])"
proof -
  obtain s1 where s1: "run_actions (concat (map (part \<circ> snd) ord) @ ds) s0 = Some s1" "core s = core s1"
    using assms(1) by (auto simp: ran_def)
  obtain s2 where "f s1 = Some s2" "core s' = core s2" using part_core[OF assms(2) s1(2) assms(3)] by blast
  then show ?thesis using s1(1) run_actions_append[of "concat (map (part \<circ> snd) ord) @ ds" "[f]" s0]
    by (auto simp: ran_def)
qed

lemma inside_update [simp]:
  "inside (T\<lparr>shared := s, stage := (stage T)(t := g)\<rparr>) u = (if u = t then (\<exists>fs. g = Inside fs) else inside T u)"
  "inside (T\<lparr>shared := s, stage := (stage T)(t := g), jobs := js\<rparr>) u = (if u = t then (\<exists>fs. g = Inside fs) else inside T u)"
  by (auto simp: inside_def split: stage.splits)

lemma serial_freeI: "history js T ord \<Longrightarrow> \<not> locked (shared T) \<Longrightarrow> \<forall>t. \<not> inside T t \<Longrightarrow> ran s0 (shared T) ord [] \<Longrightarrow> serial s0 js T ord"
  by (simp add: serial_def)

lemma serial_heldI:
  "history js T ord \<Longrightarrow> locked (shared T) \<Longrightarrow> stage T u = Inside rs \<Longrightarrow> \<forall>t. t \<noteq> u \<longrightarrow> \<not> inside T t \<Longrightarrow>
   part (hd (jobs T u)) = ds @ rs \<Longrightarrow> ran s0 (shared T) ord ds \<Longrightarrow> serial s0 js T ord"
  by (auto simp: serial_def)

lemma serial_inside:
  assumes "serial s0 js T ord" and "stage T t = Inside rs"
  obtains ds where "locked (shared T)" "\<forall>u. u \<noteq> t \<longrightarrow> \<not> inside T u" "part (hd (jobs T t)) = ds @ rs" "ran s0 (shared T) ord ds"
proof -
  have in_t: "inside T t" using assms(2) by (simp add: inside_def)
  then have l: "locked (shared T)" using assms(1) unfolding serial_def by metis
  then obtain u ds rs' where u: "stage T u = Inside rs'" "\<forall>t. t \<noteq> u \<longrightarrow> \<not> inside T t" "part (hd (jobs T u)) = ds @ rs'"
    "ran s0 (shared T) ord ds" using assms(1) by (auto simp: serial_def)
  then have "u = t" using in_t by metis
  then show ?thesis using that l u assms(2) by auto
qed

lemma serial_step:
  assumes "serial s0 js T ord" and "thread_step lock unlock part rest T T'"
  shows "\<exists>ord'. serial s0 js T' ord'"
proof -
  have hist: "history js T ord" using assms(1) by (simp add: serial_def)
  show ?thesis
    using assms(2)
  proof (cases rule: thread_step.cases)
    case (enter t j ks s')
    then have l: "\<not> locked (shared T)" "locked s'" "core s' = core (shared T)" using lock_law by blast+
    then have free: "\<forall>u. \<not> inside T u" "ran s0 (shared T) ord []" using assms(1) by (simp_all add: serial_def)
    have "history js T' ord" using history_enter[OF hist enter(2)] enter(1,3) by simp
    moreover have "ran s0 s' ord []" using free(2) ran_core[OF l(3)] by simp
    ultimately have "serial s0 js T' ord"
      using serial_heldI[of js T' ord t "part j" "[]" s0] l(2) free(1) enter(3) unfolding enter(1) by simp
    then show ?thesis by blast
  next
    case (act t f fs s')
    obtain ds where u: "locked (shared T)" "\<forall>u. u \<noteq> t \<longrightarrow> \<not> inside T u" "part (hd (jobs T t)) = ds @ f # fs"
      "ran s0 (shared T) ord ds" using serial_inside[OF assms(1) act(2)] by blast
    then have f: "f \<in> set (part (hd (jobs T t)))" by simp
    have "history js T' ord" using history_act[OF hist act(2)] act(1) by simp
    then have "serial s0 js T' ord"
      using serial_heldI[of js T' ord t fs "ds @ [f]" s0] u part_locked[OF f act(3)] ran_act[OF u(4) f act(3)]
      unfolding act(1) by simp
    then show ?thesis by blast
  next
    case (leave t s')
    obtain ds where u: "locked (shared T)" "\<forall>u. u \<noteq> t \<longrightarrow> \<not> inside T u" "part (hd (jobs T t)) = ds @ []"
      "ran s0 (shared T) ord ds" using serial_inside[OF assms(1) leave(2)] by blast
    have s': "\<not> locked s'" "core s' = core (shared T)" using unlock_law[OF u(1) leave(3)] by simp_all
    let ?ord = "ord @ [(t, hd (jobs T t))]"
    have "history js T' ?ord" using history_leave[OF hist leave(2)] leave(1) by simp
    moreover have "ran s0 s' ?ord []" using u(3,4) ran_core[OF s'(2)] by (simp add: ran_def)
    ultimately have "serial s0 js T' ?ord"
      using serial_freeI[of js T' ?ord s0] u(2) s'(1) unfolding leave(1) by simp
    then show ?thesis by blast
  next
    case (finish t j ks s')
    have s': "locked s' = locked (shared T)" "core s' = core (shared T)" using rest_law[OF finish(4)] by simp_all
    have h: "history js T' ord" using history_finish[OF hist finish(2,3)] finish(1) by simp
    have not_t: "\<not> inside T t" using finish(2) by (simp add: inside_def)
    show ?thesis
    proof (cases "locked (shared T)")
      case True
      then obtain u ds rs where u: "stage T u = Inside rs" "\<forall>t. t \<noteq> u \<longrightarrow> \<not> inside T t" "part (hd (jobs T u)) = ds @ rs"
        "ran s0 (shared T) ord ds" using assms(1) by (auto simp: serial_def)
      then have "u \<noteq> t" using finish(2) by auto
      then have "serial s0 js T' ord"
        using serial_heldI[of js T' ord u rs ds s0] h u True s' ran_core[OF s'(2)] unfolding finish(1) by simp
      then show ?thesis by blast
    next
      case False
      then have "\<forall>u. \<not> inside T u" "ran s0 (shared T) ord []" using assms(1) by (simp_all add: serial_def)
      then have "serial s0 js T' ord"
        using serial_freeI[of js T' ord s0] h False s' ran_core[OF s'(2)] unfolding finish(1) by simp
      then show ?thesis by blast
    qed
  qed
qed

lemma reach_serial:
  assumes "thread_reach lock unlock part rest (begin_threads s0 js) T" and "\<not> locked s0"
  shows "\<exists>ord. serial s0 js T ord"
  using assms(1)
proof (induction rule: thread_reach.induct)
  case start
  have "serial s0 js (begin_threads s0 js) []"
    using assms(2) by (auto simp: serial_def history_def remaining_def begin_threads_def inside_def ran_def)
  then show ?case by blast
qed (use serial_step in blast)

lemma reach_run:
  assumes "thread_reach lock unlock part rest (begin_threads s0 js) T" and "\<not> locked s0" and "\<not> locked (shared T)"
  shows "\<exists>ord s'. (\<forall>t. js t = jobs_of t ord @ remaining T t) \<and>
    run_actions (concat (map (part \<circ> snd) ord)) s0 = Some s' \<and> core (shared T) = core s'"
  using reach_serial[OF assms(1,2)] assms(3) by (auto simp: serial_def history_def ran_def)

lemma reach_exclusive:
  assumes "thread_reach lock unlock part rest (begin_threads s0 js) T" and "\<not> locked s0" and "inside T t" and "inside T u"
  shows "t = u \<and> locked (shared T)"
  using reach_serial[OF assms(1,2)] assms(3,4) unfolding serial_def by (metis)

end

subsection \<open>Threads that get on\<close>

text \<open>In the states that are \<open>good\<close> no action of a job that is \<open>able\<close> fails, but for the lock when it is held.\<close>

locale live_sections = locked_sections locked core lock unlock part rest
  for locked :: "'s \<Rightarrow> bool" and core :: "'s \<Rightarrow> 's"
    and lock :: "'s action" and unlock :: "'s action" and part :: "'j \<Rightarrow> 's action list" and rest :: "'j \<Rightarrow> 's action" +
  fixes good :: "'s \<Rightarrow> bool" and able :: "'j \<Rightarrow> bool"
  assumes lock_good: "good s \<Longrightarrow> \<not> locked s \<Longrightarrow> \<exists>s'. lock s = Some s' \<and> good s'"
    and unlock_good: "good s \<Longrightarrow> locked s \<Longrightarrow> \<exists>s'. unlock s = Some s' \<and> good s'"
    and rest_good: "good s \<Longrightarrow> \<exists>s'. rest j s = Some s' \<and> good s'"
    and part_good: "able j \<Longrightarrow> f \<in> set (part j) \<Longrightarrow> good s \<Longrightarrow> \<exists>s'. f s = Some s' \<and> good s'"
begin

definition inside_able :: "('s, 'j) Threads \<Rightarrow> bool" where
  "inside_able T = ((\<forall>t. list_all able (jobs T t)) \<and> (\<forall>t. stage T t \<noteq> Outside \<longrightarrow> jobs T t \<noteq> []) \<and>
     (\<forall>t fs. stage T t = Inside fs \<longrightarrow> (\<exists>j. able j \<and> set fs \<subseteq> set (part j))))"

lemma inside_able_jobs:
  "inside_able T \<Longrightarrow> jobs T t = j # js \<Longrightarrow> able j \<and> list_all able js"
  unfolding inside_able_def by (metis list.pred_inject(2))

lemma inside_able_update:
  assumes "inside_able T" and "list_all able js" and "g \<noteq> Outside \<longrightarrow> js \<noteq> []"
    and "\<forall>fs. g = Inside fs \<longrightarrow> (\<exists>j. able j \<and> set fs \<subseteq> set (part j))"
  shows "inside_able (T\<lparr>shared := s, stage := (stage T)(t := g), jobs := (jobs T)(t := js)\<rparr>)"
  using assms by (simp add: inside_able_def)

lemma inside_able_stage:
  assumes "inside_able T" and "jobs T t \<noteq> []"
    and "\<forall>fs. g = Inside fs \<longrightarrow> (\<exists>j. able j \<and> set fs \<subseteq> set (part j))"
  shows "inside_able (T\<lparr>shared := s, stage := (stage T)(t := g)\<rparr>)"
  using assms by (simp add: inside_able_def)

lemma reach_good:
  assumes "thread_reach lock unlock part rest (begin_threads s0 js) T" and "\<not> locked s0" and "good s0"
    and "\<forall>t. list_all able (js t)"
  shows "good (shared T) \<and> inside_able T"
  using assms(1)
proof (induction rule: thread_reach.induct)
  case start
  then show ?case using assms(3,4) by (simp add: begin_threads_def inside_able_def)
next
  case (step T T')
  then have good: "good (shared T)" and able: "inside_able T" by simp_all
  from step.hyps(2) show ?case
  proof (cases rule: thread_step.cases)
    case (enter t j ks s')
    have "good s'" using enter(4) good lock_good[of "shared T"] lock_law[of "shared T" s'] by auto
    moreover have "\<forall>gs. Inside (part j) = Inside gs \<longrightarrow> (\<exists>i. able i \<and> set gs \<subseteq> set (part i))"
      using inside_able_jobs[OF able enter(3)] by auto
    ultimately show ?thesis using inside_able_stage[OF able] enter(1,3) by simp
  next
    case (act t f fs s')
    obtain j where j: "able j" "set (f # fs) \<subseteq> set (part j)" using able act(2) unfolding inside_able_def by blast
    then have "good s'" using act(3) good part_good[OF j(1), of f "shared T"] by auto
    moreover have "jobs T t \<noteq> []" using able act(2) by (simp add: inside_able_def)
    moreover have "\<forall>gs. Inside fs = Inside gs \<longrightarrow> (\<exists>j. able j \<and> set gs \<subseteq> set (part j))" using j by auto
    ultimately show ?thesis using inside_able_stage[OF able] act(1) by simp
  next
    case (leave t s')
    have "locked (shared T)"
      using reach_exclusive[OF step.hyps(1) assms(2), of t t] leave(2) by (simp add: inside_def)
    then have "good s'" using leave(3) good unlock_good[of "shared T"] by auto
    moreover have "jobs T t \<noteq> []" using leave(2) able by (simp add: inside_able_def)
    ultimately show ?thesis using inside_able_stage[OF able] leave(1) by simp
  next
    case (finish t j ks s')
    have "good s'" using finish(4) good rest_good[of "shared T" j] by auto
    then show ?thesis using inside_able_update[OF able] inside_able_jobs[OF able finish(3)] finish(1) by simp
  qed
qed

text \<open>Unless all jobs are done, a thread can make a step.\<close>

lemma progress:
  assumes "thread_reach lock unlock part rest (begin_threads s0 js) T" and "\<not> locked s0" and "good s0"
    and "\<forall>t. list_all able (js t)" and "jobs T t \<noteq> []"
  shows "\<exists>T'. thread_step lock unlock part rest T T'"
proof -
  note g = reach_good[OF assms(1-4)]
  have step_inside: ?thesis if in_u: "inside T u" for u
  proof -
    obtain fs where fs: "stage T u = Inside fs" using in_u by (cases "stage T u") (simp_all add: inside_def)
    show ?thesis
    proof (cases fs)
      case Nil
      have "locked (shared T)" using reach_exclusive[OF assms(1,2) in_u in_u] by simp
      then obtain s' where "unlock (shared T) = Some s'" using unlock_good[of "shared T"] g by blast
      then show ?thesis by (blast intro: thread_step.leave[OF fs[unfolded Nil]])
    next
      case (Cons f fs')
      obtain j where j: "able j" "set fs \<subseteq> set (part j)" using g fs unfolding inside_able_def by blast
      have "f \<in> set (part j)" using j(2) Cons by auto
      then obtain s' where "f (shared T) = Some s'" using part_good[OF j(1), of f "shared T"] g by blast
      then show ?thesis by (blast intro: thread_step.act[OF fs[unfolded Cons]])
    qed
  qed
  obtain j ks where j: "jobs T t = j # ks" using assms(5) by (cases "jobs T t") auto
  show ?thesis
  proof (cases "stage T t")
    case Waiting
    obtain s' where "rest j (shared T) = Some s'" using rest_good[of "shared T" j] g by blast
    then show ?thesis by (blast intro: thread_step.finish[OF Waiting j])
  next
    case (Inside fs)
    then show ?thesis using step_inside[of t] by (simp add: inside_def)
  next
    case Outside
    show ?thesis
    proof (cases "locked (shared T)")
      case True
      obtain ord where "serial s0 js T ord" using reach_serial[OF assms(1,2)] by blast
      then obtain u rs where "stage T u = Inside rs" using True by (auto simp: serial_def)
      then show ?thesis using step_inside[of u] by (simp add: inside_def)
    next
      case False
      then obtain s' where "lock (shared T) = Some s'" using lock_good[of "shared T"] g by blast
      then show ?thesis by (blast intro: thread_step.enter[OF Outside j])
    qed
  qed
qed

text \<open>So whatever they have done, they can finish all jobs.\<close>

lemma completes:
  assumes "thread_reach lock unlock part rest (begin_threads s0 js) T" and "\<not> locked s0" and "good s0"
    and "\<forall>t. list_all able (js t)" and "finite us" and "only_threads us T"
  shows "\<exists>T1. thread_reach lock unlock part rest T T1 \<and> (\<forall>t. jobs T1 t = [])"
  using assms(1,6)
proof (induction "all_left part us T" arbitrary: T rule: less_induct)
  case less
  show ?case
  proof (cases "\<forall>t. jobs T t = []")
    case True
    then show ?thesis using thread_reach.start by blast
  next
    case False
    then obtain T2 where step: "thread_step lock unlock part rest T T2"
      using progress[OF less.prems(1) assms(2-4)] by blast
    then have "all_left part us T2 < all_left part us T" "only_threads us T2"
      using all_left_step[OF step assms(5) less.prems(2)] by auto
    then obtain T1 where "thread_reach lock unlock part rest T2 T1" "\<forall>t. jobs T1 t = []"
      using less.hyps[OF _ thread_reach.step[OF less.prems(1) step]] by blast
    then show ?thesis using thread_reach_trans[OF _ thread_step_reach[OF step]] by blast
  qed
qed

end

end
