(* ===== verification/Log_Threads.thy ===== *)
theory Log_Threads
  imports Log_Delivery Log_Globals Log_Library Locked_Sections
begin

section \<open>Logging: several threads\<close>

text \<open>
  Several threads use the library at the same time, each with a list of jobs: messages to flush, log files to
  flush, destinations and other settings to change. The functions of \<^verbatim>\<open>src/logging.cc\<close> that hold
  \<^verbatim>\<open>log_mutex\<close> are taken apart into the actions between which other threads may run: the lock, each call of a logger,
  the copies to standard error and to mail, the sinks, the count of messages, each severity of a loop, the
  unlock, and the wait for the sinks, which happens outside of the lock.
\<close>

subsection \<open>Flushing a message as a sequence of actions\<close>

definition lock_action :: "LogState action" where
  "lock_action st = (if log_mutex st then None else Some (st\<lparr>log_mutex := True\<rparr>))"

definition unlock_action :: "LogState action" where
  "unlock_action st = Some (unlock_log_mutex st)"

text \<open>What \<^verbatim>\<open>SendToLog\<close> does for a message that goes to files and is not fatal.\<close>

definition log_actions :: "MsgEnv \<Rightarrow> LogMessageData \<Rightarrow> LogState action list" where
  "log_actions env d =
     (let sev = msg_severity d; m = logged_text d
      in map (MaybeLogToLogfile env (timestamp (logmsgtime d)) m) (rev [0..<Suc sev]) @
         [MaybeLogToStderr sev m, \<lambda>st. Some (MaybeLogToEmail env sev st),
          \<lambda>st. map_option (\<lambda>b. LogToSinks sev (fullname d) (msg_basename d) (msg_line d) b st) (message_body d)])"

definition string_action :: "nat \<Rightarrow> LogMessageData \<Rightarrow> LogState action" where
  "string_action v d st = map_option (\<lambda>b. st\<lparr>strings := (strings st)(v := b)\<rparr>) (message_body d)"

definition syslog_action :: "LogMessageData \<Rightarrow> LogState action" where
  "syslog_action d st = Some (event (Syslog (syslog_level (msg_severity d))
     (c_str (take (num_chars_to_syslog d) (drop (num_prefix_chars d) (message_text d))))) (st\<lparr>openlog_called := True\<rparr>))"

text \<open>The method of sending that the constructor of the message has chosen.\<close>

definition send_actions :: "MsgEnv \<Rightarrow> LogMessageData \<Rightarrow> LogState action list" where
  "send_actions env d =
     (case send_method d of
        SendToLog \<Rightarrow> log_actions env d
      | SendToSink \<Rightarrow> [send_to_sink d]
      | SendToSinkAndLog \<Rightarrow> send_to_sink d # log_actions env d
      | SaveOrSendToLog \<Rightarrow> (case target d of OutvecTarget v \<Rightarrow> [save_or_send env d] | _ \<Rightarrow> log_actions env d)
      | WriteToStringAndLog \<Rightarrow> (case target d of StringTarget v \<Rightarrow> string_action v d # log_actions env d | _ \<Rightarrow> log_actions env d)
      | SendToSyslogAndLog \<Rightarrow> syslog_action d # log_actions env d)"

definition count_action :: "nat \<Rightarrow> LogState action" where
  "count_action sev st = Some (st\<lparr>num_messages := (num_messages st)(sev := num_messages st sev + 1)\<rparr>)"

text \<open>The body of the block that holds the lock.\<close>

definition section_actions :: "MsgEnv \<Rightarrow> LogMessageData \<Rightarrow> LogState action list" where
  "section_actions env d = send_actions env (finish_text env d) @ [count_action (msg_severity d)]"

text \<open>After it; the error number is the thread's own.\<close>

definition wait_action :: "LogMessageData \<Rightarrow> LogState action" where
  "wait_action d st = Some (let st1 = WaitForSinks (own_sink d) st
     in if preserved_errno d \<noteq> 0 then st1\<lparr>errno := preserved_errno d\<rparr> else st1)"

subsection \<open>Jobs\<close>

datatype Job =
    SendJob MsgEnv LogMessageData
  | FlushJob MsgEnv nat
  | DestinationJob MsgEnv nat string
  | SymlinkJob MsgEnv nat string
  | ExtensionJob MsgEnv string
  | LoggerJob MsgEnv nat Logger
  | StderrJob int
  | EmailJob int string

text \<open>What each function does, called on its own.\<close>

fun job_run :: "Job \<Rightarrow> LogState \<Rightarrow> LogState option" where
  "job_run (SendJob env d) st = map_option snd (Flush env d st)"
| "job_run (FlushJob env sev) st = FlushLogFiles env sev st"
| "job_run (DestinationJob env sev base) st = SetLogDestination env sev base st"
| "job_run (SymlinkJob env sev name) st = SetLogSymlink env sev name st"
| "job_run (ExtensionJob env ext) st = SetLogFilenameExtension env ext st"
| "job_run (LoggerJob env sev l) st = SetLogger env sev l st"
| "job_run (StderrJob sev) st = SetStderrLogging sev st"
| "job_run (EmailJob sev addrs) st = SetEmailLogging sev addrs st"

text \<open>The actions of its block that holds the lock, and what it does behind it.\<close>

fun job_actions :: "Job \<Rightarrow> LogState action list" where
  "job_actions (SendJob env d) = section_actions env d"
| "job_actions (FlushJob env sev) = map (flush_one env) [sev..<NUM_SEVERITIES]"
| "job_actions (ExtensionJob env ext) = map (\<lambda>i. on_file env i (SetExtension ext)) [0..<NUM_SEVERITIES]"
| "job_actions j = [job_run j]"

fun job_rest :: "Job \<Rightarrow> LogState action" where
  "job_rest (SendJob env d) = wait_action d"
| "job_rest j = Some"

text \<open>
  The jobs this is for: the severities exist, and a message is not fatal, has something to say and is not
  dropped at once. \<open>level\<close> is \<^verbatim>\<open>FLAGS_minloglevel\<close>.
\<close>

fun job_ok :: "int \<Rightarrow> Job \<Rightarrow> bool" where
  "job_ok level (SendJob env d) = (msg_severity d < 3 \<and> \<not> has_been_flushed d \<and> level \<le> int (msg_severity d) \<and> sendable env d)"
| "job_ok level (DestinationJob env sev base) = (sev < NUM_SEVERITIES)"
| "job_ok level (SymlinkJob env sev name) = (sev < NUM_SEVERITIES)"
| "job_ok level (LoggerJob env sev l) = (sev < NUM_SEVERITIES)"
| "job_ok level (StderrJob sev) = (0 \<le> sev \<and> sev < int NUM_SEVERITIES)"
| "job_ok level (EmailJob sev addrs) = (0 \<le> sev \<and> sev < int NUM_SEVERITIES)"
| "job_ok level _ = True"

text \<open>Jobs done one after the other.\<close>

fun run_jobs :: "Job list \<Rightarrow> LogState \<Rightarrow> LogState option" where
  "run_jobs [] st = Some st"
| "run_jobs (j # js) st = Option.bind (job_run j st) (run_jobs js)"

subsection \<open>What an action sees\<close>

lemma run_logfiles_down: "run_actions (map f (rev [0..<Suc sev])) st = logfiles_down f sev st"
  by (induction sev arbitrary: st) (auto split: bind_splits)

text \<open>
  What the threads share: everything but the lock, the error number, which is each thread's own, and the waits for
  the sinks, which are done outside of the lock. The writes to the logs, to the standard outputs, to loggers and
  sinks of the user and to the system log are all there, in their order.
\<close>

fun is_wait :: "Event \<Rightarrow> bool" where
  "is_wait (SinkWait k) = True"
| "is_wait _ = False"

definition log_core :: "LogState \<Rightarrow> LogState" where
  "log_core st = st\<lparr>events := filter (\<lambda>e. \<not> is_wait e) (events st), log_mutex := False, errno := 0\<rparr>"

lemma log_core_updates [simp]:
  "log_core (event e st) = (if is_wait e then log_core st else event e (log_core st))"
  "log_core (st\<lparr>log_mutex := b\<rparr>) = log_core st" "log_core (st\<lparr>errno := c\<rparr>) = log_core st"
  "log_core (log_core st) = log_core st"
  by (simp_all add: log_core_def event_def)

lemma log_core_unlock: "log_mutex st \<Longrightarrow> log_core (unlock_log_mutex st) = log_core st"
  by (simp add: unlock_log_mutex_def)

lemma no_waits: "filter (\<lambda>e. \<not> is_wait e) (map SinkWait ks) = []"
  by (induction ks) simp_all

lemma log_core_WaitForSinks: "log_core (WaitForSinks own st) = log_core st"
  by (cases own) (simp_all add: WaitForSinks_eq log_core_def no_waits)

lemma log_core_LogToSinks:
  "log_core (LogToSinks sev full base line b st) = LogToSinks sev full base line b (log_core st)"
  by (simp add: LogToSinks_eq log_core_def sink_list_def filter_map comp_def)

lemma log_core_fields [simp]:
  "flags (log_core st) = flags st" "log_destinations (log_core st) = log_destinations st"
  "globals (log_core st) = globals st" "email_logging_severity (log_core st) = email_logging_severity st"
  "num_messages (log_core st) = num_messages st" "get_file d (log_core st) = get_file d st"
  "strings (log_core st) = strings st" "outvecs (log_core st) = outvecs st"
  "thread_data_available (log_core st) = thread_data_available st" "shared_data (log_core st) = shared_data st"
  "\<not> log_mutex (log_core st)" "events (log_core st) = filter (\<lambda>e. \<not> is_wait e) (events st)"
  by (simp_all add: log_core_def get_file_def)

text \<open>An action that does not look at the rest.\<close>

definition blind :: "LogState action \<Rightarrow> bool" where
  "blind f = (\<forall>st. map_option log_core (f st) = map_option log_core (f (log_core st)))"

lemma blind_same:
  assumes "blind f" and "log_core s1 = log_core s2" and "f s1 = Some s1'"
  shows "\<exists>s2'. f s2 = Some s2' \<and> log_core s1' = log_core s2'"
proof -
  have "map_option log_core (f s1) = map_option log_core (f s2)" using assms(1,2) unfolding blind_def by metis
  then show ?thesis using assms(3) by (cases "f s2") simp_all
qed

lemma log_core_put_file: "log_core (put_file sev d s st) = put_file sev d s (log_core st)"
  by (cases s) (simp add: log_core_def put_file_def set_destination_def)

lemma log_core_destination:
  "log_destination env i (log_core st) = map_option (\<lambda>(d, st1). (d, log_core st1)) (log_destination env i st)"
  by (auto simp: log_destination_def LogDestination_new_def Let_def split: option.split) (simp_all add: log_core_def)

lemma blind_destination:
  assumes "\<And>d st. map_option log_core (op d st) = map_option log_core (op d (log_core st))"
  shows "blind (\<lambda>st. Option.bind (log_destination env i st) (\<lambda>(d, st1). op d st1))"
  unfolding blind_def log_core_destination using assms by (auto split: option.split bind_split)

lemma blind_MaybeLogToLogfile: "blind (MaybeLogToLogfile env ts m i)"
proof -
  have "MaybeLogToLogfile env ts m i = (\<lambda>st. Option.bind (log_destination env i st)
      (\<lambda>(d, st1). logger_write env (FLAGS_logbuflevel (flags st1) < int i) ts m i d st1))"
    by (auto simp: fun_eq_iff MaybeLogToLogfile_def log_destination_def Let_def split: option.split)
  moreover have "map_option log_core (logger_write env (FLAGS_logbuflevel (flags st) < int i) ts m i d st) =
      map_option log_core (logger_write env (FLAGS_logbuflevel (flags (log_core st)) < int i) ts m i d (log_core st))" for d st
    by (auto simp: logger_write_def log_core_put_file option.map_comp comp_def Let_def split: Logger.split)
  ultimately show ?thesis using blind_destination by simp
qed

lemma blind_on_file: "blind (on_file env i op)"
proof -
  have "on_file env i op = (\<lambda>st. Option.bind (log_destination env i st) (\<lambda>(d, st1). Some (put_file i d (op (get_file d st1)) st1)))"
    by (simp add: fun_eq_iff on_file_def)
  then show ?thesis using blind_destination[of "\<lambda>d st1. Some (put_file i d (op (get_file d st1)) st1)"]
    by (simp add: log_core_put_file)
qed

lemma blind_flush_one: "blind (flush_one env i)"
proof -
  have "flush_one env i = (\<lambda>st. Option.bind (log_destination env i st) (\<lambda>(d, st1). Some (logger_flush env i d st1)))"
    by (auto simp: fun_eq_iff flush_one_def split: bind_split)
  moreover have "log_core (logger_flush env i d st) = log_core (logger_flush env i d (log_core st))" for d st
    by (auto simp: logger_flush_def log_core_put_file Let_def split: Logger.split)
  ultimately show ?thesis using blind_destination[of "\<lambda>d st1. Some (logger_flush env i d st1)"] by simp
qed

lemma blind_SetLogger: "blind (SetLogger env i l)"
proof -
  have "SetLogger env i l = (\<lambda>st. Option.bind (log_destination env i st) (\<lambda>(d, st1). Some (SetLoggerImpl i d l st1)))"
    by (auto simp: fun_eq_iff SetLogger_def split: bind_split)
  moreover have "log_core (SetLoggerImpl i d l st) = log_core (SetLoggerImpl i d l (log_core st))" for d st
    by (auto simp: SetLoggerImpl_def set_destination_def Let_def event_def log_core_def split: Logger.split)
  ultimately show ?thesis using blind_destination[of "\<lambda>d st1. Some (SetLoggerImpl i d l st1)"] by simp
qed

lemma blind_settings: "blind (SetStderrLogging sev)" "blind (SetEmailLogging sev addrs)"
  by (simp_all add: blind_def SetStderrLogging_def SetEmailLogging_def log_core_def)

lemma blind_log_actions:
  assumes "f \<in> set (log_actions env d)"
  shows "blind f"
proof -
  have "blind (\<lambda>st. map_option (\<lambda>b. LogToSinks sev full base line b st) (message_body d))" for sev full base line d
    by (simp add: blind_def log_core_LogToSinks option.map_comp comp_def)
  moreover have "blind (MaybeLogToStderr sev m)" for sev m
    by (simp add: blind_def MaybeLogToStderr_def output_event_def split: option.split)
  moreover have "blind (\<lambda>st. Some (MaybeLogToEmail env sev st))" for sev
    by (simp add: blind_def MaybeLogToEmail_def SendEmailInternal_def) (simp add: log_core_def)
  ultimately show ?thesis using assms blind_MaybeLogToLogfile by (auto simp: log_actions_def Let_def)
qed

lemma blind_section:
  assumes "f \<in> set (section_actions env d)"
  shows "blind f"
proof -
  have sink: "blind (send_to_sink e)" for e
    by (cases "target e"; cases "message_body e") (simp_all add: blind_def send_to_sink_def)
  have vec: "blind (save_or_send env e)" if "target e = OutvecTarget v" for e v
    using that by (cases "message_body e") (simp_all add: blind_def save_or_send_def, simp add: log_core_def)
  have str: "blind (string_action v e)" for v e
    by (cases "message_body e") (simp_all add: blind_def string_action_def, simp add: log_core_def)
  have sys: "blind (syslog_action e)" for e
    by (simp add: blind_def syslog_action_def) (simp add: log_core_def)
  have "blind (count_action sev)" for sev
    by (simp add: blind_def count_action_def) (simp add: log_core_def)
  then show ?thesis
    using assms sink vec str sys blind_log_actions[of f env "finish_text env d"]
    by (auto simp: section_actions_def send_actions_def split: SendMethod.splits Target.splits)
qed

lemma job_run_fun:
  "job_run (DestinationJob env sev base) = on_file env sev (SetBasename base)"
  "job_run (SymlinkJob env sev name) = on_file env sev (SetSymlinkBasename name)"
  "job_run (LoggerJob env sev l) = SetLogger env sev l"
  "job_run (StderrJob n) = SetStderrLogging n" "job_run (EmailJob n addrs) = SetEmailLogging n addrs"
  by (simp_all add: fun_eq_iff SetLogDestination_def SetLogSymlink_def)

lemma blind_job: "f \<in> set (job_actions j) \<Longrightarrow> blind f"
  by (cases j) (auto simp: job_run_fun intro: blind_section blind_flush_one blind_on_file blind_SetLogger blind_settings)

subsection \<open>What an action leaves alone\<close>

text \<open>What decides where messages go, and the lock.\<close>

definition kept :: "LogState \<Rightarrow> int \<times> bool \<times> bool \<times> (string \<times> string) \<times> bool" where
  "kept st = (FLAGS_minloglevel (flags st), FLAGS_logtostderr (flags st), FLAGS_logtostdout (flags st),
     program_names (globals st), log_mutex st)"

lemma kept_updates [simp]:
  "kept (event e st) = kept st" "kept (st\<lparr>log_destinations := a\<rparr>) = kept st" "kept (st\<lparr>num_messages := n\<rparr>) = kept st"
  "kept (st\<lparr>openlog_called := o1\<rparr>) = kept st" "kept (st\<lparr>strings := s\<rparr>) = kept st" "kept (st\<lparr>outvecs := v\<rparr>) = kept st"
  "kept (set_destination i d st) = kept st" "kept (st\<lparr>errno := c\<rparr>) = kept st" "kept (st\<lparr>events := es\<rparr>) = kept st"
  by (simp_all add: kept_def event_def set_destination_def)

lemma kept_put_file: "program_names (snd s) = program_names (globals st) \<Longrightarrow> kept (put_file i d s st) = kept st"
  using names.view_laws(1) by (cases s) (simp add: kept_def put_file_def set_destination_def)

lemma kept_destination: "log_destination env i st = Some (d, st1) \<Longrightarrow> kept st1 = kept st"
  by (auto simp: log_destination_def Let_def split: if_splits option.splits)

lemma program_names_get_file: "program_names (snd (get_file d st)) = program_names (globals st)"
  using names.view_laws(1) by (simp add: get_file_def)

lemma kept_MaybeLogToLogfile:
  assumes "MaybeLogToLogfile env ts m i st = Some st'"
  shows "kept st' = kept st"
proof -
  obtain d st1 where d: "log_destination env i st = Some (d, st1)"
    and w: "logger_write env (FLAGS_logbuflevel (flags st) < int i) ts m i d st1 = Some st'"
    using assms by (auto simp: MaybeLogToLogfile_def Let_def bind_eq_Some_conv)
  have "kept st' = kept st1"
  proof (cases "logger d")
    case OwnFile
    then obtain s where s: "Write (file_flags (flags st1)) (file_env env) (FLAGS_logbuflevel (flags st) < int i) ts m (get_file d st1) =
        Some s" "st' = put_file i d s (event (LoggerWrite i OwnFile (FLAGS_logbuflevel (flags st) < int i) ts m) st1)"
      using w by (auto simp: logger_write_def Let_def)
    then show ?thesis using names.view_Write[OF s(1)] program_names_get_file by (simp add: kept_put_file)
  next
    case (UserLogger k)
    then show ?thesis using w by (auto simp: logger_write_def)
  qed
  then show ?thesis using kept_destination[OF d] by simp
qed

lemma kept_on_file:
  assumes "on_file env i op st = Some st'" and "\<And>s. program_names (snd (op s)) = program_names (snd s)"
  shows "kept st' = kept st"
proof -
  obtain d st1 where d: "log_destination env i st = Some (d, st1)" "st' = put_file i d (op (get_file d st1)) st1"
    using assms(1) by (auto simp: on_file_def bind_eq_Some_conv)
  then have "kept st' = kept st1" using assms(2) program_names_get_file by (simp add: kept_put_file)
  then show ?thesis using kept_destination[OF d(1)] by simp
qed

lemma kept_flush_one:
  assumes "flush_one env i st = Some st'"
  shows "kept st' = kept st"
proof -
  obtain d st1 where d: "log_destination env i st = Some (d, st1)" "st' = logger_flush env i d st1"
    using assms by (auto simp: flush_one_def)
  have "kept (logger_flush env i d st1) = kept st1"
    using program_names_get_file by (auto simp: logger_flush_def Let_def kept_put_file split: Logger.split)
  then show ?thesis using kept_destination[OF d(1)] d(2) by simp
qed

lemma kept_SetLogger:
  assumes "SetLogger env i l st = Some st'"
  shows "kept st' = kept st"
proof -
  obtain d st1 where d: "log_destination env i st = Some (d, st1)" "st' = SetLoggerImpl i d l st1"
    using assms by (auto simp: SetLogger_def)
  have "kept (SetLoggerImpl i d l st1) = kept st1" by (simp add: SetLoggerImpl_def Let_def split: Logger.split)
  then show ?thesis using kept_destination[OF d(1)] d(2) by simp
qed

lemma kept_settings:
  "SetStderrLogging n st = Some st' \<Longrightarrow> kept st' = kept st" "SetEmailLogging n addrs st = Some st' \<Longrightarrow> kept st' = kept st"
  by (auto simp: SetStderrLogging_def SetEmailLogging_def kept_def split: if_splits)

text \<open>The actions of a message leave more alone: all of the settings, and where the data of messages is kept.\<close>

lemma section_leaves:
  assumes "f \<in> set (section_actions env d)" and "f st = Some st'"
  shows "kept st' = kept st \<and> held st' = held st"
proof -
  have "kept st' = kept st" if "MaybeLogToStderr sev m st = Some st'" for sev m
    using that by (auto simp: MaybeLogToStderr_def output_event_def split: if_splits option.splits)
  moreover have "kept (MaybeLogToEmail env sev st) = kept st" for sev
    using names.view_laws(3) by (simp add: MaybeLogToEmail_def SendEmailInternal_def kept_def)
  moreover have "kept (LogToSinks sev full base line b st) = kept st" for sev full base line b
    by (simp add: LogToSinks_eq)
  moreover have "f st = Some st' \<Longrightarrow> kept st' = kept st \<and> held st' = held st" if "f \<in> set (log_actions env d)" for d
    using that calculation kept_MaybeLogToLogfile held.view_MaybeLogToLogfile held.view_MaybeLogToStderr
    by (auto simp: log_actions_def Let_def held.view_updates)
  moreover have "kept st' = kept st \<and> held st' = held st" if "send_to_sink d st = Some st'" for d
    using that by (auto simp: send_to_sink_def held.view_rules bind_eq_Some_conv split: Target.splits)
  moreover have "kept st' = kept st \<and> held st' = held st" if "save_or_send env d st = Some st'" "target d = OutvecTarget v" for d v
    using that by (auto simp: save_or_send_def held.view_rules bind_eq_Some_conv)
  moreover have "kept st' = kept st \<and> held st' = held st" if "string_action v d st = Some st'" for d v
    using that by (auto simp: string_action_def held.view_rules)
  moreover have "kept st' = kept st \<and> held st' = held st" if "syslog_action d st = Some st'" for d
    using that by (auto simp: syslog_action_def held.view_rules)
  moreover have "kept st' = kept st \<and> held st' = held st" if "count_action sev st = Some st'" for sev
    using that by (auto simp: count_action_def held.view_rules)
  ultimately show ?thesis
    using assms by (auto simp: section_actions_def send_actions_def split: SendMethod.splits Target.splits)
qed

lemma kept_job:
  assumes "f \<in> set (job_actions j)" and "f st = Some st'"
  shows "kept st' = kept st"
proof (cases j)
  case (SendJob env d)
  then show ?thesis using section_leaves assms by auto
qed (use assms in \<open>auto simp: job_run_fun dest: kept_flush_one kept_SetLogger kept_settings dest!: kept_on_file\<close>)

lemma kept_fields:
  "kept st' = kept st \<Longrightarrow> FLAGS_minloglevel (flags st') = FLAGS_minloglevel (flags st) \<and> log_mutex st' = log_mutex st \<and>
     to_files st' = to_files st"
  by (simp add: kept_def to_files_def program_names_initialised)

lemma run_kept: "(\<forall>f\<in>set fs. \<forall>s s'. f s = Some s' \<longrightarrow> kept s' = kept s) \<Longrightarrow> run_actions fs st = Some st' \<Longrightarrow> kept st' = kept st"
  by (induction fs arbitrary: st) (auto simp: bind_eq_Some_conv)

lemma run_job_kept: "run_actions (job_actions j) st = Some st' \<Longrightarrow> kept st' = kept st"
  using run_kept[of "job_actions j" st st'] kept_job by blast

lemma run_blind:
  "(\<forall>f\<in>set fs. blind f) \<Longrightarrow> log_core s1 = log_core s2 \<Longrightarrow> run_actions fs s1 = Some s1' \<Longrightarrow>
   \<exists>s2'. run_actions fs s2 = Some s2' \<and> log_core s1' = log_core s2'"
proof (induction fs arbitrary: s1 s2)
  case (Cons f fs)
  obtain s3 where s3: "f s1 = Some s3" "run_actions fs s3 = Some s1'"
    using Cons.prems(3) by (auto simp: bind_eq_Some_conv)
  obtain s4 where s4: "f s2 = Some s4" "log_core s3 = log_core s4"
    using blind_same[of f s1 s2 s3] Cons.prems(1,2) s3(1) by auto
  show ?case using Cons.IH[OF _ s4(2) s3(2)] Cons.prems(1) s4(1) by auto
qed simp

subsection \<open>The actions are those of the code\<close>

lemma run_log:
  assumes "to_files st" and "msg_severity d < 3" and "message_body d = Some b"
  shows "run_actions (log_actions env d) st = send_to_log env d st"
proof -
  have f: "\<not> FLAGS_logtostderr (flags st)" "\<not> FLAGS_logtostdout (flags st)" "IsGoogleLoggingInitialized (utils (globals st))"
    using assms(1) by (simp_all add: to_files_def)
  have down: "LogToAllLogfiles env sev ts m st = logfiles_down (MaybeLogToLogfile env ts m) sev st" for sev ts m
    using f by (simp add: LogToAllLogfiles_def)
  show ?thesis using assms(2) f
    by (simp add: log_actions_def send_to_log_def assms(3) down run_actions_append run_logfiles_down run_actions_fun
        Let_def del: upt_Suc)
qed

lemma to_files_updates [simp]:
  "to_files (event e st) = to_files st" "to_files (st\<lparr>strings := s\<rparr>) = to_files st"
  "to_files (st\<lparr>openlog_called := b\<rparr>) = to_files st" "to_files (st\<lparr>log_mutex := b\<rparr>) = to_files st"
  by (simp_all add: to_files_def)

lemma run_send:
  assumes "to_files st" and "msg_severity d < 3" and "message_body d = Some b"
  shows "run_actions (send_actions env d) st = send env d st"
proof -
  note log = run_log[OF _ assms(2,3), of _ env]
  show ?thesis
    using log assms(1)
    by (auto simp: send_actions_def send_def send_to_sink_def save_or_send_def write_to_string_def send_to_syslog_def
        string_action_def syslog_action_def assms(3) run_actions_fun split: SendMethod.split Target.split)
qed

lemma run_section:
  assumes "to_files st" and "job_ok level (SendJob env d)"
  shows "run_actions (section_actions env d) st = Option.bind (send env (finish_text env d) st) (count_action (msg_severity d))"
  using assms run_send[of st "finish_text env d" _ env] finish_text_body[of env d]
  by (simp add: section_actions_def run_actions_append run_actions_fun)

lemma run_loop:
  assumes "\<And>i s. loop 0 i s = Some s" and "\<And>n i s. loop (Suc n) i s = Option.bind (f i s) (loop n (Suc i))"
  shows "run_actions (map f [i..<i + n]) s = loop n i s"
proof (induction n arbitrary: i s)
  case (Suc n)
  have "[i..<i + Suc n] = i # [Suc i..<Suc i + n]" by (simp add: upt_conv_Cons)
  moreover have "run_actions (map f [Suc i..<Suc i + n]) = loop n (Suc i)" using Suc.IH by blast
  ultimately show ?case by (simp only: list.map run_actions.simps assms(2))
qed (simp add: assms(1))

lemma run_job_actions:
  assumes "\<forall>env d. j \<noteq> SendJob env d"
  shows "run_actions (job_actions j) st = job_run j st"
proof (cases j)
  case (FlushJob env sev)
  have "[sev..<NUM_SEVERITIES] = [sev..<sev + (NUM_SEVERITIES - sev)]" by (cases "sev \<le> NUM_SEVERITIES") simp_all
  then show ?thesis using FlushJob run_loop[of "flush_loop env" "flush_one env", OF flushing.loop_end flushing.loop_step, of sev "NUM_SEVERITIES - sev" st] by (simp add: FlushLogFiles_def)
next
  case (ExtensionJob env ext)
  then show ?thesis using ExtensionJob run_loop[of "extension_loop env ext" "\<lambda>i. on_file env i (SetExtension ext)",
      OF extensions.loop_end extensions.loop_step, of 0 NUM_SEVERITIES st] by (simp add: SetLogFilenameExtension_def)
qed (use assms in \<open>simp_all add: run_actions_fun\<close>)

text \<open>One after the other, without a pause between them, the actions of a message do what \<^verbatim>\<open>LogMessage::Flush\<close> does.\<close>

lemma flush_actions_run:
  assumes "to_files st" and "job_ok (FLAGS_minloglevel (flags st)) (SendJob env d)"
  shows "run_actions (lock_action # section_actions env d @ [unlock_action, wait_action d]) st = map_option snd (Flush env d st)"
proof -
  have go: "\<not> (has_been_flushed d \<or> int (msg_severity d) < FLAGS_minloglevel (flags st))"
    using assms(2) by simp
  have own: "own_sink (finish_text env d) = own_sink d" by (simp add: own_sink_def)
  have "to_files (st\<lparr>log_mutex := True\<rparr>)" using assms(1) by simp
  note run = run_section[OF this assms(2)]
  show ?thesis
  proof (cases "log_mutex st \<or> send env (finish_text env d) (st\<lparr>log_mutex := True\<rparr>) = None")
    case True
    then show ?thesis by (auto simp: run_actions_append run lock_action_def Flush_def go)
  next
    case False
    then obtain st1 where "send env (finish_text env d) (st\<lparr>log_mutex := True\<rparr>) = Some st1" "\<not> log_mutex st" by blast
    then show ?thesis
      by (simp add: run_actions_append run lock_action_def Flush_def go Let_def own
          count_action_def unlock_action_def wait_action_def)
  qed
qed

text \<open>The section of a job and the job, from states that differ in what the threads do not share.\<close>

lemma section_job:
  assumes "run_actions (job_actions j) s = Some s'" and "log_core s = log_core st"
    and "to_files st" and "\<not> log_mutex st" and "job_ok (FLAGS_minloglevel (flags st)) j"
  shows "\<exists>st'. job_run j st = Some st' \<and> log_core s' = log_core st' \<and> kept st' = kept st"
proof (cases "\<forall>env d. j \<noteq> SendJob env d")
  case True
  obtain st' where st': "run_actions (job_actions j) st = Some st'" "log_core s' = log_core st'"
    using run_blind[OF _ assms(2,1)] blind_job by blast
  then have "job_run j st = Some st'" using run_job_actions[OF True] by simp
  then show ?thesis using st'(2) run_job_kept[OF st'(1)] by blast
next
  case False
  then obtain env d where j: "j = SendJob env d" by blast
  let ?l = "st\<lparr>log_mutex := True\<rparr>"
  have "log_core s = log_core ?l" using assms(2) by simp
  then obtain st1 where st1: "run_actions (section_actions env d) ?l = Some st1" "log_core s' = log_core st1"
    using run_blind[of "section_actions env d" s ?l s'] assms(1) blind_section unfolding j by auto
  have held: "kept st1 = kept ?l" using run_job_kept[of j ?l st1] st1(1) unfolding j by simp
  obtain st2 where st2: "wait_action d (unlock_log_mutex st1) = Some st2" by (simp add: wait_action_def)
  have "run_actions (lock_action # section_actions env d @ [unlock_action, wait_action d]) st = Some st2"
    using assms(4) st1(1) st2 by (simp add: lock_action_def unlock_action_def run_actions_append)
  moreover have "log_mutex st1" using held by (simp add: kept_def)
  then have "log_core st2 = log_core st1"
    using st2 by (auto simp: wait_action_def log_core_WaitForSinks log_core_unlock Let_def split: if_splits)
  moreover have "kept st2 = kept (unlock_log_mutex st1)"
    using st2 by (auto simp: wait_action_def WaitForSinks_eq Let_def split: if_splits)
  moreover have "kept (unlock_log_mutex st1) = kept st" using held assms(4) by (simp add: kept_def unlock_log_mutex_def)
  ultimately show ?thesis using flush_actions_run[OF assms(3) assms(5)[unfolded j]] st1(2) unfolding j
    by (intro exI[of _ st2]) simp
qed

lemma sections_jobs:
  assumes "run_actions (concat (map job_actions js)) s = Some s'"
    and "log_core s = log_core st" and "to_files st" and "\<not> log_mutex st"
    and "list_all (job_ok (FLAGS_minloglevel (flags st))) js"
  shows "\<exists>st'. run_jobs js st = Some st' \<and> log_core s' = log_core st'"
  using assms
proof (induction js arbitrary: s st)
  case (Cons j js)
  obtain s1 where s1: "run_actions (job_actions j) s = Some s1" "run_actions (concat (map job_actions js)) s1 = Some s'"
    using Cons.prems(1) by (auto simp: run_actions_append bind_eq_Some_conv)
  obtain st1 where st1: "job_run j st = Some st1" "log_core s1 = log_core st1" "kept st1 = kept st"
    using section_job[OF s1(1) Cons.prems(2-4)] Cons.prems(5) by auto
  show ?case using Cons.IH[OF s1(2) st1(2)] Cons.prems(3-5) kept_fields[OF st1(3)] st1(1) by simp
qed simp

subsection \<open>The actions do not fail\<close>

definition threads_ok :: "LogState \<Rightarrow> bool" where
  "threads_ok st = lib_ok (log_core st)"

lemma log_ok_core [simp]: "log_ok (log_core st) = log_ok st"
  by (simp add: log_ok_def consistent_get_file)

lemma threads_ok_iff: "threads_ok st \<longleftrightarrow> log_ok st \<and> thread_data_available st \<and>
    length (fst (shared_data st)) = kMaxLogMessageLen + 1 \<and> fst (snd (shared_data st)) \<le> kMaxLogMessageLen - 2 \<and>
    UnlockedTwice \<notin> set (events st)"
  by (auto simp: threads_ok_def lib_ok_iff)

lemma lib_ok_threads: "lib_ok st \<Longrightarrow> threads_ok st"
  by (simp add: threads_ok_iff lib_ok_iff)

lemma blind_ok:
  assumes "blind f" and "threads_ok st" and "\<And>s. lib_ok s \<Longrightarrow> \<exists>s'. f s = Some s' \<and> lib_ok s'"
  shows "\<exists>st'. f st = Some st' \<and> threads_ok st'"
proof -
  obtain s' where s': "f (log_core st) = Some s'" "lib_ok s'" using assms(2,3) by (auto simp: threads_ok_def)
  obtain st' where st': "f st = Some st'" "log_core s' = log_core st'"
    using blind_same[OF assms(1) _ s'(1), of st] by auto
  then have "threads_ok st' = threads_ok s'" by (simp add: threads_ok_def)
  then show ?thesis using st'(1) lib_ok_threads[OF s'(2)] by simp
qed

definition once_ok :: "LogState \<Rightarrow> bool" where
  "once_ok st = (log_ok st \<and> UnlockedTwice \<notin> set (events st))"

lemma once_ok_event [simp]: "once_ok (event e st) \<longleftrightarrow> once_ok st \<and> e \<noteq> UnlockedTwice"
  by (auto simp: once_ok_def event_def)

lemma once_ok_sent: "sent_from st0 st \<Longrightarrow> once_ok st0 \<Longrightarrow> once_ok st"
  using no_sink_event_unlock by (fastforce simp: sent_from_def once_ok_def)

lemma log_actions_ok:
  assumes "f \<in> set (log_actions env d)" and "once_ok st" and "msg_severity d < 3" and "message_body d = Some b"
  shows "\<exists>st'. f st = Some st' \<and> once_ok st'"
proof -
  have ok: "log_ok st" using assms(2) by (simp add: once_ok_def)
  have "\<exists>st'. MaybeLogToLogfile env ts m i st = Some st' \<and> once_ok st'" if "i \<le> msg_severity d" for ts m i
    using files.log_good[of i st st env ts m] that assms(2,3)
    by (fastforce simp: logging_from_def NUM_SEVERITIES_def once_ok_def)
  moreover have "\<exists>st'. MaybeLogToStderr (msg_severity d) m st = Some st' \<and> once_ok st'" for m
    using sent_from_MaybeLogToStderr[OF sent_from_refl[OF ok], of "msg_severity d" m] assms(2,3) once_ok_sent by fastforce
  moreover have "once_ok (MaybeLogToEmail env sev st)" for sev
    using sent_from_MaybeLogToEmail[OF sent_from_refl[OF ok]] once_ok_sent assms(2) by blast
  moreover have "once_ok (LogToSinks sev full base line b st)" for sev full base line b
    using assms(2) by (auto simp: LogToSinks_eq once_ok_def)
  ultimately show ?thesis using assms(1,4) by (auto simp: log_actions_def Let_def)
qed

lemma section_good:
  assumes "f \<in> set (section_actions env d)" and "threads_ok st" and "job_ok level (SendJob env d)"
  shows "\<exists>st'. f st = Some st' \<and> threads_ok st'"
proof -
  let ?d = "finish_text env d"
  have body: "message_body ?d = Some (sent_body env d)" using assms(3) finish_text_body by simp
  have ok: "once_ok st" using assms(2) by (simp add: threads_ok_iff once_ok_def)
  have upd: "once_ok (st\<lparr>outvecs := v\<rparr>)" "once_ok (st\<lparr>strings := t\<rparr>)" "once_ok (st\<lparr>openlog_called := b\<rparr>)" "once_ok (st\<lparr>num_messages := n\<rparr>)" for v t b n
    using ok by (simp_all add: once_ok_def log_ok_def consistent_get_file)
  have log: "f \<in> set (log_actions env ?d) \<Longrightarrow> \<exists>st'. f st = Some st' \<and> once_ok st'"
    using log_actions_ok[OF _ ok _ body, of f env] assms(3) by simp
  have "\<exists>st'. send_to_sink ?d st = Some st' \<and> once_ok st'"
    using ok by (auto simp: send_to_sink_def body split: Target.split)
  moreover have "\<exists>st'. save_or_send env ?d st = Some st' \<and> once_ok st'" if "target ?d = OutvecTarget v" for v
    using upd that by (simp add: save_or_send_def body)
  moreover have "\<exists>st'. string_action v ?d st = Some st' \<and> once_ok st'" for v
    using upd by (simp add: string_action_def body)
  moreover have "\<exists>st'. syslog_action ?d st = Some st' \<and> once_ok st'" using upd by (simp add: syslog_action_def)
  moreover have "\<exists>st'. count_action sev st = Some st' \<and> once_ok st'" for sev using upd by (simp add: count_action_def)
  ultimately obtain st' where st': "f st = Some st'" "once_ok st'"
    using assms(1) log by (fastforce simp: section_actions_def send_actions_def split: SendMethod.splits Target.splits)
  have "held st' = held st" using section_leaves[OF assms(1) st'(1)] by blast
  then show ?thesis using st' assms(2) by (auto simp: threads_ok_iff held_def once_ok_def)
qed

lemma SetLogger_ok:
  assumes "lib_ok st" and "sev < NUM_SEVERITIES"
  shows "\<exists>st'. SetLogger env sev l st = Some st' \<and> lib_ok st'"
proof -
  obtain d st1 where "log_destination env sev st = Some (d, st1)" "lib_ok st1" "log_destinations st1 sev = Some d"
    using lib_ok_destination[OF assms] by blast
  then show ?thesis using lib_ok_SetLoggerImpl by (simp add: SetLogger_def)
qed

lemma job_good:
  assumes "f \<in> set (job_actions j)" and "threads_ok st" and "job_ok level j"
  shows "\<exists>st'. f st = Some st' \<and> threads_ok st'"
proof (cases j)
  case (SendJob env d)
  then show ?thesis using section_good assms by simp
qed (use assms blind_ok[OF blind_job[OF assms(1)] assms(2)] lib_ok_flush_one lib_ok_on_file file_safe_ops SetLogger_ok in
  \<open>auto simp: job_run_fun SetStderrLogging_def SetEmailLogging_def lib_ok_globals\<close>)

interpretation jobs: live_sections log_mutex log_core lock_action unlock_action job_actions job_rest threads_ok "job_ok level"
  for level
proof
  fix j f s s' s1 s2 s1'
  show "lock_action s = Some s' \<Longrightarrow> \<not> log_mutex s \<and> log_mutex s' \<and> log_core s' = log_core s"
    "threads_ok s \<Longrightarrow> \<not> log_mutex s \<Longrightarrow> \<exists>s'. lock_action s = Some s' \<and> threads_ok s'"
    by (auto simp: lock_action_def threads_ok_def split: if_splits)
  show "log_mutex s \<Longrightarrow> unlock_action s = Some s' \<Longrightarrow> \<not> log_mutex s' \<and> log_core s' = log_core s"
    "threads_ok s \<Longrightarrow> log_mutex s \<Longrightarrow> \<exists>s'. unlock_action s = Some s' \<and> threads_ok s'"
    by (auto simp: unlock_action_def unlock_log_mutex_def threads_ok_def)
  show "job_rest j s = Some s' \<Longrightarrow> log_mutex s' = log_mutex s \<and> log_core s' = log_core s"
    "threads_ok s \<Longrightarrow> \<exists>s'. job_rest j s = Some s' \<and> threads_ok s'"
    by (cases j; auto simp: wait_action_def WaitForSinks_eq log_core_WaitForSinks[unfolded WaitForSinks_eq] threads_ok_def Let_def split: if_splits)+
  assume f: "f \<in> set (job_actions j)"
  show "f s = Some s' \<Longrightarrow> log_mutex s' = log_mutex s" using kept_job[OF f] by (simp add: kept_def)
  show "log_core s1 = log_core s2 \<Longrightarrow> f s1 = Some s1' \<Longrightarrow> \<exists>s2'. f s2 = Some s2' \<and> log_core s1' = log_core s2'"
    by (rule blind_same[OF blind_job[OF f]])
  show "job_ok level j \<Longrightarrow> threads_ok s \<Longrightarrow> \<exists>s'. f s = Some s' \<and> threads_ok s'" using job_good[OF f] by blast
qed

subsection \<open>Threads that use the library\<close>

text \<open>The threads that start with the jobs \<open>js\<close>, and what they may have done.\<close>

definition threads_reach :: "LogState \<Rightarrow> (nat \<Rightarrow> Job list) \<Rightarrow> (LogState, Job) Threads \<Rightarrow> bool" where
  "threads_reach st js T = thread_reach lock_action unlock_action job_actions job_rest (begin_threads st js) T"

text \<open>C6. However the threads that use the library are interleaved, when none of their messages is fatal: whenever
  no thread is in a block that holds the mutex, all that they share is as if the jobs that have had the mutex had been
  done one after the other, each without a pause, in an order in which every thread does its own jobs in their order.
  That is the log files, the settings, the counts of messages, the vectors and strings of the user, and all output so
  far, in its order: to loggers, to the standard outputs, to sinks and to the system log. Only the waits for the
  sinks, which are outside of the lock, may come at another place.\<close>

theorem messages_serialised:
  assumes "to_files st" and "\<not> log_mutex st" and "\<forall>t. list_all (job_ok (FLAGS_minloglevel (flags st))) (js t)"
    and "threads_reach st js T" and "\<not> log_mutex (shared T)"
  shows "\<exists>ord st'. (\<forall>t. js t = jobs_of t ord @ remaining T t) \<and> run_jobs (map snd ord) st = Some st' \<and>
    log_core (shared T) = log_core st'"
proof -
  obtain ord s' where ord: "\<forall>t. js t = jobs_of t ord @ remaining T t"
    "run_actions (concat (map (job_actions \<circ> snd) ord)) st = Some s'" "log_core (shared T) = log_core s'"
    using jobs.reach_run[OF assms(4)[unfolded threads_reach_def] assms(2,5)] by blast
  have "job_ok (FLAGS_minloglevel (flags st)) j" if "(t, j) \<in> set ord" for t j
  proof -
    have "j \<in> set (jobs_of t ord)" using that by (force simp: jobs_of_def)
    then have "j \<in> set (js t)" using ord(1) by (metis Un_iff set_append)
    then show ?thesis using assms(3) by (auto simp: list_all_iff)
  qed
  then have ok: "list_all (job_ok (FLAGS_minloglevel (flags st))) (map snd ord)" by (auto simp: list_all_iff)
  show ?thesis
    using sections_jobs[of "map snd ord" st s' st, OF _ refl assms(1,2) ok] ord by (auto simp: comp_def)
qed

text \<open>C7. Threads that use the library, without fatal messages, do not wait for each other for ever. Whatever \<open>n\<close> steps they have made, at
  most one of them is inside a block that holds the mutex; they can go on until all jobs are done; and they cannot
  make more steps than the jobs of the threads \<open>us\<close> have, so they end, whoever is chosen to go on.\<close>

theorem threads_get_on:
  assumes "lib_ok st" and "\<forall>t. list_all (job_ok (FLAGS_minloglevel (flags st))) (js t)"
    and "finite us" and "\<forall>t. t \<notin> us \<longrightarrow> js t = []"
    and "(thread_step lock_action unlock_action job_actions job_rest ^^ n) (begin_threads st js) T"
  shows "(\<forall>t u. inside T t \<and> inside T u \<longrightarrow> t = u) \<and>
    (\<exists>T'. thread_reach lock_action unlock_action job_actions job_rest T T' \<and> (\<forall>t. jobs T' t = [])) \<and>
    n \<le> (\<Sum>t\<in>us. job_steps job_actions (js t))"
proof -
  have free: "\<not> log_mutex st" and ok: "threads_ok st" using assms(1) lib_ok_threads by (simp_all add: lib_ok_iff)
  have reach: "thread_reach lock_action unlock_action job_actions job_rest (begin_threads st js) T"
    by (rule steps_reach[OF assms(5)])
  have only: "only_threads us (begin_threads st js)" using assms(4) by (simp add: begin_threads_left)
  note left = steps_bounded[OF assms(5,3) only]
  have "n \<le> (\<Sum>t\<in>us. job_steps job_actions (js t))" using left begin_threads_left(1)[of job_actions us st js] by linarith
  then show ?thesis
    using jobs.reach_exclusive[OF reach free] jobs.completes[OF reach free ok assms(2,3)] left by blast
qed

subsection \<open>Two threads\<close>

text \<open>One flushes a message and then the files, the other one moves the log of the lowest severity.\<close>

definition demo_job :: Job where
  "demo_job = SendJob demo_msg_env (stream_put ''hi'' (demo_data\<lparr>send_method := SendToLog\<rparr>))"

definition demo_jobs :: "nat \<Rightarrow> Job list" where
  "demo_jobs = (\<lambda>_. [])(0 := [demo_job], 1 := [DestinationJob demo_msg_env 0 ''/tmp/a.''])"

lemma demo_jobs_ok: "\<forall>t. list_all (job_ok (FLAGS_minloglevel (flags demo_init))) (demo_jobs t)"
proof -
  let ?start = "demo_data\<lparr>send_method := SendToLog\<rparr>"
  let ?d = "stream_put ''hi'' ?start"
  have ok: "data_ok ?start" by (simp add: data_ok_def demo_data_def kMaxLogMessageLen_def)
  have "data_ok ?d" using stream_put_text(2)[OF ok] .
  moreover have "length (msg_text ?d) = 2"
    unfolding stream_put_text(1)[OF ok] by (simp add: msg_text_def demo_data_def kMaxLogMessageLen_def)
  ultimately have "pcount ?d = 2" using length_msg_text by metis
  then have "job_ok 0 demo_job"
    using stream_put_text(2)[OF ok, of "''hi''"] by (simp add: demo_job_def sendable_def) (simp add: demo_data_def)
  then show ?thesis by (simp add: demo_jobs_def demo_init_fields default_msg_flags_def NUM_SEVERITIES_def)
qed

text \<open>The first thread has logged its message, the second one has not begun.\<close>

lemma demo_threads:
  "\<exists>T. threads_reach demo_init demo_jobs T \<and> \<not> log_mutex (shared T) \<and> remaining T = demo_jobs(0 := [])"
proof -
  let ?d = "stream_put ''hi'' (demo_data\<lparr>send_method := SendToLog\<rparr>)"
  have ok: "job_ok (FLAGS_minloglevel (flags demo_init)) demo_job" using demo_jobs_ok[rule_format, of 0] by (simp add: demo_jobs_def)
  obtain d' st' where f: "Flush demo_msg_env ?d demo_init = Some (d', st')" "\<not> log_mutex st'"
    using Flush_sends[OF demo_init_fields(1,2), of ?d demo_msg_env] ok by (auto simp: demo_job_def)
  have "run_actions (lock_action # job_actions demo_job @ [unlock_action, job_rest demo_job]) demo_init = Some st'"
    using flush_actions_run[OF demo_init_fields(3) ok[unfolded demo_job_def]] f(1) by (simp add: demo_job_def)
  then have "threads_reach demo_init demo_jobs ((begin_threads demo_init demo_jobs)\<lparr>shared := st',
      jobs := (jobs (begin_threads demo_init demo_jobs))(0 := [])\<rparr>)"
    unfolding threads_reach_def by (intro job_alone[where j = demo_job]) (simp_all add: begin_threads_def demo_jobs_def)
  then show ?thesis using f(2) by (intro exI[of _ "(begin_threads demo_init demo_jobs)\<lparr>shared := st', jobs := (jobs (begin_threads demo_init demo_jobs))(0 := [])\<rparr>"])
      (auto simp: remaining_def begin_threads_def fun_eq_iff)
qed

theorem messages_serialised_witness:
  "\<exists>T st'. threads_reach demo_init demo_jobs T \<and> run_jobs [demo_job] demo_init = Some st' \<and>
     log_core (shared T) = log_core st'"
proof -
  obtain T where T: "threads_reach demo_init demo_jobs T" "\<not> log_mutex (shared T)" "remaining T = demo_jobs(0 := [])"
    using demo_threads by blast
  obtain ord st' where ord: "\<forall>t. demo_jobs t = jobs_of t ord @ remaining T t" "run_jobs (map snd ord) demo_init = Some st'"
    "log_core (shared T) = log_core st'"
    using messages_serialised[OF demo_init_fields(3,2) demo_jobs_ok T(1,2)] by blast
  have of: "jobs_of t ord = (if t = 0 then [demo_job] else [])" for t
    using ord(1)[rule_format, of t] T(3) by (cases "t = 0"; cases "t = 1") (simp_all add: demo_jobs_def)
  have "map snd ord = [demo_job]"
  proof (cases ord)
    case Nil
    then show ?thesis using of[of 0] by simp
  next
    case (Cons p ord')
    then have "fst p = 0 \<and> snd p = demo_job" using of[of "fst p"] by (simp split: if_splits)
    moreover have "jobs_of t ord' = []" for t using of[of t] Cons calculation by (simp split: if_splits)
    then have "ord' = []" by (cases ord') (force split: if_splits)+
    ultimately show ?thesis using Cons by simp
  qed
  then show ?thesis using T(1) ord(2,3) by auto
qed

lemma demo_init_ok: "lib_ok demo_init"
proof -
  obtain u where u: "demo_init = demo_log\<lparr>globals := (globals demo_log)\<lparr>utils := u\<rparr>\<rparr>" using demo_init_eq by blast
  have "thread_data_available demo_init = thread_data_available demo_log" "shared_data demo_init = shared_data demo_log"
    "events demo_init = events demo_log" by (subst u, simp)+
  then show ?thesis using demo_init_fields(1,2)
    by (simp add: lib_ok_iff) (simp add: demo_log_def AddLogSink_def log_start_def kMaxLogMessageLen_def)
qed

theorem threads_get_on_witness:
  "\<exists>T. thread_reach lock_action unlock_action job_actions job_rest (begin_threads demo_init demo_jobs) T \<and>
     (\<forall>t. jobs T t = [])"
proof -
  have zero: "(thread_step lock_action unlock_action job_actions job_rest ^^ 0) (begin_threads demo_init demo_jobs)
      (begin_threads demo_init demo_jobs)" by simp
  have "finite {0, 1 :: nat}" by simp
  then show ?thesis
    using threads_get_on[OF demo_init_ok demo_jobs_ok _ _ zero, of "{0, 1}"] by (simp add: demo_jobs_def)
qed

end
