(* ===== verification/Log_Checks.thy ===== *)
theory Log_Checks
  imports Log_Macros
begin

section \<open>Logging: string checks, pointer checks and the debug macros\<close>

text \<open>
  The rest of the checks of \<^verbatim>\<open>src/glog/logging.h.in\<close>: \<^verbatim>\<open>CHECK_STREQ\<close> and its variants, \<^verbatim>\<open>CHECK_NOTNULL\<close>,
  \<^verbatim>\<open>LOG_ASSERT\<close>, and the debug variants, which are the same macros or nothing: \<open>DCHECK_IS_ON\<close> is a
  parameter.
\<close>

text \<open>\<^verbatim>\<open>LOG(FATAL)\<close>: a \<open>LogMessageFatal\<close> that is written to and ends.\<close>

definition LOG_FATAL :: "MsgEnv \<Rightarrow> string \<Rightarrow> string \<Rightarrow> int \<Rightarrow> string \<Rightarrow> LogState \<Rightarrow>
    (LogState \<times> fail_func list) option" where
  "LOG_FATAL env buf fname line msg st =
     (let (d, st1) = LogMessage_severity env buf fname line 3 st
      in map_option (\<lambda>(d, st2, fails). (st2, fails)) (LogMessageFatal_end env (stream_put msg d) st1))"

text \<open>\<open>result\<close> is the text of \<^verbatim>\<open>CheckstrcmptrueImpl\<close> or one of the other three.\<close>

definition CHECK_STROP :: "MsgEnv \<Rightarrow> string \<Rightarrow> string \<Rightarrow> int \<Rightarrow> string option \<Rightarrow> string \<Rightarrow> LogState \<Rightarrow>
    (LogState \<times> fail_func list) option" where
  "CHECK_STROP env buf fname line result msg st =
     (case result of None \<Rightarrow> Some (st, []) | Some r \<Rightarrow> LOG_FATAL env buf fname line (r @ msg) st)"

definition LOG_ASSERT :: "MsgEnv \<Rightarrow> string \<Rightarrow> string \<Rightarrow> int \<Rightarrow> string \<Rightarrow> bool \<Rightarrow> string \<Rightarrow> LogState \<Rightarrow>
    (LogState \<times> fail_func list) option" where
  "LOG_ASSERT env buf fname line cond_text condition msg st =
     (if condition then Some (st, [])
      else LOG_FATAL env buf fname line (''Assert failed: '' @ cond_text @ msg) st)"

text \<open>A pointer is \<open>None\<close> when it is null; it is what the macro returns.\<close>

definition CheckNotNull :: "MsgEnv \<Rightarrow> string \<Rightarrow> string \<Rightarrow> int \<Rightarrow> string \<Rightarrow> 'p option \<Rightarrow> LogState \<Rightarrow>
    ('p option \<times> LogState \<times> fail_func list) option" where
  "CheckNotNull env buf fname line names t st =
     (if t = None then
        (let (d, st1) = LogMessage_check env buf fname line names st
         in map_option (\<lambda>(d, st2, fails). (t, st2, fails)) (LogMessageFatal_end env d st1))
      else Some (t, st, []))"

definition CHECK_NOTNULL :: "MsgEnv \<Rightarrow> string \<Rightarrow> string \<Rightarrow> int \<Rightarrow> string \<Rightarrow> 'p option \<Rightarrow> LogState \<Rightarrow>
    ('p option \<times> LogState \<times> fail_func list) option" where
  "CHECK_NOTNULL env buf fname line val_text val st =
     CheckNotNull env buf fname line ([CHR 0x27] @ val_text @ [CHR 0x27] @ '' Must be non nullptr'') val st"

text \<open>The debug variants: \<open>dcheck\<close> says whether they are on. Switched off they evaluate nothing.\<close>

definition DCHECK :: "bool \<Rightarrow> MsgEnv \<Rightarrow> string \<Rightarrow> string \<Rightarrow> int \<Rightarrow> string \<Rightarrow> bool \<Rightarrow> string \<Rightarrow> LogState \<Rightarrow>
    (LogState \<times> fail_func list) option" where
  "DCHECK dcheck env buf fname line cond_text condition msg st =
     (if dcheck then CHECK env buf fname line cond_text condition msg st else Some (st, []))"

definition DCHECK_OP :: "bool \<Rightarrow> MsgEnv \<Rightarrow> string \<Rightarrow> string \<Rightarrow> int \<Rightarrow> string \<Rightarrow> bool \<Rightarrow> string \<Rightarrow> string \<Rightarrow> string \<Rightarrow>
    LogState \<Rightarrow> (LogState \<times> fail_func list) option" where
  "DCHECK_OP dcheck env buf fname line exprtext holds v1 v2 msg st =
     (if dcheck then CHECK_OP env buf fname line exprtext holds v1 v2 msg st else Some (st, []))"

definition DCHECK_STROP :: "bool \<Rightarrow> MsgEnv \<Rightarrow> string \<Rightarrow> string \<Rightarrow> int \<Rightarrow> string option \<Rightarrow> string \<Rightarrow> LogState \<Rightarrow>
    (LogState \<times> fail_func list) option" where
  "DCHECK_STROP dcheck env buf fname line result msg st =
     (if dcheck then CHECK_STROP env buf fname line result msg st else Some (st, []))"

definition DCHECK_NOTNULL :: "bool \<Rightarrow> MsgEnv \<Rightarrow> string \<Rightarrow> string \<Rightarrow> int \<Rightarrow> string \<Rightarrow> 'p option \<Rightarrow> LogState \<Rightarrow>
    ('p option \<times> LogState \<times> fail_func list) option" where
  "DCHECK_NOTNULL dcheck env buf fname line val_text val st =
     (if dcheck then CHECK_NOTNULL env buf fname line val_text val st else Some (val, st, []))"

definition DLOG_IF :: "bool \<Rightarrow> MsgEnv \<Rightarrow> string \<Rightarrow> string \<Rightarrow> int \<Rightarrow> nat \<Rightarrow> bool \<Rightarrow> string \<Rightarrow> LogState \<Rightarrow> LogState option" where
  "DLOG_IF dcheck env buf fname line sev condition msg st =
     (if dcheck then LOG_IF env buf fname line sev condition msg st else Some st)"

subsection \<open>What the checks log\<close>

lemma LOG_FATAL_logged:
  assumes "ready_for_fatal env buf fname line msg st"
  shows "\<exists>st' fails. LOG_FATAL env buf fname line msg st = Some (st', fails) \<and> fails \<noteq> [] \<and>
    (\<forall>i\<le>3. LoggerWrite i (logger_at st i) (FLAGS_logbuflevel (flags st) < int i) (timestamp (message_time env st))
       (add_newline (standard_prefix env st fname line 3 @ msg)) \<in> set (events st'))"
proof -
  obtain d st0 where init: "Init env buf fname line 3 SendToLog st = (d, st0)" by (metis surj_pair)
  obtain d' st' where fl: "Flush env (stream_put msg d) st0 = Some (d', st')" "has_been_flushed d'"
    "\<forall>i\<le>3. LoggerWrite i (logger_at st i) (FLAGS_logbuflevel (flags st) < int i) (timestamp (message_time env st))
       (add_newline (standard_prefix env st fname line 3 @ msg)) \<in> set (events st')"
    using fresh_fatal_logged[OF assms fresh_severity[OF assms init]] by blast
  have "LOG_FATAL env buf fname line msg st = Some (release d' st', LogMessage_Fail (utils (globals st')))"
    using fl by (simp add: LOG_FATAL_def LogMessage_severity_def init LogMessageFatal_end_def flushed_end)
  then show ?thesis using fl(3) LogMessage_Fail_some by auto
qed

definition strcheck_text :: "string \<Rightarrow> string \<Rightarrow> string \<Rightarrow> string \<Rightarrow> string" where
  "strcheck_text names a b msg = ''CHECK_STREQ failed: '' @ names @ '' ('' @ a @ '' vs. '' @ b @ '')'' @ msg"

text \<open>A string check does nothing for equal strings, and for others it logs both of them and ends in
  the failure functions.\<close>

lemma failed_strcheck_logged:
  assumes "ready_for_fatal env buf fname line (strcheck_text names a b msg) st"
  shows "if a = b then CHECK_STROP env buf fname line (CHECK_STREQ (Some a) (Some b) names) msg st = Some (st, [])
    else \<exists>st' fails. CHECK_STROP env buf fname line (CHECK_STREQ (Some a) (Some b) names) msg st = Some (st', fails) \<and>
      fails \<noteq> [] \<and>
      (\<forall>i\<le>3. LoggerWrite i (logger_at st i) (FLAGS_logbuflevel (flags st) < int i) (timestamp (message_time env st))
         (add_newline (standard_prefix env st fname line 3 @ strcheck_text names a b msg)) \<in> set (events st'))"
proof (cases "a = b")
  case True
  then show ?thesis using check_streq_iff[of b b names] by (simp add: CHECK_STROP_def)
next
  case False
  then have "CHECK_STROP env buf fname line (CHECK_STREQ (Some a) (Some b) names) msg st =
      LOG_FATAL env buf fname line (strcheck_text names a b msg) st"
    by (simp add: CHECK_STROP_def CHECK_STREQ_def CheckStrImpl_def str_eq_def Let_def strcheck_text_def)
  then show ?thesis using False LOG_FATAL_logged[OF assms] by simp
qed

end
