(* ===== verification/Log_Verbose.thy ===== *)
theory Log_Verbose
  imports Log_Delivery Vlog
begin

section \<open>Logging: messages for some targets, and verbose messages\<close>

text \<open>
  The macros of \<^verbatim>\<open>src/glog/logging.h.in\<close> for messages that are kept or sent to one sink only, and
  the composition of messages with the registry of verbose levels: \<^verbatim>\<open>VLOG\<close> and its variants.
\<close>

text \<open>A message with the standard prefix can be made and sent.\<close>

definition ready_to_log :: "MsgEnv \<Rightarrow> string \<Rightarrow> string \<Rightarrow> int \<Rightarrow> nat \<Rightarrow> LogState \<Rightarrow> bool" where
  "ready_to_log env buf fname line sev st =
     (log_ok st \<and> \<not> log_mutex st \<and> sev < 4 \<and> \<not> (sev = 3 \<and> exit_on_dfatal st) \<and>
      FLAGS_minloglevel (flags st) \<le> int sev \<and> length buf = kMaxLogMessageLen + 1 \<and>
      FLAGS_log_backtrace_at (flags st) = [] \<and> custom_prefix_callback st = None \<and> FLAGS_log_prefix (flags st) \<and>
      line \<noteq> - 1 \<and> length (standard_prefix env st fname line sev) \<le> kMaxLogMessageLen - 2)"

text \<open>What the sinks, vectors and strings get.\<close>

definition user_text :: "MsgEnv \<Rightarrow> string \<Rightarrow> int \<Rightarrow> nat \<Rightarrow> string \<Rightarrow> LogState \<Rightarrow> string" where
  "user_text env fname line sev msg st =
     strip_newline (take (kMaxLogMessageLen - 2 - length (standard_prefix env st fname line sev)) msg)"

subsection \<open>Messages for a vector or for one sink\<close>

text \<open>\<^verbatim>\<open>LOG_STRING\<close>, \<^verbatim>\<open>LOG_TO_SINK\<close>, \<^verbatim>\<open>LOG_TO_SINK_BUT_NOT_TO_LOGFILE\<close> and \<^verbatim>\<open>LOG_TO_STRING\<close>.\<close>

definition LOG_STRING :: "MsgEnv \<Rightarrow> string \<Rightarrow> string \<Rightarrow> int \<Rightarrow> nat \<Rightarrow> nat option \<Rightarrow> string \<Rightarrow> LogState \<Rightarrow> LogState option" where
  "LOG_STRING env buf fname line sev outvec msg st =
     map_option snd (log_message env msg (LogMessage_outvec env buf fname line sev outvec st))"

definition LOG_TO_SINK :: "MsgEnv \<Rightarrow> string \<Rightarrow> string \<Rightarrow> int \<Rightarrow> nat \<Rightarrow> nat option \<Rightarrow> string \<Rightarrow> LogState \<Rightarrow> LogState option" where
  "LOG_TO_SINK env buf fname line sev sink msg st =
     map_option snd (log_message env msg (LogMessage_sink env buf fname line sev sink True st))"

definition LOG_TO_SINK_BUT_NOT_TO_LOGFILE :: "MsgEnv \<Rightarrow> string \<Rightarrow> string \<Rightarrow> int \<Rightarrow> nat \<Rightarrow> nat option \<Rightarrow> string \<Rightarrow>
    LogState \<Rightarrow> LogState option" where
  "LOG_TO_SINK_BUT_NOT_TO_LOGFILE env buf fname line sev sink msg st =
     map_option snd (log_message env msg (LogMessage_sink env buf fname line sev sink False st))"

definition LOG_TO_STRING :: "MsgEnv \<Rightarrow> string \<Rightarrow> string \<Rightarrow> int \<Rightarrow> nat \<Rightarrow> nat option \<Rightarrow> string \<Rightarrow> LogState \<Rightarrow> LogState option" where
  "LOG_TO_STRING env buf fname line sev message msg st =
     map_option snd (log_message env msg (LogMessage_string env buf fname line sev message st))"

lemma stream_put_target: "stream_put s (d\<lparr>target := t\<rparr>) = (stream_put s d)\<lparr>target := t\<rparr>"
  by (simp add: stream_put_def Let_def)

lemma target_unused:
  "finish_text env (d\<lparr>target := t\<rparr>) = (finish_text env d)\<lparr>target := t\<rparr>"
  "message_body (d\<lparr>target := t\<rparr>) = message_body d"
  by (simp_all add: finish_text_def ends_in_newline_def message_body_def Let_def)

lemma release_other:
  "outvecs (release d st) = outvecs st" "log_destinations (release d st) = log_destinations st"
  by (simp_all add: release_def split: Storage.split)

text \<open>Flushing a message whose target takes it all: nothing goes to the logs.\<close>

lemma Flush_target:
  assumes "\<not> log_mutex st" and "FLAGS_minloglevel (flags st) \<le> int (msg_severity d)" and "\<not> has_been_flushed d"
    and "send env (finish_text env d) (st\<lparr>log_mutex := True\<rparr>) = Some st1" and "log_mutex st1"
  shows "\<exists>d' st'. Flush env d st = Some (d', st') \<and> storage d' = storage d \<and> outvecs st' = outvecs st1 \<and>
    log_destinations st' = log_destinations st1 \<and> events st' = events st1 @ map SinkWait (rev (sink_list st1)) @
      (case own_sink d of None \<Rightarrow> [] | Some k \<Rightarrow> [SinkWait k])"
proof -
  have "sink_list (st1\<lparr>num_messages := n, log_mutex := False\<rparr>) = sink_list st1" for n by (simp add: sink_list_def)
  then show ?thesis using assms
    by (simp add: Flush_def Let_def unlock_log_mutex_def WaitForSinks_eq restore_text_def)
qed

lemma made_for:
  assumes "ready_to_log env buf fname line sev st"
  shows "\<exists>d0 st1 d. Init env buf fname line sev how st = (d0, st1) \<and> d = stream_put msg d0 \<and>
      message_body (finish_text env d) = Some (user_text env fname line sev msg st) \<and> msg_severity d = sev \<and>
      send_method d = how \<and> \<not> has_been_flushed d \<and> fullname d = fname \<and> msg_basename d = const_basename fname \<and>
      msg_line d = line \<and> \<not> log_mutex st1 \<and> flags st1 = flags st \<and> sink_list st1 = sink_list st \<and>
      events st1 = events st \<and> log_destinations st1 = log_destinations st \<and> outvecs st1 = outvecs st"
proof -
  have pre: "\<not> uses_shared sev st" "length buf = kMaxLogMessageLen + 1" "FLAGS_log_backtrace_at (flags st) = []"
    "custom_prefix_callback st = None" "FLAGS_log_prefix (flags st)" "line \<noteq> - 1"
    "length (standard_prefix env st fname line sev) \<le> kMaxLogMessageLen - 2"
    using assms by (auto simp: ready_to_log_def uses_shared_def)
  obtain d0 st1 where init: "Init env buf fname line sev how st = (d0, st1)" by (metis surj_pair)
  note m = made_message[OF init pre refl[of "stream_put msg d0"]]
  have "outvecs st1 = outvecs st" by (subst m(6)) simp
  then show ?thesis
    using init m(5) finish_text_body[OF m(1)] allocation_fields[OF m(6)] assms
    unfolding m(3) user_text_def ready_to_log_def by auto
qed

lemma vector_message:
  assumes "ready_to_log env buf fname line sev st"
  shows "\<exists>st'. LOG_STRING env buf fname line sev (Some v) msg st = Some st' \<and>
      outvecs st' = (outvecs st)(v := outvecs st v @ [user_text env fname line sev msg st]) \<and>
      events st' = events st @ map SinkWait (rev (sink_list st)) \<and> log_destinations st' = log_destinations st"
proof -
  let ?new = "(outvecs st)(v := outvecs st v @ [user_text env fname line sev msg st])"
  obtain d0 st1 d where m: "Init env buf fname line sev SaveOrSendToLog st = (d0, st1)" "d = stream_put msg d0"
    "message_body (finish_text env d) = Some (user_text env fname line sev msg st)" "msg_severity d = sev"
    "send_method d = SaveOrSendToLog" "\<not> has_been_flushed d" "\<not> log_mutex st1" "flags st1 = flags st"
    "sink_list st1 = sink_list st" "events st1 = events st" "log_destinations st1 = log_destinations st"
    "outvecs st1 = outvecs st"
    using made_for[OF assms, of SaveOrSendToLog msg] by blast
  let ?d = "d\<lparr>target := OutvecTarget v\<rparr>"
  have "send env (finish_text env ?d) (st1\<lparr>log_mutex := True\<rparr>) = Some (st1\<lparr>log_mutex := True, outvecs := ?new\<rparr>)"
    using m(3,5,12) by (simp add: target_unused send_def save_or_send_def)
  from Flush_target[OF _ _ _ this] m assms obtain d' st' where "Flush env ?d st1 = Some (d', st')"
    "outvecs st' = ?new" "log_destinations st' = log_destinations st" "events st' = events st @ map SinkWait (rev (sink_list st))"
    by (auto simp: ready_to_log_def own_sink_def sink_list_def)
  then show ?thesis using m(1,2)
    by (simp add: LOG_STRING_def LogMessage_outvec_def log_message_def LogMessage_end_def stream_put_target release_other)
qed

lemma sink_message:
  assumes "ready_to_log env buf fname line sev st"
  shows "\<exists>st'. LOG_TO_SINK_BUT_NOT_TO_LOGFILE env buf fname line sev (Some k) msg st = Some st' \<and>
      outvecs st' = outvecs st \<and>
      events st' = events st @ SinkSend k sev fname (const_basename fname) line (user_text env fname line sev msg st) #
        map SinkWait (rev (sink_list st)) @ [SinkWait k] \<and> log_destinations st' = log_destinations st"
proof -
  let ?e = "SinkSend k sev fname (const_basename fname) line (user_text env fname line sev msg st)"
  obtain d0 st1 d where m: "Init env buf fname line sev SendToSink st = (d0, st1)" "d = stream_put msg d0"
    "message_body (finish_text env d) = Some (user_text env fname line sev msg st)" "msg_severity d = sev"
    "send_method d = SendToSink" "\<not> has_been_flushed d" "fullname d = fname" "msg_basename d = const_basename fname"
    "msg_line d = line" "\<not> log_mutex st1" "flags st1 = flags st" "sink_list st1 = sink_list st"
    "events st1 = events st" "log_destinations st1 = log_destinations st" "outvecs st1 = outvecs st"
    using made_for[OF assms, of SendToSink msg] by blast
  let ?d = "d\<lparr>target := SinkTarget k\<rparr>"
  have "send env (finish_text env ?d) (st1\<lparr>log_mutex := True\<rparr>) = Some (event ?e (st1\<lparr>log_mutex := True\<rparr>))"
    using m by (simp add: target_unused send_def send_to_sink_def)
  from Flush_target[OF _ _ _ this] m assms obtain d' st' where "Flush env ?d st1 = Some (d', st')"
    "outvecs st' = outvecs st" "log_destinations st' = log_destinations st"
    "events st' = events st @ ?e # map SinkWait (rev (sink_list st)) @ [SinkWait k]"
    by (auto simp: ready_to_log_def own_sink_def sink_list_def event_def)
  then show ?thesis using m(1,2)
    by (simp add: LOG_TO_SINK_BUT_NOT_TO_LOGFILE_def LogMessage_sink_def log_message_def LogMessage_end_def
        stream_put_target release_other)
qed

text \<open>C21. A message for a vector of the user is appended to it, and one for a single sink is sent to it and
  waited for; in both cases the text is that of the user without prefix and final newline, and
  nothing is written to any log.\<close>

theorem message_to_target:
  assumes "ready_to_log env buf fname line sev st"
  shows "(\<exists>st'. LOG_STRING env buf fname line sev (Some v) msg st = Some st' \<and>
      outvecs st' = (outvecs st)(v := outvecs st v @ [user_text env fname line sev msg st]) \<and>
      events st' = events st @ map SinkWait (rev (sink_list st)) \<and> log_destinations st' = log_destinations st) \<and>
    (\<exists>st'. LOG_TO_SINK_BUT_NOT_TO_LOGFILE env buf fname line sev (Some k) msg st = Some st' \<and>
      outvecs st' = outvecs st \<and>
      events st' = events st @ SinkSend k sev fname (const_basename fname) line (user_text env fname line sev msg st) #
        map SinkWait (rev (sink_list st)) @ [SinkWait k] \<and> log_destinations st' = log_destinations st)"
  using vector_message[OF assms] sink_message[OF assms] by blast

lemma demo_ready_plain: "sev \<in> {0, 1} \<Longrightarrow> ready_to_log demo_msg_env (replicate 30001 NUL) ''a.cc'' 7 sev demo_log"
  using demo_prefix_length[of sev] demo_log_ok
  by (auto simp: ready_to_log_def demo_log_fields default_msg_flags_def kMaxLogMessageLen_def)

theorem message_to_target_witness:
  "\<exists>st' m. LOG_STRING demo_msg_env (replicate 30001 NUL) ''a.cc'' 7 1 (Some 3) ''hi'' demo_log = Some st' \<and>
     outvecs st' 3 = outvecs demo_log 3 @ [m] \<and> events st' = [SinkWait 7, SinkWait 5]"
  using message_to_target[OF demo_ready_plain[of 1], of 3 "''hi''" 9] by (fastforce simp: demo_log_fields)

subsection \<open>Verbose messages\<close>

text \<open>
  The macros, in the state of the registry of verbose levels and of the library. \<open>site\<close> is the
  number of the call site; \<^verbatim>\<open>VLOG_EVERY_N\<close> has counters of its own besides.
\<close>

definition VLOG :: "MsgEnv \<Rightarrow> string \<Rightarrow> string \<Rightarrow> int \<Rightarrow> nat \<Rightarrow> int \<Rightarrow> string \<Rightarrow> VState \<times> LogState \<Rightarrow>
    (VState \<times> LogState) option" where
  "VLOG env buf fname line site verboselevel msg = (\<lambda>(vs, st).
     let (on, vs1) = VLOG_IS_ON site fname verboselevel vs
     in map_option (Pair vs1) (LOG_IF env buf fname line 0 on msg st))"

definition VLOG_IF :: "MsgEnv \<Rightarrow> string \<Rightarrow> string \<Rightarrow> int \<Rightarrow> nat \<Rightarrow> int \<Rightarrow> bool \<Rightarrow> string \<Rightarrow> VState \<times> LogState \<Rightarrow>
    (VState \<times> LogState) option" where
  "VLOG_IF env buf fname line site verboselevel condition msg = (\<lambda>(vs, st).
     let (on, vs1) = (if condition then VLOG_IS_ON site fname verboselevel vs else (False, vs))
     in map_option (Pair vs1) (LOG_IF env buf fname line 0 on msg st))"

definition VLOG_EVERY_N :: "MsgEnv \<Rightarrow> string \<Rightarrow> string \<Rightarrow> int \<Rightarrow> nat \<Rightarrow> int \<Rightarrow> 32 word \<Rightarrow> string \<Rightarrow>
    VState \<times> Site \<times> LogState \<Rightarrow> (VState \<times> Site \<times> LogState) option" where
  "VLOG_EVERY_N env buf fname line site verboselevel n msg = (\<lambda>(vs, s, st).
     let (on, vs1) = VLOG_IS_ON site fname verboselevel vs
     in map_option (Pair vs1) (LOG_IF_EVERY_N env buf fname line 0 on n SendToLog msg (s, st)))"

definition VLOG_IF_EVERY_N :: "MsgEnv \<Rightarrow> string \<Rightarrow> string \<Rightarrow> int \<Rightarrow> nat \<Rightarrow> int \<Rightarrow> bool \<Rightarrow> 32 word \<Rightarrow> string \<Rightarrow>
    VState \<times> Site \<times> LogState \<Rightarrow> (VState \<times> Site \<times> LogState) option" where
  "VLOG_IF_EVERY_N env buf fname line site verboselevel condition n msg = (\<lambda>(vs, s, st).
     let (on, vs1) = (if condition then VLOG_IS_ON site fname verboselevel vs else (False, vs))
     in map_option (Pair vs1) (LOG_IF_EVERY_N env buf fname line 0 on n SendToLog msg (s, st)))"

text \<open>The level of a file: that of the first entry whose pattern matches its base name, or \<open>FLAGS_v\<close>;
  the entries of the flag are read by the first call of all.\<close>

definition module_level :: "VState \<Rightarrow> string \<Rightarrow> int" where
  "module_level vs fname =
     (let vs1 = (if inited_vmodule vs then vs else VLOG2Initializer vs)
      in case filter (\<lambda>i. SafeFNMatch (module_pattern (vinfos vs1 ! i)) (file_base fname)) (vmodule_list vs1) of
           [] \<Rightarrow> FLAGS_v vs1 | i # _ \<Rightarrow> vlog_level (vinfos vs1 ! i))"

lemma first_match_filter:
  "first_match vs base is = (case filter (\<lambda>i. SafeFNMatch (pattern_of vs i) base) is of [] \<Rightarrow> FlagV | i # _ \<Rightarrow> InfoLevel i)"
  by (induction "is") auto

lemma module_level_first:
  "module_level vs fname =
     (let vs1 = (if inited_vmodule vs then vs else VLOG2Initializer vs)
      in deref vs1 (first_match vs1 (file_base fname) (vmodule_list vs1)))"
  by (simp add: module_level_def first_match_filter pattern_of_def deref_def Let_def split: list.split)

lemma InitVLOG3_decides: "fst (InitVLOG3 site fname n vs) \<longleftrightarrow> n \<le> module_level vs fname"
  by (simp add: InitVLOG3_def module_level_first Let_def deref_def split: level_ptr.split)

text \<open>A site that has not cached its level, or follows \<open>FLAGS_v\<close>.\<close>

definition follows_default :: "VState \<Rightarrow> nat \<Rightarrow> string \<Rightarrow> bool" where
  "follows_default vs site fname = (level (sites vs site) = None \<or>
     level (sites vs site) = Some FlagV \<and> base_name (sites vs site) = Some (file_base fname))"

lemma VLOG_IS_ON_decides:
  assumes "vreach vs" and "follows_default vs site fname"
  shows "fst (VLOG_IS_ON site fname n vs) \<longleftrightarrow> n \<le> module_level vs fname"
proof (cases "level (sites vs site)")
  case None
  then show ?thesis by (simp add: VLOG_IS_ON_def InitVLOG3_decides)
next
  case (Some p)
  then have p: "p = FlagV" "base_name (sites vs site) = Some (file_base fname)"
    using assms(2) by (auto simp: follows_default_def)
  have ok: "vlog_ok vs" by (rule vreach_ok[OF assms(1)])
  then have "no_match vs (file_base fname)" "inited_vmodule vs"
    using Some p by (auto simp: vlog_ok_def site_ok_def)
  then have "module_level vs fname = FLAGS_v vs"
    by (simp add: module_level_first deref_def no_match_def first_match_FlagV[THEN iffD2])
  then show ?thesis using Some p by (simp add: VLOG_IS_ON_def deref_def)
qed

text \<open>C14. A \<^verbatim>\<open>VLOG\<close> statement whose site has not cached the level of a module logs its message, at severity
  \<^verbatim>\<open>INFO\<close>, to every sink exactly when its level is at most the level of its file: the level of the
  first entry whose pattern matches the base name of the file, or \<open>FLAGS_v\<close> when there is none;
  otherwise the library is left as it was. The registry stays in order.\<close>

theorem VLOG_logs_by_module:
  assumes "vreach vs" and "follows_default vs site fname" and "ready_to_log env buf fname line 0 st"
  shows "\<exists>vs' st'. VLOG env buf fname line site n msg (vs, st) = Some (vs', st') \<and> vreach vs' \<and>
    (if n \<le> module_level vs fname then
       (\<exists>es. list_all no_sink_event es \<and> events st' = events st @ es @
          map (\<lambda>k. SinkSend k 0 fname (const_basename fname) line (user_text env fname line 0 msg st)) (rev (sink_list st)) @
          map SinkWait (rev (sink_list st)))
     else st' = st)"
proof -
  obtain on vs' where v: "VLOG_IS_ON site fname n vs = (on, vs')" by (metis surj_pair)
  then have on: "on \<longleftrightarrow> n \<le> module_level vs fname" using VLOG_IS_ON_decides[OF assms(1,2), of n] by simp
  have reach: "vreach vs'" using vreach.step[OF assms(1) vstep.site[of vs site fname n]] v by simp
  have pre: "log_ok st" "\<not> log_mutex st" "(0::nat) < 4" "\<not> ((0::nat) = 3 \<and> exit_on_dfatal st)"
    "FLAGS_minloglevel (flags st) \<le> int 0" "length buf = kMaxLogMessageLen + 1"
    "FLAGS_log_backtrace_at (flags st) = []" "custom_prefix_callback st = None" "FLAGS_log_prefix (flags st)" "line \<noteq> - 1"
    "length (standard_prefix env st fname line 0) \<le> kMaxLogMessageLen - 2"
    using assms(3) by (simp_all add: ready_to_log_def)
  obtain d st' es where "log_message env msg (LogMessage_severity env buf fname line 0 st) = Some (d, st')"
    "list_all no_sink_event es" "events st' = events st @ es @
      map (\<lambda>k. SinkSend k 0 fname (const_basename fname) line (user_text env fname line 0 msg st)) (rev (sink_list st)) @
      map SinkWait (rev (sink_list st))"
    using log_message_sinks[OF pre, of msg] unfolding user_text_def by blast
  then show ?thesis using on reach v by (cases on) (auto simp: VLOG_def LOG_IF_def)
qed

theorem VLOG_logs_by_module_witness:
  "\<exists>vs' st' es. VLOG demo_msg_env (replicate 30001 NUL) ''a.cc'' 7 0 2 ''hi'' (vinit 0 ''a*=3'', demo_log) = Some (vs', st') \<and>
     events st' = es @ [SinkWait 7, SinkWait 5]"
proof -
  have "follows_default (vinit 0 ''a*=3'') 0 ''a.cc''" by (simp add: follows_default_def vinit_def new_site_def)
  moreover have "2 \<le> module_level (vinit 0 ''a*=3'') ''a.cc''" by code_simp
  ultimately show ?thesis
    using VLOG_logs_by_module[OF vreach.start _ demo_ready_plain[of 0], of 0 "''a*=3''" 0 2 "''hi''"]
    by (fastforce simp: demo_log_fields)
qed

end
