(* ===== verification/Log_Exceptions.thy ===== *)
theory Log_Exceptions
  imports Log_Fatal Log_Storage
begin

section \<open>Logging: sinks that throw\<close>

text \<open>
  The sinks of the user may throw exceptions. \<^verbatim>\<open>LogMessage::Flush\<close> drops those that arise while the mutex is held,
  \<^verbatim>\<open>LogMessage::__FlushAndFailAtEnd\<close> prints those that arise while it waits for the sinks, and the end of a
  fatal message lets them pass. The functions of \<open>Log_Message\<close> with exceptions as values.
\<close>

subsection \<open>Exceptions\<close>

datatype Exn = StdException string | StdExceptionPointer string | OtherException

text \<open>What each sink throws, if it does, when it is sent a message and when it is waited for.\<close>

record SinkExceptions =
  send_throws :: "nat \<Rightarrow> Exn option"
  wait_throws :: "nat \<Rightarrow> Exn option"

type_synonym thrown = "Exn option \<times> LogState"

definition and_then :: "thrown \<Rightarrow> (LogState \<Rightarrow> thrown option) \<Rightarrow> thrown option" where
  "and_then r f = (case r of (Some e, st) \<Rightarrow> Some (Some e, st) | (None, st) \<Rightarrow> f st)"

text \<open>The loop over the sinks; the call that throws is made, the ones behind it are not.\<close>

fun calls_down :: "(nat \<Rightarrow> LogState \<Rightarrow> LogState) \<Rightarrow> (nat \<Rightarrow> Exn option) \<Rightarrow> nat list \<Rightarrow> nat \<Rightarrow> LogState \<Rightarrow> thrown" where
  "calls_down call throws l 0 st = (None, st)"
| "calls_down call throws l (Suc i) st =
     (case throws (l ! i) of
        Some e \<Rightarrow> (Some e, call (l ! i) st)
      | None \<Rightarrow> calls_down call throws l i (call (l ! i) st))"

definition LogToSinks_x :: "SinkExceptions \<Rightarrow> nat \<Rightarrow> string \<Rightarrow> string \<Rightarrow> int \<Rightarrow> string \<Rightarrow> LogState \<Rightarrow> thrown" where
  "LogToSinks_x X sev full base line message st =
     calls_down (\<lambda>k. event (SinkSend k sev full base line message)) (send_throws X) (sink_list st) (length (sink_list st)) st"

definition WaitForSinks_x :: "SinkExceptions \<Rightarrow> nat option \<Rightarrow> LogState \<Rightarrow> thrown" where
  "WaitForSinks_x X own st =
     (case calls_down (\<lambda>k. event (SinkWait k)) (wait_throws X) (sink_list st) (length (sink_list st)) st of
        (Some e, st1) \<Rightarrow> (Some e, st1)
      | (None, st1) \<Rightarrow> (case own of None \<Rightarrow> (None, st1) | Some k \<Rightarrow> (wait_throws X k, event (SinkWait k) st1)))"

subsection \<open>Sending\<close>

text \<open>What a fatal message does before the mutex is released.\<close>

definition fatal_front :: "MsgEnv \<Rightarrow> LogMessageData \<Rightarrow> LogState \<Rightarrow> LogState option" where
  "fatal_front env d st =
     (let st1 = (if first_fatal d then
            st\<lparr>globals := (globals st)\<lparr>utils := SetCrashReason (RecordCrashReason env d) (utils (globals st))\<rparr>,
               fatal_message := c_str (take (min (num_chars_to_log d) 255) (message_text d)),
               fatal_time := timestamp (logmsgtime d)\<rparr>
          else st)
      in if \<not> FLAGS_logtostderr (flags st1) \<and> \<not> FLAGS_logtostdout (flags st1)
         then write_all env NUM_SEVERITIES 0 st1 else Some st1)"

definition fatal_part_x :: "SinkExceptions \<Rightarrow> MsgEnv \<Rightarrow> LogMessageData \<Rightarrow> LogState \<Rightarrow> thrown option" where
  "fatal_part_x X env d st =
     do { st2 \<leftarrow> fatal_front env d st;
          and_then (WaitForSinks_x X (own_sink d) (unlock_log_mutex st2))
            (\<lambda>st3. Some (None, event (ToOutput Stderr stack_trace_line) st3)) }"

definition send_to_log_x :: "SinkExceptions \<Rightarrow> MsgEnv \<Rightarrow> LogMessageData \<Rightarrow> LogState \<Rightarrow> thrown option" where
  "send_to_log_x X env d st =
     do { (b, st2) \<leftarrow> send_front env d st;
          and_then (LogToSinks_x X (msg_severity d) (fullname d) (msg_basename d) (msg_line d) b st2)
            (\<lambda>st3. if msg_severity d = 3 \<and> exit_on_dfatal st3 then fatal_part_x X env d st3 else Some (None, st3)) }"

definition send_to_sink_x :: "SinkExceptions \<Rightarrow> LogMessageData \<Rightarrow> LogState \<Rightarrow> thrown option" where
  "send_to_sink_x X d st =
     (case target d of
        SinkTarget k \<Rightarrow> do { b \<leftarrow> message_body d;
          Some (send_throws X k, event (SinkSend k (msg_severity d) (fullname d) (msg_basename d) (msg_line d) b) st) }
      | _ \<Rightarrow> Some (None, st))"

definition send_x :: "SinkExceptions \<Rightarrow> MsgEnv \<Rightarrow> LogMessageData \<Rightarrow> LogState \<Rightarrow> thrown option" where
  "send_x X env d st =
     (case (send_method d, target d) of
        (SendToLog, _) \<Rightarrow> send_to_log_x X env d st
      | (SendToSink, _) \<Rightarrow> send_to_sink_x X d st
      | (SendToSinkAndLog, _) \<Rightarrow> do { r \<leftarrow> send_to_sink_x X d st; and_then r (send_to_log_x X env d) }
      | (SaveOrSendToLog, OutvecTarget v) \<Rightarrow>
          do { b \<leftarrow> message_body d; Some (None, st\<lparr>outvecs := (outvecs st)(v := outvecs st v @ [b])\<rparr>) }
      | (SaveOrSendToLog, _) \<Rightarrow> send_to_log_x X env d st
      | (WriteToStringAndLog, StringTarget v) \<Rightarrow>
          do { b \<leftarrow> message_body d; send_to_log_x X env d (st\<lparr>strings := (strings st)(v := b)\<rparr>) }
      | (WriteToStringAndLog, _) \<Rightarrow> send_to_log_x X env d st
      | (SendToSyslogAndLog, _) \<Rightarrow> send_to_log_x X env d
          (event (Syslog (syslog_level (msg_severity d))
             (c_str (take (num_chars_to_syslog d) (drop (num_prefix_chars d) (message_text d)))))
             (st\<lparr>openlog_called := True\<rparr>)))"

subsection \<open>Flushing and the end of a message\<close>

text \<open>
  What sending throws is dropped. When waiting throws, the text keeps the added newline and
  the message does not count as flushed.
\<close>

definition Flush_x :: "SinkExceptions \<Rightarrow> MsgEnv \<Rightarrow> LogMessageData \<Rightarrow> LogState \<Rightarrow>
    (Exn option \<times> LogMessageData \<times> LogState) option" where
  "Flush_x X env d st =
     (if has_been_flushed d \<or> int (msg_severity d) < FLAGS_minloglevel (flags st) then Some (None, d, st)
      else if log_mutex st then None
      else let d1 = finish_text env d
        in do { (dropped, st1) \<leftarrow> send_x X env d1 (st\<lparr>log_mutex := True\<rparr>);
                let st2 = unlock_log_mutex (st1\<lparr>num_messages := (num_messages st1)(msg_severity d := num_messages st1 (msg_severity d) + 1)\<rparr>)
                in case WaitForSinks_x X (own_sink d) st2 of
                     (Some e, st3) \<Rightarrow> Some (Some e, d1, st3)
                   | (None, st3) \<Rightarrow> Some (None, (restore_text env d d1)\<lparr>has_been_flushed := True\<rparr>,
                       if preserved_errno d \<noteq> 0 then st3\<lparr>errno := preserved_errno d\<rparr> else st3) })"

fun exception_line :: "Exn \<Rightarrow> string" where
  "exception_line OtherException = ''Exception caught. Rotten way to do this sort of thing anyway.'' @ [CHR 0x0A]"
| "exception_line (StdException msg) =
     ''Exception caught: '' @ msg @ ''. Rotten way to do this sort of thing anyway.'' @ [CHR 0x0A]"
| "exception_line (StdExceptionPointer msg) =
     ''Exception caught: '' @ msg @ ''. Rotten way to do this sort of thing anyway.'' @ [CHR 0x0A]"

text \<open>
  When \<open>Flush\<close> throws, the data of the message is not given back; the static data of later fatal messages
  stays as it is in any case.
\<close>

definition LogMessage_end_x :: "SinkExceptions \<Rightarrow> MsgEnv \<Rightarrow> LogMessageData \<Rightarrow> LogState \<Rightarrow> (LogMessageData \<times> LogState) option" where
  "LogMessage_end_x X env d st =
     do { (e, d1, st1) \<leftarrow> Flush_x X env d st;
          Some (case e of
              None \<Rightarrow> (d1, release d1 st1)
            | Some e \<Rightarrow> (d1, event (ToOutput Stderr (exception_line e)) (if storage d1 = SharedData then release d1 st1 else st1))) }"

text \<open>
  The end of a fatal message: it leaves with the exception of its sinks or calls the failure functions;
  the end of the base class runs in any case. The last result is what was thrown before the failure functions.
\<close>

definition LogMessageFatal_end_x :: "SinkExceptions \<Rightarrow> MsgEnv \<Rightarrow> LogMessageData \<Rightarrow> LogState \<Rightarrow>
    (LogMessageData \<times> LogState \<times> fail_func list \<times> Exn option) option" where
  "LogMessageFatal_end_x X env d st =
     do { (e, d1, st1) \<leftarrow> Flush_x X env d st; (d2, st2) \<leftarrow> LogMessage_end_x X env d1 st1;
          Some (d2, st2, (if e = None then LogMessage_Fail (utils (globals st1)) else []), e) }"

subsection \<open>Without exceptions\<close>

definition quiet :: "SinkExceptions \<Rightarrow> bool" where
  "quiet X = (\<forall>k. send_throws X k = None \<and> wait_throws X k = None)"

lemma and_then_None [simp]: "and_then (None, st) f = f st" "and_then (Some e, st) f = Some (Some e, st)"
  by (simp_all add: and_then_def)

lemma calls_down_quiet: "\<forall>k. throws k = None \<Longrightarrow> calls_down call throws l n st = (None, sinks_down call l n st)"
  by (induction n arbitrary: st) simp_all

lemma WaitForSinks_quiet: "\<forall>k. wait_throws X k = None \<Longrightarrow> WaitForSinks_x X own st = (None, WaitForSinks own st)"
  by (simp add: WaitForSinks_x_def WaitForSinks_def calls_down_quiet Let_def split: option.split)

lemma LogToSinks_quiet: "quiet X \<Longrightarrow> LogToSinks_x X sev full base line m st = (None, LogToSinks sev full base line m st)"
  by (simp add: LogToSinks_x_def LogToSinks_def calls_down_quiet quiet_def)

lemma fatal_part_front:
  "fatal_part env d st = map_option (\<lambda>st2. event (ToOutput Stderr stack_trace_line) (WaitForSinks (own_sink d) (unlock_log_mutex st2)))
     (fatal_front env d st)"
  by (simp add: fatal_part_def fatal_front_def Let_def map_conv_bind_option comp_def)

lemma send_to_log_quiet:
  assumes "quiet X"
  shows "send_to_log_x X env d st = map_option (Pair None) (send_to_log env d st)"
proof -
  have "fatal_part_x X env d st = map_option (Pair None) (fatal_part env d st)" for st
    using assms by (simp add: fatal_part_x_def fatal_part_front WaitForSinks_quiet quiet_def map_conv_bind_option comp_def)
  then show ?thesis
    by (cases "send_front env d st")
      (auto simp: send_to_log_x_def send_to_log_front LogToSinks_quiet[OF assms] Let_def split: prod.split)
qed

lemma Flush_x_quiet:
  assumes "quiet X"
  shows "Flush_x X env d st = map_option (Pair None) (Flush env d st)"
proof -
  have sink: "send_to_sink_x X e s = map_option (Pair None) (send_to_sink e s)" for e s
    using assms by (cases "message_body e") (auto simp: send_to_sink_x_def send_to_sink_def quiet_def split: Target.split)
  have "send_x X env e s = map_option (Pair None) (send env e s)" for e s
    using send_to_log_quiet[OF assms, of env] sink
    by (cases "send_to_sink e s"; cases "message_body e")
      (auto simp: send_x_def send_def save_or_send_def write_to_string_def send_to_syslog_def
        split: SendMethod.split Target.split)
  then show ?thesis
    using assms by (cases "send env (finish_text env d) (st\<lparr>log_mutex := True\<rparr>)")
      (auto simp: Flush_x_def Flush_def Let_def WaitForSinks_quiet quiet_def)
qed

text \<open>With sinks that do not throw, the end of a message is the one of \<open>Log_Message\<close>.\<close>

lemma LogMessage_end_x_quiet: "quiet X \<Longrightarrow> LogMessage_end_x X env d st = LogMessage_end env d st"
  by (cases "Flush env d st") (auto simp: LogMessage_end_x_def LogMessage_end_def Flush_x_quiet)

lemma LogMessageFatal_end_x_quiet:
  assumes "quiet X"
  shows "LogMessageFatal_end_x X env d st = map_option (\<lambda>(d, st, f). (d, st, f, None)) (LogMessageFatal_end env d st)"
proof (cases "Flush env d st")
  case (Some r)
  then show ?thesis
    by (cases r; cases "LogMessage_end env (fst r) (snd r)")
      (auto simp: LogMessageFatal_end_x_def LogMessageFatal_end_def Flush_x_quiet[OF assms] LogMessage_end_x_quiet[OF assms])
qed (simp add: LogMessageFatal_end_x_def LogMessageFatal_end_def Flush_x_quiet[OF assms])

subsection \<open>Which sinks are reached\<close>

text \<open>The sinks up to the first one that throws, in the order they are called, and what is thrown.\<close>

fun reached :: "(nat \<Rightarrow> Exn option) \<Rightarrow> nat list \<Rightarrow> nat list" where
  "reached throws [] = []"
| "reached throws (k # ks) = k # (case throws k of None \<Rightarrow> reached throws ks | Some e \<Rightarrow> [])"

fun first_thrown :: "(nat \<Rightarrow> Exn option) \<Rightarrow> nat list \<Rightarrow> Exn option" where
  "first_thrown throws [] = None"
| "first_thrown throws (k # ks) = (case throws k of None \<Rightarrow> first_thrown throws ks | Some e \<Rightarrow> Some e)"

lemma first_thrown_iff: "(first_thrown throws ks = None) = (\<forall>k\<in>set ks. throws k = None)"
  by (induction ks) (auto split: option.split)

lemma reached_quiet: "first_thrown throws ks = None \<Longrightarrow> reached throws ks = ks"
  by (induction ks) (auto split: option.splits)

lemma calls_down_eq:
  assumes "\<And>k st. call k st = event (f k) st" and "n \<le> length l"
  shows "calls_down call throws l n st = (first_thrown throws (rev (take n l)),
    st\<lparr>events := events st @ map f (reached throws (rev (take n l)))\<rparr>)"
  using assms(2)
proof (induction n arbitrary: st)
  case (Suc n)
  then have "rev (take (Suc n) l) = l ! n # rev (take n l)" by (simp add: take_Suc_conv_app_nth)
  then show ?case using Suc by (simp add: assms(1) event_def split: option.split)
qed simp

lemma LogToSinks_x_eq:
  "LogToSinks_x X sev full base line m st = (first_thrown (send_throws X) (rev (sink_list st)),
     st\<lparr>events := events st @ map (\<lambda>k. SinkSend k sev full base line m) (reached (send_throws X) (rev (sink_list st)))\<rparr>)"
  unfolding LogToSinks_x_def by (subst calls_down_eq) simp_all

lemma WaitForSinks_x_eq:
  "WaitForSinks_x X None st = (first_thrown (wait_throws X) (rev (sink_list st)),
     st\<lparr>events := events st @ map SinkWait (reached (wait_throws X) (rev (sink_list st)))\<rparr>)"
  unfolding WaitForSinks_x_def by (subst calls_down_eq) (auto split: option.split)

subsection \<open>A sink that throws when it is sent a message\<close>

abbreviation sends :: "MsgEnv \<Rightarrow> LogMessageData \<Rightarrow> nat list \<Rightarrow> Event list" where
  "sends env d ks \<equiv> map (\<lambda>k. SinkSend k (msg_severity d) (fullname d) (msg_basename d) (msg_line d) (sent_body env d)) ks"

lemma sink_list_sent_from: "sent_from st st2 \<Longrightarrow> sink_list st2 = sink_list st"
  by (simp add: sent_from_def sink_list_def)

lemma send_to_log_x_sinks:
  assumes "log_ok st" and "sendable env d" and "msg_severity d < 4"
    and "\<not> (msg_severity d = 3 \<and> exit_on_dfatal st) \<or> first_thrown (send_throws X) (rev (sink_list st)) \<noteq> None"
  shows "\<exists>st2. sent_from st st2 \<and> send_front env (finish_text env d) st = Some (sent_body env d, st2) \<and>
    send_to_log_x X env (finish_text env d) st = Some (first_thrown (send_throws X) (rev (sink_list st)),
      st2\<lparr>events := events st2 @ sends env d (reached (send_throws X) (rev (sink_list st)))\<rparr>)"
proof -
  have "msg_severity (finish_text env d) < 4" using assms(3) by simp
  then obtain st2 where st2: "sent_from st st2" "send_front env (finish_text env d) st = Some (sent_body env d, st2)"
    using send_front_start[OF assms(1) _ finish_text_body[OF assms(2)], of env] by blast
  moreover have "exit_on_dfatal st2 = exit_on_dfatal st" using st2(1) by (simp add: sent_from_def)
  ultimately show ?thesis using assms(4)
    by (auto simp: send_to_log_x_def LogToSinks_x_eq sink_list_sent_from and_then_def split: option.split)
qed

text \<open>
  What flushing does when the sinks may throw at any time; of a fatal message this holds when a sink throws as
  it is sent the message, since then the fatal part is skipped.
\<close>

lemma Flush_x_sends:
  assumes "log_ok st" and "\<not> log_mutex st" and "msg_severity d < 4" and "\<not> has_been_flushed d"
    and "FLAGS_minloglevel (flags st) \<le> int (msg_severity d)" and "sendable env d" and "send_method d = SendToLog"
    and "\<not> (msg_severity d = 3 \<and> exit_on_dfatal st) \<or> first_thrown (send_throws X) (rev (sink_list st)) \<noteq> None"
  shows "\<exists>d' st2 st' es. send_front env (finish_text env d) (st\<lparr>log_mutex := True\<rparr>) = Some (sent_body env d, st2) \<and>
    Flush_x X env d st = Some (first_thrown (wait_throws X) (rev (sink_list st)), d', st') \<and>
    log_ok st' \<and> \<not> log_mutex st' \<and> sinks st' = sinks st \<and> held st' = held st \<and> list_all no_sink_event es \<and>
    events st2 = events st @ es \<and> storage d' = storage d \<and>
    events st' = events st @ es @ sends env d (reached (send_throws X) (rev (sink_list st))) @
      map SinkWait (reached (wait_throws X) (rev (sink_list st))) \<and>
    st' = st2\<lparr>events := events st', log_mutex := False, errno := errno st',
      num_messages := (num_messages st2)(msg_severity d := num_messages st2 (msg_severity d) + 1)\<rparr> \<and>
    (first_thrown (wait_throws X) (rev (sink_list st)) = None \<longrightarrow>
       d' = (restore_text env d (finish_text env d))\<lparr>has_been_flushed := True\<rparr> \<and>
       errno st' = (if preserved_errno d \<noteq> 0 then preserved_errno d else errno st2)) \<and>
    (first_thrown (wait_throws X) (rev (sink_list st)) \<noteq> None \<longrightarrow> d' = finish_text env d)"
proof -
  let ?stl = "st\<lparr>log_mutex := True\<rparr>" and ?sinks = "rev (sink_list st)"
  have own: "own_sink d = None" using assms(7) by (simp add: own_sink_def split: Target.split)
  have "log_ok ?stl" "\<not> (msg_severity d = 3 \<and> exit_on_dfatal ?stl) \<or> first_thrown (send_throws X) (rev (sink_list ?stl)) \<noteq> None"
    using assms(1,8) by simp_all
  from send_to_log_x_sinks[OF this(1) assms(6,3) this(2)] obtain st2 where st2: "sent_from ?stl st2"
    "send_front env (finish_text env d) ?stl = Some (sent_body env d, st2)"
    "send_to_log_x X env (finish_text env d) ?stl = Some (first_thrown (send_throws X) ?sinks,
       st2\<lparr>events := events st2 @ sends env d (reached (send_throws X) ?sinks)\<rparr>)" by auto
  obtain es where es: "events st2 = events st @ es" "list_all no_sink_event es"
    using st2(1) by (auto simp: sent_from_def)
  have held: "held st2 = held st" using held.view_send_front[OF st2(2)] by (simp add: held.view_laws)
  have sl: "sink_list st2 = sink_list st" using sink_list_sent_from[OF st2(1)] by simp
  let ?st' = "st2\<lparr>events := events st2 @ sends env d (reached (send_throws X) ?sinks) @ map SinkWait (reached (wait_throws X) ?sinks),
    log_mutex := False, num_messages := (num_messages st2)(msg_severity d := num_messages st2 (msg_severity d) + 1)\<rparr>"
  let ?w = "first_thrown (wait_throws X) ?sinks"
  let ?st'' = "if ?w = None \<and> preserved_errno d \<noteq> 0 then ?st'\<lparr>errno := preserved_errno d\<rparr> else ?st'"
  have "Flush_x X env d st = Some (?w, if ?w = None then (restore_text env d (finish_text env d))\<lparr>has_been_flushed := True\<rparr>
      else finish_text env d, ?st'')"
    using assms(2,4,5,7) st2(1,3) sl
    by (auto simp: Flush_x_def send_x_def Let_def own unlock_log_mutex_def WaitForSinks_x_eq sent_from_def sink_list_def
        split: option.split)
  then show ?thesis
    using st2(1,2) es held sl
    by (intro exI[of _ "if ?w = None then (restore_text env d (finish_text env d))\<lparr>has_been_flushed := True\<rparr>
      else finish_text env d"] exI[of _ st2] exI[of _ ?st''] exI[of _ es])
      (simp add: sent_from_def held.view_laws restore_text_def finish_text_def Let_def)
qed

text \<open>
  A message that \<^verbatim>\<open>LOG_TO_SINK\<close> makes goes to its own sink first. When that sink throws, the message is
  nowhere else: no log, no standard stream and no other sink gets it, and it counts as flushed.
\<close>

lemma own_sink_failure_loses_message:
  assumes "\<not> log_mutex st" and "\<not> has_been_flushed d" and "FLAGS_minloglevel (flags st) \<le> int (msg_severity d)"
    and "sendable env d" and "send_method d = SendToSinkAndLog" and "target d = SinkTarget k"
    and "send_throws X k = Some e" and "\<forall>j. wait_throws X j = None"
  shows "\<exists>d' st'. Flush_x X env d st = Some (None, d', st') \<and> has_been_flushed d' \<and>
    events st' = events st @ sends env d [k] @ map SinkWait (rev (sink_list st)) @ [SinkWait k]"
proof -
  have none: "first_thrown (wait_throws X) l = None" for l using assms(8) by (simp add: first_thrown_iff)
  have own: "own_sink d = Some k" using assms(5,6) by (simp add: own_sink_def)
  have down: "calls_down (\<lambda>j. event (SinkWait j)) (wait_throws X) (sink_list s) (length (sink_list s)) s =
      (None, s\<lparr>events := events s @ map SinkWait (rev (sink_list s))\<rparr>)" for s
    by (subst calls_down_eq) (simp_all add: none reached_quiet)
  let ?d1 = "finish_text env d" and ?stl = "st\<lparr>log_mutex := True\<rparr>"
  have "send_x X env ?d1 ?stl = Some (Some e, ?stl\<lparr>events := events st @ sends env d [k]\<rparr>)"
    using assms(5-7) finish_text_body[OF assms(4)] by (simp add: send_x_def send_to_sink_x_def event_def)
  then show ?thesis
    using assms(1-3,8) by (simp add: Flush_x_def Let_def own unlock_log_mutex_def WaitForSinks_x_def
      down[unfolded sink_list_def] event_def sink_list_def)
qed

text \<open>C20. When a sink throws as it is sent a message that goes to the logs by \<^verbatim>\<open>SendToLog\<close>, not fatal, and no
  sink throws as it is waited for, no harm is done to the others: the log files, the standard streams and the sinks
  called before it get exactly what they would get, only the sinks behind it (those added earlier) miss the message;
  all sinks are waited for, no exception leaves \<open>Flush\<close>, and the message and the state of the library end up the
  same. (The methods with a sink of their own differ: \<open>own_sink_failure_loses_message\<close>.)\<close>

theorem sink_failures_isolated:
  assumes "log_ok st" and "\<not> log_mutex st" and "msg_severity d < 4" and "\<not> has_been_flushed d"
    and "FLAGS_minloglevel (flags st) \<le> int (msg_severity d)" and "sendable env d" and "send_method d = SendToLog"
    and "\<not> (msg_severity d = 3 \<and> exit_on_dfatal st)" and "\<forall>k\<in>set (sink_list st). wait_throws X k = None"
  shows "\<exists>d' st1 st2 es. Flush env d st = Some (d', st1) \<and> Flush_x X env d st = Some (None, d', st2) \<and>
    st2 = st1\<lparr>events := events st2\<rparr> \<and> has_been_flushed d' \<and> list_all no_sink_event es \<and>
    events st1 = events st @ es @ sends env d (rev (sink_list st)) @ map SinkWait (rev (sink_list st)) \<and>
    events st2 = events st @ es @ sends env d (reached (send_throws X) (rev (sink_list st))) @ map SinkWait (rev (sink_list st))"
proof -
  let ?none = "\<lparr>send_throws = \<lambda>k. None, wait_throws = \<lambda>k. None\<rparr> :: SinkExceptions" and ?sinks = "rev (sink_list st)"
  note all = Flush_x_sends[OF assms(1-7) disjI1[OF assms(8)]]
  have quiet: "first_thrown (\<lambda>k. None) ?sinks = None" "first_thrown (wait_throws X) ?sinks = None"
    using assms(9) by (simp_all add: first_thrown_iff)
  have calm: "quiet ?none" by (simp add: quiet_def)
  have "map_option (Pair None) (Flush env d st) = Flush_x ?none env d st" using Flush_x_quiet[OF calm] by simp
  then show ?thesis using all[of ?none] all[of X] unfolding SinkExceptions.simps quiet reached_quiet[OF quiet(1)] reached_quiet[OF quiet(2)]
    by auto
qed

text \<open>A message ''hi'' of the given severity; the sinks are 5 and 7, and 7 is called first.\<close>

definition demo_hi :: "nat \<Rightarrow> LogMessageData" where
  "demo_hi sev = stream_put ''hi'' (demo_data\<lparr>send_method := SendToLog, msg_severity := sev\<rparr>)"

lemma demo_hi_fields:
  "msg_severity (demo_hi sev) = sev" "send_method (demo_hi sev) = SendToLog" "\<not> has_been_flushed (demo_hi sev)"
  "sendable demo_msg_env (demo_hi sev)"
proof -
  let ?d = "demo_data\<lparr>send_method := SendToLog, msg_severity := sev\<rparr>"
  show "msg_severity (demo_hi sev) = sev" "send_method (demo_hi sev) = SendToLog" "\<not> has_been_flushed (demo_hi sev)"
    by (simp_all add: demo_hi_def demo_data_def)
  have "data_ok ?d" by (simp add: data_ok_def demo_data_def kMaxLogMessageLen_def)
  then have ok: "data_ok (demo_hi sev)" "msg_text (demo_hi sev) = msg_text ?d @ take (kMaxLogMessageLen - 2 - pcount ?d) ''hi''"
    unfolding demo_hi_def by (rule stream_put_text(2), rule stream_put_text(1))
  then have "msg_text (demo_hi sev) = ''hi''" by (simp add: msg_text_def demo_data_def kMaxLogMessageLen_def)
  moreover from this have "pcount (demo_hi sev) = 2" using length_msg_text[OF ok(1)] by simp
  ultimately show "sendable demo_msg_env (demo_hi sev)"
    using ok(1) ends_in_newline_iff[OF ok(1), of demo_msg_env] by (simp add: sendable_def)
qed

definition demo_throws :: SinkExceptions where
  "demo_throws = \<lparr>send_throws = (\<lambda>k. if k = 7 then Some (StdException ''full'') else None), wait_throws = \<lambda>k. None\<rparr>"

theorem sink_failures_isolated_witness:
  "\<exists>d' st1 st2 es e f. Flush demo_msg_env (demo_hi 1) demo_log = Some (d', st1) \<and>
     Flush_x demo_throws demo_msg_env (demo_hi 1) demo_log = Some (None, d', st2) \<and>
     events st1 = es @ [e, f, SinkWait 7, SinkWait 5] \<and> events st2 = es @ [e, SinkWait 7, SinkWait 5]"
proof -
  have pre: "msg_severity (demo_hi 1) < 4" "FLAGS_minloglevel (flags demo_log) \<le> int (msg_severity (demo_hi 1))"
    "\<not> (msg_severity (demo_hi 1) = 3 \<and> exit_on_dfatal demo_log)"
    "\<forall>k\<in>set (sink_list demo_log). wait_throws demo_throws k = None"
    by (simp_all add: demo_hi_fields demo_log_fields default_msg_flags_def demo_throws_def)
  from sink_failures_isolated[OF demo_log_ok demo_log_fields(1) pre(1) demo_hi_fields(3) pre(2) demo_hi_fields(4,2) pre(3,4)]
  show ?thesis by (force simp: demo_log_fields demo_throws_def)
qed

subsection \<open>A sink that throws when it is waited for\<close>

text \<open>The exception is printed, but the message does not count as flushed and its data is not given back.\<close>

lemma throwing_wait_keeps_storage:
  assumes "log_ok st" and "\<not> log_mutex st" and "msg_severity d < 4" and "\<not> has_been_flushed d"
    and "FLAGS_minloglevel (flags st) \<le> int (msg_severity d)" and "sendable env d" and "send_method d = SendToLog"
    and "\<not> (msg_severity d = 3 \<and> exit_on_dfatal st)" and "first_thrown (wait_throws X) (rev (sink_list st)) = Some e"
    and "storage d = ThreadData" and "\<not> thread_data_available st"
  shows "\<exists>d' st' es. LogMessage_end_x X env d st = Some (d', st') \<and> \<not> log_mutex st' \<and> \<not> thread_data_available st' \<and>
    events st' = events st @ es @ [ToOutput Stderr (exception_line e)] \<and>
    (sev \<noteq> 3 \<longrightarrow> fst (allocate buf sev st') = HeapData)"
proof -
  obtain d' st1 es where f: "Flush_x X env d st = Some (Some e, d', st1)" "held st1 = held st" "\<not> log_mutex st1"
    "events st1 = events st @ es" "storage d' = storage d"
    using Flush_x_sends[OF assms(1-7) disjI1[OF assms(8)], of X] unfolding assms(9) by blast
  then have "LogMessage_end_x X env d st = Some (d', event (ToOutput Stderr (exception_line e)) st1)"
    using assms(10) by (simp add: LogMessage_end_x_def)
  moreover have "\<not> thread_data_available st1" using f(2) assms(11) by (simp add: held_def)
  moreover have "thread_data_available (event x st1) = thread_data_available st1" for x by (simp add: event_def)
  ultimately show ?thesis using f by (simp add: allocate_def)
qed

text \<open>Of a fatal message.\<close>

lemma finish_text_again:
  assumes "data_ok d"
  shows "finish_text env (finish_text env d) = finish_text env d" and "msg_text (finish_text env d) = msg_text d"
    and "ends_in_newline env (finish_text env d) = ends_in_newline env d"
    and "num_prefix_chars (finish_text env d) = num_prefix_chars d"
    and "has_been_flushed (finish_text env d) = has_been_flushed d"
proof -
  show same: "ends_in_newline env (finish_text env d) = ends_in_newline env d"
    by (simp add: ends_in_newline_def finish_text_def Let_def)
  show "finish_text env (finish_text env d) = finish_text env d"
    unfolding finish_text_def[of env "finish_text env d"] same
    by (simp add: finish_text_def Let_def list_update_swap)
  have "take (pcount d) (xs[pcount d := x, Suc (pcount d) := y]) = take (pcount d) xs" for xs x y by simp
  then show "msg_text (finish_text env d) = msg_text d" by (simp add: msg_text_def finish_text_def Let_def)
qed (simp_all add: finish_text_def Let_def)

lemma sent_again:
  assumes "sendable env d"
  shows "sendable env (finish_text env d)" and "sent_body env (finish_text env d) = sent_body env d"
proof -
  have d: "data_ok d" using assms by (simp add: sendable_def)
  show "sendable env (finish_text env d)"
    using assms finish_text_again[OF d, of env] by (simp add: sendable_def data_ok_def finish_text_def Let_def)
  show "sent_body env (finish_text env d) = sent_body env d"
    by (simp add: sent_body_def with_newline_def finish_text_again[OF d])
qed

lemma fatal_front_ok:
  assumes "log_ok st"
  shows "\<exists>st' es. fatal_front env d st = Some st' \<and> log_ok st' \<and> log_mutex st' = log_mutex st \<and> held st' = held st \<and>
    events st' = events st @ es"
proof -
  let ?st1 = "if first_fatal d then
      st\<lparr>globals := (globals st)\<lparr>utils := SetCrashReason (RecordCrashReason env d) (utils (globals st))\<rparr>,
         fatal_message := c_str (take (min (num_chars_to_log d) 255) (message_text d)),
         fatal_time := timestamp (logmsgtime d)\<rparr>
    else st"
  have st1: "log_ok ?st1" "log_mutex ?st1 = log_mutex st" "held ?st1 = held st" "events ?st1 = events st"
    using assms by (simp_all add: log_ok_def consistent_get_file held.view_laws)
  obtain st' es where "write_all env NUM_SEVERITIES 0 ?st1 = Some st'" "log_ok st'" "log_mutex st' = log_mutex ?st1"
    "events st' = events ?st1 @ es"
    using write_all_ok[OF st1(1), of env NUM_SEVERITIES 0] by blast
  moreover from this(1) have "held st' = held ?st1" by (rule held.view_write_all)
  ultimately show ?thesis using st1 unfolding fatal_front_def Let_def by auto
qed

lemma Flush_x_fatal:
  assumes "log_ok st" and "\<not> log_mutex st" and "exit_on_dfatal st" and "FLAGS_minloglevel (flags st) \<le> 3"
    and "msg_severity d = 3" and "send_method d = SendToLog" and "\<not> has_been_flushed d" and "sendable env d"
    and "first_thrown (wait_throws X) (rev (sink_list st)) = Some e"
  shows "\<exists>st' es es'. Flush_x X env d st = Some (Some e, finish_text env d, st') \<and> log_ok st' \<and> \<not> log_mutex st' \<and>
    held st' = held st \<and> list_all no_sink_event es \<and>
    events st' = events st @ es @ sends env d (reached (send_throws X) (rev (sink_list st))) @ es'"
proof (cases "first_thrown (send_throws X) (rev (sink_list st))")
  case (Some e')
  have "msg_severity d < 4" "FLAGS_minloglevel (flags st) \<le> int (msg_severity d)" using assms(4,5) by simp_all
  from Flush_x_sends[OF assms(1,2) this(1) assms(7) this(2) assms(8,6), of X] Some assms(9)
  show ?thesis by fastforce
next
  case None
  let ?stl = "st\<lparr>log_mutex := True\<rparr>" and ?d1 = "finish_text env d" and ?sinks = "rev (sink_list st)"
  have own: "own_sink d = None" "own_sink ?d1 = None" using assms(6) by (simp_all add: own_sink_def split: Target.split)
  have "message_body ?d1 = Some (sent_body env d)" "msg_severity ?d1 < 4" "log_ok ?stl"
    using finish_text_body[OF assms(8)] assms(1,5) by simp_all
  then obtain st2 where st2: "sent_from ?stl st2" "send_front env ?d1 ?stl = Some (sent_body env d, st2)"
    using send_front_start by blast
  obtain es where es: "events st2 = events st @ es" "list_all no_sink_event es"
    using st2(1) by (auto simp: sent_from_def)
  let ?st3 = "st2\<lparr>events := events st2 @ sends env d ?sinks\<rparr>"
  have sl: "sink_list st2 = sink_list st" using sink_list_sent_from[OF st2(1)] by simp
  have st3: "log_ok ?st3" "log_mutex ?st3" "exit_on_dfatal ?st3" "held ?st3 = held st"
    using st2(1) assms(3) held.view_send_front[OF st2(2)] by (simp_all add: sent_from_def held.view_laws)
  obtain st4 es4 where st4: "fatal_front env ?d1 ?st3 = Some st4" "log_ok st4" "log_mutex st4" "held st4 = held st"
    "events st4 = events ?st3 @ es4"
    using fatal_front_ok[OF st3(1), of env ?d1] st3(2,4) by auto
  have sinks: "sink_list st4 = sink_list st" "sink_list (s\<lparr>events := a\<rparr>) = sink_list s" for s a
    using st4(4) by (simp_all add: held_def sink_list_def)
  have "send_to_log_x X env ?d1 ?stl = Some (Some e, st4\<lparr>log_mutex := False,
      events := events st4 @ map SinkWait (reached (wait_throws X) ?sinks)\<rparr>)"
    using st2(2) st3(3) st4(1,3) assms(5,9) None sl sinks
    by (simp add: send_to_log_x_def LogToSinks_x_eq reached_quiet fatal_part_x_def own unlock_log_mutex_def WaitForSinks_x_eq)
  then show ?thesis
    using assms(2,4-7,9) st4 es None sinks
    by (auto simp: Flush_x_def send_x_def Let_def own unlock_log_mutex_def WaitForSinks_x_eq event_def reached_quiet held.view_laws)
qed

text \<open>C34. A sink that throws when it is waited for keeps a fatal message from ending the program: the exception leaves
  the end of the message before any failure function is called, and the end of the base class then sends
  the same message a second time to every sink, prints the exception and leaves the message unflushed.\<close>

theorem throwing_wait_hides_failure:
  assumes "log_ok st" and "\<not> log_mutex st" and "exit_on_dfatal st" and "FLAGS_minloglevel (flags st) \<le> 3"
    and "msg_severity d = 3" and "send_method d = SendToLog" and "\<not> has_been_flushed d" and "sendable env d"
    and "first_thrown (wait_throws X) (rev (sink_list st)) = Some e"
  shows "\<exists>d' st' es1 es2 es3. LogMessageFatal_end_x X env d st = Some (d', st', [], Some e) \<and>
    \<not> has_been_flushed d' \<and> \<not> log_mutex st' \<and> events st' = events st @
      es1 @ sends env d (reached (send_throws X) (rev (sink_list st))) @
      es2 @ sends env d (reached (send_throws X) (rev (sink_list st))) @ es3 @ [ToOutput Stderr (exception_line e)]"
proof -
  let ?d1 = "finish_text env d"
  obtain st1 es1 es2 where f1: "Flush_x X env d st = Some (Some e, ?d1, st1)" "log_ok st1" "\<not> log_mutex st1" "held st1 = held st"
    "events st1 = events st @ es1 @ sends env d (reached (send_throws X) (rev (sink_list st))) @ es2"
    using Flush_x_fatal[OF assms] by blast
  have h: "exit_on_dfatal st1" "FLAGS_minloglevel (flags st1) \<le> 3" "sink_list st1 = sink_list st"
    using f1(4) assms(3,4) by (auto simp: held_def sink_list_def)
  have d: "data_ok d" using assms(8) by (simp add: sendable_def)
  have d1: "msg_severity ?d1 = 3" "send_method ?d1 = SendToLog" "\<not> has_been_flushed ?d1" "sendable env ?d1"
    "finish_text env ?d1 = ?d1"
    using assms(5-7) sent_again(1)[OF assms(8)] finish_text_again[OF d] by simp_all
  have "first_thrown (wait_throws X) (rev (sink_list st1)) = Some e" using assms(9) h(3) by simp
  from Flush_x_fatal[OF f1(2,3) h(1,2) d1(1-4) this] obtain st2 es3 es4 where
    f2: "Flush_x X env ?d1 st1 = Some (Some e, ?d1, st2)" "\<not> log_mutex st2"
    "events st2 = events st1 @ es3 @ sends env d (reached (send_throws X) (rev (sink_list st))) @ es4"
    using h(3) d1(5) sent_again(2)[OF assms(8)] by auto
  let ?fin = "event (ToOutput Stderr (exception_line e)) (if storage ?d1 = SharedData then release ?d1 st2 else st2)"
  have "LogMessageFatal_end_x X env d st = Some (?d1, ?fin, [], Some e)"
    using f1(1) f2(1) by (simp add: LogMessageFatal_end_x_def LogMessage_end_x_def)
  then show ?thesis using f1(5) f2(2,3) d1(3)
    by (intro exI[of _ ?d1] exI[of _ ?fin] exI[of _ es1] exI[of _ "es2 @ es3"] exI[of _ es4]) simp
qed

theorem throwing_wait_hides_failure_witness:
  "\<exists>d' st' f g es1 es2 es3. LogMessageFatal_end_x (demo_throws\<lparr>wait_throws := \<lambda>k. Some OtherException\<rparr>) demo_msg_env (demo_hi 3) demo_log =
     Some (d', st', [], Some OtherException) \<and>
     events st' = es1 @ f # es2 @ f # es3 @ [ToOutput Stderr g]"
proof -
  let ?X = "demo_throws\<lparr>wait_throws := \<lambda>k. Some OtherException\<rparr>"
  have pre: "FLAGS_minloglevel (flags demo_log) \<le> 3"
    "first_thrown (wait_throws ?X) (rev (sink_list demo_log)) = Some OtherException"
    by (simp_all add: demo_log_fields default_msg_flags_def)
  from throwing_wait_hides_failure[OF demo_log_ok demo_log_fields(1,2) pre(1) demo_hi_fields(1-4) pre(2)]
  show ?thesis by (force simp: demo_log_fields demo_throws_def)
qed

end
