(* ===== verification/Log_Flags.thy ===== *)
theory Log_Flags
  imports Log_Verbose
begin

section \<open>Flags from the environment\<close>

text \<open>
  The macros of \<^verbatim>\<open>src/base/commandlineflags.h\<close> that read the variables \<^verbatim>\<open>GLOG_...\<close>, the flags that
  \<^verbatim>\<open>src/logging.cc\<close>, \<^verbatim>\<open>src/vlog_is_on.cc\<close> and \<^verbatim>\<open>src/utilities.cc\<close> define with them, and the state of
  the library when a program starts. \<open>getenv\<close> is a parameter: the variables are the C strings, without their NUL,
  that the process was started with.
\<close>

subsection \<open>Reading a variable\<close>

text \<open>
  \<open>strtol\<close> and \<open>strtoul\<close> for base 10: blanks, a sign and digits; without digits the result is 0, what does not fit
  saturates. A minus sign is allowed for the unsigned type and negates modulo \<open>2 ^ 64\<close>.
\<close>

definition scan_sign :: "string \<Rightarrow> bool \<times> string" where
  "scan_sign s = (case dropWhile is_space s of
     [] \<Rightarrow> (False, [])
   | c # t \<Rightarrow> if c = CHR ''-'' then (True, takeWhile is_digit t)
       else if c = CHR ''+'' then (False, takeWhile is_digit t) else (False, takeWhile is_digit (c # t)))"

definition strtol :: "string \<Rightarrow> int" where
  "strtol s = (let (neg, ds) = scan_sign s in saturate64 (if neg then - dec_val 0 ds else dec_val 0 ds))"

definition strtoul :: "string \<Rightarrow> 64 word" where
  "strtoul s = (let (neg, ds) = scan_sign s; n = dec_val 0 ds
     in if 2 ^ 64 \<le> n then - 1 else if neg then - of_int n else of_int n)"

text \<open>The four macros: a variable that is not set leaves the default.\<close>

definition EnvToString :: "string option \<Rightarrow> string \<Rightarrow> string" where
  "EnvToString v dflt = (case v of None \<Rightarrow> dflt | Some s \<Rightarrow> s)"

definition EnvToBool :: "string option \<Rightarrow> bool \<Rightarrow> bool" where
  "EnvToBool v dflt = (case v of None \<Rightarrow> dflt | Some s \<Rightarrow> c_hd s \<in> set ''tTyY1'' \<union> {NUL})"

definition EnvToInt :: "string option \<Rightarrow> int \<Rightarrow> int" where
  "EnvToInt v dflt = (case v of None \<Rightarrow> dflt | Some s \<Rightarrow> to_int32 (strtol s))"

definition EnvToUInt :: "string option \<Rightarrow> 32 word \<Rightarrow> 32 word" where
  "EnvToUInt v dflt = (case v of None \<Rightarrow> dflt | Some s \<Rightarrow> ucast (strtoul s))"

lemma scan_int_strtol: "scan_int s = (if snd (scan_sign s) = [] then None else Some (to_int32 (strtol s)))"
  by (cases "dropWhile is_space s") (simp_all add: scan_int_def scan_sign_def strtol_def Let_def del: dropWhile_eq_Nil_conv)

subsection \<open>The flags\<close>

text \<open>
  The flags of the three files. Those that the messages and files depend on are in the record
  \<open>MsgFlags\<close>; the threshold for standard error is defined without the macro, so no variable sets it.
\<close>

record FlagSet =
  fs_msg :: MsgFlags
  fs_alsologtostdout :: bool
  fs_logfile_mode :: int
  fs_log_dir :: string
  fs_rolling_file_number :: int
  fs_v :: int
  fs_vmodule :: string
  fs_symbolize_stacktrace :: bool

definition file_flags_from :: "(string \<Rightarrow> string option) \<Rightarrow> LogFlags" where
  "file_flags_from getenv =
     \<lparr>FLAGS_timestamp_in_logfile_name = EnvToBool (getenv ''GLOG_timestamp_in_logfile_name'')
        (BoolFromEnv (getenv ''GOOGLE_TIMESTAMP_IN_LOGFILE_NAME'') True),
      FLAGS_log_file_header = EnvToBool (getenv ''GLOG_log_file_header'') True,
      FLAGS_log_year_in_prefix = EnvToBool (getenv ''GLOG_log_year_in_prefix'') True,
      FLAGS_logbufsecs = EnvToInt (getenv ''GLOG_logbufsecs'') 30,
      FLAGS_logcleansecs = EnvToInt (getenv ''GLOG_logcleansecs'') (60 * 5),
      FLAGS_log_link = EnvToString (getenv ''GLOG_log_link'') [],
      FLAGS_max_log_size = EnvToUInt (getenv ''GLOG_max_log_size'') 1800,
      FLAGS_log_rolling_policy = EnvToString (getenv ''GLOG_log_rolling_policy'') ''size'',
      FLAGS_max_logfile_num = unat (EnvToUInt (getenv ''GLOG_max_logfile_num'') 10),
      FLAGS_stop_logging_if_full_disk = EnvToBool (getenv ''GLOG_stop_logging_if_full_disk'') False,
      FLAGS_log_utc_time = EnvToBool (getenv ''GLOG_log_utc_time'') False,
      FLAGS_drop_log_memory = EnvToBool (getenv ''GLOG_drop_log_memory'') True\<rparr>"

definition color_flags_from :: "(string \<Rightarrow> string option) \<Rightarrow> ColorFlags" where
  "color_flags_from getenv =
     \<lparr>terminal_supports_color = TerminalSupportsColor (getenv ''TERM''),
      FLAGS_colorlogtostderr = EnvToBool (getenv ''GLOG_colorlogtostderr'') False,
      FLAGS_colorlogtostdout = EnvToBool (getenv ''GLOG_colorlogtostdout'') False,
      stderrthreshold = 2\<rparr>"

definition msg_flags_from :: "(string \<Rightarrow> string option) \<Rightarrow> MsgFlags" where
  "msg_flags_from getenv =
     \<lparr>file_flags = file_flags_from getenv, color_flags = color_flags_from getenv,
      FLAGS_logtostderr = EnvToBool (getenv ''GLOG_logtostderr'') (BoolFromEnv (getenv ''GOOGLE_LOGTOSTDERR'') False),
      FLAGS_logtostdout = EnvToBool (getenv ''GLOG_logtostdout'') (BoolFromEnv (getenv ''GOOGLE_LOGTOstdout'') False),
      FLAGS_alsologtostderr =
        EnvToBool (getenv ''GLOG_alsologtostderr'') (BoolFromEnv (getenv ''GOOGLE_ALSOLOGTOSTDERR'') False),
      FLAGS_alsologtoemail = EnvToString (getenv ''GLOG_alsologtoemail'') [],
      FLAGS_log_prefix = EnvToBool (getenv ''GLOG_log_prefix'') True,
      FLAGS_minloglevel = EnvToInt (getenv ''GLOG_minloglevel'') 0,
      FLAGS_logbuflevel = EnvToInt (getenv ''GLOG_logbuflevel'') 0,
      FLAGS_logemaillevel = EnvToInt (getenv ''GLOG_logemaillevel'') 999,
      FLAGS_log_backtrace_at = EnvToString (getenv ''GLOG_log_backtrace_at'') []\<rparr>"

definition flags_from :: "(string \<Rightarrow> string option) \<Rightarrow> FlagSet" where
  "flags_from getenv =
     \<lparr>fs_msg = msg_flags_from getenv,
      fs_alsologtostdout =
        EnvToBool (getenv ''GLOG_alsologtostdout'') (BoolFromEnv (getenv ''GOOGLE_ALSOLOGTOstdout'') False),
      fs_logfile_mode = EnvToInt (getenv ''GLOG_logfile_mode'') 0x1B4,
      fs_log_dir = EnvToString (getenv ''GLOG_log_dir'') (DefaultLogDir getenv),
      fs_rolling_file_number = EnvToInt (getenv ''GLOG_rolling_file_number'') 10,
      fs_v = EnvToInt (getenv ''GLOG_v'') 0,
      fs_vmodule = EnvToString (getenv ''GLOG_vmodule'') [],
      fs_symbolize_stacktrace = EnvToBool (getenv ''GLOG_symbolize_stacktrace'') True\<rparr>"

text \<open>The library and the registry of verbose logging before \<open>main\<close>.\<close>

definition program_start :: "(string \<Rightarrow> string option) \<Rightarrow> int \<Rightarrow> LogState \<times> VState" where
  "program_start getenv pid =
     (let fs = flags_from getenv; st = log_start (fs_msg fs) pid
      in (st\<lparr>globals := (globals st)\<lparr>rolling_file_number := fs_rolling_file_number fs\<rparr>\<rparr>, vinit (fs_v fs) (fs_vmodule fs)))"

subsection \<open>What the variables mean\<close>

text \<open>Without variables the flags have their documented defaults.\<close>

lemma flags_default:
  "fs_msg (flags_from (\<lambda>_. None)) = default_msg_flags"
  "program_start (\<lambda>_. None) pid = (log_start default_msg_flags pid, vinit 0 [])"
  by (simp_all add: flags_from_def msg_flags_from_def file_flags_from_def color_flags_from_def default_msg_flags_def
      default_flags_def program_start_def EnvToBool_def EnvToInt_def EnvToUInt_def EnvToString_def BoolFromEnv_def
      TerminalSupportsColor_def log_start_def Let_def)

text \<open>The words of the documentation for true and false, in upper or lower case.\<close>

lemma to_lower_table:
  "\<forall>c. (to_lower c \<in> set ''1ty'' \<longrightarrow> c \<in> set ''tTyY1'' \<union> {NUL}) \<and>
     (to_lower c \<in> set ''0fn'' \<longrightarrow> c \<notin> set ''tTyY1'' \<union> {NUL})"
  by code_simp

lemma readme_booleans:
  "map to_lower s \<in> {''1'', ''true'', ''yes''} \<Longrightarrow> EnvToBool (Some s) d"
  "map to_lower s \<in> {''0'', ''false'', ''no''} \<Longrightarrow> \<not> EnvToBool (Some s) d"
proof -
  have first: "EnvToBool (Some (c # t)) d \<longleftrightarrow> c \<in> set ''tTyY1'' \<union> {NUL}" for c t by (simp add: EnvToBool_def)
  show "EnvToBool (Some s) d" if "map to_lower s \<in> {''1'', ''true'', ''yes''}"
  proof (cases s)
    case (Cons c t)
    then have "to_lower c \<in> set ''1ty''" using that by auto
    then show ?thesis using to_lower_table Cons first by blast
  qed (use that in simp)
  show "\<not> EnvToBool (Some s) d" if "map to_lower s \<in> {''0'', ''false'', ''no''}"
  proof (cases s)
    case (Cons c t)
    then have "to_lower c \<in> set ''0fn''" using that by auto
    then show ?thesis using to_lower_table Cons first by blast
  qed (use that in simp)
qed

text \<open>An integer that is set as it is printed is read back, when it fits.\<close>

lemma EnvToInt_roundtrip:
  assumes "- (2 ^ 31) \<le> n" and "n < 2 ^ 31"
  shows "EnvToInt (Some (int_str n)) d = n"
proof -
  have ds: "takeWhile is_digit (dec_str k) = dec_str k" for k
    using dec_str_digits[of k] by (simp add: list_all_iff takeWhile_eq_all_conv)
  obtain c t where c: "dec_str (nat n) = c # t" "is_digit c"
    using dec_str_nonempty[of "nat n"] dec_str_digits[of "nat n"] by (cases "dec_str (nat n)") auto
  then have plain: "\<not> is_space c" "c \<noteq> CHR ''-''" "c \<noteq> CHR ''+''"
    by (auto simp: is_digit_of_char is_space_def)
  have "scan_sign (int_str n) = (n < 0, dec_str (nat \<bar>n\<bar>))"
  proof (cases "n < 0")
    case True
    then show ?thesis using ds[of "nat (- n)"] by (simp add: scan_sign_def int_str_def is_space_def)
  next
    case False
    then show ?thesis using c plain ds[of "nat n"] by (simp add: scan_sign_def int_str_def)
  qed
  then have "strtol (int_str n) = saturate64 n"
    using dec_val_dec_str[of "nat \<bar>n\<bar>"] by (auto simp: strtol_def)
  then show ?thesis using assms by (simp add: EnvToInt_def saturate64_def to_int32_def)
qed

text \<open>The threshold for standard error keeps its default whatever the environment is, unlike the other flags.\<close>

lemma stderrthreshold_not_from_environment:
  "stderrthreshold (color_flags (flags (fst (program_start getenv pid)))) = 2"
  by (simp add: program_start_def log_start_def flags_from_def msg_flags_from_def color_flags_from_def Let_def)

lemma program_start_levels:
  "flags (fst (program_start getenv pid)) = msg_flags_from getenv"
  "snd (program_start getenv pid) = vinit (EnvToInt (getenv ''GLOG_v'') 0) (EnvToString (getenv ''GLOG_vmodule'') [])"
  by (simp_all add: program_start_def log_start_def flags_from_def Let_def)

text \<open>C15. The levels a program is given in its environment are the ones its statements obey: with \<open>v\<close> as the
  decimal number in \<^verbatim>\<open>GLOG_v\<close> and no \<^verbatim>\<open>GLOG_vmodule\<close>, a fresh \<^verbatim>\<open>VLOG\<close> site of level \<open>n\<close> is on exactly
  when \<open>n \<le> v\<close>; and with \<open>m\<close> in \<^verbatim>\<open>GLOG_minloglevel\<close> flushing a message of lower severity does nothing.\<close>

theorem environment_sets_levels:
  assumes "getenv ''GLOG_v'' = Some (int_str v)" and "getenv ''GLOG_vmodule'' = None"
    and "getenv ''GLOG_minloglevel'' = Some (int_str m)"
    and "- (2 ^ 31) \<le> v \<and> v < 2 ^ 31" and "- (2 ^ 31) \<le> m \<and> m < 2 ^ 31"
    and "program_start getenv pid = (st, vs)"
  shows "(fst (VLOG_IS_ON site fname n vs) \<longleftrightarrow> n \<le> v) \<and>
    (int (msg_severity d) < m \<longrightarrow> Flush env d st = Some (d, st))"
proof -
  have fl: "flags st = msg_flags_from getenv" using program_start_levels(1)[of getenv pid] assms(6) by simp
  have "vs = vinit (EnvToInt (getenv ''GLOG_v'') 0) (EnvToString (getenv ''GLOG_vmodule'') [])"
    using program_start_levels(2)[of getenv pid] assms(6) by simp
  then have vs: "vs = vinit v []"
    using EnvToInt_roundtrip[of v 0] assms(1,2,4) by (simp add: EnvToString_def)
  have "follows_default vs site fname" by (simp add: vs follows_default_def vinit_def new_site_def)
  moreover have "module_level vs fname = v"
    by (simp add: vs module_level_def vinit_def VLOG2Initializer_def vmodule_entries.simps[of "[]"] Let_def)
  ultimately have "fst (VLOG_IS_ON site fname n vs) \<longleftrightarrow> n \<le> v"
    using VLOG_IS_ON_decides[of vs site fname n] vreach.start[of v "[]"] by (simp add: vs)
  moreover have "FLAGS_minloglevel (flags st) = m"
    using EnvToInt_roundtrip[of m 0] assms(3,5) by (simp add: fl msg_flags_from_def)
  ultimately show ?thesis by (simp add: Flush_def)
qed

theorem environment_sets_levels_witness:
  "\<exists>getenv st vs. getenv ''GLOG_v'' = Some (int_str 2) \<and> program_start getenv 77 = (st, vs) \<and>
     fst (VLOG_IS_ON 0 ''a.cc'' 2 vs) \<and> \<not> fst (VLOG_IS_ON 0 ''a.cc'' 3 vs) \<and> Flush demo_msg_env demo_data st = Some (demo_data, st)"
proof -
  let ?getenv = "(\<lambda>_. None)(''GLOG_v'' := Some (int_str 2), ''GLOG_minloglevel'' := Some (int_str 1))"
  obtain st vs where s: "program_start ?getenv 77 = (st, vs)" by (metis surj_pair)
  have "(fst (VLOG_IS_ON 0 ''a.cc'' n vs) \<longleftrightarrow> n \<le> 2) \<and>
      (int (msg_severity demo_data) < 1 \<longrightarrow> Flush demo_msg_env demo_data st = Some (demo_data, st))" for n
    by (rule environment_sets_levels[OF _ _ _ _ _ s]) simp_all
  moreover have "msg_severity demo_data = 0" by (simp add: demo_data_def)
  ultimately show ?thesis using s by (intro exI[of _ ?getenv] exI[of _ st] exI[of _ vs]) simp
qed

end
