(* ===== verification/Stack_Trace.thy ===== *)
theory Stack_Trace
  imports Main "HOL-Library.Word"
begin

section \<open>Stack traces\<close>

text \<open>
  The five implementations of \<^verbatim>\<open>GetStackTrace\<close> that are not a single call of the system:
  \<^verbatim>\<open>src/stacktrace_x86-inl.h\<close> and \<^verbatim>\<open>src/stacktrace_powerpc-inl.h\<close> walk the chain of frame pointers,
  \<^verbatim>\<open>src/stacktrace_generic-inl.h\<close>, \<^verbatim>\<open>src/stacktrace_libunwind-inl.h\<close> and
  \<^verbatim>\<open>src/stacktrace_unwind-inl.h\<close> ask an unwinder. The memory is a partial function from addresses to
  the 64-bit words there; \<open>None\<close> is a fault. The frame a walk starts at and the frames an unwinder
  reports are parameters.
\<close>

unbundle bit_operations_syntax

type_synonym memory = "64 word \<Rightarrow> 64 word option"

subsection \<open>The next frame\<close>

definition NextStackFrame :: "bool \<Rightarrow> (64 word \<Rightarrow> bool) \<Rightarrow> 64 word \<Rightarrow> memory \<Rightarrow> 64 word \<Rightarrow> 64 word option" where
  "NextStackFrame STRICT_UNWINDING msync_ok page_size mem old_sp =
     (case mem old_sp of
        None \<Rightarrow> None
      | Some new_sp \<Rightarrow> Some
          (if STRICT_UNWINDING \<and> (new_sp \<le> old_sp \<or> 100000 < new_sp - old_sp) then 0
           else if \<not> STRICT_UNWINDING \<and> (new_sp = old_sp \<or> old_sp < new_sp \<and> 1000000 < new_sp - old_sp) then 0
           else if new_sp AND 7 \<noteq> 0 then 0
           else if \<not> STRICT_UNWINDING \<and> \<not> msync_ok (new_sp AND NOT (page_size - 1)) then 0
           else new_sp))"

text \<open>On the PowerPC there is no check whether the page is mapped.\<close>

definition NextStackFrame_ppc :: "bool \<Rightarrow> memory \<Rightarrow> 64 word \<Rightarrow> 64 word option" where
  "NextStackFrame_ppc STRICT_UNWINDING mem old_sp =
     (case mem old_sp of
        None \<Rightarrow> None
      | Some new_sp \<Rightarrow> Some
          (if STRICT_UNWINDING \<and> (new_sp \<le> old_sp \<or> 100000 < new_sp - old_sp) then 0
           else if \<not> STRICT_UNWINDING \<and> (new_sp = old_sp \<or> old_sp < new_sp \<and> 1000000 < new_sp - old_sp) then 0
           else if new_sp AND 7 \<noteq> 0 then 0
           else new_sp))"

lemma NextStackFrame_strict:
  "NextStackFrame True msync_ok page_size mem old_sp = Some new_sp \<Longrightarrow> new_sp = 0 \<or> old_sp < new_sp"
  by (auto simp: NextStackFrame_def split: option.splits if_splits)

lemma NextStackFrame_ppc_strict:
  "NextStackFrame_ppc True mem old_sp = Some new_sp \<Longrightarrow> new_sp = 0 \<or> old_sp < new_sp"
  by (auto simp: NextStackFrame_ppc_def split: option.splits if_splits)

text \<open>Strict unwinding of both kinds is the same.\<close>

lemma NextStackFrame_ppc_eq: "NextStackFrame_ppc True mem sp = NextStackFrame True msync_ok page_size mem sp"
  by (simp add: NextStackFrame_ppc_def NextStackFrame_def split: option.split)

subsection \<open>Walking the chain of frames\<close>

text \<open>
  The loops; \<open>acc\<close> is the part of the result that is filled, so its length is the counter. The walk
  ends because the frame pointers grow. (The last two arguments of \<open>NextStackFrame\<close> do not matter for
  strict unwinding.)
\<close>

function stack_loop :: "memory \<Rightarrow> 64 word \<Rightarrow> int \<Rightarrow> int \<Rightarrow> 64 word list \<Rightarrow> 64 word list option" where
  "stack_loop mem sp max_depth skip_count acc =
     (if sp = 0 \<or> max_depth \<le> int (length acc) then Some acc
      else case mem (sp + 8) of
          None \<Rightarrow> None
        | Some ret \<Rightarrow>
            if ret = 0 then Some acc
            else (case NextStackFrame True (\<lambda>_. True) 4096 mem sp of
                None \<Rightarrow> None
              | Some sp' \<Rightarrow>
                  stack_loop mem sp' max_depth (if 0 < skip_count then skip_count - 1 else skip_count)
                    (if 0 < skip_count then acc else acc @ [ret])))"
  by pat_completeness auto

definition frames_left :: "64 word \<Rightarrow> nat" where
  "frames_left sp = (if sp = 0 then 0 else 2 ^ 64 - unat sp)"

lemma frames_left_less: "sp \<noteq> 0 \<Longrightarrow> sp' = 0 \<or> sp < sp' \<Longrightarrow> frames_left sp' < frames_left sp"
  using unsigned_less[of sp'] unsigned_less[of sp] by (auto simp: frames_left_def word_less_nat_alt)

termination stack_loop
  by (relation "measure (\<lambda>(mem, sp, max_depth, skip_count, acc). frames_left sp)")
    (auto intro!: frames_left_less dest: NextStackFrame_strict)

definition GetStackTrace :: "memory \<Rightarrow> 64 word \<Rightarrow> int \<Rightarrow> int \<Rightarrow> 64 word list option" where
  "GetStackTrace mem frame_address max_depth skip_count = stack_loop mem frame_address max_depth skip_count []"

text \<open>The PowerPC with the return address in the third word of the frame.\<close>

function ppc_loop :: "memory \<Rightarrow> 64 word \<Rightarrow> int \<Rightarrow> int \<Rightarrow> 64 word list \<Rightarrow> 64 word list option" where
  "ppc_loop mem sp max_depth skip_count acc =
     (if sp = 0 \<or> max_depth \<le> int (length acc) then Some acc
      else case (if 0 < skip_count then Some acc else map_option (\<lambda>ret. acc @ [ret]) (mem (sp + 16))) of
          None \<Rightarrow> None
        | Some acc' \<Rightarrow>
            (case NextStackFrame_ppc True mem sp of
               None \<Rightarrow> None
             | Some sp' \<Rightarrow> ppc_loop mem sp' max_depth (if 0 < skip_count then skip_count - 1 else skip_count) acc'))"
  by pat_completeness auto

termination ppc_loop
  by (relation "measure (\<lambda>(mem, sp, max_depth, skip_count, acc). frames_left sp)")
    (auto intro!: frames_left_less dest: NextStackFrame_ppc_strict)

definition GetStackTrace_ppc :: "memory \<Rightarrow> 64 word \<Rightarrow> int \<Rightarrow> int \<Rightarrow> 64 word list option" where
  "GetStackTrace_ppc mem sp max_depth skip_count = ppc_loop mem sp max_depth (skip_count + 1) []"

declare stack_loop.simps [simp del] ppc_loop.simps [simp del]

subsection \<open>Asking an unwinder\<close>

text \<open>\<open>frames\<close> are the instruction pointers that \<open>backtrace\<close> finds, the frame of the routine first.\<close>

definition kStackLength :: nat where
  "kStackLength = 64"

definition GetStackTrace_generic :: "64 word list \<Rightarrow> int \<Rightarrow> int \<Rightarrow> 64 word list" where
  "GetStackTrace_generic frames max_depth skip_count =
     (let stack = take kStackLength frames;
          skip = skip_count + 1;
          count0 = int (length stack) - skip;
          count1 = (if count0 < 0 then 0 else count0);
          result_count = (if max_depth < count1 then max_depth else count1)
      in map (\<lambda>i. stack ! nat (int i + skip)) [0..<nat result_count])"

text \<open>
  With libunwind a frame has an instruction pointer or reading it fails; behind the last frame the
  step fails. The flag of the thread is passed along: a call from within a call finds it set.
\<close>

fun unw_loop :: "64 word option list \<Rightarrow> int \<Rightarrow> int \<Rightarrow> 64 word list \<Rightarrow> 64 word list" where
  "unw_loop [] max_depth skip_count acc = acc"
| "unw_loop (ip # frames) max_depth skip_count acc =
     (if max_depth \<le> int (length acc) then acc
      else case ip of
          None \<Rightarrow> acc
        | Some pc \<Rightarrow>
            if 0 < skip_count then unw_loop frames max_depth (skip_count - 1) acc
            else unw_loop frames max_depth skip_count (acc @ [pc]))"

definition GetStackTrace_libunwind :: "64 word option list \<Rightarrow> int \<Rightarrow> int \<Rightarrow> bool \<Rightarrow> 64 word list \<times> bool" where
  "GetStackTrace_libunwind frames max_depth skip_count g_tl_entered =
     (if g_tl_entered then ([], g_tl_entered)
      else (unw_loop frames max_depth (skip_count + 1) [], False))"

text \<open>The callback of \<^verbatim>\<open>_Unwind_Backtrace\<close>: the result says whether the walk goes on.\<close>

record trace_arg =
  ta_result :: "64 word list"
  ta_max_depth :: int
  ta_skip_count :: int

definition GetOneFrame :: "64 word \<Rightarrow> trace_arg \<Rightarrow> bool \<times> trace_arg" where
  "GetOneFrame ip targ =
     (let targ1 = (if 0 < ta_skip_count targ then targ\<lparr>ta_skip_count := ta_skip_count targ - 1\<rparr>
            else targ\<lparr>ta_result := ta_result targ @ [ip]\<rparr>)
      in (int (length (ta_result targ1)) \<noteq> ta_max_depth targ1, targ1))"

fun Unwind_Backtrace :: "64 word list \<Rightarrow> trace_arg \<Rightarrow> trace_arg" where
  "Unwind_Backtrace [] targ = targ"
| "Unwind_Backtrace (ip # frames) targ =
     (let (go_on, targ1) = GetOneFrame ip targ in if go_on then Unwind_Backtrace frames targ1 else targ1)"

definition GetStackTrace_unwind :: "bool \<Rightarrow> 64 word list \<Rightarrow> int \<Rightarrow> int \<Rightarrow> 64 word list" where
  "GetStackTrace_unwind ready_to_run frames max_depth skip_count =
     (if \<not> ready_to_run then []
      else ta_result (Unwind_Backtrace frames
        \<lparr>ta_result = [], ta_max_depth = max_depth, ta_skip_count = skip_count + 1\<rparr>))"

subsection \<open>What the walks find\<close>

text \<open>
  The chain of frames in memory: each frame has a return address and points to the next one; the
  chain ends at a null pointer, at a return address that is null, or behind a frame whose pointer
  does not go up by at most 100000 bytes to an aligned address.
\<close>

fun frame_chain :: "memory \<Rightarrow> 64 word \<Rightarrow> 64 word list \<Rightarrow> bool" where
  "frame_chain mem sp [] = (sp = 0 \<or> mem (sp + 8) = Some 0)"
| "frame_chain mem sp (ret # rets) =
     (sp \<noteq> 0 \<and> mem (sp + 8) = Some ret \<and> ret \<noteq> 0 \<and>
      (case mem sp of
         None \<Rightarrow> False
       | Some sp' \<Rightarrow> if sp < sp' \<and> sp' - sp \<le> 100000 \<and> sp' AND 7 = 0 then frame_chain mem sp' rets else rets = []))"

lemma NextStackFrame_link:
  "mem sp = Some sp' \<Longrightarrow> NextStackFrame True msync_ok page_size mem sp =
     Some (if sp < sp' \<and> sp' - sp \<le> 100000 \<and> sp' AND 7 = 0 then sp' else 0)"
  by (auto simp: NextStackFrame_def)

lemma stack_loop_chain:
  assumes "frame_chain mem sp rets" and "0 \<le> skip" and "int (length acc) \<le> max_depth"
  shows "stack_loop mem sp max_depth skip acc =
    Some (acc @ take (nat max_depth - length acc) (drop (nat skip) rets))"
  using assms
proof (induction rets arbitrary: sp skip acc)
  case Nil
  then show ?case by (subst stack_loop.simps) auto
next
  case (Cons ret rets)
  show ?case
  proof (cases "int (length acc) < max_depth")
    case False
    then have "nat max_depth - length acc = 0" using Cons.prems by simp
    with False show ?thesis by (subst stack_loop.simps) simp
  next
    case True
    obtain sp' where sp': "mem sp = Some sp'" using Cons.prems by (auto split: option.splits)
    let ?next = "if sp < sp' \<and> sp' - sp \<le> 100000 \<and> sp' AND 7 = 0 then sp' else 0"
    have chain: "frame_chain mem ?next rets" using Cons.prems(1) sp' by (auto split: if_splits)
    let ?skip = "if 0 < skip then skip - 1 else skip" and ?acc = "if 0 < skip then acc else acc @ [ret]"
    have "stack_loop mem sp max_depth skip acc = stack_loop mem ?next max_depth ?skip ?acc"
      using Cons.prems True NextStackFrame_link[of mem sp sp', OF sp'] by (subst stack_loop.simps) simp
    also have "\<dots> = Some (?acc @ take (nat max_depth - length ?acc) (drop (nat ?skip) rets))"
      by (rule Cons.IH[OF chain]) (use Cons.prems True in auto)
    also have "?acc @ take (nat max_depth - length ?acc) (drop (nat ?skip) rets) =
        acc @ take (nat max_depth - length acc) (drop (nat skip) (ret # rets))"
      using Cons.prems(2) True by (auto simp: drop_Cons' take_Cons' nat_diff_distrib')
    finally show ?thesis .
  qed
qed

text \<open>C27. On every chain of frames, the walk returns, touches only the frames, and finds exactly the
  return addresses of the chain in order, without the skipped ones and cut at the wanted depth.\<close>

theorem GetStackTrace_chain:
  assumes "frame_chain mem frame_address rets" and "0 \<le> skip_count" and "0 \<le> max_depth"
  shows "GetStackTrace mem frame_address max_depth skip_count =
    Some (take (nat max_depth) (drop (nat skip_count) rets))"
  using stack_loop_chain[OF assms(1,2), of "[]" max_depth] assms(3) by (simp add: GetStackTrace_def)

definition demo_memory :: memory where
  "demo_memory a = (if a = 0x1000 then Some 0x1020 else if a = 0x1008 then Some 0xaa
     else if a = 0x1020 then Some 0x1010 else if a = 0x1028 then Some 0xbb else None)"

theorem GetStackTrace_chain_witness:
  "GetStackTrace demo_memory 0x1000 8 1 = Some [0xbb] \<and> GetStackTrace demo_memory 0x1000 1 0 = Some [0xaa]"
proof -
  have "frame_chain demo_memory 0x1000 [0xaa, 0xbb]" by (simp add: demo_memory_def)
  from GetStackTrace_chain[OF this, of 1 8] GetStackTrace_chain[OF this, of 0 1] show ?thesis by simp
qed

text \<open>
  Whatever the memory holds, also when the chain is broken or goes round, no more than the wanted
  number of addresses is stored.
\<close>

lemma stack_loop_depth:
  "stack_loop mem sp max_depth skip acc = Some res \<Longrightarrow> int (length acc) \<le> max 0 max_depth \<Longrightarrow>
   int (length res) \<le> max 0 max_depth"
proof (induction mem sp max_depth skip acc rule: stack_loop.induct)
  case (1 mem sp max_depth skip acc)
  show ?case
  proof (cases "sp = 0 \<or> max_depth \<le> int (length acc)")
    case True
    then show ?thesis using 1(2,3) by (subst (asm) stack_loop.simps) auto
  next
    case False
    note res = 1(2)[unfolded stack_loop.simps[of mem sp]]
    then obtain ret where ret: "mem (sp + 8) = Some ret" using False by (cases "mem (sp + 8)") auto
    show ?thesis
    proof (cases "ret = 0")
      case True
      then show ?thesis using res ret False by auto
    next
      case nonzero: False
      obtain sp' where sp': "NextStackFrame True (\<lambda>_. True) 4096 mem sp = Some sp'"
        using res ret False nonzero by (cases "NextStackFrame True (\<lambda>_. True) 4096 mem sp") auto
      show ?thesis
        by (rule 1(1)[OF False ret nonzero sp']) (use res ret False nonzero sp' in auto)
    qed
  qed
qed

lemma GetStackTrace_depth:
  "GetStackTrace mem sp max_depth skip = Some res \<Longrightarrow> int (length res) \<le> max 0 max_depth"
  using stack_loop_depth[of mem sp max_depth skip "[]"] by (simp add: GetStackTrace_def)

subsection \<open>The unwinders agree\<close>

lemma unw_loop_eq:
  "0 \<le> skip \<Longrightarrow> int (length acc) \<le> max_depth \<Longrightarrow>
   unw_loop (map Some frames) max_depth skip acc = acc @ take (nat max_depth - length acc) (drop (nat skip) frames)"
proof (induction frames arbitrary: skip acc)
  case (Cons ip frames)
  show ?case
  proof (cases "int (length acc) < max_depth")
    case True
    then show ?thesis
      using Cons.prems Cons.IH[of "skip - 1" acc] Cons.IH[of skip "acc @ [ip]"]
      by (auto simp: drop_Cons' take_Cons' nat_diff_distrib')
  next
    case False
    then show ?thesis using Cons.prems by simp
  qed
qed simp

lemma Unwind_Backtrace_eq:
  "0 \<le> ta_skip_count targ \<Longrightarrow> int (length (ta_result targ)) < ta_max_depth targ \<Longrightarrow>
   ta_result (Unwind_Backtrace frames targ) =
     ta_result targ @ take (nat (ta_max_depth targ) - length (ta_result targ)) (drop (nat (ta_skip_count targ)) frames)"
proof (induction frames arbitrary: targ)
  case (Cons ip frames)
  let ?targ = "snd (GetOneFrame ip targ)"
  have rest: "ta_result (Unwind_Backtrace frames ?targ) = ta_result ?targ @
      take (nat (ta_max_depth ?targ) - length (ta_result ?targ)) (drop (nat (ta_skip_count ?targ)) frames)"
    if "int (length (ta_result ?targ)) \<noteq> ta_max_depth ?targ"
    by (rule Cons.IH) (use Cons.prems that in \<open>auto simp: GetOneFrame_def Let_def\<close>)
  show ?case
    using Cons.prems rest by (auto simp: GetOneFrame_def Let_def drop_Cons' take_Cons' nat_diff_distrib')
qed simp

lemma map_nth_drop:
  "0 \<le> k \<Longrightarrow> n + nat k \<le> length xs \<Longrightarrow> map (\<lambda>i. xs ! nat (int i + k)) [0..<n] = take n (drop (nat k) xs)"
  by (intro nth_equalityI) (auto simp: nat_add_distrib add.commute)

lemma take_min_length: "take n xs = take (min n (length xs)) xs"
  by (cases "n \<le> length xs") simp_all

lemma generic_eq:
  assumes "0 \<le> skip" and "0 \<le> max_depth"
  shows "GetStackTrace_generic frames max_depth skip = take (nat max_depth) (drop (nat skip + 1) (take 64 frames))"
proof -
  let ?stack = "take 64 frames"
  have k: "nat (skip + 1) = nat skip + 1" using assms(1) by simp
  have "map (\<lambda>i. ?stack ! nat (int i + (skip + 1))) [0..<n] = take n (drop (nat skip + 1) ?stack)"
    if "n + (nat skip + 1) \<le> length ?stack" for n
    using map_nth_drop[of "skip + 1" n ?stack] that assms(1) k by simp
  moreover have "take (nat max_depth) (drop (nat skip + 1) ?stack) =
      take (min (nat max_depth) (length ?stack - (nat skip + 1))) (drop (nat skip + 1) ?stack)"
    using take_min_length[of "nat max_depth" "drop (nat skip + 1) ?stack"] by (simp only: length_drop)
  moreover let ?l = "int (length ?stack) - (skip + 1)"
  let ?rc = "if max_depth < (if ?l < 0 then 0 else ?l) then max_depth else if ?l < 0 then 0 else ?l"
  have "nat ?rc = min (nat max_depth) (length ?stack - (nat skip + 1))"
    using assms by (simp add: min_def nat_diff_distrib' del: length_take) linarith
  moreover have "min (nat max_depth) (length ?stack - (nat skip + 1)) + (nat skip + 1) \<le> length ?stack
      \<or> length ?stack - (nat skip + 1) = 0" by linarith
  ultimately show ?thesis
    unfolding GetStackTrace_generic_def kStackLength_def Let_def by (auto simp del: length_take)
qed

text \<open>On a stack of at most 64 frames the three unwinders find the same addresses: those of the
  stack without the frame of \<open>GetStackTrace\<close> itself and the skipped ones, cut at the wanted depth.\<close>

theorem unwinders_agree:
  assumes "length frames \<le> 64" and "0 \<le> skip_count" and "0 < max_depth"
    and "addrs = take (nat max_depth) (drop (nat skip_count + 1) frames)"
  shows "GetStackTrace_generic frames max_depth skip_count = addrs \<and>
    GetStackTrace_libunwind (map Some frames) max_depth skip_count False = (addrs, False) \<and>
    GetStackTrace_unwind True frames max_depth skip_count = addrs"
proof -
  let ?targ = "\<lparr>ta_result = [], ta_max_depth = max_depth, ta_skip_count = skip_count + 1\<rparr>"
  have s: "nat (skip_count + 1) = nat skip_count + 1" using assms(2) by simp
  have "GetStackTrace_unwind True frames max_depth skip_count = addrs"
    using Unwind_Backtrace_eq[of ?targ frames] assms s by (simp add: GetStackTrace_unwind_def)
  moreover have "GetStackTrace_libunwind (map Some frames) max_depth skip_count False = (addrs, False)"
    using unw_loop_eq[of "skip_count + 1" "[]" max_depth frames] assms s by (simp add: GetStackTrace_libunwind_def)
  moreover have "GetStackTrace_generic frames max_depth skip_count = addrs"
    using generic_eq[of skip_count max_depth frames] assms by simp
  ultimately show ?thesis by blast
qed

theorem unwinders_agree_witness:
  "GetStackTrace_generic [1, 2, 3, 4] 2 0 = [2, 3] \<and> GetStackTrace_unwind True [1, 2, 3, 4] 2 0 = [2, 3]"
  using unwinders_agree[of "[1, 2, 3, 4]" 0 2, OF _ _ _ refl] by simp

text \<open>Deeper stacks are cut by the fixed array of the generic version.\<close>

lemma generic_cut: "length (GetStackTrace_generic frames max_depth skip) \<le> 64"  if "0 \<le> skip"
  using that by (auto simp: GetStackTrace_generic_def Let_def kStackLength_def)

end
