(* ===== verification/Platforms.thy ===== *)
theory Platforms
  imports Sym_Elf Utilities Log_Dirs Stack_Trace
begin

section \<open>Other platforms\<close>

text \<open>
  The branches of the library for Windows and macOS: the symbolizers of \<^verbatim>\<open>src/symbolize.cc\<close>, the entry of
  the demangler, \<^verbatim>\<open>src/stacktrace_windows-inl.h\<close>, \<^verbatim>\<open>src/windows/port.cc\<close>, the clock and the names of
  \<^verbatim>\<open>src/utilities.cc\<close>, and the console and directories of \<^verbatim>\<open>src/logging.cc\<close>. The functions of the
  systems are parameters.
\<close>

subsection \<open>Symbols on macOS\<close>

text \<open>\<open>dladdr\<close> gives nothing when it fails, and otherwise the name of the nearest symbol, if it has one.\<close>

definition SymbolizeAndDemangle_mac :: "(64 word \<Rightarrow> string option option) \<Rightarrow> string \<Rightarrow> 64 word \<Rightarrow> string \<Rightarrow>
    (bool \<times> string) outcome option" where
  "SymbolizeAndDemangle_mac dladdr uninit pc out =
     (case dladdr pc of
        Some (Some dli_sname) \<Rightarrow>
          if length dli_sname < length out then
            andThen (DemangleInplace uninit (dli_sname @ NUL # drop (length dli_sname + 1) out))
              (\<lambda>out'. Some (Done (True, out')))
          else Some (Done (False, out))
      | _ \<Rightarrow> Some (Done (False, out)))"

text \<open>Where there is no symbolizer at all, calling it is a failed assertion.\<close>

definition Symbolize_none :: "string \<Rightarrow> (bool \<times> string) outcome option" where
  "Symbolize_none out = Some Aborted"

subsection \<open>Symbols on Windows\<close>

text \<open>
  \<open>UnDecorateSymbolName\<close> of the debugging library, from the symbol and the old contents of the buffer. A
  symbol in parentheses is taken out of them into a buffer of 1024 bytes; \<open>None\<close> is what goes out of its
  bounds.
\<close>

definition Demangle_windows :: "(string \<Rightarrow> string \<Rightarrow> bool \<times> string) option \<Rightarrow> string \<Rightarrow> string \<Rightarrow> (bool \<times> string) option" where
  "Demangle_windows dbghelp mangled out =
     (case dbghelp of
        None \<Rightarrow> Some (False, out)
      | Some UnDecorateSymbolName \<Rightarrow>
          (if CHR ''('' \<notin> set mangled then Some (UnDecorateSymbolName mangled out)
           else let rest = tl (dropWhile (\<lambda>c. c \<noteq> CHR ''('') mangled);
                    name = takeWhile (\<lambda>c. c \<noteq> CHR '')'') rest
             in if CHR '')'' \<notin> set rest \<or> 1024 \<le> length name then None else Some (UnDecorateSymbolName name out)))"

definition DemangleInplace_windows :: "(string \<Rightarrow> string \<Rightarrow> bool \<times> string) option \<Rightarrow> string \<Rightarrow> string \<Rightarrow> string outcome option" where
  "DemangleInplace_windows dbghelp uninit out =
     (case Demangle_windows dbghelp (c_str out) uninit of
        None \<Rightarrow> None
      | Some (ok, demangled) \<Rightarrow>
          Some (if ok \<and> length (c_str demangled) + 1 \<le> length out then
              (if length (c_str demangled) < length demangled
               then Done (c_str demangled @ NUL # drop (length (c_str demangled) + 1) out) else Aborted)
            else Done out))"

text \<open>\<open>strncpy\<close>: the text up to its end, filled with NULs to the length.\<close>

definition strncpy :: "string \<Rightarrow> nat \<Rightarrow> string" where
  "strncpy s n = take n (c_str s) @ replicate (n - length (c_str s)) NUL"

text \<open>
  \<open>ready\<close> is the result of \<open>SymInitialize\<close>, \<open>SymFromAddr\<close> gives the name in the structure and its
  \<^verbatim>\<open>NameLen\<close>.
\<close>

definition SymbolizeAndDemangle_windows :: "bool \<Rightarrow> (64 word \<Rightarrow> (string \<times> nat) option) \<Rightarrow>
    (string \<Rightarrow> string \<Rightarrow> bool \<times> string) option \<Rightarrow> string \<Rightarrow> 64 word \<Rightarrow> string \<Rightarrow> (bool \<times> string) outcome option" where
  "SymbolizeAndDemangle_windows ready SymFromAddr dbghelp uninit pc out =
     (if \<not> ready then Some (Done (False, out))
      else case SymFromAddr pc of
          Some (name, len) \<Rightarrow>
            if len < length out then
              andThen (DemangleInplace_windows dbghelp uninit
                  ((strncpy name (len + 1) @ drop (len + 1) out)[len := NUL]))
                (\<lambda>out'. Some (Done (True, out')))
            else Some (Done (False, out))
        | None \<Rightarrow> Some (Done (False, out)))"

lemma DemangleInplace_terminated:
  assumes "DemangleInplace uninit out = Some (Done out')" and "NUL \<in> set out"
  shows "length out' = length out \<and> NUL \<in> set out'"
  using assms by (auto simp: DemangleInplace_def Let_def split: option.splits if_splits)

lemma DemangleInplace_windows_terminated:
  assumes "DemangleInplace_windows dbghelp uninit out = Some (Done out')" and "NUL \<in> set out"
  shows "length out' = length out \<and> NUL \<in> set out'"
  using assms by (auto simp: DemangleInplace_windows_def split: option.splits if_splits)

lemma strncpy_length [simp]: "length (strncpy s n) = n"
  by (simp add: strncpy_def)

text \<open>C26. On macOS and Windows, as elsewhere, a call that succeeds keeps the size of the buffer and leaves a
  terminated text in it, whatever the functions of the system answer.\<close>

theorem other_symbolizers_terminated:
  assumes "SymbolizeAndDemangle_mac dladdr uninit pc out = Some (Done (True, out')) \<or>
    SymbolizeAndDemangle_windows ready SymFromAddr dbghelp uninit pc out = Some (Done (True, out'))"
  shows "length out' = length out \<and> NUL \<in> set out'"
  using assms
proof
  assume "SymbolizeAndDemangle_mac dladdr uninit pc out = Some (Done (True, out'))"
  then obtain s where s: "length s < length out"
    "DemangleInplace uninit (s @ NUL # drop (length s + 1) out) = Some (Done out')"
    by (auto simp: SymbolizeAndDemangle_mac_def andThen_eq_Done split: option.splits if_splits)
  show ?thesis using DemangleInplace_terminated[OF s(2)] s(1) by simp
next
  assume "SymbolizeAndDemangle_windows ready SymFromAddr dbghelp uninit pc out = Some (Done (True, out'))"
  then obtain s n where s: "n < length out"
    "DemangleInplace_windows dbghelp uninit ((strncpy s (n + 1) @ drop (n + 1) out)[n := NUL]) = Some (Done out')"
    by (auto simp: SymbolizeAndDemangle_windows_def andThen_eq_Done split: option.splits if_splits)
  have "NUL \<in> set ((strncpy s (n + 1) @ drop (n + 1) out)[n := NUL])"
    by (rule set_update_memI) (use s(1) in simp)
  then show ?thesis using DemangleInplace_windows_terminated[OF s(2)] s(1) by simp
qed

theorem other_symbolizers_terminated_witness:
  "\<exists>out'. SymbolizeAndDemangle_windows True (\<lambda>_. Some (''f'', 1)) None [] 7 ''abcd'' = Some (Done (True, out')) \<and>
     length out' = 4 \<and> NUL \<in> set out'"
proof -
  have eq: "SymbolizeAndDemangle_windows True (\<lambda>_. Some (''f'', 1)) None [] 7 ''abcd'' =
      Some (Done (True, [CHR ''f'', NUL, CHR ''c'', CHR ''d'']))"
    by (simp add: SymbolizeAndDemangle_windows_def DemangleInplace_windows_def Demangle_windows_def strncpy_def c_str_def)
  then show ?thesis
    using other_symbolizers_terminated[where dladdr = "\<lambda>_. None", OF disjI2[OF eq]] by auto
qed

text \<open>
  With incremental linking the name stands between parentheses. A name with an opening
  parenthesis only, or one of 1024 bytes or more, leaves the buffer.
\<close>

lemma Demangle_windows_ilt:
  assumes "CHR ''('' \<notin> set p" and "CHR '')'' \<notin> set name" and "length name < 1024"
  shows "Demangle_windows (Some und) (p @ ''('' @ name @ '')'' @ q) out = Some (und name out)"
proof -
  have "dropWhile (\<lambda>c. c \<noteq> CHR ''('') (p @ ''('' @ name @ '')'' @ q) = ''('' @ name @ '')'' @ q"
    using assms(1) by (induction p) auto
  moreover have "takeWhile (\<lambda>c. c \<noteq> CHR '')'') (name @ '')'' @ q) = name"
    using assms(2) by (induction name) auto
  ultimately show ?thesis using assms(3) by (simp add: Demangle_windows_def)
qed

lemma Demangle_windows_unclosed: "CHR '')'' \<notin> set name \<Longrightarrow> Demangle_windows (Some und) (''('' @ name) out = None"
  by (simp add: Demangle_windows_def)

subsection \<open>Stack traces on Windows\<close>

text \<open>
  \<open>CaptureStackBackTrace\<close>: as many frames as asked for, behind the skipped ones; the stack starts with the
  frame of \<open>GetStackTrace\<close>. Its two numbers are unsigned words.
\<close>

definition GetStackTrace_windows :: "'a list \<Rightarrow> int \<Rightarrow> int \<Rightarrow> 'a list" where
  "GetStackTrace_windows frames max_depth skip_count =
     (let max_depth = (if 64 < max_depth then 64 else max_depth); skip_count = skip_count + 1
      in take (unat (of_int max_depth :: 32 word)) (drop (unat (of_int skip_count :: 32 word)) frames))"

lemma GetStackTrace_windows_agrees:
  assumes "length frames \<le> 64" and "0 \<le> skip_count" and "skip_count < 2 ^ 31 - 1" and "0 < max_depth"
  shows "GetStackTrace_windows frames max_depth skip_count = GetStackTrace_generic frames max_depth skip_count"
proof -
  have d: "unat (of_int (if 64 < max_depth then 64 else max_depth) :: 32 word) = min 64 (nat max_depth)"
    using assms(4) by (auto simp: unsigned_of_int take_bit_int_eq_self min_def)
  have s: "unat (of_int (skip_count + 1) :: 32 word) = nat skip_count + 1"
    using assms(2,3) by (subst unsigned_of_int) (simp add: take_bit_int_eq_self nat_add_distrib)
  have "GetStackTrace_generic frames max_depth skip_count = take (nat max_depth) (drop (nat skip_count + 1) frames)"
    using unwinders_agree[OF assms(1,2,4) refl] by blast
  moreover have "take (min 64 n) (drop k frames) = take n (drop k frames)" for n k
    using assms(1) by (auto simp: min_def)
  ultimately show ?thesis unfolding GetStackTrace_windows_def Let_def d s by simp
qed

subsection \<open>Time\<close>

text \<open>
  \<open>GetSystemTimeAsFileTime\<close> counts tenths of microseconds since 1601. \<^verbatim>\<open>long\<close> has 32 bits on Windows.
\<close>

definition EPOCHFILETIME :: "64 word" where
  "EPOCHFILETIME = 116444736000000000"

definition gettimeofday_windows :: "64 word \<Rightarrow> int \<times> int" where
  "gettimeofday_windows filetime =
     (let tt = (filetime - EPOCHFILETIME) div 10
      in (sint (ucast (tt div 1000000) :: 32 word), sint (ucast (tt mod 1000000) :: 32 word)))"

definition CycleClock_Now_windows :: "64 word \<Rightarrow> int" where
  "CycleClock_Now_windows filetime = (let (s, us) = gettimeofday_windows filetime in CycleClock_Now s us)"

text \<open>Up to January 2038 the clock is exact; then its seconds become negative.\<close>

lemma sint_small: "w < 2 ^ 31 \<Longrightarrow> sint (ucast (w :: 64 word) :: 32 word) = uint w"
proof -
  assume "w < 2 ^ 31"
  then have "uint w < 2 ^ 31" by (simp add: word_less_def)
  then show ?thesis
    by (simp add: sint_uint unsigned_ucast_eq take_bit_int_eq_self signed_take_bit_int_eq_self_iff order_trans[OF _ uint_nonnegative])
qed

lemma clock_exact:
  assumes "filetime = EPOCHFILETIME + of_nat (10 * us)" and "us < 2 ^ 31 * 1000000"
  shows "CycleClock_Now_windows filetime = int us"
proof -
  let ?tt = "(filetime - EPOCHFILETIME) div 10"
  have "unat (of_nat (10 * us) :: 64 word) = 10 * us"
    by (subst unsigned_of_nat, subst take_bit_nat_eq_self) (use assms(2) in simp_all)
  then have tt: "unat ?tt = us" unfolding assms(1) by (simp add: unat_div_distrib)
  have s: "unat (?tt div 1000000) = us div 1000000" and m: "unat (?tt mod 1000000) = us mod 1000000"
    unfolding unat_div_distrib[of ?tt] unat_mod_distrib[of ?tt] tt by simp_all
  have "us div 1000000 < 2 ^ 31" using assms(2) by (simp add: less_mult_imp_div_less)
  moreover have "us mod 1000000 < 2 ^ 31" by (rule order.strict_trans[OF mod_less_divisor]) simp_all
  ultimately have "?tt div 1000000 < 2 ^ 31" "?tt mod 1000000 < 2 ^ 31"
    by (simp_all add: word_less_nat_alt s m)
  then have "sint (ucast (?tt div 1000000) :: 32 word) = int (us div 1000000)"
    "sint (ucast (?tt mod 1000000) :: 32 word) = int (us mod 1000000)"
    using s m by (simp_all only: sint_small uint_nat)
  then show ?thesis
    by (simp only: CycleClock_Now_windows_def gettimeofday_windows_def CycleClock_Now_def Let_def prod.case)
      (metis div_mult_mod_eq of_nat_add of_nat_mult of_nat_numeral)
qed

lemma clock_2038: "CycleClock_Now_windows (EPOCHFILETIME + 21474836480000000) = - (2 ^ 31) * 1000000"
  by code_simp

text \<open>The functions of \<^verbatim>\<open>src/windows/port.cc\<close>: when the secure version fails the structure keeps its contents.\<close>

definition localtime_r :: "(int \<Rightarrow> 'tm option) \<Rightarrow> int \<Rightarrow> 'tm \<Rightarrow> 'tm" where
  "localtime_r localtime_s timep result = (case localtime_s timep of None \<Rightarrow> result | Some tm \<Rightarrow> tm)"

definition gmtime_r :: "(int \<Rightarrow> 'tm option) \<Rightarrow> int \<Rightarrow> 'tm \<Rightarrow> 'tm" where
  "gmtime_r gmtime_s timep result = (case gmtime_s timep of None \<Rightarrow> result | Some tm \<Rightarrow> tm)"

subsection \<open>Names\<close>

text \<open>A backslash separates only when there is no slash.\<close>

definition after_last :: "char \<Rightarrow> string \<Rightarrow> string" where
  "after_last c s = rev (takeWhile (\<lambda>x. x \<noteq> c) (rev s))"

definition const_basename_windows :: "string \<Rightarrow> string" where
  "const_basename_windows filepath =
     (if CHR ''/'' \<in> set filepath then after_last (CHR ''/'') filepath else after_last (CHR 0x5C) filepath)"

definition GetHostName_windows :: "string option \<Rightarrow> string" where
  "GetHostName_windows computer_name = (case computer_name of Some n \<Rightarrow> n | None \<Rightarrow> [])"

definition MyUserNameInitializer_windows :: "string option \<Rightarrow> string" where
  "MyUserNameInitializer_windows username =
     (case username of Some u \<Rightarrow> u | None \<Rightarrow> ''invalid-user'')"

text \<open>The thread number of macOS: \<open>-1\<close> when the call fails, which then falls back to the process.\<close>

definition GetTID_mac :: "int \<Rightarrow> 64 word \<Rightarrow> int \<Rightarrow> UState \<Rightarrow> int \<times> UState" where
  "GetTID_mac error tid64 pid st =
     GetTID (if error \<noteq> 0 then - 1 else sint (ucast tid64 :: 32 word)) pid st"

lemma after_last_suffix: "c \<in> set s \<Longrightarrow> \<exists>p. s = p @ c # after_last c s \<and> c \<notin> set (after_last c s)"
proof -
  assume "c \<in> set s"
  then have "dropWhile (\<lambda>x. x \<noteq> c) (rev s) \<noteq> []" by auto
  then obtain r where "dropWhile (\<lambda>x. x \<noteq> c) (rev s) = c # r"
    by (metis (mono_tags) hd_dropWhile list.exhaust_sel)
  then have "rev s = takeWhile (\<lambda>x. x \<noteq> c) (rev s) @ c # r" by (metis takeWhile_dropWhile_id)
  then have "s = rev r @ c # after_last c s" by (metis after_last_def append_assoc append_Cons append_Nil rev.simps(2) rev_append rev_rev_ident)
  moreover have "c \<notin> set (after_last c s)" by (auto simp: after_last_def dest: set_takeWhileD)
  ultimately show ?thesis by blast
qed

subsection \<open>Console and directories\<close>

datatype ConsoleEffect = ConsoleFlush | ConsoleAttribute nat | ConsoleText string

text \<open>The attributes of the console: red 4, green 2, intensity 8.\<close>

fun GetColorAttribute :: "GLogColor \<Rightarrow> nat" where
  "GetColorAttribute COLOR_RED = 4"
| "GetColorAttribute COLOR_GREEN = 2"
| "GetColorAttribute COLOR_YELLOW = 6"
| "GetColorAttribute COLOR_DEFAULT = 0"

definition TerminalSupportsColor_windows :: bool where
  "TerminalSupportsColor_windows = True"

text \<open>\<open>None\<close> is a failed assertion; \<open>old\<close> is the attribute that the console has.\<close>

definition ColoredWrite_windows :: "ColorFlags \<Rightarrow> nat \<Rightarrow> Output \<Rightarrow> nat \<Rightarrow> string \<Rightarrow> ConsoleEffect list option" where
  "ColoredWrite_windows fl old out severity message =
     (case (if terminal_supports_color fl \<and>
               (out \<noteq> Stdout \<and> FLAGS_colorlogtostderr fl \<or> out = Stdout \<and> FLAGS_colorlogtostdout fl)
            then SeverityToColor severity else Some COLOR_DEFAULT) of
        None \<Rightarrow> None
      | Some color \<Rightarrow>
          if color = COLOR_DEFAULT then Some [ConsoleText message]
          else Some [ConsoleFlush, ConsoleAttribute (or (GetColorAttribute color) 8), ConsoleText message,
                 ConsoleFlush, ConsoleAttribute old])"

definition GetTempDirectories_windows :: "string option \<Rightarrow> string list" where
  "GetTempDirectories_windows temp_path =
     (case temp_path of Some p \<Rightarrow> [p] | None \<Rightarrow> []) @
     [''C:'' @ [CHR 0x5C] @ ''tmp'' @ [CHR 0x5C], ''C:'' @ [CHR 0x5C] @ ''temp'' @ [CHR 0x5C]]"

text \<open>What the console ends up showing: the attribute of each text, and the final attribute.\<close>

fun console_run :: "nat \<Rightarrow> ConsoleEffect list \<Rightarrow> (nat \<times> string) list \<times> nat" where
  "console_run a [] = ([], a)"
| "console_run a (ConsoleFlush # es) = console_run a es"
| "console_run a (ConsoleAttribute b # es) = console_run b es"
| "console_run a (ConsoleText s # es) = (let (ts, b) = console_run a es in ((a, s) # ts, b))"

text \<open>The same lines as on other systems get a colour, and the console keeps its attribute.\<close>

lemma console_restored:
  assumes "ColoredWrite_windows fl old out severity message = Some es"
  shows "\<exists>a. console_run old es = ([(a, message)], old) \<and>
    (a \<noteq> old \<longrightarrow> ColoredWriteToStderrOrStdout fl out severity message \<noteq> Some (out, message))"
  using assms by (auto simp: ColoredWrite_windows_def ColoredWriteToStderrOrStdout_def split: option.splits if_splits)

end
