(* ===== verification/Stl_Logging.thy ===== *)
theory Stl_Logging
  imports Prelude
begin

section \<open>Printing containers\<close>

text \<open>
  \<^verbatim>\<open>src/glog/stl_logging.h.in\<close>: the elements of a sequence separated by blanks, at most 100 of them.
  The texts of the elements are given; what a stream has already is \<open>out\<close>.
\<close>

fun PrintSequence_loop :: "nat \<Rightarrow> string \<Rightarrow> string list \<Rightarrow> string \<times> string list" where
  "PrintSequence_loop i out [] = (out, [])"
| "PrintSequence_loop i out (x # rest) =
     (if i < 100 then PrintSequence_loop (Suc i) ((if 0 < i then out @ '' '' else out) @ x) rest
      else (out, x # rest))"

definition PrintSequence :: "string \<Rightarrow> string list \<Rightarrow> string" where
  "PrintSequence out seq =
     (let (out1, rest) = PrintSequence_loop 0 out seq in if rest \<noteq> [] then out1 @ '' ...'' else out1)"

definition print_pair :: "string \<Rightarrow> string \<Rightarrow> string \<Rightarrow> string" where
  "print_pair out first second = out @ ''('' @ first @ '', '' @ second @ '')''"

definition print_map :: "string \<Rightarrow> (string \<times> string) list \<Rightarrow> string" where
  "print_map out entries = PrintSequence out (map (\<lambda>(k, v). print_pair [] k v) entries)"

lemma PrintSequence_loop_rest: "PrintSequence_loop i out seq = (fst (PrintSequence_loop i out seq), drop (100 - i) seq)"
  by (induction i out seq rule: PrintSequence_loop.induct) (auto simp: drop_Cons' Suc_diff_le)

lemma PrintSequence_loop_later:
  "0 < i \<Longrightarrow> fst (PrintSequence_loop i out seq) = out @ concat (map (\<lambda>x. '' '' @ x) (take (100 - i) seq))"
  by (induction i out seq rule: PrintSequence_loop.induct) (auto simp: take_Cons')

lemma blank_append: "(@) '' '' = (#) (CHR '' '')"
  by (simp add: fun_eq_iff)

text \<open>A sequence is printed as its first 100 elements with blanks between them, and dots when there
  are more.\<close>

lemma PrintSequence_text:
  "PrintSequence out seq =
     out @ join '' '' (take 100 seq) @ (if 100 < length seq then '' ...'' else [])"
proof (cases seq)
  case Nil
  then show ?thesis by (simp add: PrintSequence_def join_def)
next
  case (Cons x rest)
  have "fst (PrintSequence_loop 0 out seq) = out @ join '' '' (take 100 seq)"
    using PrintSequence_loop_later[of "Suc 0" "out @ x" rest] by (simp add: Cons join_def take_Cons' blank_append)
  then show ?thesis
    using PrintSequence_loop_rest[of 0 out seq] unfolding PrintSequence_def by (simp add: case_prod_unfold)
qed

end
