(* ===== verification/Unit_Tests.thy ===== *)
theory Unit_Tests
  imports Demangle_Output Vlog Stl_Logging Log_Dirs Log_Text
begin

section \<open>Unit tests\<close>

text \<open>
  Unit tests of the repository as functions on the models: of \<^verbatim>\<open>src/demangle_unittest.cc\<close>,
  \<^verbatim>\<open>src/logging_unittest.cc\<close> and \<^verbatim>\<open>src/stl_logging_unittest.cc\<close>. That they pass is a check of the models
  against what the authors of the code expect of it.
\<close>

subsection \<open>The demangler\<close>

text \<open>A call of \<^verbatim>\<open>Demangle\<close> that should succeed with a text, and one that should fail, with a cleared buffer.\<close>

definition demangles :: "string \<Rightarrow> nat \<Rightarrow> string \<Rightarrow> bool" where
  "demangles mangled n demangled =
     (case Demangle mangled (replicate n NUL) of Some (True, out) \<Rightarrow> c_str out = demangled | _ \<Rightarrow> False)"

definition refuses :: "string \<Rightarrow> nat \<Rightarrow> bool" where
  "refuses mangled n = (case Demangle mangled (replicate n NUL) of Some (False, _) \<Rightarrow> True | _ \<Rightarrow> False)"

definition Demangle_CornerCases :: bool where
  "Demangle_CornerCases =
     (let tmp_size = 10; demangled = ''foobar()''; mangled = ''_Z6foobarv''
      in demangles mangled tmp_size demangled \<and> demangles mangled (tmp_size - 1) demangled \<and> refuses mangled (tmp_size - 2) \<and>
         refuses mangled 1 \<and> refuses mangled 0)"

definition Demangle_Clones :: bool where
  "Demangle_Clones =
     (demangles ''_ZL3Foov'' 20 ''Foo()'' \<and> demangles ''_ZL3Foov.clone.3'' 20 ''Foo()'' \<and>
      demangles ''_ZL3Foov.constprop.80'' 20 ''Foo()'' \<and> demangles ''_ZL3Foov.isra.18'' 20 ''Foo()'' \<and>
      demangles ''_ZL3Foov.isra.2.constprop.18'' 20 ''Foo()'' \<and>
      refuses ''_ZL3Foov.clo'' 20 \<and> refuses ''_ZL3Foov.clone.'' 20 \<and> refuses ''_ZL3Foov.clone.foo'' 20 \<and>
      refuses ''_ZL3Foov.isra.2.constprop.'' 20)"

lemma Demangle_CornerCases_pass: Demangle_CornerCases
proof -
  have "demangles ''_Z6foobarv'' 10 ''foobar()''" "demangles ''_Z6foobarv'' 9 ''foobar()''" by code_simp+
  moreover have "refuses ''_Z6foobarv'' 8" "refuses ''_Z6foobarv'' 1" "refuses ''_Z6foobarv'' 0" by code_simp+
  ultimately show ?thesis by (simp add: Demangle_CornerCases_def)
qed

lemma Demangle_Clones_pass: Demangle_Clones
proof -
  have "demangles ''_ZL3Foov'' 20 ''Foo()''" "demangles ''_ZL3Foov.clone.3'' 20 ''Foo()''" by code_simp+
  moreover have "demangles ''_ZL3Foov.constprop.80'' 20 ''Foo()''" "demangles ''_ZL3Foov.isra.18'' 20 ''Foo()''" by code_simp+
  moreover have "demangles ''_ZL3Foov.isra.2.constprop.18'' 20 ''Foo()''" by code_simp
  moreover have "refuses ''_ZL3Foov.clo'' 20" "refuses ''_ZL3Foov.clone.'' 20" by code_simp+
  moreover have "refuses ''_ZL3Foov.clone.foo'' 20" "refuses ''_ZL3Foov.isra.2.constprop.'' 20" by code_simp+
  ultimately show ?thesis by (simp add: Demangle_Clones_def)
qed

subsection \<open>Patterns and verbose logging\<close>

definition SafeFNMatch_logging :: bool where
  "SafeFNMatch_logging =
     (SafeFNMatch ''foo'' ''foo'' \<and> \<not> SafeFNMatch ''foo'' ''bar'' \<and> \<not> SafeFNMatch ''foo'' ''fo'' \<and>
      \<not> SafeFNMatch ''foo'' ''foo2'' \<and> SafeFNMatch ''bar/foo.ext'' ''bar/foo.ext'' \<and>
      SafeFNMatch ''*ba*r/fo*o.ext*'' ''bar/foo.ext'' \<and> \<not> SafeFNMatch ''bar/foo.ext'' ''bar/baz.ext'' \<and>
      \<not> SafeFNMatch ''bar/foo.ext'' ''bar/foo'' \<and> \<not> SafeFNMatch ''bar/foo.ext'' ''bar/foo.ext.zip'' \<and>
      SafeFNMatch ''ba?/*.ext'' ''bar/foo.ext'' \<and> SafeFNMatch ''ba?/*.ext'' ''baZ/FOO.ext'' \<and>
      \<not> SafeFNMatch ''ba?/*.ext'' ''barr/foo.ext'' \<and> \<not> SafeFNMatch ''ba?/*.ext'' ''bar/foo.ext2'' \<and>
      SafeFNMatch ''ba?/*'' ''bar/foo.ext2'' \<and> SafeFNMatch ''ba?/*'' ''bar/'' \<and>
      \<not> SafeFNMatch ''ba?/?'' ''bar/'' \<and> \<not> SafeFNMatch ''ba?/*'' ''bar'')"

lemma SafeFNMatch_logging_pass: SafeFNMatch_logging
  by code_simp

text \<open>The call site is in a function, so both calls use the same one.\<close>

definition TestVLogModule :: "VState \<Rightarrow> bool" where
  "TestVLogModule st =
     (let (c, st1) = VLOG_IS_ON 0 ''src/logging_unittest.cc'' 1 st;
          (old, st2) = SetVLOGLevel ''logging_unittest'' 1 st1;
          (c', st3) = VLOG_IS_ON 0 ''src/logging_unittest.cc'' 1 st2
      in \<not> c \<and> old = 0 \<and> c')"

lemma TestVLogModule_pass: "TestVLogModule (vinit 0 [])"
  by code_simp

subsection \<open>Checks of strings\<close>

definition TestSTREQ :: bool where
  "TestSTREQ = (\<forall>n. CHECK_STREQ (Some ''this'') (Some ''this'') n = None \<and> CHECK_STREQ None None n = None \<and>
     CHECK_STRCASEEQ (Some ''this'') (Some ''tHiS'') n = None \<and> CHECK_STRCASEEQ None None n = None \<and>
     CHECK_STRNE (Some ''this'') (Some ''tHiS'') n = None \<and> CHECK_STRNE (Some ''this'') None n = None \<and>
     CHECK_STRCASENE (Some ''this'') (Some ''that'') n = None \<and> CHECK_STRCASENE None (Some ''that'') n = None \<and>
     CHECK_STREQ (Some (''a'' @ ''b'')) (Some ''ab'') n = None \<and>
     CHECK_STREQ (Some ''test'') (Some (''te'' @ ''st'')) n = None)"

definition DeathSTREQ :: bool where
  "DeathSTREQ = (\<forall>n. CHECK_STREQ None (Some ''this'') n \<noteq> None \<and> CHECK_STREQ (Some ''this'') (Some ''siht'') n \<noteq> None \<and>
     CHECK_STRCASEEQ None (Some ''siht'') n \<noteq> None \<and> CHECK_STRCASEEQ (Some ''this'') (Some ''siht'') n \<noteq> None \<and>
     CHECK_STRNE None None n \<noteq> None \<and> CHECK_STRNE (Some ''this'') (Some ''this'') n \<noteq> None \<and>
     CHECK_STREQ (Some (''a'' @ ''b'')) (Some ''abc'') n \<noteq> None)"

text \<open>The text of the expression, \<open>n\<close>, only goes into the message.\<close>

lemma same_letters:
  "str_eq True ''this'' ''tHiS''" "\<not> str_eq True ''this'' ''that''" "\<not> str_eq True ''this'' ''siht''"
  by code_simp+

lemma TestSTREQ_pass: TestSTREQ
  unfolding TestSTREQ_def CHECK_STREQ_def CHECK_STRNE_def CHECK_STRCASEEQ_def CHECK_STRCASENE_def CheckStrImpl_def
  by (simp add: same_letters Let_def) (simp add: str_eq_def)

lemma DeathSTREQ_pass: DeathSTREQ
  unfolding DeathSTREQ_def CHECK_STREQ_def CHECK_STRNE_def CHECK_STRCASEEQ_def CHECK_STRCASENE_def CheckStrImpl_def
  by (simp add: same_letters Let_def) (simp add: str_eq_def)

subsection \<open>Containers\<close>

text \<open>The numbers are given as their texts, the map in the order of its comparison.\<close>

definition TestSTLLogging :: bool where
  "TestSTLLogging =
     (PrintSequence [] (map dec_str [10, 20, 30]) = ''10 20 30'' \<and>
      print_map [] [(dec_str 10, ''ten''), (dec_str 20, ''twenty''), (dec_str 30, ''thirty'')] =
        ''(10, ten) (20, twenty) (30, thirty)'' \<and>
      PrintSequence [] (map dec_str ([0..<100] @ [100])) = join '' '' (map dec_str [0..<100]) @ '' ...'' \<and>
      print_map [] [(dec_str 30, ''thirty''), (dec_str 20, ''twenty''), (dec_str 10, ''ten'')] =
        ''(30, thirty) (20, twenty) (10, ten)'')"

lemma TestSTLLogging_pass: TestSTLLogging
proof -
  have "PrintSequence [] (map dec_str [10, 20, 30]) = ''10 20 30''" by code_simp
  moreover have "print_map [] [(dec_str 10, ''ten''), (dec_str 20, ''twenty''), (dec_str 30, ''thirty'')] =
        ''(10, ten) (20, twenty) (30, thirty)''" by code_simp
  moreover have "print_map [] [(dec_str 30, ''thirty''), (dec_str 20, ''twenty''), (dec_str 10, ''ten'')] =
        ''(30, thirty) (20, twenty) (10, ten)''" by code_simp
  moreover have "PrintSequence [] (map dec_str ([0..<100] @ [100])) = join '' '' (map dec_str [0..<100]) @ '' ...''"
    by (simp add: PrintSequence_text take_map del: upt_Suc)
  ultimately show ?thesis by (simp only: TestSTLLogging_def simp_thms)
qed

subsection \<open>Truncation\<close>

text \<open>\<open>n\<close> bytes of a text that is repeated.\<close>

definition fill :: "string \<Rightarrow> nat \<Rightarrow> string" where
  "fill s n = take n (concat (replicate n s))"

text \<open>The comparison in pieces; the position \<^verbatim>\<open>p\<close> in the file is never moved, so all pieces are compared with its beginning.\<close>

fun compare_pieces :: "nat \<Rightarrow> string \<Rightarrow> bool" where
  "compare_pieces 0 p = True"
| "compare_pieces (Suc n) p =
     (let bytes = min (Suc n) 7 in take bytes p = take bytes ''KEEPME!'' \<and> compare_pieces (Suc n - 7) p)"

definition TestOneTruncate :: "TruncEnv \<Rightarrow> IoEvent list \<Rightarrow> string \<Rightarrow> 64 word \<Rightarrow> 64 word \<Rightarrow> nat \<Rightarrow> nat \<Rightarrow> nat \<Rightarrow> bool" where
  "TestOneTruncate env evs path limit keep dsize ksize expect =
     (case TruncateLogFile env evs path limit keep (fill ''DISCARDME!'' dsize @ fill ''KEEPME!'' ksize) of
        None \<Rightarrow> False
      | Some (contents, msgs) \<Rightarrow> length contents = expect \<and> compare_pieces expect contents)"

text \<open>The files of the test: a symbolic link is not opened when links must not be followed.\<close>

definition test_files :: TruncEnv where
  "test_files = \<lparr>te_open = (\<lambda>path no_follow. if path = ''/tmp/truncatefile.link'' \<and> no_follow then Some 40 else None),
     te_truncate_ok = True, te_fstat_ok = True, te_is_reg = True, te_ftruncate_ok = True\<rparr>"

definition TestTruncate :: "IoEvent list \<Rightarrow> bool" where
  "TestTruncate evs =
     (let one = TestOneTruncate test_files evs; path = ''/tmp/truncatefile''
      in one path 10 10 10 10 10 \<and>
         one path (push_bit 20 2) (push_bit 10 4) (3 * 2 ^ 20) (4 * 2 ^ 10) (4 * 2 ^ 10) \<and>
         one path 10 20 0 20 20 \<and> one path 10 0 0 0 0 \<and> one path 10 50 0 10 10 \<and> one path 50 100 0 30 30 \<and>
         one (path @ ''.link'') 10 10 0 30 30 \<and> one ''/proc/self/fd/3'' 10 10 10 10 10)"

lemma length_fill: "s \<noteq> [] \<Longrightarrow> length (fill s n) = n"
proof -
  assume "s \<noteq> []"
  then have "n \<le> length (concat (replicate n s))" by (induction n) (auto simp: Suc_le_eq neq_Nil_conv)
  then show ?thesis by (simp add: fill_def)
qed

lemma take_fill: "n \<le> m \<Longrightarrow> n \<le> length s \<Longrightarrow> take n (fill s m) = take n s"
  by (cases m) (simp_all add: fill_def)

lemma compare_fill: "n \<le> m \<Longrightarrow> compare_pieces n (fill ''KEEPME!'' m)"
  by (induction n "fill ''KEEPME!'' m" rule: compare_pieces.induct) (simp_all add: take_fill Let_def)

text \<open>A file that is small enough, or cannot be opened, keeps its contents; of any other one the tail is kept.\<close>

lemma one_unchanged:
  assumes "int ksize \<le> sint limit \<or> int ksize \<le> sint keep \<or> path = ''/tmp/truncatefile.link''"
  shows "TestOneTruncate test_files evs path limit keep 0 ksize ksize"
proof -
  have "fill ''DISCARDME!'' 0 = []" by (simp add: fill_def)
  moreover have "\<exists>msgs. TruncateLogFile test_files evs path limit keep (fill ''KEEPME!'' ksize) = Some (fill ''KEEPME!'' ksize, msgs)"
    using assms length_fill[of "''KEEPME!''" ksize]
    by (auto simp: TruncateLogFile_def test_files_def Let_def procfd_prefix_def)
  ultimately show ?thesis using compare_fill[of ksize ksize] by (auto simp: TestOneTruncate_def length_fill)
qed

lemma one_truncated:
  assumes "complete_io evs" and "path \<noteq> ''/tmp/truncatefile.link''" and "sint limit < int (dsize + ksize)"
    and "sint keep = int ksize" and "0 < dsize"
  shows "TestOneTruncate test_files evs path limit keep dsize ksize ksize"
proof -
  let ?c = "fill ''DISCARDME!'' dsize @ fill ''KEEPME!'' ksize"
  have "TruncateLogFile test_files evs path limit keep ?c = Some (drop (length ?c - nat (sint keep)) ?c, [TruncatingTo keep])"
    by (rule TruncateLogFile_keeps_tail) (use assms in \<open>simp_all add: test_files_def length_fill\<close>)
  then show ?thesis using assms(4) compare_fill[of ksize ksize] by (simp add: TestOneTruncate_def length_fill)
qed

lemma TestTruncate_pass:
  assumes "complete_io evs"
  shows "TestTruncate evs"
proof -
  have "sint (push_bit 20 2 :: 64 word) = 2 ^ 21" "sint (push_bit 10 4 :: 64 word) = 2 ^ 12" by code_simp+
  moreover have "sint (10 :: 64 word) = 10" "sint (20 :: 64 word) = 20" "sint (50 :: 64 word) = 50"
    "sint (100 :: 64 word) = 100" by code_simp+
  ultimately show ?thesis
    using one_unchanged one_truncated[OF assms] by (simp add: TestTruncate_def)
qed

end
