(* ===== verification/Mutex.thy ===== *)
theory Mutex
  imports Main "HOL-Library.Multiset"
begin

section \<open>Mutexes and scoped locks\<close>

text \<open>
  The class \<^verbatim>\<open>Mutex\<close> of \<^verbatim>\<open>src/base/mutex.h\<close> on read-write locks of the thread library, the
  variant without threads, and the scoped locks \<^verbatim>\<open>MutexLock\<close>, \<^verbatim>\<open>ReaderMutexLock\<close> and
  \<^verbatim>\<open>WriterMutexLock\<close>. Threads are numbers. The calls of the thread library are modelled as they
  are documented: a lock that cannot be granted makes the thread wait, locking a lock that the
  thread has locked for writing is an error, and unlocking one it does not hold is undefined.
\<close>

subsection \<open>Read-write locks\<close>

record rwlock =
  rw_writer :: "nat option"
  rw_readers :: "nat multiset"

datatype 'a attempt = Proceeds 'a | Waits | Fails | Undefined

definition pthread_rwlock_wrlock :: "nat \<Rightarrow> rwlock \<Rightarrow> rwlock attempt" where
  "pthread_rwlock_wrlock t m =
     (if rw_writer m = Some t then Fails
      else if rw_writer m \<noteq> None \<or> rw_readers m \<noteq> {#} then Waits
      else Proceeds (m\<lparr>rw_writer := Some t\<rparr>))"

definition pthread_rwlock_rdlock :: "nat \<Rightarrow> rwlock \<Rightarrow> rwlock attempt" where
  "pthread_rwlock_rdlock t m =
     (if rw_writer m = Some t then Fails
      else if rw_writer m \<noteq> None then Waits
      else Proceeds (m\<lparr>rw_readers := add_mset t (rw_readers m)\<rparr>))"

definition pthread_rwlock_unlock :: "nat \<Rightarrow> rwlock \<Rightarrow> rwlock attempt" where
  "pthread_rwlock_unlock t m =
     (if rw_writer m = Some t then Proceeds (m\<lparr>rw_writer := None\<rparr>)
      else if t \<in># rw_readers m then Proceeds (m\<lparr>rw_readers := rw_readers m - {#t#}\<rparr>)
      else Undefined)"

subsection \<open>The class\<close>

record 'a Mutex =
  mutex :: 'a
  is_safe :: bool

definition Mutex_new :: "rwlock Mutex" where
  "Mutex_new = \<lparr>mutex = \<lparr>rw_writer = None, rw_readers = {#}\<rparr>, is_safe = True\<rparr>"

text \<open>\<^verbatim>\<open>SAFE_PTHREAD(fncall)\<close>: \<open>Fails\<close> stands for the call of \<^verbatim>\<open>logging_fail()\<close>.\<close>

definition SAFE_PTHREAD :: "('a \<Rightarrow> 'a attempt) \<Rightarrow> 'a Mutex \<Rightarrow> 'a Mutex attempt" where
  "SAFE_PTHREAD fncall m =
     (if is_safe m then
        (case fncall (mutex m) of
           Proceeds l \<Rightarrow> Proceeds (m\<lparr>mutex := l\<rparr>) | Waits \<Rightarrow> Waits | Fails \<Rightarrow> Fails | Undefined \<Rightarrow> Undefined)
      else Proceeds m)"

definition Lock :: "nat \<Rightarrow> rwlock Mutex \<Rightarrow> rwlock Mutex attempt" where
  "Lock t m = SAFE_PTHREAD (pthread_rwlock_wrlock t) m"

definition Unlock :: "nat \<Rightarrow> rwlock Mutex \<Rightarrow> rwlock Mutex attempt" where
  "Unlock t m = SAFE_PTHREAD (pthread_rwlock_unlock t) m"

definition ReaderLock :: "nat \<Rightarrow> rwlock Mutex \<Rightarrow> rwlock Mutex attempt" where
  "ReaderLock t m = SAFE_PTHREAD (pthread_rwlock_rdlock t) m"

definition ReaderUnlock :: "nat \<Rightarrow> rwlock Mutex \<Rightarrow> rwlock Mutex attempt" where
  "ReaderUnlock t m = SAFE_PTHREAD (pthread_rwlock_unlock t) m"

definition TryLock :: "nat \<Rightarrow> rwlock Mutex \<Rightarrow> bool \<times> rwlock Mutex" where
  "TryLock t m =
     (if is_safe m then
        (case pthread_rwlock_wrlock t (mutex m) of Proceeds l \<Rightarrow> (True, m\<lparr>mutex := l\<rparr>) | _ \<Rightarrow> (False, m))
      else (True, m))"

text \<open>Without threads: a counter, and \<open>None\<close> for a failed assertion.\<close>

definition NoThreads_Lock :: "int \<Rightarrow> int option" where
  "NoThreads_Lock m = (let m1 = m - 1 in if m1 = - 1 then Some m1 else None)"

definition NoThreads_Unlock :: "int \<Rightarrow> int option" where
  "NoThreads_Unlock m = (if m = - 1 then Some (m + 1) else None)"

definition NoThreads_TryLock :: "int \<Rightarrow> (bool \<times> int) option" where
  "NoThreads_TryLock m = (if m \<noteq> 0 then Some (False, m) else map_option (Pair True) (NoThreads_Lock m))"

definition NoThreads_ReaderLock :: "int \<Rightarrow> int option" where
  "NoThreads_ReaderLock m = (let m1 = m + 1 in if 0 < m1 then Some m1 else None)"

definition NoThreads_ReaderUnlock :: "int \<Rightarrow> int option" where
  "NoThreads_ReaderUnlock m = (if 0 < m then Some (m - 1) else None)"

lemma NoThreads_exclusive:
  "NoThreads_Lock m = Some m' \<Longrightarrow> m' = - 1 \<and> NoThreads_ReaderLock m' = None \<and> NoThreads_Lock m' = None \<and>
    NoThreads_Unlock m' = Some 0"
  by (auto simp: NoThreads_Lock_def NoThreads_ReaderLock_def NoThreads_Unlock_def Let_def split: if_splits)

subsection \<open>Scoped locks\<close>

datatype LockKind = Exclusive | Shared

definition lock_acquire :: "LockKind \<Rightarrow> nat \<Rightarrow> rwlock Mutex \<Rightarrow> rwlock Mutex attempt" where
  "lock_acquire k t m = (case k of Exclusive \<Rightarrow> Lock t m | Shared \<Rightarrow> ReaderLock t m)"

definition lock_release :: "LockKind \<Rightarrow> nat \<Rightarrow> rwlock Mutex \<Rightarrow> rwlock Mutex attempt" where
  "lock_release k t m = (case k of Exclusive \<Rightarrow> Unlock t m | Shared \<Rightarrow> ReaderUnlock t m)"

text \<open>
  Threads that use the mutex only through scoped locks: a thread enters a scope when the lock is
  granted, and leaves its innermost scope.
\<close>

type_synonym 'm scopes = "'m \<times> (nat \<Rightarrow> LockKind list)"

inductive scope_step :: "(LockKind \<Rightarrow> nat \<Rightarrow> 'm \<Rightarrow> 'm attempt) \<Rightarrow> (LockKind \<Rightarrow> nat \<Rightarrow> 'm \<Rightarrow> 'm attempt) \<Rightarrow>
    'm scopes \<Rightarrow> 'm scopes \<Rightarrow> bool" for acquire release where
  enter: "acquire k t m = Proceeds m' \<Longrightarrow> scope_step acquire release (m, h) (m', h(t := k # h t))"
| leave: "h t = k # ks \<Longrightarrow> release k t m = Proceeds m' \<Longrightarrow> scope_step acquire release (m, h) (m', h(t := ks))"

inductive scope_reach :: "(LockKind \<Rightarrow> nat \<Rightarrow> 'm \<Rightarrow> 'm attempt) \<Rightarrow> (LockKind \<Rightarrow> nat \<Rightarrow> 'm \<Rightarrow> 'm attempt) \<Rightarrow>
    'm \<Rightarrow> 'm scopes \<Rightarrow> bool" for acquire release new where
  start: "scope_reach acquire release new (new, \<lambda>_. [])"
| step: "scope_reach acquire release new s \<Longrightarrow> scope_step acquire release s s' \<Longrightarrow> scope_reach acquire release new s'"

inductive_cases scope_stepE: "scope_step acquire release s s'"

text \<open>
  What makes scoped locks work, whatever the lock is: the state of the lock describes the scopes that
  are entered, and a lock that belongs to a scope can be released.
\<close>

locale scoped_lock =
  fixes acquire release :: "LockKind \<Rightarrow> nat \<Rightarrow> 'm \<Rightarrow> 'm attempt" and new :: 'm and ok :: "'m scopes \<Rightarrow> bool"
  assumes ok_new: "ok (new, \<lambda>_. [])"
    and ok_enter: "ok (m, h) \<Longrightarrow> acquire k t m = Proceeds m' \<Longrightarrow> ok (m', h(t := k # h t))"
    and ok_leave: "ok (m, h) \<Longrightarrow> h t = k # ks \<Longrightarrow> \<exists>m'. release k t m = Proceeds m' \<and> ok (m', h(t := ks))"
begin

lemma reach_scopes: "scope_reach acquire release new s \<Longrightarrow> ok s"
proof (induction rule: scope_reach.induct)
  case (step s s')
  from step(2,3) show ?case
    by (cases rule: scope_stepE) (auto dest: ok_enter ok_leave)
qed (rule ok_new)

text \<open>The destructor of a scope never fails, never waits, and is never undefined.\<close>

lemma leave_safe:
  "scope_reach acquire release new (m, h) \<Longrightarrow> h t = k # ks \<Longrightarrow> \<exists>m'. release k t m = Proceeds m'"
  using ok_leave reach_scopes by blast

end

text \<open>The mutex records exactly the scopes.\<close>

definition scopes_ok :: "rwlock Mutex scopes \<Rightarrow> bool" where
  "scopes_ok = (\<lambda>(m, h). is_safe m \<and>
     (case rw_writer (mutex m) of
        Some t \<Rightarrow> h t = [Exclusive] \<and> (\<forall>u. u \<noteq> t \<longrightarrow> h u = []) \<and> rw_readers (mutex m) = {#}
      | None \<Rightarrow> \<forall>t. h t = replicate (count (rw_readers (mutex m)) t) Shared))"

lemma scopes_ok_enter:
  assumes "scopes_ok (m, h)" and "lock_acquire k t m = Proceeds m'"
  shows "scopes_ok (m', h(t := k # h t))"
  using assms
  by (cases k) (auto simp: scopes_ok_def lock_acquire_def Lock_def ReaderLock_def SAFE_PTHREAD_def
      pthread_rwlock_wrlock_def pthread_rwlock_rdlock_def split: if_splits option.splits)

lemma replicate_Cons: "x # xs = replicate n y \<longleftrightarrow> 0 < n \<and> x = y \<and> xs = replicate (n - 1) y"
  by (cases n) auto

lemma scopes_ok_leave:
  assumes "scopes_ok (m, h)" and "h t = k # ks"
  shows "\<exists>m'. lock_release k t m = Proceeds m' \<and> scopes_ok (m', h(t := ks))"
proof (cases "rw_writer (mutex m)")
  case None
  then have "k # ks = replicate (count (rw_readers (mutex m)) t) Shared" "is_safe m"
    "\<forall>u. h u = replicate (count (rw_readers (mutex m)) u) Shared"
    using assms by (auto simp: scopes_ok_def)
  moreover from this have "t \<in># rw_readers (mutex m)" "k = Shared"
    "ks = replicate (count (rw_readers (mutex m)) t - 1) Shared"
    by (simp_all add: replicate_Cons)
  ultimately show ?thesis using None
    by (simp add: lock_release_def ReaderUnlock_def SAFE_PTHREAD_def pthread_rwlock_unlock_def scopes_ok_def)
next
  case (Some u)
  then have s: "h u = [Exclusive]" "is_safe m" "\<forall>v. v \<noteq> u \<longrightarrow> h v = []" "rw_readers (mutex m) = {#}"
    using assms by (simp_all add: scopes_ok_def)
  then have "u = t" using assms(2) by (metis list.distinct(1))
  then have "u = t" "k = Exclusive" "ks = []" "is_safe m" "\<forall>v. v \<noteq> t \<longrightarrow> h v = []" "rw_readers (mutex m) = {#}"
    using s assms(2) by simp_all
  then show ?thesis using Some
    by (simp add: lock_release_def Unlock_def SAFE_PTHREAD_def pthread_rwlock_unlock_def scopes_ok_def)
qed

interpretation rw: scoped_lock lock_acquire lock_release Mutex_new scopes_ok
proof
  show "scopes_ok (Mutex_new, \<lambda>_. [])" by (simp add: scopes_ok_def Mutex_new_def)
qed (fact scopes_ok_enter, fact scopes_ok_leave)

lemma exclusive_state:
  assumes "scopes_ok (m, h)" and "Exclusive \<in> set (h t)"
  shows "is_safe m \<and> rw_writer (mutex m) = Some t \<and> h t = [Exclusive] \<and> (\<forall>u. u \<noteq> t \<longrightarrow> h u = [])"
proof (cases "rw_writer (mutex m)")
  case None
  then show ?thesis using assms by (simp add: scopes_ok_def)
next
  case (Some w)
  then have "is_safe m" "h w = [Exclusive]" "\<forall>v. v \<noteq> w \<longrightarrow> h v = []"
    using assms(1) by (simp_all add: scopes_ok_def)
  moreover from this have "w = t" using assms(2) by (metis empty_iff empty_set)
  ultimately show ?thesis using Some by simp
qed

lemma shared_state:
  assumes "scopes_ok (m, h)" and "Shared \<in> set (h t)"
  shows "is_safe m \<and> rw_writer (mutex m) = None \<and> rw_readers (mutex m) \<noteq> {#} \<and> (\<forall>u. Exclusive \<notin> set (h u))"
proof (cases "rw_writer (mutex m)")
  case None
  then have "is_safe m" "\<forall>u. h u = replicate (count (rw_readers (mutex m)) u) Shared"
    using assms(1) by (simp_all add: scopes_ok_def)
  then show ?thesis using None assms(2) by auto
next
  case (Some w)
  then have "h w = [Exclusive]" "\<forall>v. v \<noteq> w \<longrightarrow> h v = []" using assms(1) by (simp_all add: scopes_ok_def)
  then show ?thesis using assms(2) by (cases "t = w") auto
qed

text \<open>C30. When every thread uses a mutex through scoped locks only, then at any time a thread inside a
  \<open>MutexLock\<close> or \<open>WriterMutexLock\<close> scope is alone: it is in no second scope, no other thread is in
  any scope, and every other thread that tries to enter one waits. While a thread is in a
  \<open>ReaderMutexLock\<close> scope nobody is in an exclusive one, every thread that tries to enter an exclusive
  one waits, and every thread can enter a shared one. The end of a scope never fails.\<close>

theorem mutual_exclusion:
  assumes "scope_reach lock_acquire lock_release Mutex_new (m, h)" and "k \<in> set (h t)"
  shows "(case k of
      Exclusive \<Rightarrow> h t = [Exclusive] \<and> (\<forall>u. u \<noteq> t \<longrightarrow> h u = [] \<and> (\<forall>k'. lock_acquire k' u m = Waits))
    | Shared \<Rightarrow> \<forall>u. Exclusive \<notin> set (h u) \<and> lock_acquire Exclusive u m = Waits \<and>
        (\<exists>m'. lock_acquire Shared u m = Proceeds m')) \<and>
    (\<exists>m'. lock_release (hd (h t)) t m = Proceeds m')"
proof -
  have ok: "scopes_ok (m, h)" by (rule rw.reach_scopes[OF assms(1)])
  have "\<exists>m'. lock_release (hd (h t)) t m = Proceeds m'"
    using assms(2) by (cases "h t") (auto intro: rw.leave_safe[OF assms(1)])
  then show ?thesis
  proof (cases k)
    case Exclusive
    then have "h t = [Exclusive]" "\<forall>u. u \<noteq> t \<longrightarrow> h u = [] \<and> (\<forall>k'. lock_acquire k' u m = Waits)"
      using exclusive_state[OF ok, of t] assms(2)
      by (auto simp: lock_acquire_def Lock_def ReaderLock_def SAFE_PTHREAD_def pthread_rwlock_wrlock_def
          pthread_rwlock_rdlock_def split: LockKind.split)
    with \<open>\<exists>m'. _\<close> Exclusive show ?thesis by simp
  next
    case Shared
    then have "\<forall>u. Exclusive \<notin> set (h u)" "\<forall>u. lock_acquire Exclusive u m = Waits"
      "\<forall>u. \<exists>m'. lock_acquire Shared u m = Proceeds m'"
      using shared_state[OF ok, of t] assms(2)
      by (simp_all add: lock_acquire_def Lock_def ReaderLock_def SAFE_PTHREAD_def pthread_rwlock_wrlock_def
          pthread_rwlock_rdlock_def)
    with \<open>\<exists>m'. _\<close> Shared show ?thesis by simp
  qed
qed

text \<open>The mutex after thread 1 has entered an exclusive scope.\<close>

definition demo_mutex :: "rwlock Mutex" where
  "demo_mutex = \<lparr>mutex = \<lparr>rw_writer = Some 1, rw_readers = {#}\<rparr>, is_safe = True\<rparr>"

lemma demo_acquire: "lock_acquire Exclusive 1 Mutex_new = Proceeds demo_mutex"
  by (simp add: lock_acquire_def Lock_def SAFE_PTHREAD_def pthread_rwlock_wrlock_def Mutex_new_def demo_mutex_def)

lemma demo_scope: "scope_reach lock_acquire lock_release Mutex_new (demo_mutex, (\<lambda>_. [])(1 := [Exclusive]))"
proof -
  have "scope_step lock_acquire lock_release (Mutex_new, \<lambda>_. []) (demo_mutex, (\<lambda>_. [])(1 := [Exclusive]))"
    using scope_step.enter[where h = "\<lambda>_. []" and acquire = lock_acquire and release = lock_release,
      OF demo_acquire] by simp
  then show ?thesis by (rule scope_reach.step[OF scope_reach.start])
qed

theorem mutual_exclusion_witness:
  "lock_acquire Exclusive 1 Mutex_new = Proceeds demo_mutex \<and>
   lock_acquire Exclusive 2 demo_mutex = Waits \<and> lock_acquire Shared 2 demo_mutex = Waits \<and>
   (\<exists>m'. lock_release Exclusive 1 demo_mutex = Proceeds m')"
  using mutual_exclusion[OF demo_scope, of Exclusive 1] demo_acquire by simp

text \<open>The destructors of the scoped locks are safe on read-write locks.\<close>

theorem leaving_is_safe:
  assumes "scope_reach lock_acquire lock_release Mutex_new (m, h)" and "h t = k # ks"
  shows "\<exists>m'. lock_release k t m = Proceeds m'"
  by (rule rw.leave_safe[OF assms])

theorem leaving_is_safe_witness:
  "\<exists>m'. lock_release Exclusive 1 demo_mutex = Proceeds m'"
  by (rule leaving_is_safe[OF demo_scope, of 1 Exclusive "[]"]) simp

text \<open>An unlocking by hand inside a scope makes the end of the scope undefined.\<close>

lemma unlocked_by_hand:
  "lock_acquire Exclusive t Mutex_new = Proceeds m \<Longrightarrow> Unlock t m = Proceeds m' \<Longrightarrow>
   lock_release Exclusive t m' = Undefined"
  by (auto simp: lock_acquire_def lock_release_def Lock_def Unlock_def SAFE_PTHREAD_def pthread_rwlock_wrlock_def
      pthread_rwlock_unlock_def Mutex_new_def)

subsection \<open>Other systems\<close>

text \<open>
  A critical section of Windows belongs to a thread, which may enter it again; a plain \<^verbatim>\<open>pthread_mutex_t\<close> makes
  every thread wait, its owner for ever. Neither can be shared, so the reader locks are exclusive.
\<close>

record critical_section =
  cs_owner :: "nat option"
  cs_count :: nat

definition EnterCriticalSection :: "nat \<Rightarrow> critical_section \<Rightarrow> critical_section attempt" where
  "EnterCriticalSection t m =
     (if cs_owner m = None \<or> cs_owner m = Some t then Proceeds \<lparr>cs_owner = Some t, cs_count = cs_count m + 1\<rparr>
      else Waits)"

definition LeaveCriticalSection :: "nat \<Rightarrow> critical_section \<Rightarrow> critical_section attempt" where
  "LeaveCriticalSection t m =
     (if cs_owner m = Some t then
        Proceeds \<lparr>cs_owner = (if cs_count m = 1 then None else Some t), cs_count = cs_count m - 1\<rparr>
      else Undefined)"

definition pthread_mutex_lock :: "nat \<Rightarrow> nat option \<Rightarrow> nat option attempt" where
  "pthread_mutex_lock t m = (if m = None then Proceeds (Some t) else Waits)"

definition pthread_mutex_unlock :: "nat \<Rightarrow> nat option \<Rightarrow> nat option attempt" where
  "pthread_mutex_unlock t m = (if m = Some t then Proceeds None else Undefined)"

definition Windows_Mutex_new :: "critical_section Mutex" where
  "Windows_Mutex_new = \<lparr>mutex = \<lparr>cs_owner = None, cs_count = 0\<rparr>, is_safe = True\<rparr>"

definition Windows_Lock :: "nat \<Rightarrow> critical_section Mutex \<Rightarrow> critical_section Mutex attempt" where
  "Windows_Lock t m = SAFE_PTHREAD (EnterCriticalSection t) m"

definition Windows_Unlock :: "nat \<Rightarrow> critical_section Mutex \<Rightarrow> critical_section Mutex attempt" where
  "Windows_Unlock t m = SAFE_PTHREAD (LeaveCriticalSection t) m"

definition Windows_TryLock :: "nat \<Rightarrow> critical_section Mutex \<Rightarrow> bool \<times> critical_section Mutex" where
  "Windows_TryLock t m =
     (if is_safe m then
        (case EnterCriticalSection t (mutex m) of Proceeds l \<Rightarrow> (True, m\<lparr>mutex := l\<rparr>) | _ \<Rightarrow> (False, m))
      else (True, m))"

definition Plain_Mutex_new :: "nat option Mutex" where
  "Plain_Mutex_new = \<lparr>mutex = None, is_safe = True\<rparr>"

definition Plain_Lock :: "nat \<Rightarrow> nat option Mutex \<Rightarrow> nat option Mutex attempt" where
  "Plain_Lock t m = SAFE_PTHREAD (pthread_mutex_lock t) m"

definition Plain_Unlock :: "nat \<Rightarrow> nat option Mutex \<Rightarrow> nat option Mutex attempt" where
  "Plain_Unlock t m = SAFE_PTHREAD (pthread_mutex_unlock t) m"

definition Plain_TryLock :: "nat \<Rightarrow> nat option Mutex \<Rightarrow> bool \<times> nat option Mutex" where
  "Plain_TryLock t m =
     (if is_safe m then
        (case pthread_mutex_lock t (mutex m) of Proceeds l \<Rightarrow> (True, m\<lparr>mutex := l\<rparr>) | _ \<Rightarrow> (False, m))
      else (True, m))"

text \<open>Without threads there is one thread, 0, and one counter.\<close>

definition NoThreads_acquire :: "LockKind \<Rightarrow> nat \<Rightarrow> int \<Rightarrow> int attempt" where
  "NoThreads_acquire k t m =
     (if t \<noteq> 0 then Waits
      else case (case k of Exclusive \<Rightarrow> NoThreads_Lock m | Shared \<Rightarrow> NoThreads_ReaderLock m) of
          None \<Rightarrow> Fails | Some m' \<Rightarrow> Proceeds m')"

definition NoThreads_release :: "LockKind \<Rightarrow> nat \<Rightarrow> int \<Rightarrow> int attempt" where
  "NoThreads_release k t m =
     (if t \<noteq> 0 then Waits
      else case (case k of Exclusive \<Rightarrow> NoThreads_Unlock m | Shared \<Rightarrow> NoThreads_ReaderUnlock m) of
          None \<Rightarrow> Fails | Some m' \<Rightarrow> Proceeds m')"

definition windows_ok :: "critical_section Mutex scopes \<Rightarrow> bool" where
  "windows_ok = (\<lambda>(m, h). is_safe m \<and>
     (case cs_owner (mutex m) of
        Some t \<Rightarrow> cs_count (mutex m) = length (h t) \<and> h t \<noteq> [] \<and> (\<forall>u. u \<noteq> t \<longrightarrow> h u = [])
      | None \<Rightarrow> cs_count (mutex m) = 0 \<and> (\<forall>t. h t = [])))"

definition plain_ok :: "nat option Mutex scopes \<Rightarrow> bool" where
  "plain_ok = (\<lambda>(m, h). is_safe m \<and>
     (case mutex m of Some t \<Rightarrow> length (h t) = 1 \<and> (\<forall>u. u \<noteq> t \<longrightarrow> h u = []) | None \<Rightarrow> \<forall>t. h t = []))"

definition counter_ok :: "int scopes \<Rightarrow> bool" where
  "counter_ok = (\<lambda>(m, h). (\<forall>t. t \<noteq> 0 \<longrightarrow> h t = []) \<and>
     (if m = - 1 then h 0 = [Exclusive] else 0 \<le> m \<and> h 0 = replicate (nat m) Shared))"

interpretation windows: scoped_lock "\<lambda>_. Windows_Lock" "\<lambda>_. Windows_Unlock" Windows_Mutex_new windows_ok
proof
  show "windows_ok (Windows_Mutex_new, \<lambda>_. [])" by (simp add: windows_ok_def Windows_Mutex_new_def)
next
  fix m :: "critical_section Mutex" and h k t m'
  assume "windows_ok (m, h)" and "Windows_Lock t m = Proceeds m'"
  then show "windows_ok (m', h(t := k # h t))"
    by (auto simp: windows_ok_def Windows_Lock_def SAFE_PTHREAD_def EnterCriticalSection_def split: if_splits option.splits)
next
  fix m :: "critical_section Mutex" and h t and k :: LockKind and ks
  assume ok: "windows_ok (m, h)" and h: "h t = k # ks"
  then obtain w where o: "cs_owner (mutex m) = Some w" "cs_count (mutex m) = length (h w)" "is_safe m" "\<forall>u. u \<noteq> w \<longrightarrow> h u = []"
    by (auto simp: windows_ok_def split: option.splits)
  then have "w = t" using h by (metis list.distinct(1))
  with o show "\<exists>m'. Windows_Unlock t m = Proceeds m' \<and> windows_ok (m', h(t := ks))"
    using h by (auto simp: windows_ok_def Windows_Unlock_def SAFE_PTHREAD_def LeaveCriticalSection_def)
qed

interpretation plain: scoped_lock "\<lambda>_. Plain_Lock" "\<lambda>_. Plain_Unlock" Plain_Mutex_new plain_ok
proof
  show "plain_ok (Plain_Mutex_new, \<lambda>_. [])" by (simp add: plain_ok_def Plain_Mutex_new_def)
next
  fix m :: "nat option Mutex" and h k t m'
  assume "plain_ok (m, h)" and "Plain_Lock t m = Proceeds m'"
  then show "plain_ok (m', h(t := k # h t))"
    by (auto simp: plain_ok_def Plain_Lock_def SAFE_PTHREAD_def pthread_mutex_lock_def split: if_splits option.splits)
next
  fix m :: "nat option Mutex" and h t and k :: LockKind and ks
  assume ok: "plain_ok (m, h)" and h: "h t = k # ks"
  then obtain w where o: "mutex m = Some w" "length (h w) = 1" "is_safe m" "\<forall>u. u \<noteq> w \<longrightarrow> h u = []"
    by (auto simp: plain_ok_def split: option.splits)
  then have "w = t" using h by (metis list.distinct(1))
  with o h show "\<exists>m'. Plain_Unlock t m = Proceeds m' \<and> plain_ok (m', h(t := ks))"
    by (auto simp: plain_ok_def Plain_Unlock_def SAFE_PTHREAD_def pthread_mutex_unlock_def)
qed

interpretation counter: scoped_lock NoThreads_acquire NoThreads_release 0 counter_ok
proof
  show "counter_ok (0, \<lambda>_. [])" by (simp add: counter_ok_def)
next
  fix m :: int and h k t m'
  assume "counter_ok (m, h)" and "NoThreads_acquire k t m = Proceeds m'"
  then show "counter_ok (m', h(t := k # h t))"
    by (cases k) (auto simp: counter_ok_def NoThreads_acquire_def NoThreads_Lock_def NoThreads_ReaderLock_def Let_def
        nat_add_distrib split: if_splits)
next
  fix m :: int and h t and k :: LockKind and ks
  assume ok: "counter_ok (m, h)" and h: "h t = k # ks"
  then have t: "t = 0" "\<forall>u. u \<noteq> 0 \<longrightarrow> h u = []" by (auto simp: counter_ok_def)
  show "\<exists>m'. NoThreads_release k t m = Proceeds m' \<and> counter_ok (m', h(t := ks))"
  proof (cases "m = - 1")
    case True
    then show ?thesis using ok h t
      by (auto simp: counter_ok_def NoThreads_release_def NoThreads_Unlock_def)
  next
    case False
    then have "0 \<le> m" "k # ks = replicate (nat m) Shared" using ok h t by (auto simp: counter_ok_def)
    then have "0 < m" "k = Shared" "ks = replicate (nat (m - 1)) Shared" by (auto simp: replicate_Cons nat_diff_distrib)
    then show ?thesis using t by (auto simp: counter_ok_def NoThreads_release_def NoThreads_ReaderUnlock_def)
  qed
qed

text \<open>On both systems a thread inside a scope of any kind is alone, but on Windows it may be in several.\<close>

lemma windows_alone:
  assumes "scope_reach (\<lambda>_. Windows_Lock) (\<lambda>_. Windows_Unlock) Windows_Mutex_new (m, h)" and "h t \<noteq> []" and "u \<noteq> t"
  shows "h u = []"
  using windows.reach_scopes[OF assms(1)] assms(2,3)
  by (cases "cs_owner (mutex m)") (simp add: windows_ok_def, simp add: windows_ok_def, metis)

lemma plain_alone:
  assumes "scope_reach (\<lambda>_. Plain_Lock) (\<lambda>_. Plain_Unlock) Plain_Mutex_new (m, h)" and "h t \<noteq> []"
  shows "length (h t) = 1 \<and> (\<forall>u. u \<noteq> t \<longrightarrow> h u = [])"
  using plain.reach_scopes[OF assms(1)] assms(2)
  by (cases "mutex m") (simp add: plain_ok_def, simp add: plain_ok_def, metis)

lemma windows_reenters: "Windows_Lock t Windows_Mutex_new = Proceeds m \<Longrightarrow> \<exists>m'. Windows_Lock t m = Proceeds m'"
  by (auto simp: Windows_Lock_def SAFE_PTHREAD_def EnterCriticalSection_def Windows_Mutex_new_def split: if_splits)

end
