(* ===== verification/Spec2Isabelle.thy ===== *)
theory Spec2Isabelle
  imports Demangle_Spec Vlog Signal_Handler Raw_Log Sym_Spec Log_Names Log_Pread Log_Threads Log_Library Log_Checks Log_Verbose Log_Exceptions
    Log_Flags Platforms Unit_Tests Mutex Stack_Trace Stl_Logging
begin

text \<open>
  A verification of the C++ logging library glog: models of its code under \<^verbatim>\<open>src/\<close> as functions on explicit
  states, and the theorems that make its parts correct, alone and together.

  \<^bold>\<open>The program.\<close> A statement such as \<^verbatim>\<open>LOG(INFO) << "x"\<close> makes a \<^verbatim>\<open>LogMessage\<close> (\<^verbatim>\<open>src/logging.cc\<close>,
  \<^verbatim>\<open>src/glog/logging.h.in\<close>): data from a pool, a stream over a fixed buffer, and a prefix with time, thread,
  file and line. When the statement ends, \<^verbatim>\<open>LogMessage::Flush\<close> sends the text, under the logging mutex, to
  the log files of its severity and of all lower ones, to standard error, mail, the system log, the
  registered sinks, a string or a vector, as its constructor has chosen. Each severity has a
  \<^verbatim>\<open>LogDestination\<close> with a \<^verbatim>\<open>LogFileObject\<close>, which makes, names, locks, links, rolls over, flushes and cleans up
  files. \<^verbatim>\<open>VLOG\<close> asks the registry of module levels (\<^verbatim>\<open>src/vlog_is_on.cc\<close>) whether a site logs at all. A
  fatal message, a failed check (\<^verbatim>\<open>CHECK\<close>) or a signal ends in a report: the signal handler
  (\<^verbatim>\<open>src/signalhandler.cc\<close>) lets one thread write it with routines that are safe in a handler, which walk the
  stack (\<^verbatim>\<open>src/stacktrace_*-inl.h\<close>), find the symbol of an address in the ELF files that
  \<^verbatim>\<open>/proc/self/maps\<close> names (\<^verbatim>\<open>src/symbolize.cc\<close>), and demangle its name (\<^verbatim>\<open>src/demangle.cc\<close>).
  \<^verbatim>\<open>src/raw_logging.cc\<close> is the logging that allocates nothing, \<^verbatim>\<open>src/utilities.cc\<close> holds program name,
  initialisation and crash reason, \<^verbatim>\<open>src/base/mutex.h\<close> the locks.

  \<^bold>\<open>Conventions.\<close> A class or struct is a record with the fields of the source, an enumeration a datatype, a
  machine integer a word or an integer with the wrap-around written out; a C string is the list of its
  characters before the NUL, a buffer the list of all its bytes, and a pointer into one a position.
  A function of the source is a function that returns the new state. \<open>None\<close> as the result of an operation
  is a failed assertion, undefined behaviour, or waiting for ever on a mutex that the thread itself
  holds; where a run may not end it is also that, and the theory says so. What the operating system
  answers is a record of functions (\<open>LogEnv\<close>, \<open>MsgEnv\<close>), a script (\<open>PreadEvent\<close>), or a parameter; what the
  program does to it is a list in the state: \<open>effects\<close> on files, \<open>events\<close> for everything else that leaves
  the library.
  One case of undefined behaviour is kept visible instead of \<open>None\<close>, since the code runs into it whenever a fatal
  message is logged: the second unlock of the logging mutex is the event \<open>UnlockedTwice\<close>. With the locks of a system it is
  undefined (\<open>Mutex.unlocked_by_hand\<close>) and without threads a failed assertion; a state behind the event is
  exact only for a build without threads and without assertions, where locking and unlocking do nothing. What is shown
  of the library as a whole and of its threads is about programs without fatal messages, and that the event
  does not occur is a part of it.

  \<^bold>\<open>The theories.\<close>

  \<^item> \<open>Prelude\<close>: C strings, character classes, lists written by index, the rule collections.

  \<^item> The demangler, \<^verbatim>\<open>src/demangle.cc\<close>. \<open>Demangle_State\<close>: the tables, \<^verbatim>\<open>struct State\<close> and the routines that append
  to the bounded output. \<open>Demangle_Parse\<close> and \<open>Demangle_Grammar\<close>: every parsing function, in the order of the
  source, those that call each other with open recursion over the datatype \<open>NT\<close>; \<open>run\<close> closes it with a
  bound on the nesting of calls. \<open>Demangle_Rules\<close>: the locales \<open>step_rel\<close> and \<open>grammar_rel\<close>, a small program logic: a
  relation between states that the leaf operations respect is respected by the whole grammar. It is
  interpreted for the cursor (here), the output buffer and the recursion counters (\<open>Demangle_Safe\<close>).
  \<open>Demangle_Total\<close>: every cycle of calls consumes input, so the bound \<open>8 * length + 8\<close> of \<open>Demangle\<close> is never
  reached and a larger one changes nothing (locales \<open>consuming_calls\<close>, \<open>ranked_calls\<close>). \<open>Demangle_Output\<close> and
  \<open>Demangle_Spec\<close>: what is printed, for numbers, identifiers, nested names and clone suffixes.

  \<^item> \<open>Vlog\<close>, \<^verbatim>\<open>src/vlog_is_on.cc\<close> and the macro \<^verbatim>\<open>VLOG_IS_ON\<close>: glob matching against a reference relation, the module
  list, cached call sites, and the states all calls and assignments of flags can reach, each with the history of the
  calls that led to it: which pattern a cached site follows is said of this history, not of the list.

  \<^item> \<open>Signal_Format\<close>, \<open>Signal_Handler\<close>, \<^verbatim>\<open>src/signalhandler.cc\<close>: the formatter byte by byte; handler entry,
  report and default action as steps of several threads with stacks of nested handler activations; the report is written,
  and the default action invoked, by the one thread that has passed the entry test.

  \<^item> \<open>Utilities\<close>, \<open>Raw_Log\<close>: \<^verbatim>\<open>src/utilities.cc\<close>, \<^verbatim>\<open>src/raw_logging.cc\<close>.

  \<^item> \<open>Sym_Read\<close>, \<open>Sym_Maps\<close>, \<open>Sym_Elf\<close>, \<open>Sym_Spec\<close>, \<^verbatim>\<open>src/symbolize.cc\<close>: reading in pieces with interruptions, failures
  and short reads, the reader of lines, the search of the memory map, of sections and of symbols, the
  safe text routines and \<open>SymbolizeAndDemangle\<close>. The searches are shown to be those of the whole
  table or file, however the reads are cut.

  \<^item> \<open>Stack_Trace\<close>: the walks over chains of frames in a partial memory, and the loops around the unwinders.

  \<^item> \<open>Mutex\<close>, \<^verbatim>\<open>src/base/mutex.h\<close>: the mutex over read-write locks, plain locks, critical sections and a
  counter, and the scoped locks, with threads interleaved, and what each thread can do next; the locale \<open>scoped_lock\<close> is interpreted by all four.

  \<^item> \<open>Platforms\<close>: the branches for Windows and macOS of \<^verbatim>\<open>src/symbolize.cc\<close>, \<^verbatim>\<open>src/demangle.cc\<close>,
  \<^verbatim>\<open>src/utilities.cc\<close> and \<^verbatim>\<open>src/logging.cc\<close>, \<^verbatim>\<open>src/stacktrace_windows-inl.h\<close> and \<^verbatim>\<open>src/windows/port.cc\<close>.

  \<^item> \<open>Unit_Tests\<close>: unit tests of the repository, run on the models.

  \<^item> \<open>Stl_Logging\<close>, \<^verbatim>\<open>src/glog/stl_logging.h.in\<close>: the printing of containers.

  \<^item> \<^verbatim>\<open>src/logging.cc\<close> from the bottom up. \<open>Log_Text\<close>: durations, quoting, splitting, checks of strings, error
  texts, times and the line prefix. \<open>Log_Dirs\<close>, \<open>Log_Pread\<close>: environment, directories, colours,
  truncation, the replacements of \<^verbatim>\<open>pread\<close> and \<^verbatim>\<open>pwrite\<close>. \<open>Log_Env\<close>: flags, the system during a call,
  effects. \<open>Log_Cleaner\<close>: the removal of overdue logs, against a description of their names as texts
  (\<open>stamp_beginning\<close>) and of their age in seconds. \<open>Log_File\<close>: \<^verbatim>\<open>LogFileObject\<close> with every operation;
  \<open>Log_File_Spec\<close>: the discipline of its file handle as a small machine over effects (\<open>run_effects\<close>), which
  every reachable state obeys, and rolling over by size; \<open>Log_Names\<close>: the names that are made against the names
  the cleaner and the limit on the number of files look for, and the retries after a failure.
  \<open>Log_Dest\<close>: \<^verbatim>\<open>LogDestination\<close>, loggers and sinks; the locale \<open>severity_log\<close> is what the distribution over the
  severities needs of a logger, interpreted by the log files. \<open>Log_Message\<close>: \<^verbatim>\<open>LogMessage\<close>, its data and where it
  is kept, sending by all six methods, fatal messages, the functions of the interface.
  \<open>Log_Message_Spec\<close>: what the sinks and the loggers get. \<open>Log_Frame\<close>: the locale \<open>untouched\<close>, what sending never
  changes, interpreted for the pool of message data and for the settings of the library. \<open>Log_Storage\<close>: all messages
  that are alive at once, who owns which data, and their buffers. \<open>Log_Fatal\<close>:
  fatal messages in a program that survives them. \<open>Log_Exceptions\<close>: sending and flushing with sinks that throw, with exceptions
  as values; without them it is \<open>Log_Message\<close> again (\<open>LogMessage_end_x_quiet\<close>). \<open>Log_Macros\<close>, \<open>Log_Checks\<close>, \<open>Log_Verbose\<close>: the macros,
  with their counters and with the destructors of the three classes of messages (\<open>destructor\<close>), and \<^verbatim>\<open>VLOG\<close> over the registry of \<open>Vlog\<close>. \<open>Log_Flags\<close>: \<^verbatim>\<open>src/base/commandlineflags.h\<close>, the flags
  read from the environment and the state a program starts in. \<open>Log_Delivery\<close>: from a message to what is
  written to which file. \<open>Log_Globals\<close>: the locale \<open>untouched_globals\<close>, what writing a file never changes,
  interpreted for the names of the program. \<open>Locked_Sections\<close>: threads with lists of jobs
  and sections under a lock; the locales \<open>locked_sections\<close> and \<open>live_sections\<close> state what the sections need to be
  serialised, to get on and to end. \<open>Log_Threads\<close> interprets them: the functions that hold \<^verbatim>\<open>log_mutex\<close>, taken apart
  into the actions between which other threads run; all that the threads share is compared, the waits for sinks
  apart, which are made outside of the lock. \<open>Log_Library\<close>: all calls of the interface in any order; the locale \<open>severity_loop\<close>
  is the shape of the loops over severities, interpreted by three of them.

  \<^bold>\<open>What is shown.\<close> For the library as a whole: every call but a fatal message returns, in every state that such calls lead to, and the
  files, the mutex and the pool are in order there (\<open>Log_Library\<close>); a message is written to exactly
  the files, sinks, vectors and loggers it belongs to, with exactly the text it should have (\<open>Log_Delivery\<close>,
  \<open>Log_Message_Spec\<close>, \<open>Log_Verbose\<close>); threads that log, flush and change settings, without fatal messages, are serialised by the mutex and all come
  to an end (\<open>Log_Threads\<close>). For the parts: invariants over all reachable states (file handles, cached
  sites, storage of messages, handler threads, mutex), memory safety of the demangler, the symbolizer and the buffers of messages,
  termination of the demangler and of writing, equivalence of optimised searches and of the glob matcher with
  reference definitions, round trips through the demangler and the environment, agreement of made and recognised
  file names, bounds of formatted texts, and the behaviour on errors. Where the code departs from what
  it means to do, a lemma states what it does, among them: a fatal message unlocks the mutex
  twice (\<open>fatal_unlocks_twice\<close>), from the third one on fatal messages keep the text of earlier ones
  (\<open>later_fatals_accumulate\<close>), a sink that throws can keep a fatal message from ending the program
  (\<open>throwing_wait_hides_failure\<close>), a sink of \<^verbatim>\<open>LOG_TO_SINK\<close> that throws keeps the message from every log (\<open>own_sink_failure_loses_message\<close>),
  a failed \<^verbatim>\<open>PCHECK\<close> lets the program go on (\<open>failed_pcheck_continues\<close>), logs of
  the daily and hourly policy and those with a number are never cleaned up (\<open>cleaner_misses_other_policies\<close>,
  \<open>numbered_name_rejected\<close>), a signal during the report
  can leave the process hanging (\<open>reentered_hangs\<close>).

  \<^bold>\<open>Bounds and fuel.\<close> The demangler's bound is discussed above. The loop that reads section headers and the
  loops of \<open>Sym_Maps\<close> are \<open>partial_function\<close>s: not returning is \<open>None\<close>. The numbers of rounds of the loops over
  buffers are the lengths of what is left in them. Sizes of buffers are those of the source (30000 bytes
  for a message, 3000 for a raw one, 1024 for a line of the memory map).

  \<^bold>\<open>Not modelled.\<close> The branches for Android, the opening of files on Windows and its vendored
  reader of directories (\<^verbatim>\<open>src/windows/dirent.h\<close>); exceptions other than those of sinks; threads that add sinks or send fatal
  messages while others log (the latter unlock the mutex too early, \<open>fatal_unlocks_twice\<close>): sinks are under \<^verbatim>\<open>sink_mutex_\<close> and
  single steps here, the locks themselves are in \<open>Mutex\<close>; the flags of the
  gflags library, the stripping of messages at compile time and the null
  streams; \<^verbatim>\<open>WallTime_Now\<close> (floating point), \<^verbatim>\<open>GetPC\<close> (the context of a signal), the texts of the C
  library (\<^verbatim>\<open>strerror_r\<close>, \<^verbatim>\<open>perror\<close>) and the formatting of \<^verbatim>\<open>vsnprintf\<close>, which are parameters; the C++ memory
  model: an atomic access is a step, and a data race is stated as an interleaving where one matters
  (\<open>every_n_race\<close>); most of the tests and their support code.
\<close>

end
